(* ===== verification/Prelude.thy ===== *)
theory Prelude
  imports Main "HOL-Library.Word" "HOL-Library.Signed_Division"
begin

text \<open>
  Shared notions of the development: the error numbers of the C library, bytes and byte
  memory, C arithmetic that differs from HOL's, and the generic list lemmas that the component
  theories use. The collection \<open>mem_simps\<close> gathers the equations of byte-memory copies,
  \<open>ring_simps\<close> those of reads and writes modulo the memory size.
\<close>

unbundle bit_operations_syntax

named_theorems mem_simps \<open>equations of byte-memory copies\<close>
named_theorems ring_simps \<open>equations of reads and writes modulo the memory size\<close>

section \<open>C values\<close>

type_synonym byte = "8 word"
type_synonym u16 = "16 word"
type_synonym u32 = "32 word"

text \<open>Error numbers of \<open>errno.h\<close>; the code returns them negated.\<close>

abbreviation (input) EPERM :: int where "EPERM \<equiv> 1"
abbreviation (input) ENOENT :: int where "ENOENT \<equiv> 2"
abbreviation (input) EINTR :: int where "EINTR \<equiv> 4"
abbreviation (input) EAGAIN :: int where "EAGAIN \<equiv> 11"
abbreviation (input) ENOMEM :: int where "ENOMEM \<equiv> 12"
abbreviation (input) EBUSY :: int where "EBUSY \<equiv> 16"
abbreviation (input) EEXIST :: int where "EEXIST \<equiv> 17"
abbreviation (input) EINVAL :: int where "EINVAL \<equiv> 22"
abbreviation (input) EFBIG :: int where "EFBIG \<equiv> 27"
abbreviation (input) ERANGE :: int where "ERANGE \<equiv> 34"
abbreviation (input) ENAVAIL :: int where "ENAVAIL \<equiv> 119"

text \<open>C's division, which rounds towards zero, on numbers that are not negative.\<close>

lemma sdiv_nonneg: "0 \<le> a \<Longrightarrow> 0 < b \<Longrightarrow> a sdiv b = a div b" for a b :: int
  by (simp add: signed_divide_int_def sgn_if)

text \<open>A 16-bit word as it lies in the memory of the little-endian device.\<close>

definition le16 :: "u16 \<Rightarrow> byte list" where
  "le16 w = [ucast w, ucast (drop_bit 8 w)]"

fun of_le16 :: "byte list \<Rightarrow> u16" where
  "of_le16 [a, b] = ucast a OR push_bit 8 (ucast b)"
| "of_le16 _ = 0"

lemma length_le16 [simp]: "length (le16 w) = 2"
  by (simp add: le16_def)

lemma of_le16_le16 [simp]: "of_le16 (le16 w) = w"
  unfolding le16_def of_le16.simps
  by (rule bit_word_eqI) (auto simp: bit_simps)

section \<open>Byte memory\<close>

text \<open>
  A block of memory is the list of its bytes. A copy that would leave the block is undefined
  behaviour in C; here it is \<open>None\<close>, so that a theorem that an operation returns is also a
  theorem that it stays inside the block.
\<close>

definition mem_put :: "'a list \<Rightarrow> int \<Rightarrow> 'a list \<Rightarrow> 'a list option" where
  "mem_put mem off bs =
     (if 0 \<le> off \<and> off + int (length bs) \<le> int (length mem)
      then Some (take (nat off) mem @ bs @ drop (nat off + length bs) mem)
      else None)"

definition mem_get :: "'a list \<Rightarrow> int \<Rightarrow> int \<Rightarrow> 'a list option" where
  "mem_get mem off n =
     (if 0 \<le> off \<and> 0 \<le> n \<and> off + n \<le> int (length mem)
      then Some (take (nat n) (drop (nat off) mem))
      else None)"

text \<open>Array access with C's missing bounds check made visible.\<close>

definition arr_get :: "'a list \<Rightarrow> int \<Rightarrow> 'a option" where
  "arr_get xs i = (if 0 \<le> i \<and> i < int (length xs) then Some (xs ! nat i) else None)"

definition arr_set :: "'a list \<Rightarrow> int \<Rightarrow> 'a \<Rightarrow> 'a list" where
  "arr_set xs i x = (if 0 \<le> i then xs[nat i := x] else xs)"

lemma mem_put_Some [mem_simps]:
  "mem_put mem off bs = Some m \<longleftrightarrow>
     0 \<le> off \<and> off + int (length bs) \<le> int (length mem) \<and>
     m = take (nat off) mem @ bs @ drop (nat off + length bs) mem"
  by (auto simp: mem_put_def)

lemma mem_put_length: "mem_put mem off bs = Some m \<Longrightarrow> length m = length mem"
  by (auto simp: mem_put_Some)

lemma mem_put_nth:
  assumes "mem_put mem off bs = Some m" "p < length mem"
  shows "m ! p = (if off \<le> int p \<and> int p < off + int (length bs)
                  then bs ! nat (int p - off) else mem ! p)"
  using assms by (auto simp: mem_put_Some nth_append nat_diff_distrib)

lemma mem_get_Some [mem_simps]:
  "mem_get mem off n = Some bs \<longleftrightarrow>
     0 \<le> off \<and> 0 \<le> n \<and> off + n \<le> int (length mem) \<and> bs = take (nat n) (drop (nat off) mem)"
  by (auto simp: mem_get_def)

lemma length_arr_set [simp]: "length (arr_set xs i x) = length xs"
  by (simp add: arr_set_def)

lemma arr_get_eq [simp]: "0 \<le> i \<Longrightarrow> i < int (length xs) \<Longrightarrow> arr_get xs i = Some (xs ! nat i)"
  by (simp add: arr_get_def)

lemma nth_arr_set:
  "0 \<le> i \<Longrightarrow> i < int (length xs) \<Longrightarrow> 0 \<le> j \<Longrightarrow> j < int (length xs) \<Longrightarrow>
   arr_set xs i x ! nat j = (if i = j then x else xs ! nat j)"
  by (auto simp: arr_set_def nth_list_update)

lemma list_all_arr_set: "list_all P xs \<Longrightarrow> P x \<Longrightarrow> list_all P (arr_set xs i x)"
  using set_update_subset_insert [of xs "nat i" x] by (auto simp: list_all_iff arr_set_def)

lemma list_all_arr_get: "list_all P xs \<Longrightarrow> arr_get xs i = Some x \<Longrightarrow> P x"
  by (auto simp: list_all_iff arr_get_def split: if_splits)

section \<open>Ring memory\<close>

text \<open>
  The byte regions of the pools wrap around at the end of the memory. \<open>ring_read\<close> and
  \<open>ring_write\<close> are the reference semantics of such a region: byte \<open>i\<close> of the region that
  starts at \<open>off\<close> is the memory byte \<open>(off + i) mod length mem\<close>.
\<close>

definition ring_read :: "'a list \<Rightarrow> int \<Rightarrow> int \<Rightarrow> 'a list" where
  "ring_read mem off n = map (\<lambda>i. mem ! nat ((off + int i) mod int (length mem))) [0..<nat n]"

definition ring_write :: "'a list \<Rightarrow> int \<Rightarrow> 'a list \<Rightarrow> 'a list" where
  "ring_write mem off bs =
     map (\<lambda>p. let i = (int p - off) mod int (length mem)
              in if i < int (length bs) then bs ! nat i else mem ! p) [0..<length mem]"

lemma length_ring_read [simp]: "length (ring_read mem off n) = nat n"
  by (simp add: ring_read_def)

lemma length_ring_write [simp]: "length (ring_write mem off bs) = length mem"
  by (simp add: ring_write_def)

lemma nth_ring_read [ring_simps]:
  "i < nat n \<Longrightarrow> ring_read mem off n ! i = mem ! nat ((off + int i) mod int (length mem))"
  by (simp add: ring_read_def)

lemma nth_ring_write [ring_simps]:
  "p < length mem \<Longrightarrow> ring_write mem off bs ! p =
     (if (int p - off) mod int (length mem) < int (length bs)
      then bs ! nat ((int p - off) mod int (length mem)) else mem ! p)"
  by (simp add: ring_write_def Let_def)

lemma ring_read_off_mod: "ring_read mem (off mod int (length mem)) n = ring_read mem off n"
  by (simp add: ring_read_def mod_add_left_eq)

lemma ring_read_Cons:
  assumes "0 < n" "0 \<le> off" "off < int (length mem)"
  shows "ring_read mem off n = mem ! nat off # ring_read mem (off + 1) (n - 1)"
proof (rule nth_equalityI)
  fix i assume i: "i < length (ring_read mem off n)"
  show "ring_read mem off n ! i = (mem ! nat off # ring_read mem (off + 1) (n - 1)) ! i"
  proof (cases i)
    case 0
    then show ?thesis using assms by (simp add: nth_ring_read)
  next
    case (Suc k)
    then have "k < nat (n - 1)" using i by simp
    then show ?thesis using i Suc by (simp add: nth_ring_read add.assoc)
  qed
qed (use assms in auto)

lemma ring_write_Nil [simp]: "ring_write mem off [] = mem"
proof (rule nth_equalityI)
  fix p assume "p < length (ring_write mem off [])"
  then have p: "p < length mem" by simp
  then have "0 \<le> (int p - off) mod int (length mem)" by (intro pos_mod_sign) linarith
  then show "ring_write mem off [] ! p = mem ! p" using p by (simp add: nth_ring_write)
qed simp

lemma ring_read_write_same:
  assumes "length bs \<le> length mem"
  shows "ring_read (ring_write mem off bs) off (int (length bs)) = bs"
proof (rule nth_equalityI)
  fix i assume "i < length (ring_read (ring_write mem off bs) off (int (length bs)))"
  then have i: "i < length bs" by simp
  let ?L = "int (length mem)"
  have L: "0 < ?L" using i assms by linarith
  have "((off + int i) mod ?L - off) mod ?L = int i mod ?L"
    by (metis add_diff_cancel_left' mod_diff_left_eq)
  also have "\<dots> = int i" using i assms by simp
  finally have k: "((off + int i) mod ?L - off) mod ?L = int i" .
  have p: "nat ((off + int i) mod ?L) < length mem"
    using L by (simp add: nat_less_iff)
  show "ring_read (ring_write mem off bs) off (int (length bs)) ! i = bs ! i"
    using i p k L by (simp add: nth_ring_read nth_ring_write)
qed simp

lemma ring_read_write_other:
  assumes "int (length bs) \<le> d" "d + n \<le> int (length mem)"
  shows "ring_read (ring_write mem off bs) (off + d) n = ring_read mem (off + d) n"
proof (rule nth_equalityI)
  fix i assume "i < length (ring_read (ring_write mem off bs) (off + d) n)"
  then have i: "i < nat n" by simp
  let ?L = "int (length mem)"
  have d0: "0 \<le> d" using assms(1) by linarith
  have L: "0 < ?L" using i assms d0 by linarith
  have "((off + d + int i) mod ?L - off) mod ?L = (d + int i) mod ?L"
    by (metis add.assoc add_diff_cancel_left' mod_diff_left_eq)
  also have "\<dots> = d + int i" using i assms d0 by simp
  finally have k: "((off + d + int i) mod ?L - off) mod ?L = d + int i" .
  have p: "nat ((off + d + int i) mod ?L) < length mem"
    using L by (simp add: nat_less_iff)
  show "ring_read (ring_write mem off bs) (off + d) n ! i = ring_read mem (off + d) n ! i"
    using i p k L assms by (simp add: nth_ring_read nth_ring_write)
qed simp

text \<open>
  A copy that may wrap, as the pools perform it: one piece up to the end of the memory, the
  rest at its beginning.
\<close>

lemma mod_wrap_once:
  "- L \<le> x \<Longrightarrow> x < L \<Longrightarrow> x mod L = (if 0 \<le> x then x else x + L)" for x L :: int
  using mod_pos_pos_trivial [of "x + L" L] mod_add_self2 [of x L] by auto

lemma mem_put_ring:
  assumes "0 \<le> off" "off + int (length bs) \<le> int (length mem)"
  shows "mem_put mem off bs = Some (ring_write mem off bs)"
proof -
  obtain m where m: "mem_put mem off bs = Some m" using assms by (simp add: mem_put_def)
  have "m = ring_write mem off bs"
  proof (rule nth_equalityI)
    show "length m = length (ring_write mem off bs)" using mem_put_length [OF m] by simp
    fix p assume "p < length m"
    then have p: "p < length mem" using mem_put_length [OF m] by simp
    have "(int p - off) mod int (length mem) =
          (if off \<le> int p then int p - off else int p - off + int (length mem))"
      using p assms by (subst mod_wrap_once) auto
    then show "m ! p = ring_write mem off bs ! p"
      using p assms by (auto simp: mem_put_nth [OF m p] nth_ring_write)
  qed
  with m show ?thesis by simp
qed

lemma ring_write_append:
  assumes "length (a @ b) \<le> length mem"
  shows "ring_write (ring_write mem off a) (off + int (length a)) b = ring_write mem off (a @ b)"
proof (rule nth_equalityI)
  fix p assume "p < length (ring_write (ring_write mem off a) (off + int (length a)) b)"
  then have p: "p < length mem" by simp
  let ?L = "int (length mem)"
  have L: "0 < ?L" using p by linarith
  define i where "i = (int p - off) mod ?L"
  have i: "0 \<le> i" "i < ?L" using L by (simp_all add: i_def)
  have "(int p - (off + int (length a))) mod ?L = (i - int (length a)) mod ?L"
    by (simp add: i_def mod_diff_left_eq algebra_simps)
  also have "\<dots> = (if int (length a) \<le> i then i - int (length a) else i - int (length a) + ?L)"
    using i assms by (subst mod_wrap_once) auto
  finally have j: "(int p - (off + int (length a))) mod ?L =
    (if int (length a) \<le> i then i - int (length a) else i - int (length a) + ?L)" .
  show "ring_write (ring_write mem off a) (off + int (length a)) b ! p = ring_write mem off (a @ b) ! p"
    using p i assms by (auto simp: nth_ring_write j nth_append i_def [symmetric] nat_diff_distrib)
qed simp

lemma mem_put_wrap:
  assumes "0 \<le> off" "off \<le> int (length mem)" "length bs \<le> length mem"
    "nat (int (length mem) - off) \<le> length bs"
  shows "(case mem_put mem off (take (nat (int (length mem) - off)) bs) of
            None \<Rightarrow> None | Some d \<Rightarrow> mem_put d 0 (drop (nat (int (length mem) - off)) bs))
         = Some (ring_write mem off bs)"
proof -
  let ?k = "nat (int (length mem) - off)"
  let ?m = "ring_write mem off (take ?k bs)"
  have 1: "mem_put mem off (take ?k bs) = Some ?m"
    using assms by (intro mem_put_ring) auto
  have 2: "mem_put ?m 0 (drop ?k bs) = Some (ring_write ?m 0 (drop ?k bs))"
    using assms by (intro mem_put_ring) auto
  have "ring_write ?m 0 (drop ?k bs) = ring_write ?m (off + int (length (take ?k bs))) (drop ?k bs)"
    using assms by (simp add: ring_write_def)
  also have "\<dots> = ring_write mem off bs"
    using ring_write_append [of "take ?k bs" "drop ?k bs" mem off] assms by simp
  finally show ?thesis using 1 2 by simp
qed

lemma mem_get_ring:
  assumes "0 \<le> off" "0 \<le> n" "off + n \<le> int (length mem)"
  shows "mem_get mem off n = Some (ring_read mem off n)"
proof -
  have "take (nat n) (drop (nat off) mem) = ring_read mem off n"
  proof (rule nth_equalityI)
    show "length (take (nat n) (drop (nat off) mem)) = length (ring_read mem off n)"
      using assms by auto
    fix i assume "i < length (take (nat n) (drop (nat off) mem))"
    then have "i < nat n" "nat off + i < length mem" by auto
    moreover from this assms have "nat (off + int i) = nat off + i" by linarith
    ultimately show "take (nat n) (drop (nat off) mem) ! i = ring_read mem off n ! i"
      using assms by (simp add: nth_ring_read)
  qed
  then show ?thesis using assms by (simp add: mem_get_def)
qed

lemma ring_read_append:
  "0 \<le> n \<Longrightarrow> 0 \<le> k \<Longrightarrow> ring_read mem off n @ ring_read mem (off + n) k = ring_read mem off (n + k)"
  by (rule nth_equalityI) (auto simp: nth_append nth_ring_read nat_add_distrib algebra_simps)

lemma mem_get_wrap:
  assumes "0 \<le> off" "off \<le> int (length mem)" "int (length mem) - off \<le> n" "n \<le> int (length mem)"
  shows "mem_get mem off (int (length mem) - off) = Some (ring_read mem off (int (length mem) - off))"
    and "mem_get mem 0 (n - (int (length mem) - off)) =
           Some (ring_read mem (int (length mem)) (n - (int (length mem) - off)))"
    and "ring_read mem off (int (length mem) - off) @
         ring_read mem (int (length mem)) (n - (int (length mem) - off)) = ring_read mem off n"
proof -
  show "mem_get mem off (int (length mem) - off) = Some (ring_read mem off (int (length mem) - off))"
    using assms by (intro mem_get_ring) auto
  have "ring_read mem 0 (n - (int (length mem) - off)) =
        ring_read mem (int (length mem)) (n - (int (length mem) - off))"
    using ring_read_off_mod [of mem "int (length mem)"] by simp
  then show "mem_get mem 0 (n - (int (length mem) - off)) =
           Some (ring_read mem (int (length mem)) (n - (int (length mem) - off)))"
    using assms by (subst mem_get_ring) auto
  show "ring_read mem off (int (length mem) - off) @
         ring_read mem (int (length mem)) (n - (int (length mem) - off)) = ring_read mem off n"
    using ring_read_append [of "int (length mem) - off" "n - (int (length mem) - off)" mem off] assms
    by simp
qed

text \<open>Appending to a region of the ring.\<close>

lemma ring_read_snoc:
  assumes "0 \<le> r" "r + int (length bs) \<le> int (length mem)" "0 < length mem"
    "w mod int (length mem) = (off + r) mod int (length mem)"
  shows "ring_read (ring_write mem w bs) off (r + int (length bs)) = ring_read mem off r @ bs"
proof -
  let ?L = "int (length mem)" and ?M = "ring_write mem w bs"
  have "ring_read ?M off (r + int (length bs)) = ring_read ?M off r @ ring_read ?M (off + r) (int (length bs))"
    using assms(1) by (simp add: ring_read_append)
  also have "ring_read ?M (off + r) (int (length bs)) = ring_read ?M w (int (length bs))"
    using assms(4) ring_read_off_mod [of ?M "off + r"] ring_read_off_mod [of ?M w] by simp
  also have "\<dots> = bs" using assms by (intro ring_read_write_same) simp
  also have "ring_read ?M off r = ring_read mem off r"
  proof -
    have "(w + (?L - r)) mod ?L = off mod ?L"
      using assms(4) mod_add_left_eq [of w ?L "?L - r"] mod_add_left_eq [of "off + r" ?L "?L - r"] by simp
    moreover have "ring_read ?M (w + (?L - r)) r = ring_read mem (w + (?L - r)) r"
      using assms by (intro ring_read_write_other) simp_all
    ultimately show ?thesis
      using ring_read_off_mod [of ?M off r] ring_read_off_mod [of mem off r]
        ring_read_off_mod [of ?M "w + (?L - r)" r] ring_read_off_mod [of mem "w + (?L - r)" r] by simp
  qed
  finally show ?thesis .
qed

lemma ring_read_split:
  "0 \<le> n \<Longrightarrow> n \<le> r \<Longrightarrow> take (nat n) (ring_read mem off r) = ring_read mem off n \<and>
     drop (nat n) (ring_read mem off r) = ring_read mem (off + n) (r - n)"
  using ring_read_append [of n "r - n" mem off]
  by (metis add_diff_cancel_left' append_eq_conv_conj diff_add_cancel diff_ge_0_iff_ge length_ring_read add.commute)

section \<open>The interface of a region store\<close>

text \<open>
  What the packet pool needs of the memory behind it: what is written to a region is read back
  from it, and a region that the write does not reach keeps its content.
\<close>

locale region_store =
  fixes get :: "'m \<Rightarrow> int \<Rightarrow> int \<Rightarrow> 'b list"
    and put :: "'m \<Rightarrow> int \<Rightarrow> 'b list \<Rightarrow> 'm"
    and size :: "'m \<Rightarrow> int"
  assumes get_put_same: "int (length bs) \<le> size m \<Longrightarrow> get (put m off bs) off (int (length bs)) = bs"
    and get_put_other: "int (length bs) \<le> d \<Longrightarrow> d + n \<le> size m \<Longrightarrow>
          get (put m off bs) (off + d) n = get m (off + d) n"
    and size_put: "size (put m off bs) = size m"
    and get_mod: "get m (off mod size m) n = get m off n"
begin

lemma get_cong: "off mod size m = off' mod size m \<Longrightarrow> get m off n = get m off' n"
  by (metis get_mod)

lemma get_put_ahead:
  assumes "int (length bs) \<le> d" "d + n \<le> size m" "off' mod size m = (off + d) mod size m"
  shows "get (put m off bs) off' n = get m off' n"
  using get_put_other [OF assms(1,2), of off] get_cong [of off' "put m off bs" "off + d" n]
    get_cong [of off' m "off + d" n] assms(3) by (simp add: size_put)

end

interpretation ring: region_store ring_read ring_write "\<lambda>m. int (length m)"
  by unfold_locales
     (simp_all add: ring_read_write_same ring_read_write_other ring_read_off_mod)

end
