(* ===== verification/Shm_Pool.thy ===== *)
theory Shm_Pool
  imports Prelude
begin

text \<open>
  The shared-memory packet pool of \<open>libsrc/gtipcs/mshmpool.c\<close> (types of
  \<open>include/mshmpool.h\<close>, semaphore wrappers of \<open>include/msem.h\<close>). One producer appends packets
  to a ring of blocks, up to eight readers follow with a cursor each and are woken through a
  System V semaphore per reader.

  \<open>shm\<close> is what the processes share (the header \<open>SHPOOL_HEAD\<close>, the data blocks as one byte
  memory, the semaphore set) together with the producer's file-scope statics; \<open>MSHM_POOL\<close> is
  the handle a process holds. A call changes the pool under the pool's lock, so it is one
  transition of \<open>shm\<close>; only the wait loop of \<open>MShmPoolGetPacket\<close> can stop half-way.
  \<open>None\<close> is an access outside an array or the data
  area (undefined behaviour in C); \<open>Blocked\<close> is a call that waits on its semaphore.
\<close>

section \<open>Data\<close>

definition SHPOOL_BLOCK_SIZE :: int where "SHPOOL_BLOCK_SIZE = 512"
definition SHPOOL_MAX_USERS :: int where "SHPOOL_MAX_USERS = 8"
definition SHPOOL_MAX_ELE :: int where "SHPOOL_MAX_ELE = 5000"
definition SEMVMX :: int where "SEMVMX = 32767"

abbreviation (input) MSHM_POOL_NORMAL_USR :: int where "MSHM_POOL_NORMAL_USR \<equiv> 0"
abbreviation (input) MSHM_POOL_CREATER :: int where "MSHM_POOL_CREATER \<equiv> 1"
abbreviation (input) MSHM_POOL_LOOKER :: int where "MSHM_POOL_LOOKER \<equiv> 2"

record SHPOOL_ELE =
  ele_num :: u32
  ele_userflag :: int
  ele_datalen :: int
  ele_blocks :: int
  ele_bblock :: int
  ele_eblock :: int

record SHPOOL_USR =
  usr_valid :: int
  usr_curele :: int
  usr_upid :: int
  usr_stime :: int
  usr_name :: string
  usr_type :: int
  usr_info :: string

record SHPOOL_HEAD =
  ph_maxsem :: int
  ph_num :: u32
  ph_tblocks :: int
  ph_fblocks :: int
  ph_fbstart :: int
  ph_boffset :: int
  ph_count :: int
  ph_head :: int
  ph_tail :: int
  ph_semkey :: int
  ph_semid :: int
  ph_last_usr_no :: int
  ph_send_bytes :: u32
  ph_pinfo :: string
  ph_eles :: "SHPOOL_ELE list"
  ph_users :: "SHPOOL_USR list"

record MSHM_POOL =
  userflag :: int
  userno :: int
  has_mc :: bool
  has_ph :: bool

record shm =
  shm_ph :: SHPOOL_HEAD
  eledata :: "byte list"
  seg_rest :: "byte list"
  sems :: "int list"
  newmaxsem :: int
  oldmaxsem :: int
  places :: int

text \<open>\<open>Blocked s\<close>: the call waits in \<open>SemReq\<close>, having left the shared state at \<open>s\<close>.\<close>

datatype ('s, 'a) call = Blocked 's | Done 'a

abbreviation map_ph :: "(SHPOOL_HEAD \<Rightarrow> SHPOOL_HEAD) \<Rightarrow> shm \<Rightarrow> shm" where
  "map_ph f s \<equiv> s\<lparr>shm_ph := f (shm_ph s)\<rparr>"

definition set_usr :: "int \<Rightarrow> (SHPOOL_USR \<Rightarrow> SHPOOL_USR) \<Rightarrow> shm \<Rightarrow> shm" where
  "set_usr i f s =
     map_ph (\<lambda>ph. ph\<lparr>ph_users := arr_set (ph_users ph) i (f (ph_users ph ! nat i))\<rparr>) s"

section \<open>Semaphores (msem.h)\<close>

text \<open>
  \<open>SemAdd\<close> never waits: the kernel answers \<open>ERANGE\<close> when the value would pass \<open>SEMVMX\<close>.
  \<open>SemReq\<close> waits while the value is 0; \<open>kerr\<close> is the errno of a failing \<open>semop\<close>, 0 when it
  succeeds. The retry branch of \<open>SemReq\<close> compares \<open>errno\<close> with \<open>-EINTR\<close>; errno values are
  positive, so the loop leaves on every error.
\<close>

definition SemAdd :: "int \<Rightarrow> int \<times> int" where
  "SemAdd v = (if v + 1 > SEMVMX then (- ERANGE, v) else (0, v + 1))"

definition SemReq :: "int list \<Rightarrow> int \<Rightarrow> int \<Rightarrow> (int list, int \<times> int list) call" where
  "SemReq vs i kerr =
     (if kerr \<noteq> 0 then (if kerr = - EINTR then Blocked vs else Done (- kerr, vs))
      else case arr_get vs i of
             None \<Rightarrow> Done (- EFBIG, vs)
           | Some v \<Rightarrow> if v \<ge> 1 then Done (0, arr_set vs i (v - 1)) else Blocked vs)"

definition SemSetVal :: "int list \<Rightarrow> int \<Rightarrow> int \<Rightarrow> int list" where
  "SemSetVal vs i v = arr_set vs i v"

section \<open>Element indices\<close>

definition NewerEle :: "int \<Rightarrow> int" where
  "NewerEle cur = (if cur + 1 \<ge> SHPOOL_MAX_ELE then 0 else cur + 1)"

definition OlderEle :: "int \<Rightarrow> int" where
  "OlderEle cur = (if cur - 1 < 0 then SHPOOL_MAX_ELE - 1 else cur - 1)"

definition MShmDistanceEle :: "SHPOOL_HEAD \<Rightarrow> int \<Rightarrow> int \<Rightarrow> int" where
  "MShmDistanceEle ph a b =
     (let head = ph_head ph in
      if a = b then 0
      else let distb = (if b \<ge> head then b - head else SHPOOL_MAX_ELE - b + head);
               dista = (if a \<ge> head then a - head else SHPOOL_MAX_ELE - a + head)
           in distb - dista)"

section \<open>Waking the readers\<close>

fun SemAddAll_loop :: "int \<Rightarrow> SHPOOL_USR list \<Rightarrow> int list \<Rightarrow> SHPOOL_USR list \<times> int list" where
  "SemAddAll_loop maxsem (u # us) (v # vs) =
     (let (us', vs') = SemAddAll_loop maxsem us vs in
      if usr_valid u \<noteq> 0
      then let (rc, v') = SemAdd v;
               u1 = (if v' > maxsem then u\<lparr>usr_valid := 0\<rparr> else u);
               u2 = (if rc < 0 \<and> rc = - ERANGE then u1\<lparr>usr_valid := 0\<rparr> else u1)
           in (u2 # us', v' # vs')
      else (u # us', v # vs'))"
| "SemAddAll_loop maxsem us vs = (us, vs)"

definition SemAddAll :: "shm \<Rightarrow> shm" where
  "SemAddAll s =
     (let m = (if newmaxsem s \<noteq> -1 then newmaxsem s else oldmaxsem s);
          (us, vs) = SemAddAll_loop m (ph_users (shm_ph s)) (sems s)
      in s\<lparr>shm_ph := (shm_ph s)\<lparr>ph_maxsem := m, ph_users := us\<rparr>, sems := vs\<rparr>)"

section \<open>Users\<close>

text \<open>The scan visits the slots after the last one handed out, then wraps to the first.\<close>

fun scan_free :: "SHPOOL_USR list \<Rightarrow> int list \<Rightarrow> int option option" where
  "scan_free us [] = Some None"
| "scan_free us (i # is) =
     (case arr_get us i of
        None \<Rightarrow> None
      | Some u \<Rightarrow> if usr_valid u = 0 then Some (Some i) else scan_free us is)"

definition GetAFreeUsrNo :: "SHPOOL_HEAD \<Rightarrow> (int \<times> SHPOOL_HEAD) option" where
  "GetAFreeUsrNo ph =
     (let last = (if ph_last_usr_no ph < 0 then 0 else ph_last_usr_no ph) in
      case scan_free (ph_users ph) ([last + 1..SHPOOL_MAX_USERS - 1] @ [0..last]) of
        None \<Rightarrow> None
      | Some (Some i) \<Rightarrow> Some (i, ph\<lparr>ph_last_usr_no := i\<rparr>)
      | Some None \<Rightarrow> Some (- EBUSY, ph\<lparr>ph_last_usr_no := last\<rparr>))"

definition MShmPoolSetUserName :: "MSHM_POOL option \<Rightarrow> shm \<Rightarrow> int \<Rightarrow> string option \<Rightarrow> int \<times> shm" where
  "MShmPoolSetUserName pool s no name =
     (case (pool, name) of
        (Some h, Some nm) \<Rightarrow>
          if no < 0 \<or> no \<ge> SHPOOL_MAX_USERS then (- EINVAL, s)
          else if \<not> has_ph h then (- EINVAL, s)
          else (0, set_usr no (\<lambda>u. u\<lparr>usr_name := take 31 nm\<rparr>) s)
      | _ \<Rightarrow> (- EINVAL, s))"

section \<open>Block allocation\<close>

definition pop_head :: "SHPOOL_HEAD \<Rightarrow> SHPOOL_ELE \<Rightarrow> SHPOOL_HEAD" where
  "pop_head ph ele =
     ph\<lparr>ph_fblocks := ph_fblocks ph + ele_blocks ele,
        ph_count := ph_count ph - 1,
        ph_eles := arr_set (ph_eles ph) (ph_head ph) (ele\<lparr>ele_datalen := 0, ele_blocks := 0\<rparr>),
        ph_head := NewerEle (ph_head ph)\<rparr>"

function FreeBlocks_loop :: "SHPOOL_HEAD \<Rightarrow> int \<Rightarrow> int \<Rightarrow> (int \<times> SHPOOL_HEAD) option" where
  "FreeBlocks_loop ph needfree freecnt =
     (if freecnt < needfree
      then if ph_count ph > 0
           then case arr_get (ph_eles ph) (ph_head ph) of
                  None \<Rightarrow> None
                | Some ele \<Rightarrow> FreeBlocks_loop (pop_head ph ele) needfree (freecnt + ele_blocks ele)
           else Some (- ENOMEM, ph)
      else Some (freecnt, ph))"
  by pat_completeness auto
termination
  by (relation "measure (\<lambda>(ph, _, _). nat (ph_count ph))") (auto simp: pop_head_def)

declare FreeBlocks_loop.simps [simp del]

definition FreeBlocks :: "SHPOOL_HEAD \<Rightarrow> int \<Rightarrow> (int \<times> SHPOOL_HEAD) option" where
  "FreeBlocks ph needfree = FreeBlocks_loop ph needfree (ph_fblocks ph)"

definition FreeHeadEle :: "SHPOOL_HEAD \<Rightarrow> (int \<times> SHPOOL_HEAD) option" where
  "FreeHeadEle ph =
     (case arr_get (ph_eles ph) (ph_head ph) of
        None \<Rightarrow> None
      | Some ele \<Rightarrow> Some (ele_blocks ele, pop_head ph ele))"

definition MShmPoolReqBlocks :: "SHPOOL_HEAD \<Rightarrow> int \<Rightarrow> (int \<times> SHPOOL_HEAD) option" where
  "MShmPoolReqBlocks ph need =
     (case (if ph_fblocks ph > need then Some (1, ph) else FreeBlocks ph (need * 2)) of
        None \<Rightarrow> None
      | Some (ret, ph') \<Rightarrow>
          if ret > 0
          then Some (ph_fbstart ph', ph'\<lparr>ph_fbstart := (ph_fbstart ph' + need) smod ph_tblocks ph'\<rparr>)
          else Some (- ENOMEM, ph'))"

section \<open>Copying packets in and out\<close>

text \<open>
  The data of an element occupies consecutive blocks that wrap to block 0 after the last one:
  one copy up to the end of the area and, when that is too short, a second copy at block 0.
\<close>

definition tail_bytes :: "SHPOOL_HEAD \<Rightarrow> SHPOOL_ELE \<Rightarrow> int" where
  "tail_bytes ph ele = (ph_tblocks ph - ele_bblock ele) * SHPOOL_BLOCK_SIZE"

definition InsertData2Ele :: "shm \<Rightarrow> int \<Rightarrow> byte list \<Rightarrow> int \<Rightarrow> shm option" where
  "InsertData2Ele s eleno buf len =
     (let ph = shm_ph s in
      case arr_get (ph_eles ph) eleno of
        None \<Rightarrow> None
      | Some ele \<Rightarrow>
         (let start = ele_bblock ele * SHPOOL_BLOCK_SIZE; tailbytes = tail_bytes ph ele in
          case (if tailbytes \<ge> len
                then (case mem_get buf 0 len of
                        None \<Rightarrow> None | Some bs \<Rightarrow> mem_put (eledata s) start bs)
                else (case (mem_get buf 0 tailbytes, mem_get buf tailbytes (len - tailbytes)) of
                        (Some a, Some b) \<Rightarrow>
                          (case mem_put (eledata s) start a of
                             None \<Rightarrow> None | Some d \<Rightarrow> mem_put d 0 b)
                      | _ \<Rightarrow> None)) of
            None \<Rightarrow> None
          | Some d \<Rightarrow>
              Some (s\<lparr>eledata := d,
                      shm_ph := ph\<lparr>ph_eles := arr_set (ph_eles ph) eleno (ele\<lparr>ele_datalen := len\<rparr>),
                                   ph_count := ph_count ph + 1,
                                   ph_fblocks := ph_fblocks ph - ele_blocks ele,
                                   ph_send_bytes := ph_send_bytes ph + of_int len\<rparr>\<rparr>)))"

type_synonym packet = "byte list \<times> u32 \<times> int"

definition SaveEle2Buf :: "shm \<Rightarrow> int \<Rightarrow> int \<Rightarrow> (int + packet) option" where
  "SaveEle2Buf s buflen eleno =
     (let ph = shm_ph s in
      case arr_get (ph_eles ph) eleno of
        None \<Rightarrow> None
      | Some ele \<Rightarrow>
         (let start = ele_bblock ele * SHPOOL_BLOCK_SIZE; tailbytes = tail_bytes ph ele;
              elelen = ele_datalen ele in
          if buflen < elelen then Some (Inl (- ENOMEM))
          else case (if elelen \<le> tailbytes then mem_get (eledata s) start elelen
                     else (case (mem_get (eledata s) start tailbytes,
                                 mem_get (eledata s) 0 (elelen - tailbytes)) of
                             (Some a, Some b) \<Rightarrow> Some (a @ b)
                           | _ \<Rightarrow> None)) of
                 None \<Rightarrow> None
               | Some bs \<Rightarrow> Some (Inr (bs, ele_num ele, ele_userflag ele))))"

definition GetFrameFlag :: "MSHM_POOL \<Rightarrow> shm \<Rightarrow> int option" where
  "GetFrameFlag pool s =
     (case arr_get (ph_users (shm_ph s)) (userno pool) of
        None \<Rightarrow> None
      | Some usr \<Rightarrow> map_option ele_userflag (arr_get (ph_eles (shm_ph s)) (usr_curele usr)))"

definition MShmEleRemain :: "MSHM_POOL \<Rightarrow> shm \<Rightarrow> int option" where
  "MShmEleRemain pool s =
     (let ph = shm_ph s in
      case arr_get (ph_users ph) (userno pool) of
        None \<Rightarrow> None
      | Some usr \<Rightarrow>
          (case arr_get (ph_eles ph) (usr_curele usr) of
             None \<Rightarrow> None
           | Some ele \<Rightarrow>
               if usr_curele usr = ph_tail ph then Some 0
               else if sint (ph_num ph) \<ge> sint (ele_num ele) then Some (sint (ph_num ph - ele_num ele))
               else Some (sint (ph_num ph))))"

section \<open>Reading\<close>

text \<open>
  Both readers contain the same repair for a pool that its producer has initialised again: when
  the head is 0 and fewer than five elements have been written, a cursor at or past the tail is
  put one before the tail.
\<close>

definition resync_usr :: "MSHM_POOL \<Rightarrow> shm \<Rightarrow> shm" where
  "resync_usr pool s =
     (let ph = shm_ph s; usr = ph_users ph ! nat (userno pool) in
      if ph_head ph = 0 \<and> \<bar>MShmDistanceEle ph (ph_head ph) (ph_tail ph)\<bar> < 5 \<and>
         usr_curele usr \<ge> ph_tail ph
      then (set_usr (userno pool) (\<lambda>u. u\<lparr>usr_curele := ph_tail ph - 1\<rparr>) s)
             \<lparr>sems := SemSetVal (sems s) (userno pool) 0\<rparr>
      else s)"

definition read_cur :: "MSHM_POOL \<Rightarrow> shm \<Rightarrow> int \<Rightarrow> int \<Rightarrow> ((int + packet) \<times> shm) option" where
  "read_cur pool s buflen cur =
     (case SaveEle2Buf s buflen cur of
        None \<Rightarrow> None
      | Some (Inl rc) \<Rightarrow> Some (Inl rc, s)
      | Some (Inr p) \<Rightarrow>
          Some (Inr p, set_usr (userno pool) (\<lambda>u. u\<lparr>usr_curele := NewerEle cur\<rparr>) s))"

definition MShmPoolGetResource ::
    "MSHM_POOL \<Rightarrow> shm \<Rightarrow> int \<Rightarrow> int \<Rightarrow> (shm, (int + packet) \<times> shm) call option" where
  "MShmPoolGetResource pool s buflen kerr =
     (if buflen < 0 then Some (Done (Inl (- EINVAL), s))
      else if \<not> has_mc pool then Some (Done (Inl (- EINVAL), s))
      else case SemReq (sems s) (userno pool) kerr of
             Blocked _ \<Rightarrow> Some (Blocked s)
           | Done (rc, vs) \<Rightarrow>
               if rc < 0 then Some (Done (Inl rc, s))
               else case arr_get (ph_users (shm_ph s)) (userno pool) of
                      None \<Rightarrow> None
                    | Some _ \<Rightarrow>
                       (let s2 = resync_usr pool (s\<lparr>sems := vs\<rparr>);
                            cur = usr_curele (ph_users (shm_ph s2) ! nat (userno pool))
                        in map_option Done (read_cur pool s2 buflen cur)))"

text \<open>
  \<open>MShmPoolGetPacket\<close> waits in a loop until there is something to read. One iteration consumes
  the semaphore and sets it to 0, so the next iteration either leaves the loop or blocks again.
  \<open>waiting\<close> is True for a call that already sits in \<open>SemReq\<close> and continues from there: the
  loop condition is not tested again before the wait is over. The loop reads the header without
  the pool's lock; the model takes each of its iterations as one step.
\<close>

function GetPacket_loop :: "MSHM_POOL \<Rightarrow> shm \<Rightarrow> int \<Rightarrow> bool \<Rightarrow> (shm, int \<times> shm) call" where
  "GetPacket_loop pool s kerr waiting =
     (let ph = shm_ph s; cur = usr_curele (ph_users ph ! nat (userno pool)) in
      if waiting \<or> ph_tail ph = ph_head ph \<or> cur = ph_tail ph
      then case SemReq (sems s) (userno pool) kerr of
             Blocked _ \<Rightarrow> Blocked s
           | Done (rc, vs) \<Rightarrow>
               if rc < 0 then Done (rc, s)
               else GetPacket_loop pool
                      (resync_usr pool (s\<lparr>sems := SemSetVal vs (userno pool) 0\<rparr>)) 0 False
      else Done (0, s))"
  by pat_completeness auto
termination
proof (relation "measure (\<lambda>(pool, s, kerr, waiting). (if kerr < 0 then 2 else 0) +
                   (case arr_get (sems s) (userno pool) of
                      Some v \<Rightarrow> if v \<ge> 1 then 1 else 0 | None \<Rightarrow> 0))")
  fix pool :: MSHM_POOL and s :: shm and kerr rc :: int and waiting :: bool and ph cur x vs
  assume *: "SemReq (sems s) (userno pool) kerr = Done x" "(rc, vs) = x" "\<not> rc < 0"
  let ?s' = "resync_usr pool (s\<lparr>sems := SemSetVal vs (userno pool) 0\<rparr>)"
  have z: "arr_get (sems ?s') (userno pool) \<in> {None, Some 0}"
    by (auto simp: resync_usr_def Let_def SemSetVal_def set_usr_def arr_get_def arr_set_def)
  show "((pool, ?s', 0, False), pool, s, kerr, waiting) \<in>
        measure (\<lambda>(pool, s, kerr, waiting). (if kerr < 0 then 2 else 0) +
          (case arr_get (sems s) (userno pool) of
             Some v \<Rightarrow> if v \<ge> 1 then 1 else 0 | None \<Rightarrow> 0))"
    using * z by (auto simp: SemReq_def split: if_splits option.splits)
qed simp

declare GetPacket_loop.simps [simp del]

definition MShmPoolGetPacket ::
    "MSHM_POOL \<Rightarrow> shm \<Rightarrow> int \<Rightarrow> int \<Rightarrow> bool \<Rightarrow> (shm, (int + packet) \<times> shm) call option" where
  "MShmPoolGetPacket pool s buflen kerr waiting =
     (if buflen < 0 then Some (Done (Inl (- EINVAL), s))
      else case arr_get (ph_users (shm_ph s)) (userno pool) of
             None \<Rightarrow> None
           | Some _ \<Rightarrow>
               if \<not> has_mc pool then Some (Done (Inl (- EINVAL), s))
               else case GetPacket_loop pool s kerr waiting of
                      Blocked s' \<Rightarrow> Some (Blocked s')
                    | Done (rc, s') \<Rightarrow>
                        if rc < 0 then Some (Done (Inl rc, s'))
                        else map_option Done (read_cur pool s' buflen
                               (usr_curele (ph_users (shm_ph s') ! nat (userno pool)))))"

section \<open>Writing\<close>

definition needblocks :: "int \<Rightarrow> int" where
  "needblocks buflen = (buflen - 1) sdiv SHPOOL_BLOCK_SIZE + 1"

definition fill_tail :: "SHPOOL_HEAD \<Rightarrow> int \<Rightarrow> int \<Rightarrow> int \<Rightarrow> SHPOOL_HEAD" where
  "fill_tail ph fstartb needblock flag =
     (let t = ph_tail ph;
          eb = (if fstartb + needblock \<ge> ph_tblocks ph
                then (fstartb + needblock - 1) - ph_tblocks ph else fstartb + needblock - 1)
      in ph\<lparr>ph_num := ph_num ph + 1,
            ph_eles := arr_set (ph_eles ph) t
              ((ph_eles ph ! nat t)
                 \<lparr>ele_num := ph_num ph + 1, ele_userflag := flag, ele_bblock := fstartb,
                  ele_blocks := needblock, ele_eblock := eb\<rparr>)\<rparr>)"

definition MShmPoolAddResource ::
    "MSHM_POOL option \<Rightarrow> shm \<Rightarrow> byte list option \<Rightarrow> int \<Rightarrow> int \<Rightarrow> (int \<times> shm) option" where
  "MShmPoolAddResource pool s buf buflen flag =
     (case (pool, buf) of
        (Some _, Some bs) \<Rightarrow>
          if buflen < 0 then Some (- EINVAL, s)
          else (let needblock = needblocks buflen in
            case arr_get (ph_eles (shm_ph s)) (ph_tail (shm_ph s)) of
              None \<Rightarrow> None
            | Some _ \<Rightarrow>
             (case MShmPoolReqBlocks (shm_ph s) needblock of
                None \<Rightarrow> None
              | Some (fstartb, ph1) \<Rightarrow>
                  if fstartb < 0 then Some (- ENOMEM, s\<lparr>shm_ph := ph1\<rparr>)
                  else (let ph2 = fill_tail ph1 fstartb needblock flag in
                    case InsertData2Ele (s\<lparr>shm_ph := ph2\<rparr>) (ph_tail ph1) bs buflen of
                      None \<Rightarrow> None
                    | Some s3 \<Rightarrow>
                       (let ph4 = (shm_ph s3)\<lparr>ph_tail := NewerEle (ph_tail (shm_ph s3))\<rparr> in
                        case (if ph_tail ph4 = ph_head ph4 then map_option snd (FreeHeadEle ph4)
                              else Some ph4) of
                          None \<Rightarrow> None
                        | Some ph5 \<Rightarrow> Some (0, SemAddAll (s3\<lparr>shm_ph := ph5\<rparr>))))))
      | _ \<Rightarrow> Some (- EINVAL, s))"

text \<open>
  \<open>MShmPoolSetMaxNum\<close> tests its locals \<open>mc\<close> and \<open>ph\<close> while they still hold \<open>NULL\<close>, so it
  leaves with \<open>-EINVAL\<close> before it reads its arguments.
\<close>

definition MShmPoolSetMaxNum :: "shm \<Rightarrow> int \<Rightarrow> int \<times> shm" where
  "MShmPoolSetMaxNum s num =
     (let mc_is_null = True; ph_is_null = True in
      if mc_is_null \<or> ph_is_null then (- EINVAL, s)
      else (0, s\<lparr>shm_ph := (shm_ph s)\<lparr>ph_maxsem := num\<rparr>, oldmaxsem := num\<rparr>))"

definition MSHmPoolSetMaxNum_t :: "shm \<Rightarrow> int \<Rightarrow> shm" where
  "MSHmPoolSetMaxNum_t s num = s\<lparr>newmaxsem := num\<rparr>"

section \<open>Creating and attaching\<close>

text \<open>
  \<open>MShmPoolCreate\<close> works on the memory that \<open>MShmCoreCreate\<close> returned: \<open>old\<close> is its content,
  all zero when the segment is new, what the last producer left when it existed already. The segment has the size it was
  made with: its bytes behind the header are \<open>eledata old\<close>, the blocks of the pool, and \<open>seg_rest old\<close>, what is left over.
  Clearing more blocks than the segment has is a write behind the segment, \<open>None\<close>, and so is a size that does not fit
  the 32-bit \<open>long\<close>. Every segment with the key of a pool was made for a pool, so it has room for the header.
  \<open>core\<close> is 0 or the errno of a failed \<open>MShmCoreCreate\<close>; \<open>semget_excl\<close> and \<open>semget_open\<close> are
  the results of the two \<open>semget\<close> calls, \<open>semerr\<close> the errno of the first. The initialising
  loop runs over all users but always passes semaphore number 0 to \<open>semctl\<close>.
\<close>

definition pool_tblocks :: "int \<Rightarrow> int \<Rightarrow> int" where
  "pool_tblocks pagesize bytes =
     (((bytes - 1) sdiv pagesize + 1) * pagesize) sdiv SHPOOL_BLOCK_SIZE"

definition LONG_MAX :: int where
  "LONG_MAX = 0x7fffffff"

definition pool_realsize :: "int \<Rightarrow> int \<Rightarrow> int \<Rightarrow> int" where
  "pool_realsize headsize pagesize bytes =
     (((headsize - 1) sdiv pagesize + 1) + ((bytes + 1) sdiv pagesize + 1)) * pagesize"

definition zero_ele :: SHPOOL_ELE where
  "zero_ele = \<lparr>ele_num = 0, ele_userflag = 0, ele_datalen = 0, ele_blocks = 0, ele_bblock = 0,
               ele_eblock = 0\<rparr>"

record create_env =
  ce_pagesize :: int
  ce_headsize :: int
  ce_core :: int
  ce_mkey :: int
  ce_semget_excl :: int
  ce_semerr :: int
  ce_semget_open :: int

definition init_head :: "create_env \<Rightarrow> int \<Rightarrow> SHPOOL_HEAD \<Rightarrow> SHPOOL_HEAD" where
  "init_head e bytes ph =
     ph\<lparr>ph_boffset := ((ce_headsize e - 1) sdiv ce_pagesize e + 1) * ce_pagesize e,
        ph_maxsem := 100, ph_num := 0,
        ph_tblocks := pool_tblocks (ce_pagesize e) bytes,
        ph_fblocks := pool_tblocks (ce_pagesize e) bytes,
        ph_fbstart := 0, ph_count := 0, ph_head := 0, ph_tail := 0, ph_last_usr_no := -1,
        ph_semkey := or (ce_mkey e) 0x50000000\<rparr>"

definition MShmPoolCreate ::
    "create_env \<Rightarrow> MSHM_POOL option \<Rightarrow> shm \<Rightarrow> int \<Rightarrow> int \<Rightarrow> (int \<times> MSHM_POOL option \<times> shm) option" where
  "MShmPoolCreate e pool old pkey bytes =
     (case pool of
        None \<Rightarrow> Some (- EINVAL, pool, old)
      | Some h \<Rightarrow>
         if pkey < 0 \<or> bytes \<le> 0 then Some (- EINVAL, pool, old)
         else if pool_realsize (ce_headsize e) (ce_pagesize e) bytes > LONG_MAX then None
         else if ce_core e \<noteq> 0 then Some (- ce_core e, pool, old)
         else (let h1 = h\<lparr>userno := 0, has_mc := True, has_ph := True\<rparr>;
                   ph1 = init_head e bytes (shm_ph old);
                   s1 = old\<lparr>oldmaxsem := 100\<rparr>;
                   created = ce_semget_excl e \<ge> 0;
                   id = (if created then ce_semget_excl e
                         else if ce_semerr e = EEXIST then ce_semget_open e else ce_semget_excl e);
                   n = nat (SHPOOL_BLOCK_SIZE * ph_tblocks ph1); seg = eledata old @ seg_rest old
               in if id < 0 then Some (- ENAVAIL, Some h1,
                                       s1\<lparr>shm_ph := ph1\<lparr>ph_semid := id\<rparr>, eledata := take n seg, seg_rest := drop n seg\<rparr>)
                  else if length seg < n then None
                  else Some (0, Some (h1\<lparr>userflag := MSHM_POOL_CREATER\<rparr>),
                        s1\<lparr>shm_ph := ph1\<lparr>ph_semid := id,
                                        ph_pinfo := (if created then replicate 512 (CHR 0x00)
                                                     else ph_pinfo ph1),
                                        ph_eles := replicate (nat SHPOOL_MAX_ELE) zero_ele,
                                        ph_send_bytes := 0\<rparr>,
                           eledata := replicate n 0, seg_rest := drop n seg,
                           sems := SemSetVal (if created then replicate (nat SHPOOL_MAX_USERS) 0
                                              else sems old) 0 0\<rparr>)))"

text \<open>
  \<open>core\<close> is 0 or the errno of a failed \<open>MShmCoreAttach\<close>; \<open>uoffset\<close> is the field the creator sets
  last in the memory core. On the second failing test the handle already points at the header.
\<close>

definition MSHmPoolAttach ::
    "MSHM_POOL option \<Rightarrow> shm \<Rightarrow> int \<Rightarrow> int \<Rightarrow> int \<Rightarrow> int \<times> MSHM_POOL option" where
  "MSHmPoolAttach pool s pkey core uoffset =
     (case pool of
        None \<Rightarrow> (- EINVAL, pool)
      | Some h \<Rightarrow>
         if pkey < 0 then (- EINVAL, pool)
         else if core \<noteq> 0 then (- core, pool)
         else if uoffset \<le> 0 then (- EPERM, pool)
         else if ph_boffset (shm_ph s) \<le> 0 then (- EPERM, Some (h\<lparr>has_mc := True, has_ph := True\<rparr>))
         else (0, Some (h\<lparr>has_mc := True, has_ph := True, userflag := MSHM_POOL_LOOKER\<rparr>)))"

definition MShmPoolReq ::
    "MSHM_POOL option \<Rightarrow> shm \<Rightarrow> int \<Rightarrow> string option \<Rightarrow> int \<Rightarrow> int \<Rightarrow> int \<Rightarrow> int \<Rightarrow> int \<Rightarrow>
     (int \<times> MSHM_POOL option \<times> shm) option" where
  "MShmPoolReq pool s pkey name type core uoffset pid now =
     (case MSHmPoolAttach pool s pkey core uoffset of
        (rc, None) \<Rightarrow> Some (rc, None, s)
      | (rc, Some h) \<Rightarrow>
         if rc < 0 then Some (rc, Some h, s)
         else (case GetAFreeUsrNo (shm_ph s) of
                 None \<Rightarrow> None
               | Some (no, ph1) \<Rightarrow>
                  if no < 0
                  then Some (no, Some (h\<lparr>has_ph := False, has_mc := False\<rparr>), s\<lparr>shm_ph := ph1\<rparr>)
                  else (let h1 = h\<lparr>userno := no\<rparr>;
                            s1 = s\<lparr>shm_ph := ph1, sems := SemSetVal (sems s) no 0\<rparr>;
                            s2 = set_usr no (\<lambda>u. u\<lparr>usr_valid := 1, usr_curele := ph_tail ph1,
                                   usr_type := type, usr_upid := pid, usr_stime := now\<rparr>) s1;
                            nm = (case name of None \<Rightarrow> ''normal user'' | Some n \<Rightarrow> n);
                            s3 = snd (MShmPoolSetUserName (Some h1) s2 no (Some nm))
                        in Some (0, Some (h1\<lparr>userflag := MSHM_POOL_NORMAL_USR\<rparr>), s3))))"

definition MShmPoolReqFree :: "MSHM_POOL option \<Rightarrow> shm \<Rightarrow> int \<times> MSHM_POOL option \<times> shm" where
  "MShmPoolReqFree pool s =
     (case pool of
        None \<Rightarrow> (- EINVAL, pool, s)
      | Some h \<Rightarrow>
         if \<not> has_ph h then (- EINVAL, pool, s)
         else if userno h \<ge> SHPOOL_MAX_USERS then (- EINVAL, pool, s)
         else (0, Some (h\<lparr>has_mc := False\<rparr>),
               if userflag h = MSHM_POOL_NORMAL_USR
               then set_usr (userno h) (\<lambda>u. u\<lparr>usr_valid := 0\<rparr>) s else s))"

section \<open>Moving the cursor\<close>

fun mv_loop :: "(int \<Rightarrow> int) \<Rightarrow> int \<Rightarrow> nat \<Rightarrow> int \<Rightarrow> int \<Rightarrow> int \<times> int" where
  "mv_loop step stop 0 temp moved = (temp, moved)"
| "mv_loop step stop (Suc n) temp moved =
     (let t = step temp in
      if t = stop then (t, moved + 1) else mv_loop step stop n t (moved + 1))"

definition MShmPoolMvNewPlace :: "MSHM_POOL \<Rightarrow> shm \<Rightarrow> int \<Rightarrow> (int \<times> shm) option" where
  "MShmPoolMvNewPlace pool s place =
     (let ph = shm_ph s in
      if \<not> has_mc pool \<or> \<not> has_ph pool then Some (- EINVAL, s)
      else case arr_get (ph_users ph) (userno pool) of
             None \<Rightarrow> None
           | Some usr \<Rightarrow>
               if place < 0
               then (let (temp, moved) = mv_loop OlderEle (ph_head ph) (nat (- place)) (usr_curele usr) 0
                     in Some (moved, set_usr (userno pool) (\<lambda>u. u\<lparr>usr_curele := temp\<rparr>) s))
               else if place > 0
               then (let (temp, moved) = mv_loop NewerEle (ph_tail ph) (nat place) (usr_curele usr) 0
                     in Some (moved, set_usr (userno pool) (\<lambda>u. u\<lparr>usr_curele := temp\<rparr>) s))
               else Some (0, s))"

definition MShmPoolMvUsrPlace :: "MSHM_POOL \<Rightarrow> shm \<Rightarrow> int \<Rightarrow> (int \<times> shm) option" where
  "MShmPoolMvUsrPlace pool s place =
     (case MShmPoolMvNewPlace pool s place of
        None \<Rightarrow> None
      | Some (moved, s') \<Rightarrow>
          if moved < 0 then Some (moved, s') else Some (moved, s'\<lparr>places := moved\<rparr>))"

section \<open>User information\<close>

fun del_by_pid :: "int \<Rightarrow> SHPOOL_USR list \<Rightarrow> int \<times> SHPOOL_USR list" where
  "del_by_pid pid [] = (0, [])"
| "del_by_pid pid (u # us) =
     (if usr_upid u = pid
      then (if usr_valid u \<noteq> 0 then 1 else 0, u\<lparr>usr_valid := 0\<rparr> # us)
      else (let (r, us') = del_by_pid pid us in (r, u # us')))"

text \<open>The flag that the loop computes is dropped: the function ends in \<open>return 0\<close>.\<close>

definition MShmPoolDelUsrByPid :: "MSHM_POOL option \<Rightarrow> shm \<Rightarrow> int \<Rightarrow> int \<times> shm" where
  "MShmPoolDelUsrByPid pool s pid =
     (case pool of
        None \<Rightarrow> (- EINVAL, s)
      | Some h \<Rightarrow>
          if \<not> has_ph h then (- EINVAL, s)
          else (let (ret, us) = del_by_pid pid (ph_users (shm_ph s))
                in (0, map_ph (\<lambda>ph. ph\<lparr>ph_users := us\<rparr>) s)))"

definition MShmPoolGetUsrInfo :: "MSHM_POOL option \<Rightarrow> shm \<Rightarrow> int \<Rightarrow> (int \<times> string option) option" where
  "MShmPoolGetUsrInfo pool s no =
     (case pool of
        None \<Rightarrow> Some (- EINVAL, None)
      | Some h \<Rightarrow>
          if no < 0 \<or> no \<ge> SHPOOL_MAX_USERS \<or> \<not> has_ph h then Some (- EINVAL, None)
          else map_option (\<lambda>u. (128, Some (usr_info u))) (arr_get (ph_users (shm_ph s)) no))"

definition GetUsrValid :: "MSHM_POOL option \<Rightarrow> shm \<Rightarrow> int option" where
  "GetUsrValid pool s =
     (case pool of
        None \<Rightarrow> Some (- EINVAL)
      | Some h \<Rightarrow>
          if userflag h \<noteq> MSHM_POOL_NORMAL_USR then Some (- EINVAL)
          else if \<not> has_ph h then Some (- EINVAL)
          else map_option usr_valid (arr_get (ph_users (shm_ph s)) (userno h)))"

fun count_valid :: "SHPOOL_USR list \<Rightarrow> int" where
  "count_valid [] = 0"
| "count_valid (u # us) = (if usr_valid u \<noteq> 0 then 1 else 0) + count_valid us"

definition MShmPoolGetTotalUser :: "MSHM_POOL option \<Rightarrow> shm \<Rightarrow> int" where
  "MShmPoolGetTotalUser pool s =
     (case pool of None \<Rightarrow> - EINVAL | Some h \<Rightarrow> count_valid (ph_users (shm_ph s)))"

definition MShmPoolGetInfo :: "MSHM_POOL option \<Rightarrow> shm \<Rightarrow> string option" where
  "MShmPoolGetInfo pool s =
     (case pool of
        None \<Rightarrow> None
      | Some h \<Rightarrow> if \<not> has_ph h then None else Some (ph_pinfo (shm_ph s)))"

definition MShmPoolReActiveUsr :: "MSHM_POOL option \<Rightarrow> shm \<Rightarrow> (int \<times> shm) option" where
  "MShmPoolReActiveUsr pool s =
     (case pool of
        None \<Rightarrow> Some (- EINVAL, s)
      | Some h \<Rightarrow>
          if \<not> has_mc h then Some (- EINVAL, s)
          else if userflag h \<noteq> MSHM_POOL_NORMAL_USR then Some (- EINVAL, s)
          else if userno h \<ge> SHPOOL_MAX_USERS then Some (- EINVAL, s)
          else (case arr_get (ph_users (shm_ph s)) (userno h) of
                  None \<Rightarrow> None
                | Some u \<Rightarrow>
                    if usr_valid u = 0
                    then Some (1, set_usr (userno h) (\<lambda>u. u\<lparr>usr_valid := 1\<rparr>) s)
                    else Some (0, s)))"

end
