(* ===== verification/Pool_Ring.thy ===== *)
theory Pool_Ring
  imports Shm_Pool
begin

text \<open>
  The producer side of the packet pool: the representation invariant \<open>pool_inv\<close>, the abstract
  pool \<open>apool_add\<close> on lists of packets, and the refinement of the one by the other. The live
  elements are the region of \<open>count\<close> slots of the element ring that starts at \<open>head\<close>; their
  data areas tile the block ring from the end of the free region round to its start.
\<close>

section \<open>Invariant\<close>

abbreviation MAXE :: int where "MAXE \<equiv> SHPOOL_MAX_ELE"

named_theorems pool_const \<open>the pool's size constants\<close>

lemmas [pool_const] = SHPOOL_MAX_ELE_def SHPOOL_BLOCK_SIZE_def SHPOOL_MAX_USERS_def

definition live :: "SHPOOL_HEAD \<Rightarrow> SHPOOL_ELE list" where
  "live ph = ring_read (ph_eles ph) (ph_head ph) (ph_count ph)"

definition blocks_of :: "SHPOOL_ELE list \<Rightarrow> int" where
  "blocks_of es = sum_list (map ele_blocks es)"

definition ele_ok :: "SHPOOL_ELE \<Rightarrow> bool" where
  "ele_ok e \<longleftrightarrow> 0 \<le> ele_datalen e \<and> ele_blocks e = needblocks (ele_datalen e)"

text \<open>The elements occupy consecutive block ranges from block \<open>b\<close> to block \<open>e\<close>, modulo \<open>T\<close>.\<close>

fun chain :: "int \<Rightarrow> int \<Rightarrow> SHPOOL_ELE list \<Rightarrow> int \<Rightarrow> bool" where
  "chain T b [] e = (b = e)"
| "chain T b (x # xs) e =
     (ele_bblock x = b \<and> ele_ok x \<and> chain T ((b + ele_blocks x) mod T) xs e)"

text \<open>Every slot, used or not, can be copied out without leaving the data area.\<close>

definition ele_safe :: "int \<Rightarrow> SHPOOL_ELE \<Rightarrow> bool" where
  "ele_safe T e \<longleftrightarrow> 0 \<le> ele_bblock e \<and> ele_bblock e < T \<and> 0 \<le> ele_datalen e \<and>
                   ele_datalen e \<le> T * SHPOOL_BLOCK_SIZE"

fun numbered :: "u32 \<Rightarrow> SHPOOL_ELE list \<Rightarrow> bool" where
  "numbered n [] = True"
| "numbered n (x # xs) = (ele_num x = n - of_nat (length xs) \<and> numbered n xs)"

definition head_inv :: "SHPOOL_HEAD \<Rightarrow> bool" where
  "head_inv ph \<longleftrightarrow>
     length (ph_eles ph) = nat MAXE \<and> 0 \<le> ph_head ph \<and> ph_head ph < MAXE \<and>
     0 \<le> ph_count ph \<and> ph_count ph \<le> MAXE \<and> ph_tail ph = (ph_head ph + ph_count ph) mod MAXE \<and>
     0 < ph_tblocks ph \<and> 0 \<le> ph_fbstart ph \<and> ph_fbstart ph < ph_tblocks ph \<and>
     0 \<le> ph_fblocks ph \<and> ph_fblocks ph + blocks_of (live ph) = ph_tblocks ph \<and>
     chain (ph_tblocks ph) ((ph_fbstart ph + ph_fblocks ph) mod ph_tblocks ph) (live ph) (ph_fbstart ph) \<and>
     list_all (ele_safe (ph_tblocks ph)) (ph_eles ph) \<and> numbered (ph_num ph) (live ph)"

text \<open>
  A cursor is a slot number, or -1: the repair for a re-initialised pool puts the cursor one
  before the tail even when the tail is 0.
\<close>

definition users_inv :: "SHPOOL_USR list \<Rightarrow> int list \<Rightarrow> bool" where
  "users_inv us vs \<longleftrightarrow> length us = nat SHPOOL_MAX_USERS \<and> length vs = nat SHPOOL_MAX_USERS \<and>
     list_all (\<lambda>u. -1 \<le> usr_curele u \<and> usr_curele u < MAXE) us \<and>
     list_all (\<lambda>v. 0 \<le> v \<and> v \<le> SEMVMX) vs"

definition pool_inv :: "shm \<Rightarrow> bool" where
  "pool_inv s \<longleftrightarrow> head_inv (shm_ph s) \<and> ph_count (shm_ph s) < MAXE \<and>
     int (length (eledata s)) = SHPOOL_BLOCK_SIZE * ph_tblocks (shm_ph s) \<and>
     users_inv (ph_users (shm_ph s)) (sems s)"

section \<open>The abstract pool\<close>

text \<open>
  A pool of \<open>T\<close> blocks holds a list of packets, the oldest first, and the number of the last
  packet written. Appending makes room by dropping the oldest packets: none when more than the
  needed blocks are free, otherwise until twice the needed blocks are free. A pool that cannot
  reach that is left empty and the packet is refused. One more packet goes when all
  \<open>SHPOOL_MAX_ELE\<close> slots of the ring are taken.
\<close>

definition pkt_blocks :: "packet \<Rightarrow> int" where
  "pkt_blocks p = needblocks (int (length (fst p)))"

definition used_blocks :: "packet list \<Rightarrow> int" where
  "used_blocks ps = sum_list (map pkt_blocks ps)"

fun evict :: "int \<Rightarrow> int \<Rightarrow> int list \<Rightarrow> nat" where
  "evict need free [] = 0"
| "evict need free (b # bs) = (if free < need then Suc (evict need (free + b) bs) else 0)"

definition make_room :: "int \<Rightarrow> int \<Rightarrow> packet list \<Rightarrow> packet list" where
  "make_room T need ps =
     (let free = T - used_blocks ps in
      if free > need then ps else drop (evict (need * 2) free (map pkt_blocks ps)) ps)"

definition apool_add ::
    "int \<Rightarrow> packet list \<times> u32 \<Rightarrow> byte list \<Rightarrow> int \<Rightarrow> int \<times> packet list \<times> u32" where
  "apool_add T a d flag =
     (let (ps, n) = a; need = needblocks (int (length d)); ps1 = make_room T need ps in
      if T - used_blocks ps \<le> need \<and> T - used_blocks ps1 < need * 2 then (- ENOMEM, ps1, n)
      else let qs = ps1 @ [(d, n + 1, flag)]
           in (0, if int (length qs) = MAXE then tl qs else qs, n + 1))"

definition ele_packet :: "byte list \<Rightarrow> SHPOOL_ELE \<Rightarrow> packet" where
  "ele_packet mem e =
     (ring_read mem (ele_bblock e * SHPOOL_BLOCK_SIZE) (ele_datalen e), ele_num e, ele_userflag e)"

definition pool_abs :: "shm \<Rightarrow> packet list \<times> u32" where
  "pool_abs s = (map (ele_packet (eledata s)) (live (shm_ph s)), ph_num (shm_ph s))"

section \<open>Arithmetic of blocks and slots\<close>

lemma needblocks_eq:
  "0 \<le> n \<Longrightarrow> needblocks n = (if n = 0 then 1 else (n - 1) div 512 + 1)"
  by (auto simp: needblocks_def SHPOOL_BLOCK_SIZE_def sdiv_nonneg)

lemma needblocks_bounds:
  assumes "0 \<le> n"
  shows "1 \<le> needblocks n" "n \<le> needblocks n * 512" "n \<noteq> 0 \<Longrightarrow> (needblocks n - 1) * 512 < n"
  using assms by (auto simp: needblocks_eq)

lemma NewerEle_mod: "0 \<le> i \<Longrightarrow> i < MAXE \<Longrightarrow> NewerEle i = (i + 1) mod MAXE"
  by (cases "i = 4999") (auto simp: NewerEle_def SHPOOL_MAX_ELE_def)

lemma OlderEle_mod: "0 \<le> i \<Longrightarrow> i < MAXE \<Longrightarrow> OlderEle i = (i - 1) mod MAXE"
  by (cases "i = 0") (auto simp: OlderEle_def SHPOOL_MAX_ELE_def)

lemma arr_set_ring:
  "0 \<le> i \<Longrightarrow> i < int (length xs) \<Longrightarrow> arr_set xs i x = ring_write xs i [x]"
proof (rule nth_equalityI)
  fix p assume i: "0 \<le> i" "i < int (length xs)" and "p < length (arr_set xs i x)"
  then have p: "p < length xs" by simp
  have "(int p - i) mod int (length xs) < 1 \<longleftrightarrow> int p = i"
    using i p by (subst mod_wrap_once) (auto split: if_splits)
  then show "arr_set xs i x ! p = ring_write xs i [x] ! p"
    using i p by (auto simp: nth_ring_write arr_set_def nth_list_update)
qed simp

lemma blocks_of_simps [simp]:
  "blocks_of [] = 0" "blocks_of (x # xs) = ele_blocks x + blocks_of xs"
  "blocks_of (xs @ ys) = blocks_of xs + blocks_of ys"
  by (simp_all add: blocks_of_def)

lemma used_blocks_simps [simp]:
  "used_blocks [] = 0" "used_blocks (x # xs) = pkt_blocks x + used_blocks xs"
  "used_blocks (xs @ ys) = used_blocks xs + used_blocks ys"
  by (simp_all add: used_blocks_def)

lemma chain_ok: "chain T b xs e \<Longrightarrow> x \<in> set xs \<Longrightarrow> ele_ok x"
  by (induction xs arbitrary: b) auto

lemma ele_ok_blocks: "ele_ok x \<Longrightarrow> 1 \<le> ele_blocks x"
  using needblocks_bounds(1) by (auto simp: ele_ok_def)

lemma blocks_of_nonneg: "(\<And>x. x \<in> set xs \<Longrightarrow> ele_ok x) \<Longrightarrow> 0 \<le> blocks_of xs"
  by (induction xs) (use ele_ok_blocks in force)+

lemma ele_packet_length: "ele_ok x \<Longrightarrow> int (length (fst (ele_packet mem x))) = ele_datalen x"
  by (simp add: ele_packet_def ele_ok_def)

lemma chain_append:
  "chain T b (xs @ [x]) e \<longleftrightarrow>
     (\<exists>m. chain T b xs m \<and> ele_bblock x = m \<and> ele_ok x \<and> (m + ele_blocks x) mod T = e)"
  by (induction xs arbitrary: b) auto

lemma numbered_append:
  "numbered n (xs @ [x]) \<longleftrightarrow> numbered (n - 1) xs \<and> ele_num x = n"
  by (induction xs) (auto simp: algebra_simps)

lemma numbered_nth:
  "numbered n xs \<Longrightarrow> k < length xs \<Longrightarrow> ele_num (xs ! k) = n - of_nat (length xs - Suc k)"
  by (induction xs arbitrary: k) (auto simp: nth_Cons split: nat.splits)

section \<open>Dropping the oldest element\<close>

definition pop_step :: "SHPOOL_HEAD \<Rightarrow> SHPOOL_HEAD" where
  "pop_step ph = pop_head ph (ph_eles ph ! nat (ph_head ph))"

lemma head_inv_len: "head_inv ph \<Longrightarrow> int (length (ph_eles ph)) = MAXE"
  by (simp add: head_inv_def SHPOOL_MAX_ELE_def)

lemma length_live: "head_inv ph \<Longrightarrow> length (live ph) = nat (ph_count ph)"
  by (simp add: live_def)

lemma live_Cons:
  assumes "head_inv ph" "0 < ph_count ph"
  shows "live ph = ph_eles ph ! nat (ph_head ph) # ring_read (ph_eles ph) (ph_head ph + 1) (ph_count ph - 1)"
  using assms head_inv_len [OF assms(1)]
  by (auto simp: live_def head_inv_def intro: ring_read_Cons)

lemma live_pop:
  assumes "head_inv ph" "0 < ph_count ph"
  shows "live (pop_step ph) = tl (live ph)"
proof -
  let ?x = "(ph_eles ph ! nat (ph_head ph))\<lparr>ele_datalen := 0, ele_blocks := 0\<rparr>"
  have h: "0 \<le> ph_head ph" "ph_head ph < MAXE" "ph_count ph \<le> MAXE"
    using assms by (auto simp: head_inv_def)
  note L = head_inv_len [OF assms(1)]
  have "live (pop_step ph) =
        ring_read (ring_write (ph_eles ph) (ph_head ph) [?x]) (NewerEle (ph_head ph)) (ph_count ph - 1)"
    using h L by (simp add: live_def pop_step_def pop_head_def arr_set_ring)
  also have "\<dots> = ring_read (ph_eles ph) (NewerEle (ph_head ph)) (ph_count ph - 1)"
    using h L assms(2) by (intro ring.get_put_ahead [where d = 1]) (simp_all add: NewerEle_mod)
  also have "\<dots> = ring_read (ph_eles ph) (ph_head ph + 1) (ph_count ph - 1)"
    using h L by (intro ring.get_cong) (simp add: NewerEle_mod)
  finally show ?thesis using live_Cons [OF assms] by simp
qed

lemma pop_step_sel [simp]:
  "ph_fblocks (pop_step ph) = ph_fblocks ph + ele_blocks (ph_eles ph ! nat (ph_head ph))"
  "ph_count (pop_step ph) = ph_count ph - 1" "ph_head (pop_step ph) = NewerEle (ph_head ph)"
  "ph_tail (pop_step ph) = ph_tail ph" "ph_tblocks (pop_step ph) = ph_tblocks ph"
  "ph_fbstart (pop_step ph) = ph_fbstart ph" "ph_num (pop_step ph) = ph_num ph"
  "ph_users (pop_step ph) = ph_users ph" "length (ph_eles (pop_step ph)) = length (ph_eles ph)"
  by (simp_all add: pop_step_def pop_head_def)

lemma pop_step_inv:
  assumes "head_inv ph" "0 < ph_count ph"
  shows "head_inv (pop_step ph)"
proof -
  let ?e = "ph_eles ph ! nat (ph_head ph)"
  have h: "0 \<le> ph_head ph" "ph_head ph < MAXE" "ph_count ph \<le> MAXE"
    "ph_tail ph = (ph_head ph + ph_count ph) mod MAXE" "0 < MAXE"
    using assms by (auto simp: head_inv_def SHPOOL_MAX_ELE_def)
  obtain es where es: "live ph = ?e # es" using live_Cons [OF assms] by auto
  have l': "live (pop_step ph) = es" using live_pop [OF assms] es by simp
  have ok: "ele_ok ?e" using assms es by (simp add: head_inv_def)
  have "ele_safe (ph_tblocks ph) ?e"
    using assms h head_inv_len [OF assms(1)] by (auto simp: head_inv_def list_all_iff)
  then have "ele_safe (ph_tblocks ph) (?e\<lparr>ele_datalen := 0, ele_blocks := 0\<rparr>)"
    using assms by (simp add: ele_safe_def head_inv_def SHPOOL_BLOCK_SIZE_def)
  then have safe: "list_all (ele_safe (ph_tblocks ph)) (ph_eles (pop_step ph))"
    using assms by (simp add: pop_step_def pop_head_def head_inv_def list_all_arr_set)
  have tl: "ph_tail ph = (NewerEle (ph_head ph) + (ph_count ph - 1)) mod MAXE"
    using h by (simp add: NewerEle_mod mod_add_left_eq)
  have hd: "0 \<le> NewerEle (ph_head ph)" "NewerEle (ph_head ph) < MAXE"
    using h by (auto simp: NewerEle_mod)
  have ch: "chain (ph_tblocks ph) ((ph_fbstart ph + (ph_fblocks ph + ele_blocks ?e)) mod ph_tblocks ph)
              es (ph_fbstart ph)"
    using assms(1) es by (simp add: head_inv_def mod_add_left_eq add.assoc)
  show ?thesis
    using assms h hd tl safe ch l' es ele_ok_blocks [OF ok] by (simp add: head_inv_def)
qed

section \<open>FreeBlocks\<close>

definition pops :: "nat \<Rightarrow> SHPOOL_HEAD \<Rightarrow> SHPOOL_HEAD" where
  "pops j ph = (pop_step ^^ j) ph"

lemma pops_simps: "pops 0 ph = ph" "pops (Suc j) ph = pops j (pop_step ph)"
  by (simp_all add: pops_def funpow_swap1)

lemma pops_frame [simp]:
  "ph_tail (pops j ph) = ph_tail ph" "ph_tblocks (pops j ph) = ph_tblocks ph"
  "ph_fbstart (pops j ph) = ph_fbstart ph" "ph_num (pops j ph) = ph_num ph"
  "ph_users (pops j ph) = ph_users ph" "length (ph_eles (pops j ph)) = length (ph_eles ph)"
  by (induction j arbitrary: ph) (simp_all add: pops_simps)

lemma pops_inv:
  "head_inv ph \<Longrightarrow> j \<le> length (live ph) \<Longrightarrow>
     head_inv (pops j ph) \<and> live (pops j ph) = drop j (live ph) \<and>
     ph_fblocks (pops j ph) = ph_fblocks ph + blocks_of (take j (live ph)) \<and>
     ph_count (pops j ph) = ph_count ph - int j"
proof (induction j arbitrary: ph)
  case (Suc j)
  then have c: "0 < ph_count ph" by (simp add: length_live)
  note pi = pop_step_inv [OF Suc.prems(1) c] and lp = live_pop [OF Suc.prems(1) c]
  have "j \<le> length (live (pop_step ph))" using Suc.prems(2) lp by simp
  from Suc.IH [OF pi this] live_Cons [OF Suc.prems(1) c] lp show ?case
    by (auto simp: pops_simps)
qed (simp add: pops_simps)

lemma FreeBlocks_loop_pops:
  "head_inv ph \<Longrightarrow> fc = ph_fblocks ph \<Longrightarrow>
     FreeBlocks_loop ph need fc =
       (let ph' = pops (evict need fc (map ele_blocks (live ph))) ph in
        Some (if ph_fblocks ph' < need then - ENOMEM else ph_fblocks ph', ph'))"
proof (induction ph need fc rule: FreeBlocks_loop.induct)
  case (1 ph need fc)
  show ?case
  proof (cases "fc < need \<and> 0 < ph_count ph")
    case True
    note L = head_inv_len [OF 1(2)]
    have g: "arr_get (ph_eles ph) (ph_head ph) = Some (ph_eles ph ! nat (ph_head ph))"
      using 1(2) L by (simp add: head_inv_def)
    have "head_inv (pop_step ph)" using 1(2) True by (simp add: pop_step_inv)
    with 1(1) [OF _ _ g, folded pop_step_def] True 1(3) have IH:
      "FreeBlocks_loop (pop_step ph) need (ph_fblocks (pop_step ph)) =
        (let ph' = pops (evict need (ph_fblocks (pop_step ph)) (map ele_blocks (live (pop_step ph)))) (pop_step ph)
         in Some (if ph_fblocks ph' < need then - ENOMEM else ph_fblocks ph', ph'))"
      by simp
    show ?thesis
      using True g IH 1(3) live_Cons [OF 1(2)] live_pop [OF 1(2)]
      by (subst FreeBlocks_loop.simps) (simp add: pop_step_def [symmetric] pops_simps)
  next
    case False
    have "live ph = [] \<or> \<not> fc < need" using False length_live [OF 1(2)] by auto
    then show ?thesis using False 1(3)
      by (subst FreeBlocks_loop.simps) (cases "live ph"; auto simp: pops_simps)
  qed
qed

lemma evict_le: "evict need free bs \<le> length bs"
  by (induction bs arbitrary: free) auto

lemma evict_enough:
  "evict need free bs < length bs \<Longrightarrow> need \<le> free + sum_list (take (evict need free bs) bs)"
  by (induction bs arbitrary: free) (auto split: if_splits, fastforce simp: algebra_simps)

lemma evict_minimal: "i < evict need free bs \<Longrightarrow> free + sum_list (take i bs) < need"
proof (induction bs arbitrary: free i)
  case (Cons b bs)
  then show ?case by (cases i) (auto split: if_splits simp: algebra_simps, metis add.assoc)
qed simp

definition room_pops :: "SHPOOL_HEAD \<Rightarrow> int \<Rightarrow> nat" where
  "room_pops ph need =
     (if ph_fblocks ph > need then 0 else evict (need * 2) (ph_fblocks ph) (map ele_blocks (live ph)))"

lemma room_pops_le: "room_pops ph need \<le> length (live ph)"
  using evict_le [of "need * 2" "ph_fblocks ph" "map ele_blocks (live ph)"]
  by (simp add: room_pops_def)

lemma smod_nonneg: "0 \<le> a \<Longrightarrow> 0 < b \<Longrightarrow> a smod b = a mod b" for a b :: int
  by (simp add: signed_modulo_int_def sgn_if)

lemma ReqBlocks_pops:
  assumes "head_inv ph" "1 \<le> need"
  shows "MShmPoolReqBlocks ph need =
     (let ph1 = pops (room_pops ph need) ph in
      Some (if ph_fblocks ph \<le> need \<and> ph_fblocks ph1 < need * 2 then (- ENOMEM, ph1)
            else (ph_fbstart ph, ph1\<lparr>ph_fbstart := (ph_fbstart ph + need) mod ph_tblocks ph\<rparr>)))"
proof (cases "ph_fblocks ph > need")
  case True
  then show ?thesis
    using assms by (simp add: MShmPoolReqBlocks_def room_pops_def pops_simps smod_nonneg head_inv_def)
next
  case False
  have 1: "FreeBlocks ph (need * 2) =
    (let ph' = pops (room_pops ph need) ph in
     Some (if ph_fblocks ph' < need * 2 then - ENOMEM else ph_fblocks ph', ph'))"
    using FreeBlocks_loop_pops [OF assms(1) refl, of "need * 2"] False
    by (simp add: FreeBlocks_def room_pops_def)
  show ?thesis
    using False assms unfolding MShmPoolReqBlocks_def 1 Let_def
    by (simp add: smod_nonneg head_inv_def)
qed

section \<open>Appending an element\<close>

lemma chain_region:
  "chain T ((fs + d) mod T) xs e \<Longrightarrow> x \<in> set xs \<Longrightarrow>
   \<exists>d'. d \<le> d' \<and> d' + ele_blocks x \<le> d + blocks_of xs \<and> ele_bblock x = (fs + d') mod T"
proof (induction xs arbitrary: d)
  case (Cons y ys)
  have c: "chain T ((fs + (d + ele_blocks y)) mod T) ys e" and oky: "ele_ok y"
    using Cons.prems(1) by (simp_all add: mod_add_left_eq add.assoc)
  show ?case
  proof (cases "x = y")
    case True
    have "0 \<le> blocks_of ys" using c by (intro blocks_of_nonneg) (rule chain_ok)
    then show ?thesis using Cons.prems(1) True by (intro exI [of _ d]) simp
  next
    case False
    then obtain d' where "d + ele_blocks y \<le> d'"
        "d' + ele_blocks x \<le> d + ele_blocks y + blocks_of ys" "ele_bblock x = (fs + d') mod T"
      using Cons.IH [OF c] Cons.prems(2) by auto
    then show ?thesis using ele_ok_blocks [OF oky] by (intro exI [of _ d']) auto
  qed
qed simp

text \<open>Writing into the free region leaves the packets of the live elements as they are.\<close>

lemma ele_packet_put:
  assumes inv: "head_inv ph" and L: "int (length mem) = SHPOOL_BLOCK_SIZE * ph_tblocks ph"
    and x: "x \<in> set (live ph)" and bs: "int (length bs) \<le> ph_fblocks ph * SHPOOL_BLOCK_SIZE"
  shows "ele_packet (ring_write mem (ph_fbstart ph * SHPOOL_BLOCK_SIZE) bs) x = ele_packet mem x"
proof -
  let ?T = "ph_tblocks ph" and ?B = SHPOOL_BLOCK_SIZE
  have ch: "chain ?T ((ph_fbstart ph + ph_fblocks ph) mod ?T) (live ph) (ph_fbstart ph)"
    and tot: "ph_fblocks ph + blocks_of (live ph) = ?T"
    using inv by (auto simp: head_inv_def)
  obtain d where d: "ph_fblocks ph \<le> d" "d + ele_blocks x \<le> ?T"
      "ele_bblock x = (ph_fbstart ph + d) mod ?T"
    using chain_region [OF ch x] tot by auto
  have ok: "ele_ok x" using chain_ok [OF ch x] .
  have "ele_datalen x \<le> ele_blocks x * ?B"
    using ok needblocks_bounds(2) by (simp add: ele_ok_def SHPOOL_BLOCK_SIZE_def)
  moreover have "(d + ele_blocks x) * ?B \<le> ?T * ?B"
    using d by (simp add: SHPOOL_BLOCK_SIZE_def)
  ultimately have fit: "d * ?B + ele_datalen x \<le> int (length mem)"
    using L by (simp add: algebra_simps)
  have "ele_bblock x * ?B mod int (length mem) = (ph_fbstart ph * ?B + d * ?B) mod int (length mem)"
    unfolding L d(3) by (simp add: mult.commute [of ?B] mult_mod_left distrib_right)
  moreover have "int (length bs) \<le> d * ?B"
    using bs d(1) by (simp add: SHPOOL_BLOCK_SIZE_def)
  ultimately show ?thesis
    using fit by (simp add: ele_packet_def ring.get_put_ahead [where d = "d * ?B"])
qed

definition push_head :: "SHPOOL_HEAD \<Rightarrow> SHPOOL_ELE \<Rightarrow> u32 \<Rightarrow> SHPOOL_HEAD" where
  "push_head ph x sb =
     ph\<lparr>ph_fbstart := (ph_fbstart ph + ele_blocks x) mod ph_tblocks ph, ph_num := ph_num ph + 1,
        ph_eles := arr_set (ph_eles ph) (ph_tail ph) x, ph_count := ph_count ph + 1,
        ph_fblocks := ph_fblocks ph - ele_blocks x, ph_tail := NewerEle (ph_tail ph),
        ph_send_bytes := sb\<rparr>"

lemma live_push:
  assumes "head_inv ph" "ph_count ph < MAXE"
  shows "live (push_head ph x sb) = live ph @ [x]"
proof -
  note L = head_inv_len [OF assms(1)]
  have h: "0 \<le> ph_head ph" "ph_head ph < MAXE" "0 \<le> ph_count ph" "0 < MAXE"
    and t: "ph_tail ph = (ph_head ph + ph_count ph) mod MAXE"
    using assms by (auto simp: head_inv_def SHPOOL_MAX_ELE_def)
  have t0: "0 \<le> ph_tail ph" "ph_tail ph < MAXE" using h t by auto
  let ?W = "ring_write (ph_eles ph) (ph_tail ph) [x]"
  have "live (push_head ph x sb) = ring_read ?W (ph_head ph) (ph_count ph + 1)"
    using t0 L by (simp add: live_def push_head_def arr_set_ring)
  also have "\<dots> = ring_read ?W (ph_head ph) (ph_count ph) @ ring_read ?W (ph_head ph + ph_count ph) 1"
    using h by (simp add: ring_read_append)
  also have "ring_read ?W (ph_head ph) (ph_count ph) = live ph"
    unfolding live_def using assms h t L
    by (intro ring.get_put_ahead [where d = "MAXE - ph_count ph"]) (simp_all add: mod_simps)
  also have "ring_read ?W (ph_head ph + ph_count ph) 1 = ring_read ?W (ph_tail ph) 1"
    using t L by (intro ring.get_cong) simp
  also have "\<dots> = [x]"
    using ring.get_put_same [of "[x]" "ph_eles ph" "ph_tail ph"] L h by simp
  finally show ?thesis .
qed

lemma push_inv:
  assumes inv: "head_inv ph" and c: "ph_count ph < MAXE" and x: "ele_ok x" "ele_bblock x = ph_fbstart ph"
    "ele_num x = ph_num ph + 1" and room: "ele_blocks x \<le> ph_fblocks ph"
  shows "head_inv (push_head ph x sb)"
proof -
  let ?T = "ph_tblocks ph"
  have h: "0 \<le> ph_head ph" "ph_head ph < MAXE" "0 \<le> ph_count ph" "0 < MAXE" "0 < ?T"
    and t: "ph_tail ph = (ph_head ph + ph_count ph) mod MAXE"
    and fs: "0 \<le> ph_fbstart ph" "ph_fbstart ph < ?T"
    and tot: "ph_fblocks ph + blocks_of (live ph) = ?T"
    and ch: "chain ?T ((ph_fbstart ph + ph_fblocks ph) mod ?T) (live ph) (ph_fbstart ph)"
    and safe: "list_all (ele_safe ?T) (ph_eles ph)" and nm: "numbered (ph_num ph) (live ph)"
    using inv by (auto simp: head_inv_def SHPOOL_MAX_ELE_def)
  have "0 \<le> blocks_of (live ph)" using ch by (intro blocks_of_nonneg) (rule chain_ok)
  then have "ele_blocks x \<le> ?T" using tot room by linarith
  then have "ele_datalen x \<le> ?T * SHPOOL_BLOCK_SIZE"
    using x(1) needblocks_bounds(2) [of "ele_datalen x"] by (simp add: ele_ok_def SHPOOL_BLOCK_SIZE_def)
  then have sx: "ele_safe ?T x" using x fs by (simp add: ele_safe_def ele_ok_def)
  have t': "NewerEle (ph_tail ph) = (ph_head ph + (ph_count ph + 1)) mod MAXE"
    using h t by (simp add: NewerEle_mod mod_simps algebra_simps)
  have "chain ?T ((((ph_fbstart ph + ele_blocks x) mod ?T) + (ph_fblocks ph - ele_blocks x)) mod ?T)
          (live ph @ [x]) ((ph_fbstart ph + ele_blocks x) mod ?T)"
    using ch x by (simp add: chain_append mod_simps)
  then show ?thesis
    using inv c h fs tot safe nm sx t' x room
    by (simp add: head_inv_def live_push [OF inv c])
       (simp add: push_head_def list_all_arr_set numbered_append)
qed

section \<open>MShmPoolAddResource\<close>

text \<open>The copy into the data area never leaves it and equals the reference ring write.\<close>

lemma InsertData2Ele_ring:
  assumes e: "arr_get (ph_eles (shm_ph s)) i = Some e"
    and L: "int (length (eledata s)) = SHPOOL_BLOCK_SIZE * ph_tblocks (shm_ph s)"
    and b: "0 \<le> ele_bblock e" "ele_bblock e < ph_tblocks (shm_ph s)"
    and n: "0 \<le> n" "n \<le> int (length buf)" "n \<le> int (length (eledata s))"
  shows "InsertData2Ele s i buf n =
     Some (s\<lparr>eledata := ring_write (eledata s) (ele_bblock e * SHPOOL_BLOCK_SIZE) (take (nat n) buf),
             shm_ph := (shm_ph s)\<lparr>
               ph_eles := arr_set (ph_eles (shm_ph s)) i (e\<lparr>ele_datalen := n\<rparr>),
               ph_count := ph_count (shm_ph s) + 1,
               ph_fblocks := ph_fblocks (shm_ph s) - ele_blocks e,
               ph_send_bytes := ph_send_bytes (shm_ph s) + of_int n\<rparr>\<rparr>)"
proof -
  let ?off = "ele_bblock e * SHPOOL_BLOCK_SIZE" and ?tb = "tail_bytes (shm_ph s) e"
  have tb: "?tb = int (length (eledata s)) - ?off"
    using L by (simp add: tail_bytes_def algebra_simps)
  have off: "0 \<le> ?off" "?off \<le> int (length (eledata s))" using b L by (simp_all add: pool_const)
  have put: "(if n \<le> ?tb
      then (case mem_get buf 0 n of None \<Rightarrow> None | Some bs \<Rightarrow> mem_put (eledata s) ?off bs)
      else (case (mem_get buf 0 ?tb, mem_get buf ?tb (n - ?tb)) of
              (Some a, Some b) \<Rightarrow> (case mem_put (eledata s) ?off a of None \<Rightarrow> None | Some d \<Rightarrow> mem_put d 0 b)
            | _ \<Rightarrow> None))
    = Some (ring_write (eledata s) ?off (take (nat n) buf))"
  proof (cases "n \<le> ?tb")
    case True
    then show ?thesis using n off tb by (simp add: mem_get_def mem_put_ring)
  next
    case False
    have "take (nat (n - ?tb)) (drop (nat ?tb) buf) = drop (nat ?tb) (take (nat n) buf)"
      using False off tb by (simp add: drop_take nat_diff_distrib)
    moreover have "take (nat ?tb) buf = take (nat ?tb) (take (nat n) buf)"
      using False by (simp add: min_def)
    ultimately show ?thesis
      using False n off tb mem_put_wrap [of ?off "eledata s" "take (nat n) buf"]
      by (simp add: mem_get_def)
  qed
  show ?thesis
    unfolding InsertData2Ele_def Let_def e option.case put by simp
qed

definition new_ele :: "SHPOOL_HEAD \<Rightarrow> SHPOOL_ELE \<Rightarrow> int \<Rightarrow> int \<Rightarrow> SHPOOL_ELE" where
  "new_ele ph old n flag =
     old\<lparr>ele_num := ph_num ph + 1, ele_userflag := flag,
         ele_bblock := ph_fbstart ph, ele_blocks := needblocks n,
         ele_eblock := (if ph_fbstart ph + needblocks n \<ge> ph_tblocks ph
                        then (ph_fbstart ph + needblocks n - 1) - ph_tblocks ph
                        else ph_fbstart ph + needblocks n - 1),
         ele_datalen := n\<rparr>"

lemma new_ele_sel [simp]:
  "ele_num (new_ele ph old n flag) = ph_num ph + 1" "ele_userflag (new_ele ph old n flag) = flag"
  "ele_datalen (new_ele ph old n flag) = n" "ele_blocks (new_ele ph old n flag) = needblocks n"
  "ele_bblock (new_ele ph old n flag) = ph_fbstart ph"
  by (simp_all add: new_ele_def)

lemma arr_set_twice [simp]: "arr_set (arr_set xs i x) i y = arr_set xs i y"
  by (simp add: arr_set_def)

lemma head_inv_tail:
  assumes "head_inv ph"
  shows "0 \<le> ph_tail ph" "ph_tail ph < MAXE"
    "0 < ph_count ph \<Longrightarrow> ph_tail ph = ph_head ph \<longleftrightarrow> ph_count ph = MAXE"
    "0 \<le> ph_count ph" "0 \<le> ph_head ph" "ph_head ph < MAXE" "ph_count ph \<le> MAXE"
proof -
  have h: "0 \<le> ph_head ph" "ph_head ph < MAXE" "0 \<le> ph_count ph" "ph_count ph \<le> MAXE" "0 < MAXE"
    and t: "ph_tail ph = (ph_head ph + ph_count ph) mod MAXE"
    using assms by (auto simp: head_inv_def SHPOOL_MAX_ELE_def)
  then show "0 \<le> ph_tail ph" "ph_tail ph < MAXE" "0 \<le> ph_count ph" "0 \<le> ph_head ph"
    "ph_head ph < MAXE" "ph_count ph \<le> MAXE" by auto
  assume c: "0 < ph_count ph"
  have "ph_tail ph = ph_head ph + ph_count ph - (if ph_head ph + ph_count ph \<ge> MAXE then MAXE else 0)"
    using t h mod_wrap_once [of MAXE "ph_head ph + ph_count ph - MAXE"] by (auto simp: mod_simps)
  then show "ph_tail ph = ph_head ph \<longleftrightarrow> ph_count ph = MAXE"
    using c h by auto
qed

text \<open>The state after a successful append, before the readers are woken.\<close>

definition added :: "shm \<Rightarrow> SHPOOL_HEAD \<Rightarrow> byte list \<Rightarrow> int \<Rightarrow> int \<Rightarrow> shm" where
  "added s ph1 buf n flag =
     (let x = new_ele ph1 (ph_eles ph1 ! nat (ph_tail ph1)) n flag;
          ph2 = push_head ph1 x (ph_send_bytes ph1 + of_int n)
      in s\<lparr>eledata := ring_write (eledata s) (ph_fbstart ph1 * SHPOOL_BLOCK_SIZE) (take (nat n) buf),
           shm_ph := (if ph_count ph2 = MAXE then pop_step ph2 else ph2)\<rparr>)"

lemma AddResource_eq:
  assumes inv: "pool_inv s" and n: "0 \<le> n" "n \<le> int (length buf)"
  defines "ph1 \<equiv> pops (room_pops (shm_ph s) (needblocks n)) (shm_ph s)"
  shows "MShmPoolAddResource (Some h) s (Some buf) n flag =
     Some (if ph_fblocks (shm_ph s) \<le> needblocks n \<and> ph_fblocks ph1 < needblocks n * 2
           then (- ENOMEM, s\<lparr>shm_ph := ph1\<rparr>)
           else (0, SemAddAll (added s ph1 buf n flag)))"
proof -
  let ?ph = "shm_ph s" and ?need = "needblocks n"
  have hi: "head_inv ?ph" and L: "int (length (eledata s)) = SHPOOL_BLOCK_SIZE * ph_tblocks ?ph"
    and cnt: "ph_count ?ph < MAXE" using inv by (auto simp: pool_inv_def)
  note nb = needblocks_bounds [OF n(1)] and p = pops_inv [OF hi room_pops_le, of ?need]
  have hi1: "head_inv ph1" and cnt1: "ph_count ph1 < MAXE" using p cnt by (auto simp: ph1_def)
  have fr: "ph_tail ph1 = ph_tail ?ph" "ph_tblocks ph1 = ph_tblocks ?ph" "ph_fbstart ph1 = ph_fbstart ?ph"
    by (simp_all add: ph1_def)
  note t = head_inv_tail [OF hi] and L1 = head_inv_len [OF hi1] and L0 = head_inv_len [OF hi]
  show ?thesis
  proof (cases "ph_fblocks ?ph \<le> ?need \<and> ph_fblocks ph1 < ?need * 2")
    case True
    then show ?thesis
      using n t L0 nb ReqBlocks_pops [OF hi nb(1)]
      by (simp add: MShmPoolAddResource_def ph1_def Let_def)
  next
    case False
    have room: "?need \<le> ph_fblocks ph1"
      using False nb(1) p by (auto simp: ph1_def room_pops_def pops_simps)
    have fb: "0 \<le> ph_fbstart ?ph" "ph_fbstart ?ph < ph_tblocks ?ph" using hi by (auto simp: head_inv_def)
    have "0 \<le> blocks_of (live ph1)"
      using hi1 chain_ok by (intro blocks_of_nonneg) (auto simp: head_inv_def)
    then have "?need \<le> ph_tblocks ?ph" using room hi1 fr by (auto simp: head_inv_def)
    then have nL: "n \<le> int (length (eledata s))" using nb(2) L by (simp add: pool_const)
    let ?q = "ph1\<lparr>ph_fbstart := (ph_fbstart ?ph + ?need) mod ph_tblocks ?ph\<rparr>"
    let ?x = "new_ele ph1 (ph_eles ph1 ! nat (ph_tail ph1)) n flag"
    have e: "arr_get (ph_eles (shm_ph (s\<lparr>shm_ph := fill_tail ?q (ph_fbstart ?ph) ?need flag\<rparr>))) (ph_tail ?q)
        = Some (?x\<lparr>ele_datalen := ele_datalen (ph_eles ph1 ! nat (ph_tail ph1))\<rparr>)"
      using t L1 fr by (simp add: fill_tail_def Let_def nth_arr_set new_ele_def)
    have ins: "InsertData2Ele (s\<lparr>shm_ph := fill_tail ?q (ph_fbstart ?ph) ?need flag\<rparr>) (ph_tail ?q) buf n =
      Some (s\<lparr>eledata := ring_write (eledata s) (ph_fbstart ?ph * SHPOOL_BLOCK_SIZE) (take (nat n) buf),
              shm_ph := (push_head ph1 ?x (ph_send_bytes ph1 + of_int n))\<lparr>ph_tail := ph_tail ?ph\<rparr>\<rparr>)"
      by (subst InsertData2Ele_ring [OF e])
         (use L fb n nL fr in \<open>auto simp: fill_tail_def Let_def push_head_def new_ele_def
            intro!: shm.equality SHPOOL_HEAD.equality\<close>)
    let ?p2 = "push_head ph1 ?x (ph_send_bytes ph1 + of_int n)"
    have hi2: "head_inv ?p2"
      using hi1 cnt1 n room fr by (intro push_inv) (auto simp: ele_ok_def)
    have p2: "ph_tail ?p2 = NewerEle (ph_tail ?ph)" "ph_count ?p2 = ph_count ph1 + 1"
      using fr by (simp_all add: push_head_def)
    have c2: "0 < ph_count ?p2" using p2 head_inv_tail(4) [OF hi1] by simp
    have upd: "(?p2\<lparr>ph_tail := ph_tail ?ph\<rparr>)\<lparr>ph_tail := NewerEle (ph_tail (?p2\<lparr>ph_tail := ph_tail ?ph\<rparr>))\<rparr> = ?p2"
      using p2 by simp
    have fin: "(if ph_tail ?p2 = ph_head ?p2 then map_option snd (FreeHeadEle ?p2) else Some ?p2) =
      Some (if ph_count ?p2 = MAXE then pop_step ?p2 else ?p2)"
      using head_inv_tail [OF hi2] c2 head_inv_len [OF hi2] by (auto simp: FreeHeadEle_def pop_step_def)
    have req: "MShmPoolReqBlocks ?ph ?need = Some (ph_fbstart ?ph, ?q)"
      using ReqBlocks_pops [OF hi nb(1)] False by (auto simp: ph1_def Let_def)
    have g: "arr_get (ph_eles ?ph) (ph_tail ?ph) = Some (ph_eles ?ph ! nat (ph_tail ?ph))"
      using t L0 by simp
    have sz: "\<not> n < 0" "\<not> ph_fbstart ?ph < 0" using n fb by auto
    have sel: "shm_ph (s\<lparr>eledata := d, shm_ph := X\<rparr>) = X" for d X by simp
    show ?thesis
      unfolding MShmPoolAddResource_def prod.case option.case g req Let_def ins sel upd fin
        if_not_P [OF sz(1)] if_not_P [OF sz(2)] if_not_P [OF False]
      using fr by (simp add: added_def Let_def)
  qed
qed

section \<open>Refinement of the abstract pool\<close>

lemma head_inv_frame [simp]:
  "head_inv (ph\<lparr>ph_maxsem := m\<rparr>) = head_inv ph" "live (ph\<lparr>ph_maxsem := m\<rparr>) = live ph"
  "head_inv (ph\<lparr>ph_users := us\<rparr>) = head_inv ph" "live (ph\<lparr>ph_users := us\<rparr>) = live ph"
  "head_inv (ph\<lparr>ph_last_usr_no := k\<rparr>) = head_inv ph" "live (ph\<lparr>ph_last_usr_no := k\<rparr>) = live ph"
  by (simp_all add: head_inv_def live_def)

lemma SemAddAll_loop_inv:
  "SemAddAll_loop m us vs = (us', vs') \<Longrightarrow>
     length us' = length us \<and> length vs' = length vs \<and> map usr_curele us' = map usr_curele us \<and>
     (list_all (\<lambda>v. 0 \<le> v \<and> v \<le> SEMVMX) vs \<longrightarrow> list_all (\<lambda>v. 0 \<le> v \<and> v \<le> SEMVMX) vs')"
  by (induction m us vs arbitrary: us' vs' rule: SemAddAll_loop.induct)
     (auto simp: SemAdd_def Let_def split: prod.splits if_splits)

lemma curele_inv_cong:
  "map usr_curele us' = map usr_curele us \<Longrightarrow>
     list_all (\<lambda>u. P (usr_curele u)) us' = list_all (\<lambda>u. P (usr_curele u)) us"
  by (metis (mono_tags, lifting) comp_apply list.pred_map list.pred_mono_strong)

lemma SemAddAll_sel:
  "eledata (SemAddAll s) = eledata s" "pool_abs (SemAddAll s) = pool_abs s"
  "ph_tblocks (shm_ph (SemAddAll s)) = ph_tblocks (shm_ph s)"
  by (simp_all add: SemAddAll_def Let_def pool_abs_def split: prod.split)

lemma SemAddAll_inv:
  assumes "pool_inv s"
  shows "pool_inv (SemAddAll s)"
proof -
  let ?m = "if newmaxsem s \<noteq> -1 then newmaxsem s else oldmaxsem s"
  obtain us vs where e: "SemAddAll_loop ?m (ph_users (shm_ph s)) (sems s) = (us, vs)" by fastforce
  show ?thesis
    using assms SemAddAll_loop_inv [OF e] curele_inv_cong [of us "ph_users (shm_ph s)" "\<lambda>c. -1 \<le> c \<and> c < MAXE"]
    by (simp add: SemAddAll_def Let_def e pool_inv_def users_inv_def)
qed

lemma live_ele_ok: "head_inv ph \<Longrightarrow> x \<in> set (live ph) \<Longrightarrow> ele_ok x"
  by (auto simp: head_inv_def intro: chain_ok)

lemma abs_blocks:
  assumes "head_inv ph"
  shows "map pkt_blocks (map (ele_packet mem) (live ph)) = map ele_blocks (live ph)"
    "ph_tblocks ph - used_blocks (map (ele_packet mem) (live ph)) = ph_fblocks ph"
proof -
  show 1: "map pkt_blocks (map (ele_packet mem) (live ph)) = map ele_blocks (live ph)"
    using live_ele_ok [OF assms] by (auto simp: pkt_blocks_def ele_packet_def ele_ok_def)
  show "ph_tblocks ph - used_blocks (map (ele_packet mem) (live ph)) = ph_fblocks ph"
    unfolding used_blocks_def 1 using assms by (simp add: head_inv_def blocks_of_def)
qed

lemma abs_make_room:
  assumes "head_inv ph"
  shows "make_room (ph_tblocks ph) need (map (ele_packet mem) (live ph)) =
         map (ele_packet mem) (live (pops (room_pops ph need) ph))"
  using pops_inv [OF assms room_pops_le, of need] abs_blocks [OF assms, of mem]
  unfolding make_room_def Let_def by (simp only: room_pops_def drop_map split: if_split) simp

lemma added_refines:
  assumes inv: "pool_inv s" and n: "0 \<le> n" "n \<le> int (length buf)" and hi: "head_inv ph1"
    and c: "ph_count ph1 < MAXE" and room: "needblocks n \<le> ph_fblocks ph1"
    and fr: "ph_tblocks ph1 = ph_tblocks (shm_ph s)" "ph_users ph1 = ph_users (shm_ph s)"
  shows "pool_inv (added s ph1 buf n flag)"
    and "pool_abs (added s ph1 buf n flag) =
      (let qs = map (ele_packet (eledata s)) (live ph1) @ [(take (nat n) buf, ph_num ph1 + 1, flag)]
       in (if int (length qs) = MAXE then tl qs else qs, ph_num ph1 + 1))"
proof -
  let ?x = "new_ele ph1 (ph_eles ph1 ! nat (ph_tail ph1)) n flag"
  let ?p2 = "push_head ph1 ?x (ph_send_bytes ph1 + of_int n)"
  let ?M = "ring_write (eledata s) (ph_fbstart ph1 * SHPOOL_BLOCK_SIZE) (take (nat n) buf)"
  have L: "int (length (eledata s)) = SHPOOL_BLOCK_SIZE * ph_tblocks ph1"
    using inv fr by (simp add: pool_inv_def)
  have hi2: "head_inv ?p2" using hi c n room by (intro push_inv) (auto simp: ele_ok_def)
  have l2: "live ?p2 = live ph1 @ [?x]" using live_push [OF hi c] .
  have p2: "ph_count ?p2 = ph_count ph1 + 1" "ph_users ?p2 = ph_users ph1" "ph_tblocks ?p2 = ph_tblocks ph1"
    "ph_num ?p2 = ph_num ph1 + 1" by (simp_all add: push_head_def)
  have c2: "0 < ph_count ?p2" "ph_count ?p2 \<le> MAXE" using p2 head_inv_tail(4,7) [OF hi] c by auto
  have nb: "n \<le> ph_fblocks ph1 * SHPOOL_BLOCK_SIZE"
    using needblocks_bounds(2) [OF n(1)] room by (simp add: SHPOOL_BLOCK_SIZE_def)
  have "0 \<le> blocks_of (live ph1)" by (intro blocks_of_nonneg) (rule live_ele_ok [OF hi])
  then have "ph_fblocks ph1 \<le> ph_tblocks ph1" using hi by (auto simp: head_inv_def)
  then have nL: "n \<le> int (length (eledata s))" using nb L by (simp add: pool_const)
  have old: "map (ele_packet ?M) (live ph1) = map (ele_packet (eledata s)) (live ph1)"
    using ele_packet_put [OF hi L] n nb by simp
  have new: "ele_packet ?M ?x = (take (nat n) buf, ph_num ph1 + 1, flag)"
    using ring.get_put_same [of "take (nat n) buf" "eledata s" "ph_fbstart ph1 * SHPOOL_BLOCK_SIZE"] n nL
    by (simp add: ele_packet_def min_absorb2 nat_le_iff)
  show "pool_inv (added s ph1 buf n flag)"
    using inv hi2 c2 p2 fr pop_step_inv [OF hi2 c2(1)]
    by (simp add: added_def pool_inv_def Let_def)
  have abs: "pool_abs (added s ph1 buf n flag) =
      (map (ele_packet ?M) (if ph_count ?p2 = MAXE then tl (live ?p2) else live ?p2), ph_num ph1 + 1)"
    using live_pop [OF hi2 c2(1)] p2(4) by (simp add: added_def pool_abs_def Let_def)
  have qs: "map (ele_packet ?M) (live ?p2) =
      map (ele_packet (eledata s)) (live ph1) @ [(take (nat n) buf, ph_num ph1 + 1, flag)]"
    unfolding l2 map_append old by (simp add: new)
  have full: "int (length (map (ele_packet (eledata s)) (live ph1) @ [(take (nat n) buf, ph_num ph1 + 1, flag)]))
      = MAXE \<longleftrightarrow> ph_count ?p2 = MAXE"
    using p2 length_live [OF hi] head_inv_tail(4) [OF hi] by auto
  show "pool_abs (added s ph1 buf n flag) =
      (let qs = map (ele_packet (eledata s)) (live ph1) @ [(take (nat n) buf, ph_num ph1 + 1, flag)]
       in (if int (length qs) = MAXE then tl qs else qs, ph_num ph1 + 1))"
    unfolding abs Let_def full by (simp only: map_tl if_distrib [of "map _"] qs)
qed

theorem AddResource_refines:
  assumes inv: "pool_inv s" and n: "0 \<le> n" "n \<le> int (length buf)"
  shows "\<exists>r s'. MShmPoolAddResource (Some h) s (Some buf) n flag = Some (r, s') \<and> pool_inv s' \<and>
           ph_tblocks (shm_ph s') = ph_tblocks (shm_ph s) \<and>
           (r, pool_abs s') = apool_add (ph_tblocks (shm_ph s)) (pool_abs s) (take (nat n) buf) flag"
proof -
  let ?ph = "shm_ph s" and ?need = "needblocks n"
  let ?ph1 = "pops (room_pops ?ph ?need) ?ph"
  have hi: "head_inv ?ph" and cnt: "ph_count ?ph < MAXE" using inv by (auto simp: pool_inv_def)
  note p = pops_inv [OF hi room_pops_le, of ?need] and nb = needblocks_bounds [OF n(1)]
  have hi1: "head_inv ?ph1" and c1: "ph_count ?ph1 < MAXE" using p cnt by auto
  have free0: "ph_tblocks ?ph - used_blocks (map (ele_packet (eledata s)) (live ?ph)) = ph_fblocks ?ph"
    and free1: "ph_tblocks ?ph - used_blocks (map (ele_packet (eledata s)) (live ?ph1)) = ph_fblocks ?ph1"
    using abs_blocks(2) [OF hi] abs_blocks(2) [OF hi1] by simp_all
  note eq = AddResource_eq [OF inv n, of h flag] and mk = abs_make_room [OF hi, of ?need "eledata s"]
  have len: "int (length (take (nat n) buf)) = n" using n by simp
  show ?thesis
  proof (cases "ph_fblocks ?ph \<le> ?need \<and> ph_fblocks ?ph1 < ?need * 2")
    case True
    have "pool_inv (s\<lparr>shm_ph := ?ph1\<rparr>)" using inv hi1 c1 by (simp add: pool_inv_def)
    moreover have "(- ENOMEM, pool_abs (s\<lparr>shm_ph := ?ph1\<rparr>)) =
        apool_add (ph_tblocks ?ph) (pool_abs s) (take (nat n) buf) flag"
      unfolding apool_add_def pool_abs_def len Let_def prod.case mk free0 free1
      using True by simp
    ultimately show ?thesis using eq True by auto
  next
    case False
    have room: "?need \<le> ph_fblocks ?ph1"
      using False nb(1) p by (auto simp: room_pops_def pops_simps)
    note r = added_refines [OF inv n hi1 c1 room, of flag]
    have "pool_inv (SemAddAll (added s ?ph1 buf n flag))" using r by (simp add: SemAddAll_inv)
    moreover have "(0, pool_abs (SemAddAll (added s ?ph1 buf n flag))) =
        apool_add (ph_tblocks ?ph) (pool_abs s) (take (nat n) buf) flag"
      using r(2) False
      unfolding apool_add_def SemAddAll_sel pool_abs_def [of s] len Let_def prod.case mk free0 free1
      by simp
    moreover have "ph_tblocks (shm_ph (SemAddAll (added s ?ph1 buf n flag))) = ph_tblocks ?ph"
      by (simp add: SemAddAll_sel added_def Let_def push_head_def)
    ultimately show ?thesis using eq False by auto
  qed
qed

end
