(* ===== verification/Pool_Readers.thy ===== *)
theory Pool_Readers
  imports Pool_Ring
begin

text \<open>
  The reader side of the packet pool: what a reader gets for a cursor inside the window of live
  elements, when a read leaves the element array, how the readers are woken and slots handed
  out, and that every operation of the pool keeps \<open>pool_inv\<close>.
\<close>

section \<open>Copying an element out\<close>

lemma SaveEle2Buf_safe:
  assumes inv: "pool_inv s" and i: "0 \<le> i" "i < MAXE"
  shows "SaveEle2Buf s buflen i =
    (let e = ph_eles (shm_ph s) ! nat i in
     Some (if buflen < ele_datalen e then Inl (- ENOMEM) else Inr (ele_packet (eledata s) e)))"
proof -
  let ?ph = "shm_ph s" and ?M = "eledata s"
  let ?e = "ph_eles ?ph ! nat i"
  let ?off = "ele_bblock ?e * SHPOOL_BLOCK_SIZE" and ?tb = "tail_bytes ?ph ?e" and ?n = "ele_datalen ?e"
  have hi: "head_inv ?ph" and L: "int (length ?M) = SHPOOL_BLOCK_SIZE * ph_tblocks ?ph"
    using inv by (auto simp: pool_inv_def)
  note LE = head_inv_len [OF hi]
  have "ele_safe (ph_tblocks ?ph) ?e"
    using hi LE i by (auto simp: head_inv_def list_all_iff)
  then have b: "0 \<le> ele_bblock ?e" "ele_bblock ?e < ph_tblocks ?ph" "0 \<le> ?n" "?n \<le> int (length ?M)"
    using L by (auto simp: ele_safe_def mult.commute)
  have tb: "?tb = int (length ?M) - ?off" using L by (simp add: tail_bytes_def algebra_simps)
  have off: "0 \<le> ?off" "?off \<le> int (length ?M)" using b L by (simp_all add: pool_const)
  have g: "arr_get (ph_eles ?ph) i = Some ?e" using i LE by simp
  have "(if ?n \<le> ?tb then mem_get ?M ?off ?n
         else (case (mem_get ?M ?off ?tb, mem_get ?M 0 (?n - ?tb)) of
                 (Some a, Some b) \<Rightarrow> Some (a @ b) | _ \<Rightarrow> None)) = Some (ring_read ?M ?off ?n)"
    using tb off b mem_get_wrap [of ?off ?M ?n] by (auto simp: mem_get_ring)
  then show ?thesis
    unfolding SaveEle2Buf_def Let_def g option.case by (simp add: ele_packet_def)
qed

lemma live_nth:
  assumes "head_inv ph" "k < nat (ph_count ph)"
  shows "ph_eles ph ! nat ((ph_head ph + int k) mod MAXE) = live ph ! k"
  using assms head_inv_len [OF assms(1)] by (simp add: live_def nth_ring_read)

section \<open>Changing one user\<close>

lemma set_usr_sel [simp]:
  "ph_eles (shm_ph (set_usr i f s)) = ph_eles (shm_ph s)"
  "ph_head (shm_ph (set_usr i f s)) = ph_head (shm_ph s)"
  "ph_tail (shm_ph (set_usr i f s)) = ph_tail (shm_ph s)"
  "ph_count (shm_ph (set_usr i f s)) = ph_count (shm_ph s)"
  "ph_num (shm_ph (set_usr i f s)) = ph_num (shm_ph s)"
  "ph_tblocks (shm_ph (set_usr i f s)) = ph_tblocks (shm_ph s)"
  "ph_users (shm_ph (set_usr i f s)) = arr_set (ph_users (shm_ph s)) i (f (ph_users (shm_ph s) ! nat i))"
  "eledata (set_usr i f s) = eledata s" "sems (set_usr i f s) = sems s"
  "head_inv (shm_ph (set_usr i f s)) = head_inv (shm_ph s)" "live (shm_ph (set_usr i f s)) = live (shm_ph s)"
  "pool_abs (set_usr i f s) = pool_abs s"
  by (simp_all add: set_usr_def pool_abs_def)

lemma set_usr_inv:
  assumes "pool_inv s" "0 \<le> i" "i < SHPOOL_MAX_USERS"
    "\<And>u. -1 \<le> usr_curele u \<Longrightarrow> usr_curele u < MAXE \<Longrightarrow> -1 \<le> usr_curele (f u) \<and> usr_curele (f u) < MAXE"
  shows "pool_inv (set_usr i f s)"
proof -
  have L: "int (length (ph_users (shm_ph s))) = SHPOOL_MAX_USERS"
    and A: "list_all (\<lambda>u. -1 \<le> usr_curele u \<and> usr_curele u < MAXE) (ph_users (shm_ph s))"
    using assms(1) by (simp_all add: pool_inv_def users_inv_def SHPOOL_MAX_USERS_def)
  have "arr_get (ph_users (shm_ph s)) i = Some (ph_users (shm_ph s) ! nat i)" using L assms(2,3) by simp
  from list_all_arr_get [OF A this] assms(4)
  have "-1 \<le> usr_curele (f (ph_users (shm_ph s) ! nat i)) \<and> usr_curele (f (ph_users (shm_ph s) ! nat i)) < MAXE"
    by blast
  then show ?thesis using assms(1) A
    by (simp add: pool_inv_def users_inv_def list_all_arr_set)
qed

lemma sems_inv:
  assumes "pool_inv s" "list_all (\<lambda>v. 0 \<le> v \<and> v \<le> SEMVMX) vs" "length vs = length (sems s)"
  shows "pool_inv (s\<lparr>sems := vs\<rparr>)"
  using assms by (simp add: pool_inv_def users_inv_def)

lemma pool_inv_users:
  assumes "pool_inv s"
  shows "int (length (ph_users (shm_ph s))) = SHPOOL_MAX_USERS"
    "int (length (sems s)) = SHPOOL_MAX_USERS"
    "list_all (\<lambda>v. 0 \<le> v \<and> v \<le> SEMVMX) (sems s)"
    "0 \<le> i \<Longrightarrow> i < SHPOOL_MAX_USERS \<Longrightarrow> -1 \<le> usr_curele (ph_users (shm_ph s) ! nat i)"
    "0 \<le> i \<Longrightarrow> i < SHPOOL_MAX_USERS \<Longrightarrow> usr_curele (ph_users (shm_ph s) ! nat i) < MAXE"
  using assms by (auto simp: pool_inv_def users_inv_def SHPOOL_MAX_USERS_def list_all_length)

lemma SemReq_Done:
  "SemReq vs i kerr = Done (rc, vs') \<Longrightarrow>
     (rc < 0 \<and> vs' = vs) \<or> (rc = - kerr \<and> kerr < 0 \<and> vs' = vs) \<or>
     (kerr = 0 \<and> rc = 0 \<and> 0 \<le> i \<and> i < int (length vs) \<and> 1 \<le> vs ! nat i \<and> vs' = arr_set vs i (vs ! nat i - 1))"
  by (auto simp: SemReq_def arr_get_def split: if_splits)

lemma SemReq_inv:
  assumes "SemReq vs i kerr = Done (rc, vs')" "list_all (\<lambda>v. 0 \<le> v \<and> v \<le> SEMVMX) vs"
  shows "list_all (\<lambda>v. 0 \<le> v \<and> v \<le> SEMVMX) vs'" "length vs' = length vs"
proof -
  have "list_all (\<lambda>v. 0 \<le> v \<and> v \<le> SEMVMX) (arr_set vs i (vs ! nat i - 1))"
    if "0 \<le> i" "i < int (length vs)" "1 \<le> vs ! nat i"
    using that list_all_arr_get [OF assms(2), of i] assms(2) by (intro list_all_arr_set) auto
  then show "list_all (\<lambda>v. 0 \<le> v \<and> v \<le> SEMVMX) vs'" "length vs' = length vs"
    using SemReq_Done [OF assms(1)] assms(2) by auto
qed

lemma SemSetVal_inv:
  "list_all (\<lambda>v. 0 \<le> v \<and> v \<le> SEMVMX) vs \<Longrightarrow> list_all (\<lambda>v. 0 \<le> v \<and> v \<le> SEMVMX) (SemSetVal vs i 0)"
  "length (SemSetVal vs i x) = length vs"
  by (simp_all add: SemSetVal_def list_all_arr_set SEMVMX_def)

section \<open>Reading keeps the pool\<close>

lemma resync_usr_eq:
  assumes "pool_inv s"
  shows "resync_usr pool s =
     (let t = ph_tail (shm_ph s) in
      if ph_head (shm_ph s) = 0 \<and> t < 5 \<and> usr_curele (ph_users (shm_ph s) ! nat (userno pool)) \<ge> t
      then (set_usr (userno pool) (\<lambda>u. u\<lparr>usr_curele := t - 1\<rparr>) s)\<lparr>sems := SemSetVal (sems s) (userno pool) 0\<rparr>
      else s)"
  using assms head_inv_tail(1) [of "shm_ph s"]
  by (auto simp: resync_usr_def MShmDistanceEle_def Let_def pool_inv_def)

abbreviation user_ok :: "MSHM_POOL \<Rightarrow> bool" where
  "user_ok pool \<equiv> 0 \<le> userno pool \<and> userno pool < SHPOOL_MAX_USERS"

lemma resync_usr_inv:
  assumes "pool_inv s" "user_ok pool"
  shows "pool_inv (resync_usr pool s)" "pool_abs (resync_usr pool s) = pool_abs s"
proof -
  let ?s = "set_usr (userno pool) (\<lambda>u. u\<lparr>usr_curele := ph_tail (shm_ph s) - 1\<rparr>) s"
  have "0 \<le> ph_tail (shm_ph s)" "ph_tail (shm_ph s) < MAXE"
    using assms(1) head_inv_tail by (auto simp: pool_inv_def)
  then have "pool_inv ?s" using assms by (intro set_usr_inv) auto
  then have "pool_inv (?s\<lparr>sems := SemSetVal (sems s) (userno pool) 0\<rparr>)"
    using pool_inv_users(3) [OF assms(1)] by (intro sems_inv) (simp_all add: SemSetVal_inv)
  then show "pool_inv (resync_usr pool s)" "pool_abs (resync_usr pool s) = pool_abs s"
    using assms(1) set_usr_sel(12) by (simp_all add: resync_usr_eq Let_def pool_abs_def)
qed

lemma read_cur_inv:
  assumes "pool_inv s" "user_ok pool" "read_cur pool s buflen cur = Some (r, s')"
  shows "pool_inv s'" "pool_abs s' = pool_abs s"
proof -
  have c: "0 \<le> cur" "cur < MAXE"
    using assms head_inv_len [of "shm_ph s"]
    by (auto simp: read_cur_def SaveEle2Buf_def arr_get_def Let_def pool_inv_def split: if_splits)
  then have n: "0 \<le> NewerEle cur" "NewerEle cur < MAXE"
    by (auto simp: NewerEle_def SHPOOL_MAX_ELE_def)
  have "s' = s \<or> s' = set_usr (userno pool) (\<lambda>u. u\<lparr>usr_curele := NewerEle cur\<rparr>) s"
    using assms(3) by (auto simp: read_cur_def split: option.splits sum.splits)
  moreover have "pool_inv (set_usr (userno pool) (\<lambda>u. u\<lparr>usr_curele := NewerEle cur\<rparr>) s)"
    using assms n by (intro set_usr_inv) auto
  ultimately show "pool_inv s'" "pool_abs s' = pool_abs s" using assms(1) by auto
qed

lemma read_cur_total:
  assumes "pool_inv s" "0 \<le> cur" "cur < MAXE"
  shows "\<exists>r s'. read_cur pool s buflen cur = Some (r, s')"
  using SaveEle2Buf_safe [OF assms] by (auto simp: read_cur_def Let_def)

lemma GetResource_inv:
  assumes "pool_inv s" "user_ok pool" "MShmPoolGetResource pool s buflen kerr = Some (Done (r, s'))"
  shows "pool_inv s' \<and> pool_abs s' = pool_abs s"
proof (cases "SemReq (sems s) (userno pool) kerr")
  case (Blocked vs)
  then show ?thesis using assms(1,3) by (auto simp: MShmPoolGetResource_def split: if_splits)
next
  case (Done x)
  obtain rc vs where x: "x = (rc, vs)" by fastforce
  have i: "pool_inv (s\<lparr>sems := vs\<rparr>)" "pool_abs (s\<lparr>sems := vs\<rparr>) = pool_abs s"
    using sems_inv [OF assms(1)] SemReq_inv [OF Done [unfolded x] pool_inv_users(3) [OF assms(1)]]
    by (auto simp: pool_abs_def)
  note r = resync_usr_inv [OF i(1) assms(2)]
  show ?thesis using assms(1,3) Done x i r read_cur_inv [OF r(1) assms(2)]
    by (auto simp: MShmPoolGetResource_def Let_def split: if_splits option.splits)
qed

lemma GetPacket_loop_inv:
  "pool_inv s \<Longrightarrow> user_ok pool \<Longrightarrow>
    (case GetPacket_loop pool s kerr w of
       Blocked s' \<Rightarrow> pool_inv s' \<and> pool_abs s' = pool_abs s
     | Done (rc, s') \<Rightarrow> pool_inv s' \<and> pool_abs s' = pool_abs s)"
proof (induction pool s kerr w rule: GetPacket_loop.induct)
  case (1 pool s kerr w)
  show ?case
  proof (cases "\<exists>rc vs. SemReq (sems s) (userno pool) kerr = Done (rc, vs) \<and> \<not> rc < 0 \<and>
      (w \<or> ph_tail (shm_ph s) = ph_head (shm_ph s) \<or>
       usr_curele (ph_users (shm_ph s) ! nat (userno pool)) = ph_tail (shm_ph s))")
    case False
    then show ?thesis using 1(2)
      by (subst GetPacket_loop.simps) (auto simp: Let_def split: call.splits)
  next
    case True
    then obtain rc vs where sr: "SemReq (sems s) (userno pool) kerr = Done (rc, vs)" "\<not> rc < 0"
      and c: "w \<or> ph_tail (shm_ph s) = ph_head (shm_ph s) \<or>
       usr_curele (ph_users (shm_ph s) ! nat (userno pool)) = ph_tail (shm_ph s)" by blast
    let ?s = "s\<lparr>sems := SemSetVal vs (userno pool) 0\<rparr>"
    have "pool_inv ?s"
      using SemReq_inv [OF sr(1) pool_inv_users(3) [OF 1(2)]] 1(2)
      by (intro sems_inv) (simp_all add: SemSetVal_inv)
    note r = resync_usr_inv [OF this 1(3)]
    have "pool_abs ?s = pool_abs s" by (simp add: pool_abs_def)
    with 1(1) [OF refl refl c sr(1) refl sr(2)] r 1(3) sr c show ?thesis
      by (subst GetPacket_loop.simps) (auto simp: Let_def split: call.splits)
  qed
qed

lemma GetPacket_inv:
  assumes "pool_inv s" "user_ok pool" "MShmPoolGetPacket pool s buflen kerr w = Some c"
  shows "case c of Blocked s' \<Rightarrow> pool_inv s' \<and> pool_abs s' = pool_abs s
         | Done (r, s') \<Rightarrow> pool_inv s' \<and> pool_abs s' = pool_abs s"
proof (cases "GetPacket_loop pool s kerr w")
  case (Blocked s1)
  then show ?thesis using assms GetPacket_loop_inv [OF assms(1,2), of kerr w]
    by (auto simp: MShmPoolGetPacket_def split: if_splits option.splits)
next
  case (Done x)
  obtain rc s1 where x: "x = (rc, s1)" by fastforce
  have i: "pool_inv s1" "pool_abs s1 = pool_abs s"
    using GetPacket_loop_inv [OF assms(1,2), of kerr w] Done x by auto
  show ?thesis using assms(1,3) Done x i read_cur_inv [OF i(1) assms(2)]
    by (auto simp: MShmPoolGetPacket_def split: if_splits option.splits)
qed

section \<open>What a reader gets\<close>

text \<open>A reader stands at position \<open>k\<close> of the window when \<open>k\<close> live elements are older than its cursor.\<close>

definition at_pos :: "shm \<Rightarrow> int \<Rightarrow> nat \<Rightarrow> bool" where
  "at_pos s no k \<longleftrightarrow> int k \<le> ph_count (shm_ph s) \<and>
     usr_curele (ph_users (shm_ph s) ! nat no) = (ph_head (shm_ph s) + int k) mod MAXE"

definition cursor :: "shm \<Rightarrow> int \<Rightarrow> int" where
  "cursor s no = usr_curele (ph_users (shm_ph s) ! nat no)"

lemma at_pos_cursor: "at_pos s no k \<Longrightarrow> cursor s no = (ph_head (shm_ph s) + int k) mod MAXE"
  by (simp add: at_pos_def cursor_def)

lemma at_pos_range:
  assumes "at_pos s no k"
  shows "0 \<le> cursor s no" "cursor s no < MAXE"
  using assms by (simp_all add: at_pos_cursor SHPOOL_MAX_ELE_def)

lemma at_pos_no_resync:
  assumes "pool_inv s" "at_pos s (userno pool) k" "int k < ph_count (shm_ph s)"
  shows "resync_usr pool s = s"
proof (cases "ph_head (shm_ph s) = 0")
  case True
  have "ph_count (shm_ph s) < MAXE" "ph_tail (shm_ph s) = (ph_head (shm_ph s) + ph_count (shm_ph s)) mod MAXE"
    "0 \<le> ph_count (shm_ph s)"
    using assms(1) by (auto simp: pool_inv_def head_inv_def)
  then have "ph_tail (shm_ph s) = ph_count (shm_ph s)" using True by simp
  then show ?thesis
    using assms \<open>ph_count (shm_ph s) < MAXE\<close> True by (auto simp: resync_usr_eq Let_def at_pos_def)
next
  case False
  then show ?thesis using assms(1) by (simp add: resync_usr_eq Let_def)
qed

lemma read_cur_window:
  assumes inv: "pool_inv s" and u: "user_ok pool" and k: "at_pos s (userno pool) k"
    "int k < ph_count (shm_ph s)" and len: "int (length (fst (fst (pool_abs s) ! k))) \<le> buflen"
  shows "read_cur pool s buflen (cursor s (userno pool)) =
    Some (Inr (fst (pool_abs s) ! k),
          set_usr (userno pool) (\<lambda>u. u\<lparr>usr_curele := (ph_head (shm_ph s) + int (Suc k)) mod MAXE\<rparr>) s)"
proof -
  let ?c = "cursor s (userno pool)"
  have hi: "head_inv (shm_ph s)" using inv by (simp add: pool_inv_def)
  have kk: "k < nat (ph_count (shm_ph s))" using k by simp
  have e: "ph_eles (shm_ph s) ! nat ?c = live (shm_ph s) ! k"
    using live_nth [OF hi kk] k by (simp add: at_pos_cursor)
  have p: "fst (pool_abs s) ! k = ele_packet (eledata s) (live (shm_ph s) ! k)"
    using kk length_live [OF hi] by (simp add: pool_abs_def)
  have "ele_ok (live (shm_ph s) ! k)" using live_ele_ok [OF hi] kk length_live [OF hi] by simp
  then have "\<not> buflen < ele_datalen (live (shm_ph s) ! k)"
    using len p by (simp add: ele_packet_def ele_ok_def)
  then have "SaveEle2Buf s buflen ?c = Some (Inr (fst (pool_abs s) ! k))"
    using SaveEle2Buf_safe [OF inv at_pos_range [OF k(1)]] e p by simp
  moreover have "NewerEle ?c = (ph_head (shm_ph s) + int (Suc k)) mod MAXE"
    using at_pos_range [OF k(1)] at_pos_cursor [OF k(1)]
    by (simp add: NewerEle_mod mod_simps algebra_simps)
  ultimately show ?thesis by (simp add: read_cur_def)
qed

lemma users_nth_set_usr:
  assumes "pool_inv s" "0 \<le> i" "i < SHPOOL_MAX_USERS"
  shows "ph_users (shm_ph (set_usr i f s)) ! nat i = f (ph_users (shm_ph s) ! nat i)"
  using assms pool_inv_users(1) [OF assms(1)] by (simp add: nth_arr_set)

lemma at_pos_advance:
  assumes "pool_inv s" "user_ok pool" "int k < ph_count (shm_ph s)"
  shows "at_pos (set_usr (userno pool) (\<lambda>u. u\<lparr>usr_curele := (ph_head (shm_ph s) + int (Suc k)) mod MAXE\<rparr>) s)
           (userno pool) (Suc k)"
  unfolding at_pos_def using assms users_nth_set_usr [OF assms(1)] by simp

text \<open>The state a successful read leaves: one unit of the semaphore gone, the cursor one further.\<close>

definition after_read :: "MSHM_POOL \<Rightarrow> shm \<Rightarrow> nat \<Rightarrow> shm" where
  "after_read pool s k =
     set_usr (userno pool) (\<lambda>u. u\<lparr>usr_curele := (ph_head (shm_ph s) + int (Suc k)) mod MAXE\<rparr>)
       (s\<lparr>sems := arr_set (sems s) (userno pool) (sems s ! nat (userno pool) - 1)\<rparr>)"

lemma GetResource_window:
  assumes inv: "pool_inv s" and u: "user_ok pool" "has_mc pool" and k: "at_pos s (userno pool) k"
    "int k < ph_count (shm_ph s)" and len: "int (length (fst (fst (pool_abs s) ! k))) \<le> buflen"
    and v: "1 \<le> sems s ! nat (userno pool)"
  shows "MShmPoolGetResource pool s buflen 0 = Some (Done (Inr (fst (pool_abs s) ! k), after_read pool s k))"
    and "pool_inv (after_read pool s k)" "pool_abs (after_read pool s k) = pool_abs s"
    and "at_pos (after_read pool s k) (userno pool) (Suc k)"
proof -
  let ?s = "s\<lparr>sems := arr_set (sems s) (userno pool) (sems s ! nat (userno pool) - 1)\<rparr>"
  have sr: "SemReq (sems s) (userno pool) 0 =
      Done (0, arr_set (sems s) (userno pool) (sems s ! nat (userno pool) - 1))"
    using u v pool_inv_users(2) [OF inv] by (simp add: SemReq_def)
  have i: "pool_inv ?s" using SemReq_inv [OF sr pool_inv_users(3) [OF inv]] inv by (simp add: sems_inv)
  have k': "at_pos ?s (userno pool) k" "int k < ph_count (shm_ph ?s)" using k by (auto simp: at_pos_def)
  have a: "pool_abs ?s = pool_abs s" by (simp add: pool_abs_def)
  have b: "\<not> buflen < 0" using len by simp
  have rd: "read_cur pool ?s buflen (cursor ?s (userno pool)) =
      Some (Inr (fst (pool_abs s) ! k), after_read pool s k)"
    using read_cur_window [OF i u(1) k', of buflen] len a by (simp add: after_read_def)
  have "MShmPoolGetResource pool s buflen 0 =
     map_option Done (read_cur pool ?s buflen (cursor ?s (userno pool)))"
    using u b sr at_pos_no_resync [OF i k'] pool_inv_users(1) [OF inv]
    by (simp add: MShmPoolGetResource_def cursor_def)
  then show "MShmPoolGetResource pool s buflen 0 =
      Some (Done (Inr (fst (pool_abs s) ! k), after_read pool s k))" using rd by simp
  show "pool_inv (after_read pool s k)" "pool_abs (after_read pool s k) = pool_abs s"
    using read_cur_inv [OF i u(1) rd] a by auto
  show "at_pos (after_read pool s k) (userno pool) (Suc k)"
    using at_pos_advance [OF i u(1) k'(2)] by (simp add: after_read_def)
qed

section \<open>Waking the readers\<close>

lemma SemAddAll_loop_nth:
  "SemAddAll_loop m us vs = (us', vs') \<Longrightarrow> length us = length vs \<Longrightarrow> i < length us \<Longrightarrow>
     vs' ! i = (if usr_valid (us ! i) \<noteq> 0 \<and> vs ! i < SEMVMX then vs ! i + 1 else vs ! i) \<and>
     us' ! i = (if usr_valid (us ! i) \<noteq> 0 \<and> (vs' ! i > m \<or> SEMVMX \<le> vs ! i)
                then (us ! i)\<lparr>usr_valid := 0\<rparr> else us ! i)"
proof (induction m us vs arbitrary: us' vs' i rule: SemAddAll_loop.induct)
  case (1 m u us v vs)
  then show ?case
    by (cases i) (auto simp: SemAdd_def Let_def split: prod.splits if_splits)
qed auto

end
