(* ===== verification/Pool_Steps.thy ===== *)
theory Pool_Steps
  imports Pool_Readers
begin

text \<open>
  The pool as a state machine. \<open>pool_step\<close> has one rule per exported operation of
  \<open>mshmpool.c\<close>; \<open>pool_reach\<close> are the states that operations lead to from a pool created in a
  fresh segment. The invariant \<open>pool_inv\<close> holds in all of them.
\<close>

section \<open>Creation\<close>

definition zero_usr :: SHPOOL_USR where
  "zero_usr = \<lparr>usr_valid = 0, usr_curele = 0, usr_upid = 0, usr_stime = 0, usr_name = [],
               usr_type = 0, usr_info = []\<rparr>"

text \<open>A segment with \<open>n\<close> bytes behind the header, as the kernel hands it out: all bytes zero.\<close>

definition zero_head :: SHPOOL_HEAD where
  "zero_head = \<lparr>ph_maxsem = 0, ph_num = 0, ph_tblocks = 0, ph_fblocks = 0, ph_fbstart = 0,
     ph_boffset = 0, ph_count = 0, ph_head = 0, ph_tail = 0, ph_semkey = 0, ph_semid = 0,
     ph_last_usr_no = 0, ph_send_bytes = 0, ph_pinfo = [],
     ph_eles = replicate (nat SHPOOL_MAX_ELE) zero_ele,
     ph_users = replicate (nat SHPOOL_MAX_USERS) zero_usr\<rparr>"

definition fresh_shm :: "nat \<Rightarrow> shm" where
  "fresh_shm n = \<lparr>shm_ph = zero_head, eledata = [], seg_rest = replicate n 0, sems = replicate (nat SHPOOL_MAX_USERS) 0,
     newmaxsem = -1, oldmaxsem = 100, places = 0\<rparr>"

lemma pool_tblocks_pos:
  assumes "SHPOOL_BLOCK_SIZE \<le> ps" "0 < bytes"
  shows "0 < pool_tblocks ps bytes"
proof -
  have p: "0 < ps" using assms by (simp add: SHPOOL_BLOCK_SIZE_def)
  have *: "1 * ps \<le> ((bytes - 1) div ps + 1) * ps"
    using assms p by (intro mult_right_mono) (simp_all add: pos_imp_zdiv_nonneg_iff)
  have "512 \<le> ((bytes - 1) div ps + 1) * ps"
    using assms(1) by (intro order_trans [OF _ *]) (simp add: SHPOOL_BLOCK_SIZE_def)
  then show ?thesis
    using p assms by (simp add: pool_tblocks_def sdiv_nonneg SHPOOL_BLOCK_SIZE_def pos_imp_zdiv_pos_iff)
qed

lemma live_empty: "ph_count ph = 0 \<Longrightarrow> live ph = []"
  by (simp add: live_def ring_read_def)

lemma list_all_replicate: "P x \<Longrightarrow> list_all P (replicate n x)"
  by (induction n) auto

lemma Create_Done:
  assumes "MShmPoolCreate e p old pkey bytes = Some (0, p', s')" "users_inv (ph_users (shm_ph old)) (sems old)"
    "SHPOOL_BLOCK_SIZE \<le> ce_pagesize e"
    "ce_core e \<ge> 0"
  shows "pool_inv s' \<and> fst (pool_abs s') = [] \<and> snd (pool_abs s') = 0 \<and>
         ph_tblocks (shm_ph s') = pool_tblocks (ce_pagesize e) bytes \<and>
         ph_users (shm_ph s') = ph_users (shm_ph old)"
proof -
  let ?T = "pool_tblocks (ce_pagesize e) bytes"
  obtain h where h: "p = Some h" "\<not> (pkey < 0 \<or> bytes \<le> 0)" "ce_core e = 0"
    using assms(1,4) by (auto simp: MShmPoolCreate_def Let_def split: option.splits if_splits)
  then have T: "0 < ?T" using pool_tblocks_pos assms(3) by simp
  have z8: "list_all (\<lambda>v. 0 \<le> v \<and> v \<le> SEMVMX) (replicate (nat SHPOOL_MAX_USERS) 0)"
    by (simp add: list_all_replicate SEMVMX_def)
  have sv: "list_all (\<lambda>v. 0 \<le> v \<and> v \<le> SEMVMX) (sems s')" "length (sems s') = nat SHPOOL_MAX_USERS"
    using assms(1,2) h
    by (auto simp: MShmPoolCreate_def Let_def users_inv_def SemSetVal_inv z8 split: if_splits)
  have z: "ele_safe ?T zero_ele" using T by (simp add: ele_safe_def zero_ele_def SHPOOL_BLOCK_SIZE_def)
  have f: "ph_tblocks (shm_ph s') = ?T" "ph_fblocks (shm_ph s') = ?T" "ph_fbstart (shm_ph s') = 0"
    "ph_count (shm_ph s') = 0" "ph_head (shm_ph s') = 0" "ph_tail (shm_ph s') = 0" "ph_num (shm_ph s') = 0"
    "ph_eles (shm_ph s') = replicate (nat MAXE) zero_ele" "ph_users (shm_ph s') = ph_users (shm_ph old)"
    "eledata s' = replicate (nat (SHPOOL_BLOCK_SIZE * ?T)) 0"
    using assms(1) h by (auto simp: MShmPoolCreate_def Let_def init_head_def split: if_splits)
  have "head_inv (shm_ph s')"
    using f T z live_empty [OF f(4)] by (simp add: head_inv_def list_all_replicate SHPOOL_MAX_ELE_def)
  then show ?thesis
    using f sv assms(2) T live_empty [OF f(4)]
    by (simp add: pool_inv_def users_inv_def pool_abs_def pool_const)
qed

lemma Create_frame:
  assumes "MShmPoolCreate e p old pkey bytes = Some (0, p', s')" "0 \<le> ce_core e"
  shows "ph_boffset (shm_ph s') = ((ce_headsize e - 1) sdiv ce_pagesize e + 1) * ce_pagesize e"
    "ph_head (shm_ph s') = 0" "ph_tail (shm_ph s') = 0" "ph_count (shm_ph s') = 0" "ph_last_usr_no (shm_ph s') = -1"
    "newmaxsem s' = newmaxsem old" "oldmaxsem s' = 100" "0 < bytes"
    "sems s' = SemSetVal (if 0 \<le> ce_semget_excl e then replicate (nat SHPOOL_MAX_USERS) 0 else sems old) 0 0"
  using assms by (auto simp: MShmPoolCreate_def Let_def init_head_def split: option.splits if_splits)

section \<open>The other operations keep the invariant\<close>

lemma scan_free_Some:
  "scan_free us is = Some (Some i) \<Longrightarrow> i \<in> set is \<and> (\<exists>u. arr_get us i = Some u \<and> usr_valid u = 0)"
  by (induction us "is" rule: scan_free.induct) (auto split: option.splits if_splits)

lemma GetAFreeUsrNo_frame:
  assumes "GetAFreeUsrNo ph = Some (no, ph')"
  obtains k where "ph' = ph\<lparr>ph_last_usr_no := k\<rparr>"
  using assms by (auto simp: GetAFreeUsrNo_def Let_def split: option.splits)

lemma GetAFreeUsrNo_slot:
  assumes "GetAFreeUsrNo ph = Some (no, ph')" "0 \<le> no"
  shows "no < int (length (ph_users ph)) \<and> usr_valid (ph_users ph ! nat no) = 0"
  using assms scan_free_Some
  by (fastforce simp: GetAFreeUsrNo_def Let_def arr_get_def split: option.splits if_splits)

lemma map_ph_users_inv:
  assumes "pool_inv s" "map usr_curele us = map usr_curele (ph_users (shm_ph s))"
  shows "pool_inv (map_ph (\<lambda>ph. ph\<lparr>ph_users := us\<rparr>) s)"
    "pool_abs (map_ph (\<lambda>ph. ph\<lparr>ph_users := us\<rparr>) s) = pool_abs s"
  using assms curele_inv_cong [OF assms(2), of "\<lambda>c. -1 \<le> c \<and> c < MAXE"] map_eq_imp_length_eq [OF assms(2)]
  by (simp_all add: pool_inv_def users_inv_def pool_abs_def)

lemma del_by_pid_curele: "map usr_curele (snd (del_by_pid pid us)) = map usr_curele us"
  by (induction us) (auto split: prod.splits)

lemma SetUserName_inv:
  "pool_inv s \<Longrightarrow> MShmPoolSetUserName p s no nm = (r, s') \<Longrightarrow> pool_inv s' \<and> pool_abs s' = pool_abs s"
  by (auto simp: MShmPoolSetUserName_def split: option.splits if_splits intro!: set_usr_inv)

lemma Req_inv:
  assumes inv: "pool_inv s"
    and req: "MShmPoolReq p s pkey name type core uoffset pid now = Some (r, p', s')"
  shows "pool_inv s' \<and> pool_abs s' = pool_abs s"
proof (cases "s' = s")
  case False
  then obtain no ph1 where g: "GetAFreeUsrNo (shm_ph s) = Some (no, ph1)"
    using req by (auto simp: MShmPoolReq_def split: option.splits prod.splits if_splits)
  obtain k where k: "ph1 = (shm_ph s)\<lparr>ph_last_usr_no := k\<rparr>" using GetAFreeUsrNo_frame [OF g] .
  let ?s1 = "s\<lparr>shm_ph := ph1, sems := SemSetVal (sems s) no 0\<rparr>"
  let ?s0 = "s\<lparr>shm_ph := ph1\<rparr>"
  have i0: "pool_inv ?s0" "pool_abs ?s0 = pool_abs s" using inv k by (simp_all add: pool_inv_def pool_abs_def)
  then have "pool_inv (?s0\<lparr>sems := SemSetVal (sems s) no 0\<rparr>)"
    using pool_inv_users(3) [OF inv] by (intro sems_inv) (simp_all add: SemSetVal_inv)
  then have i1: "pool_inv ?s1" "pool_abs ?s1 = pool_abs s" using k by (simp_all add: pool_abs_def)
  let ?f = "\<lambda>u. u\<lparr>usr_valid := 1, usr_curele := ph_tail ph1, usr_type := type, usr_upid := pid, usr_stime := now\<rparr>"
  have t: "0 \<le> ph_tail ph1" "ph_tail ph1 < MAXE"
    using head_inv_tail(1,2) [of "shm_ph s"] inv k by (auto simp: pool_inv_def)
  have slot: "no < SHPOOL_MAX_USERS" if "0 \<le> no"
    using GetAFreeUsrNo_slot [OF g that] pool_inv_users(1) [OF inv] by simp
  show ?thesis
  proof (cases "no < 0")
    case True
    then show ?thesis using req g i0 False
      by (auto simp: MShmPoolReq_def split: option.splits prod.splits if_splits)
  next
    case ge: False
    have "pool_inv (set_usr no ?f ?s1)" using i1 slot ge t by (intro set_usr_inv) auto
    moreover obtain h nm where "s' = snd (MShmPoolSetUserName (Some h) (set_usr no ?f ?s1) no (Some nm))"
      using req g ge False by (auto simp: MShmPoolReq_def Let_def split: option.splits prod.splits if_splits)
    ultimately show ?thesis
      using SetUserName_inv [of "set_usr no ?f ?s1" "Some h" no "Some nm"] i1
      by (metis prod.collapse set_usr_sel(12))
  qed
qed (simp add: inv)

lemma mv_loop_range:
  assumes "\<And>t. -1 \<le> t \<Longrightarrow> t < MAXE \<Longrightarrow> -1 \<le> step t \<and> step t < MAXE" "-1 \<le> temp" "temp < MAXE"
  shows "-1 \<le> fst (mv_loop step stop n temp m) \<and> fst (mv_loop step stop n temp m) < MAXE"
  using assms(2,3)
  by (induction n arbitrary: temp m) (auto simp: Let_def assms(1))

lemma step_range:
  "-1 \<le> t \<Longrightarrow> t < MAXE \<Longrightarrow> -1 \<le> NewerEle t \<and> NewerEle t < MAXE"
  "-1 \<le> t \<Longrightarrow> t < MAXE \<Longrightarrow> -1 \<le> OlderEle t \<and> OlderEle t < MAXE"
  by (auto simp: NewerEle_def OlderEle_def SHPOOL_MAX_ELE_def)

lemma MvNewPlace_inv:
  assumes "pool_inv s" "user_ok pool" "MShmPoolMvNewPlace pool s place = Some (r, s')"
  shows "pool_inv s' \<and> pool_abs s' = pool_abs s"
proof -
  let ?cur = "usr_curele (ph_users (shm_ph s) ! nat (userno pool))"
  note c = pool_inv_users(4,5) [OF assms(1), of "userno pool"]
  have i: "pool_inv (set_usr (userno pool) (\<lambda>u. u\<lparr>usr_curele := t\<rparr>) s)" if "-1 \<le> t" "t < MAXE" for t
    using assms that by (intro set_usr_inv) auto
  have o: "-1 \<le> fst (mv_loop OlderEle st n ?cur 0)" "fst (mv_loop OlderEle st n ?cur 0) < MAXE"
       and n: "-1 \<le> fst (mv_loop NewerEle st n ?cur 0)" "fst (mv_loop NewerEle st n ?cur 0) < MAXE" for st n
    using mv_loop_range [OF step_range(2), where temp = ?cur]
      mv_loop_range [OF step_range(1), where temp = ?cur] c assms(2) by auto
  show ?thesis
    using assms(1,3) i o [of "ph_head (shm_ph s)" "nat (- place)"] n [of "ph_tail (shm_ph s)" "nat place"]
    by (auto simp: MShmPoolMvNewPlace_def Let_def arr_get_def split: if_splits prod.splits)
qed

section \<open>The state machine\<close>

text \<open>
  A handle that reads, moves or is freed belongs to a registered reader, so its user number is
  one of the eight slots. A producer that comes back creates the pool again over the old
  content, with any result: a creation that fails because the semaphores cannot be had has
  already re-initialised the header, and is then one of the old size. A call that would leave an
  array or the segment has no step.
\<close>

inductive pool_step :: "shm \<Rightarrow> shm \<Rightarrow> bool" where
  add: "MShmPoolAddResource p s buf n flag = Some (r, s') \<Longrightarrow>
          (\<forall>bs. buf = Some bs \<longrightarrow> n \<le> int (length bs)) \<Longrightarrow> pool_step s s'"
| req: "MShmPoolReq p s pkey name type core uoffset pid now = Some (r, p', s') \<Longrightarrow> pool_step s s'"
| free: "MShmPoolReqFree (Some h) s = (r, p', s') \<Longrightarrow> user_ok h \<Longrightarrow> pool_step s s'"
| get: "MShmPoolGetResource h s buflen kerr = Some (Done (r, s')) \<Longrightarrow> user_ok h \<Longrightarrow> pool_step s s'"
| packet: "MShmPoolGetPacket h s buflen kerr w = Some (Done (r, s')) \<Longrightarrow> user_ok h \<Longrightarrow> pool_step s s'"
| wait: "MShmPoolGetPacket h s buflen kerr w = Some (Blocked s') \<Longrightarrow> user_ok h \<Longrightarrow> pool_step s s'"
| mv: "MShmPoolMvNewPlace h s place = Some (r, s') \<Longrightarrow> user_ok h \<Longrightarrow> pool_step s s'"
| mvusr: "MShmPoolMvUsrPlace h s place = Some (r, s') \<Longrightarrow> user_ok h \<Longrightarrow> pool_step s s'"
| setname: "MShmPoolSetUserName p s no nm = (r, s') \<Longrightarrow> pool_step s s'"
| delpid: "MShmPoolDelUsrByPid p s pid = (r, s') \<Longrightarrow> pool_step s s'"
| setmax: "MShmPoolSetMaxNum s num = (r, s') \<Longrightarrow> pool_step s s'"
| setmax_t: "MSHmPoolSetMaxNum_t s num = s' \<Longrightarrow> pool_step s s'"
| reactive: "MShmPoolReActiveUsr (Some h) s = Some (r, s') \<Longrightarrow> user_ok h \<Longrightarrow> pool_step s s'"
| recreate: "MShmPoolCreate e p s pkey bytes = Some (r, p', s') \<Longrightarrow> SHPOOL_BLOCK_SIZE \<le> ce_pagesize e \<Longrightarrow>
     0 \<le> ce_core e \<Longrightarrow> r = - ENAVAIL \<longrightarrow> pool_tblocks (ce_pagesize e) bytes = ph_tblocks (shm_ph s) \<Longrightarrow>
     pool_step s s'"

inductive pool_reach :: "shm \<Rightarrow> bool" where
  init: "MShmPoolCreate e p (fresh_shm n) pkey bytes = Some (0, p', s) \<Longrightarrow> SHPOOL_BLOCK_SIZE \<le> ce_pagesize e \<Longrightarrow>
     0 \<le> ce_core e \<Longrightarrow> pool_reach s"
| step: "pool_reach s \<Longrightarrow> pool_step s s' \<Longrightarrow> pool_reach s'"

lemma AddResource_inv:
  assumes "pool_inv s" "MShmPoolAddResource p s buf n flag = Some (r, s')"
    "\<forall>bs. buf = Some bs \<longrightarrow> n \<le> int (length bs)"
  shows "pool_inv s'"
proof (cases "p = None \<or> buf = None \<or> n < 0")
  case True
  then show ?thesis using assms(1,2)
    by (auto simp: MShmPoolAddResource_def split: option.splits if_splits)
next
  case False
  then obtain h bs where "p = Some h" "buf = Some bs" by auto
  then show ?thesis
    using AddResource_refines [OF assms(1), of n bs h flag] False assms(2,3) by auto
qed

lemma ReqFree_inv:
  assumes "pool_inv s" "MShmPoolReqFree (Some h) s = (r, p', s')" "user_ok h"
  shows "pool_inv s'"
  using assms by (auto simp: MShmPoolReqFree_def split: if_splits intro!: set_usr_inv)

lemma ReActiveUsr_inv:
  assumes "pool_inv s" "MShmPoolReActiveUsr (Some h) s = Some (r, s')" "user_ok h"
  shows "pool_inv s'"
  using assms by (auto simp: MShmPoolReActiveUsr_def split: if_splits option.splits intro!: set_usr_inv)

lemma DelUsrByPid_inv:
  assumes "pool_inv s" "MShmPoolDelUsrByPid p s pid = (r, s')"
  shows "pool_inv s'"
  using assms map_ph_users_inv [OF assms(1)] del_by_pid_curele [of pid "ph_users (shm_ph s)"]
  by (auto simp: MShmPoolDelUsrByPid_def split: option.splits if_splits prod.splits)

text \<open>
  A creation that fails for want of the semaphores leaves the old elements and data under a new
  header; with the old size that is an empty well-formed pool.
\<close>

lemma Create_semget_fails:
  assumes "MShmPoolCreate e p s pkey bytes = Some (r, p', s')" "r \<noteq> 0" "pool_inv s" "s' \<noteq> s"
  shows "r = - ENAVAIL \<and> (\<exists>id. shm_ph s' = (init_head e bytes (shm_ph s))\<lparr>ph_semid := id\<rparr>) \<and>
     eledata s' = take (nat (SHPOOL_BLOCK_SIZE * pool_tblocks (ce_pagesize e) bytes)) (eledata s @ seg_rest s) \<and>
     sems s' = sems s"
  using assms by (auto simp: MShmPoolCreate_def Let_def init_head_def split: option.splits if_splits)

lemma Create_inv:
  assumes "pool_inv s" "MShmPoolCreate e p s pkey bytes = Some (r, p', s')" "SHPOOL_BLOCK_SIZE \<le> ce_pagesize e"
    "0 \<le> ce_core e" "r = - ENAVAIL \<longrightarrow> pool_tblocks (ce_pagesize e) bytes = ph_tblocks (shm_ph s)"
  shows "pool_inv s'"
proof -
  have u: "users_inv (ph_users (shm_ph s)) (sems s)" using assms(1) by (simp add: pool_inv_def)
  consider "r = 0" | "s' = s" | "r \<noteq> 0" "s' \<noteq> s" by blast
  then show ?thesis
  proof cases
    case 1
    then show ?thesis using Create_Done [OF _ u] assms by blast
  next
    case 3
    obtain id where c: "r = - ENAVAIL" "shm_ph s' = (init_head e bytes (shm_ph s))\<lparr>ph_semid := id\<rparr>" "sems s' = sems s"
        "eledata s' = take (nat (SHPOOL_BLOCK_SIZE * pool_tblocks (ce_pagesize e) bytes)) (eledata s @ seg_rest s)"
      using Create_semget_fails [OF assms(2) 3(1) assms(1) 3(2)] by blast
    then have T: "pool_tblocks (ce_pagesize e) bytes = ph_tblocks (shm_ph s)" using assms(5) by simp
    then have h: "ph_tblocks (shm_ph s') = ph_tblocks (shm_ph s)" "ph_fblocks (shm_ph s') = ph_tblocks (shm_ph s)"
        "ph_fbstart (shm_ph s') = 0" "ph_count (shm_ph s') = 0" "ph_head (shm_ph s') = 0" "ph_tail (shm_ph s') = 0"
        "ph_num (shm_ph s') = 0" "ph_eles (shm_ph s') = ph_eles (shm_ph s)" "ph_users (shm_ph s') = ph_users (shm_ph s)"
      using c(2) by (simp_all add: init_head_def)
    have e: "length (eledata s) = nat (SHPOOL_BLOCK_SIZE * ph_tblocks (shm_ph s))"
      using assms(1) nat_int unfolding pool_inv_def by metis
    have "eledata s' = eledata s" unfolding c(4) T e [symmetric] by simp
    then show ?thesis using h c(3) assms(1) live_empty [OF h(4)] by (simp add: pool_inv_def head_inv_def)
  qed (use assms in simp)
qed

text \<open>
  With another size it is not: after a failed creation that asks for more blocks than the
  segment has, the header speaks of blocks behind the segment.
\<close>

lemma failed_creation_breaks_pool:
  assumes "MShmPoolCreate e p s pkey bytes = Some (- ENAVAIL, p', s')" "ce_core e = 0"
    "int (length (eledata s @ seg_rest s)) < SHPOOL_BLOCK_SIZE * pool_tblocks (ce_pagesize e) bytes"
  shows "\<not> pool_inv s'"
proof -
  have "ph_tblocks (shm_ph s') = pool_tblocks (ce_pagesize e) bytes" "eledata s' = eledata s @ seg_rest s"
    using assms by (auto simp: MShmPoolCreate_def Let_def init_head_def split: option.splits if_splits)
  then show ?thesis using assms(3) by (auto simp: pool_inv_def)
qed

lemma pool_step_inv:
  assumes "pool_step s s'" "pool_inv s"
  shows "pool_inv s'"
  using assms
proof (cases rule: pool_step.cases)
  case (packet h buflen kerr w r)
  then show ?thesis using GetPacket_inv assms(2) by fastforce
next
  case (wait h buflen kerr w)
  then show ?thesis using GetPacket_inv assms(2) by fastforce
next
  case (mvusr h place r)
  then obtain s1 where "MShmPoolMvNewPlace h s place = Some (r, s1)" "s' = s1 \<or> s' = s1\<lparr>places := r\<rparr>"
    by (auto simp: MShmPoolMvUsrPlace_def split: option.splits if_splits)
  then show ?thesis using MvNewPlace_inv [OF assms(2) mvusr(2)] by (auto simp: pool_inv_def)
next
  case (recreate e p pkey bytes r p')
  then show ?thesis using Create_inv [OF assms(2)] by blast
next
  case (setmax_t num)
  then show ?thesis using assms(2) by (auto simp: MSHmPoolSetMaxNum_t_def pool_inv_def)
qed (use assms(2) in \<open>auto simp: MShmPoolSetMaxNum_def
       dest: AddResource_inv Req_inv ReqFree_inv GetResource_inv MvNewPlace_inv SetUserName_inv
             DelUsrByPid_inv ReActiveUsr_inv\<close>)

lemma pool_reach_inv: "pool_reach s \<Longrightarrow> pool_inv s"
proof (induction rule: pool_reach.induct)
  case (init e p n pkey bytes p' s)
  have "users_inv (ph_users (shm_ph (fresh_shm n))) (sems (fresh_shm n))"
    by (simp add: users_inv_def fresh_shm_def zero_head_def zero_usr_def list_all_replicate SEMVMX_def
        SHPOOL_MAX_ELE_def)
  then show ?case using Create_Done [OF init(1)] init by simp
qed (rule pool_step_inv)

end
