(* ===== verification/Packet_Log.thy ===== *)
theory Packet_Log
  imports Prelude "HOL-Library.Sublist"
begin

text \<open>
  The contract between the packet pool and its clients (the capture, storage and streaming
  processes). \<open>packet_log\<close> is the producer's view: an append keeps the newest packets and may
  drop the oldest. \<open>packet_channel\<close> adds one reader with a count of unread packets. What a
  client may conclude for whole runs is proved once, inside the locales.
\<close>

section \<open>Runs\<close>

fun log_run :: "('s \<Rightarrow> 'i \<Rightarrow> (int \<times> 's) option) \<Rightarrow> ('s \<Rightarrow> 'i \<Rightarrow> 'p) \<Rightarrow> 's \<Rightarrow> 'i list \<Rightarrow>
    ('s \<times> 'p list) option" where
  "log_run add pkt s [] = Some (s, [])"
| "log_run add pkt s (i # is) =
     (case add s i of
        None \<Rightarrow> None
      | Some (r, s1) \<Rightarrow>
          (case log_run add pkt s1 is of
             None \<Rightarrow> None
           | Some (s2, h) \<Rightarrow> Some (s2, if r = 0 then pkt s i # h else h)))"

datatype 'i event = Write 'i | Read

fun chan_run :: "('s \<Rightarrow> 'i \<Rightarrow> (int \<times> 's) option) \<Rightarrow> ('s \<Rightarrow> 'i \<Rightarrow> 'p) \<Rightarrow> ('s \<Rightarrow> ('p \<times> 's) option) \<Rightarrow>
    's \<Rightarrow> 'i event list \<Rightarrow> ('s \<times> 'p list \<times> 'p list) option" where
  "chan_run add pkt rd s [] = Some (s, [], [])"
| "chan_run add pkt rd s (Write i # es) =
     (case add s i of
        None \<Rightarrow> None
      | Some (r, s1) \<Rightarrow>
          map_option (\<lambda>(s2, ws, rs). (s2, if r = 0 then pkt s i # ws else ws, rs)) (chan_run add pkt rd s1 es))"
| "chan_run add pkt rd s (Read # es) =
     (case rd s of
        None \<Rightarrow> None
      | Some (p, s1) \<Rightarrow> map_option (\<lambda>(s2, ws, rs). (s2, ws, p # rs)) (chan_run add pkt rd s1 es))"

text \<open>
  The reader keeps up with a schedule: it reads only when something is unread, and no write
  drops a packet it has not read.
\<close>

fun keeps_up :: "('s \<Rightarrow> 'i \<Rightarrow> (int \<times> 's) option) \<Rightarrow> ('s \<Rightarrow> ('p \<times> 's) option) \<Rightarrow> ('s \<Rightarrow> bool) \<Rightarrow> ('s \<Rightarrow> nat) \<Rightarrow>
    ('s \<Rightarrow> 'p list) \<Rightarrow> 's \<Rightarrow> 'i event list \<Rightarrow> bool" where
  "keeps_up add rd att unread contents s [] = True"
| "keeps_up add rd att unread contents s (Write i # es) =
     (case add s i of
        None \<Rightarrow> False
      | Some (r, s1) \<Rightarrow> att s1 \<and> unread s1 \<le> length (contents s1) \<and>
                       keeps_up add rd att unread contents s1 es)"
| "keeps_up add rd att unread contents s (Read # es) =
     (0 < unread s \<and>
      (case rd s of None \<Rightarrow> False | Some (p, s1) \<Rightarrow> keeps_up add rd att unread contents s1 es))"

definition pending :: "('s \<Rightarrow> 'p list) \<Rightarrow> ('s \<Rightarrow> nat) \<Rightarrow> 's \<Rightarrow> 'p list" where
  "pending contents unread s = drop (length (contents s) - unread s) (contents s)"

section \<open>The producer's contract\<close>

locale packet_log =
  fixes inv :: "'s \<Rightarrow> bool"
    and contents :: "'s \<Rightarrow> 'p list"
    and add :: "'s \<Rightarrow> 'i \<Rightarrow> (int \<times> 's) option"
    and ok :: "'i \<Rightarrow> bool"
    and pkt :: "'s \<Rightarrow> 'i \<Rightarrow> 'p"
  assumes add_total: "inv s \<Longrightarrow> ok i \<Longrightarrow> \<exists>r s'. add s i = Some (r, s') \<and> inv s'"
    and add_accepted: "inv s \<Longrightarrow> ok i \<Longrightarrow> add s i = Some (0, s') \<Longrightarrow>
          \<exists>j \<le> length (contents s). contents s' = drop j (contents s) @ [pkt s i]"
    and add_refused: "inv s \<Longrightarrow> ok i \<Longrightarrow> add s i = Some (r, s') \<Longrightarrow> r \<noteq> 0 \<Longrightarrow>
          suffix (contents s') (contents s)"
begin

lemma add_suffix:
  assumes "inv s" "ok i" "add s i = Some (r, s')"
  shows "suffix (contents s') (contents s @ (if r = 0 then [pkt s i] else []))"
proof (cases "r = 0")
  case True
  with add_accepted [OF assms(1,2)] assms(3) obtain j
    where "contents s' = drop j (contents s) @ [pkt s i]" by blast
  then show ?thesis using True by (simp add: suffix_drop)
next
  case False
  then show ?thesis using add_refused [OF assms] by simp
qed

lemma run_suffix:
  "inv s \<Longrightarrow> list_all ok is \<Longrightarrow>
   \<exists>s' h. log_run add pkt s is = Some (s', h) \<and> inv s' \<and> suffix (contents s') (contents s @ h)"
proof (induction "is" arbitrary: s)
  case (Cons i "is")
  obtain r s1 where a: "add s i = Some (r, s1)" "inv s1" using add_total Cons.prems by fastforce
  from Cons.IH [OF a(2)] Cons.prems(2) obtain s' h
    where h: "log_run add pkt s1 is = Some (s', h)" "inv s'" "suffix (contents s') (contents s1 @ h)" by auto
  have "suffix (contents s1 @ h) ((contents s @ (if r = 0 then [pkt s i] else [])) @ h)"
    using add_suffix [OF Cons.prems(1) _ a(1)] Cons.prems(2) by (auto simp: suffix_def)
  with h(3) have "suffix (contents s') (contents s @ (if r = 0 then [pkt s i] else []) @ h)"
    by (metis append_assoc suffix_order.order_trans)
  then show ?case using a h by (cases "r = 0") auto
qed simp

lemma newest_kept:
  assumes "inv s" "ok i" "add s i = Some (0, s')"
  shows "contents s' \<noteq> [] \<and> last (contents s') = pkt s i"
  using add_accepted [OF assms] by auto

end

section \<open>One reader\<close>

locale packet_channel = packet_log inv contents add ok pkt
  for inv :: "'s \<Rightarrow> bool" and contents :: "'s \<Rightarrow> 'p list" and add :: "'s \<Rightarrow> 'i \<Rightarrow> (int \<times> 's) option"
    and ok :: "'i \<Rightarrow> bool" and pkt :: "'s \<Rightarrow> 'i \<Rightarrow> 'p" +
  fixes rd :: "'s \<Rightarrow> ('p \<times> 's) option"
    and attached :: "'s \<Rightarrow> bool"
    and unread :: "'s \<Rightarrow> nat"
    and in_sync :: "'s \<Rightarrow> bool"
  assumes read_next: "inv s \<Longrightarrow> in_sync s \<Longrightarrow> 0 < unread s \<Longrightarrow> unread s \<le> length (contents s) \<Longrightarrow>
      \<exists>s'. rd s = Some (contents s ! (length (contents s) - unread s), s') \<and> inv s' \<and> in_sync s' \<and>
           contents s' = contents s \<and> unread s' = unread s - 1 \<and> (attached s \<longrightarrow> attached s')"
    and add_unread: "inv s \<Longrightarrow> in_sync s \<Longrightarrow> attached s \<Longrightarrow> ok i \<Longrightarrow> add s i = Some (r, s') \<Longrightarrow>
      attached s' \<Longrightarrow> unread s' \<le> length (contents s') \<Longrightarrow>
      in_sync s' \<and> unread s' = unread s + (if r = 0 then 1 else 0)"
begin

lemma suffix_pending:
  assumes "suffix xs (ys @ zs)" "n \<le> length ys" "n + length zs \<le> length xs"
  shows "drop (length xs - (n + length zs)) xs = drop (length ys - n) ys @ zs"
proof -
  obtain as where as: "ys @ zs = as @ xs" using assms(1) by (auto simp: suffix_def)
  then have "length ys + length zs = length as + length xs" by (metis length_append)
  then have "length xs - (n + length zs) = length ys - n - length as" "length as \<le> length ys - n"
    using assms(2,3) by arith+
  then have "drop (length xs - (n + length zs)) xs = drop (length ys - n) (ys @ zs)"
    unfolding as by simp
  also have "\<dots> = drop (length ys - n) ys @ zs" using assms(2) by simp
  finally show ?thesis .
qed

lemma channel_fifo:
  "inv s \<Longrightarrow> in_sync s \<Longrightarrow> attached s \<Longrightarrow> unread s \<le> length (contents s) \<Longrightarrow>
   \<forall>i. Write i \<in> set es \<longrightarrow> ok i \<Longrightarrow> keeps_up add rd attached unread contents s es \<Longrightarrow>
   \<exists>s' ws rs. chan_run add pkt rd s es = Some (s', ws, rs) \<and> rs @ pending contents unread s' = pending contents unread s @ ws"
proof (induction es arbitrary: s)
  case (Cons e es)
  show ?case
  proof (cases e)
    case (Write i)
    have oki: "ok i" using Cons.prems(5) Write by simp
    obtain r s1 where a: "add s i = Some (r, s1)" "inv s1" using add_total [OF Cons.prems(1) oki] by auto
    have s1: "attached s1" "unread s1 \<le> length (contents s1)" "keeps_up add rd attached unread contents s1 es"
      using Cons.prems(6) Write a(1) by simp_all
    have u: "in_sync s1" "unread s1 = unread s + (if r = 0 then 1 else 0)"
      using add_unread [OF Cons.prems(1-3) oki a(1) s1(1,2)] by auto
    have "pending contents unread s1 = pending contents unread s @ (if r = 0 then [pkt s i] else [])"
      using suffix_pending [OF add_suffix [OF Cons.prems(1) oki a(1)] Cons.prems(4)] u(2) s1(2)
      by (simp add: pending_def split: if_splits)
    moreover obtain s' ws rs
      where "chan_run add pkt rd s1 es = Some (s', ws, rs)" "rs @ pending contents unread s' = pending contents unread s1 @ ws"
      using Cons.IH [OF a(2) u(1) s1(1,2) _ s1(3)] Cons.prems(5) by auto
    ultimately show ?thesis using Write a(1) by (cases "r = 0") auto
  next
    case Read
    have pos: "0 < unread s" using Cons.prems(6) Read by simp
    obtain s1 where r: "rd s = Some (contents s ! (length (contents s) - unread s), s1)" "inv s1" "in_sync s1"
      "contents s1 = contents s" "unread s1 = unread s - 1" "attached s1"
      using read_next [OF Cons.prems(1,2) pos Cons.prems(4)] Cons.prems(3) by auto
    obtain s' ws rs
      where c: "chan_run add pkt rd s1 es = Some (s', ws, rs)" "rs @ pending contents unread s' = pending contents unread s1 @ ws"
      using Cons.IH [OF r(2,3,6)] r Cons.prems(4-6) Read by fastforce
    have "pending contents unread s = contents s ! (length (contents s) - unread s) # pending contents unread s1"
      unfolding pending_def r(4,5) using pos Cons.prems(4)
      by (subst Cons_nth_drop_Suc [symmetric]) (auto simp: Suc_diff_le)
    then show ?thesis using Read r(1) c by simp
  qed
qed simp

end

end
