(* ===== verification/Pool_Stream.thy ===== *)
theory Pool_Stream
  imports Pool_Steps Packet_Log
begin

text \<open>
  The pool implements the packet log and, for a reader that keeps up, the packet channel of
  \<open>Packet_Log\<close>: the interpretations discharge the two contracts for \<open>MShmPoolAddResource\<close> and
  \<open>MShmPoolGetResource\<close>.
\<close>

section \<open>The pool's operations under the names of the contract\<close>

type_synonym item = "byte list \<times> int"

definition pool_contents :: "shm \<Rightarrow> packet list" where "pool_contents s = fst (pool_abs s)"

definition pool_put :: "MSHM_POOL \<Rightarrow> shm \<Rightarrow> item \<Rightarrow> (int \<times> shm) option" where
  "pool_put h s i = MShmPoolAddResource (Some h) s (Some (fst i)) (int (length (fst i))) (snd i)"

definition pool_pkt :: "shm \<Rightarrow> item \<Rightarrow> packet" where
  "pool_pkt s i = (fst i, ph_num (shm_ph s) + 1, snd i)"

definition pool_rd :: "MSHM_POOL \<Rightarrow> int \<Rightarrow> shm \<Rightarrow> (packet \<times> shm) option" where
  "pool_rd pool buflen s =
     (case MShmPoolGetResource pool s buflen 0 of Some (Done (Inr p, s')) \<Rightarrow> Some (p, s') | _ \<Rightarrow> None)"

definition fits :: "int \<Rightarrow> item \<Rightarrow> bool" where "fits buflen i \<longleftrightarrow> int (length (fst i)) \<le> buflen"

definition reader_inv :: "MSHM_POOL \<Rightarrow> int \<Rightarrow> shm \<Rightarrow> bool" where
  "reader_inv pool buflen s \<longleftrightarrow> user_ok pool \<and> has_mc pool \<and> pool_inv s \<and>
     list_all (\<lambda>p. int (length (fst p)) \<le> buflen) (pool_contents s)"

definition usr_attached :: "MSHM_POOL \<Rightarrow> shm \<Rightarrow> bool" where
  "usr_attached pool s \<longleftrightarrow> usr_valid (ph_users (shm_ph s) ! nat (userno pool)) \<noteq> 0"

definition usr_unread :: "MSHM_POOL \<Rightarrow> shm \<Rightarrow> nat" where
  "usr_unread pool s = nat (sems s ! nat (userno pool))"

definition usr_synced :: "MSHM_POOL \<Rightarrow> shm \<Rightarrow> bool" where
  "usr_synced pool s \<longleftrightarrow> usr_curele (ph_users (shm_ph s) ! nat (userno pool)) =
     (ph_tail (shm_ph s) - sems s ! nat (userno pool)) mod MAXE"

section \<open>The abstract append\<close>

lemma used_blocks_nonneg: "0 \<le> used_blocks ps"
proof (induction ps)
  case (Cons p ps)
  then show ?case using needblocks_bounds(1) [of "int (length (fst p))"] by (simp add: pkt_blocks_def)
qed simp

lemma make_room_drop: "\<exists>j \<le> length ps. make_room T need ps = drop j ps"
  using evict_le [of "need * 2" "T - used_blocks ps" "map pkt_blocks ps"]
  by (auto simp: make_room_def Let_def intro: exI [of _ 0])

lemma apool_add_accepted:
  assumes "apool_add T (ps, n) d flag = (0, qs, n')"
  shows "n' = n + 1 \<and> (\<exists>j \<le> length ps. qs = drop j ps @ [(d, n + 1, flag)])"
proof -
  obtain j where j: "j \<le> length ps" "make_room T (needblocks (int (length d))) ps = drop j ps"
    using make_room_drop by blast
  let ?q = "drop j ps @ [(d, n + 1, flag)]"
  have q: "n' = n + 1" "qs = (if int (length ?q) = MAXE then tl ?q else ?q)"
    using assms j(2) by (auto simp: apool_add_def Let_def split: if_splits)
  show ?thesis
  proof (cases "int (length ?q) = MAXE")
    case True
    then have "j < length ps" using j(1) by (cases "j = length ps") (auto simp: SHPOOL_MAX_ELE_def)
    then have "tl ?q = drop (Suc j) ps @ [(d, n + 1, flag)]"
      by (simp add: Cons_nth_drop_Suc [symmetric])
    then show ?thesis using q True \<open>j < length ps\<close> by (intro conjI exI [of _ "Suc j"]) auto
  next
    case False
    then show ?thesis using q j(1) by auto
  qed
qed

lemma evict_all:
  assumes "free + sum_list (take (evict need free bs) bs) < need"
  shows "evict need free bs = length bs"
  using assms evict_enough [of need free bs] evict_le [of need free bs] by linarith

lemma used_blocks_drop: "used_blocks (drop j ps) = used_blocks ps - sum_list (take j (map pkt_blocks ps))"
  unfolding used_blocks_def
  by (metis add_diff_cancel_left' append_take_drop_id drop_map sum_list_append)

lemma apool_add_refused:
  assumes "apool_add T (ps, n) d flag = (r, qs, n')" "r \<noteq> 0"
  shows "r = - ENOMEM \<and> qs = [] \<and> n' = n \<and> T < 2 * needblocks (int (length d)) \<and>
         T - used_blocks ps \<le> needblocks (int (length d))"
proof -
  let ?need = "needblocks (int (length d))" and ?f = "T - used_blocks ps"
  have r: "r = - ENOMEM" "qs = make_room T ?need ps" "n' = n" "?f \<le> ?need" "T - used_blocks qs < ?need * 2"
    using assms by (auto simp: apool_add_def Let_def split: if_splits)
  let ?j = "evict (?need * 2) ?f (map pkt_blocks ps)"
  have qs: "qs = drop ?j ps" using r by (simp add: make_room_def Let_def)
  have "?f + sum_list (take ?j (map pkt_blocks ps)) < ?need * 2"
    using r(5) unfolding qs used_blocks_drop by simp
  from evict_all [OF this] have "qs = []" using qs by simp
  then show ?thesis using r by simp
qed

lemma apool_add_refused_iff:
  "fst (apool_add T (ps, n) d flag) \<noteq> 0 \<longleftrightarrow>
     T - used_blocks ps \<le> needblocks (int (length d)) \<and> T < 2 * needblocks (int (length d))"
proof
  assume a: "fst (apool_add T (ps, n) d flag) \<noteq> 0"
  obtain r qs n' where e: "apool_add T (ps, n) d flag = (r, qs, n')" by (metis prod_cases3)
  show "T - used_blocks ps \<le> needblocks (int (length d)) \<and> T < 2 * needblocks (int (length d))"
    using apool_add_refused [OF e] a e by simp
next
  assume a: "T - used_blocks ps \<le> needblocks (int (length d)) \<and> T < 2 * needblocks (int (length d))"
  moreover have "T - used_blocks (make_room T (needblocks (int (length d))) ps) \<le> T"
    using used_blocks_nonneg by simp
  ultimately show "fst (apool_add T (ps, n) d flag) \<noteq> 0" by (simp add: apool_add_def Let_def)
qed

section \<open>The producer's contract\<close>

lemma pool_put_refines:
  assumes "pool_inv s"
  obtains r s' where "pool_put h s i = Some (r, s')" "pool_inv s'"
    "apool_add (ph_tblocks (shm_ph s)) (pool_contents s, ph_num (shm_ph s)) (fst i) (snd i) =
       (r, pool_contents s', ph_num (shm_ph s'))"
proof -
  have "(pool_contents s, ph_num (shm_ph s)) = pool_abs s" for s
    by (simp add: pool_contents_def pool_abs_def)
  then show thesis
    using that AddResource_refines [OF assms, of "int (length (fst i))" "fst i" h "snd i"]
    by (fastforce simp: pool_put_def)
qed

lemma pool_put_eq:
  assumes "pool_inv s" "pool_put h s i = Some (r, s')"
  shows "pool_inv s'"
    "apool_add (ph_tblocks (shm_ph s)) (pool_contents s, ph_num (shm_ph s)) (fst i) (snd i) =
       (r, pool_contents s', ph_num (shm_ph s'))"
  using pool_put_refines [OF assms(1), of h i] assms(2) by auto

lemma pool_put_accepted:
  assumes "pool_inv s" "pool_put h s i = Some (0, s')"
  shows "\<exists>j \<le> length (pool_contents s). pool_contents s' = drop j (pool_contents s) @ [pool_pkt s i]"
    "ph_num (shm_ph s') = ph_num (shm_ph s) + 1"
  using apool_add_accepted [OF pool_put_eq(2) [OF assms]] by (simp_all add: pool_pkt_def)

lemma pool_put_refused:
  assumes "pool_inv s" "pool_put h s i = Some (r, s')" "r \<noteq> 0"
  shows "r = - ENOMEM" "pool_contents s' = []" "ph_num (shm_ph s') = ph_num (shm_ph s)"
  using apool_add_refused [OF pool_put_eq(2) [OF assms(1,2)] assms(3)] by simp_all

lemmas pool_put_inv = pool_put_eq(1)

lemma reader_inv_put:
  assumes "reader_inv pool buflen s" "fits buflen i" "pool_put h s i = Some (r, s')"
  shows "reader_inv pool buflen s'"
proof -
  have inv: "pool_inv s" using assms(1) by (simp add: reader_inv_def)
  have "set (pool_contents s') \<subseteq> insert (pool_pkt s i) (set (pool_contents s))"
  proof (cases "r = 0")
    case True
    then obtain j where "pool_contents s' = drop j (pool_contents s) @ [pool_pkt s i]"
      using pool_put_accepted(1) [OF inv] assms(3) by blast
    then show ?thesis using set_drop_subset [of j "pool_contents s"] by auto
  qed (use pool_put_refused [OF inv assms(3)] in simp)
  then show ?thesis
    using assms(1,2) pool_put_inv [OF inv assms(3)]
    by (auto simp: reader_inv_def list_all_iff fits_def pool_pkt_def)
qed

interpretation plog: packet_log pool_inv pool_contents "pool_put h" "\<lambda>_. True" pool_pkt for h
proof
  fix s i r s'
  show "pool_inv s \<Longrightarrow> True \<Longrightarrow> \<exists>r s'. pool_put h s i = Some (r, s') \<and> pool_inv s'"
    using pool_put_refines [of s h i] by blast
  show "pool_inv s \<Longrightarrow> True \<Longrightarrow> pool_put h s i = Some (0, s') \<Longrightarrow>
      \<exists>j \<le> length (pool_contents s). pool_contents s' = drop j (pool_contents s) @ [pool_pkt s i]"
    by (rule pool_put_accepted)
  show "pool_inv s \<Longrightarrow> True \<Longrightarrow> pool_put h s i = Some (r, s') \<Longrightarrow> r \<noteq> 0 \<Longrightarrow>
      suffix (pool_contents s') (pool_contents s)"
    using pool_put_refused(2) [of s h i r s'] by simp
qed

section \<open>The reader's contract\<close>

lemma put_frame:
  assumes "pool_inv s" "pool_put h s i = Some (r, s')" "0 \<le> no" "no < SHPOOL_MAX_USERS"
  shows "ph_tail (shm_ph s') = (if r = 0 then NewerEle (ph_tail (shm_ph s)) else ph_tail (shm_ph s))"
    and "usr_curele (ph_users (shm_ph s') ! nat no) = usr_curele (ph_users (shm_ph s) ! nat no)"
    and "r \<noteq> 0 \<Longrightarrow> sems s' = sems s"
    and "r = 0 \<Longrightarrow> usr_valid (ph_users (shm_ph s) ! nat no) \<noteq> 0 \<Longrightarrow>
           usr_valid (ph_users (shm_ph s') ! nat no) \<noteq> 0 \<Longrightarrow> sems s' ! nat no = sems s ! nat no + 1"
    and "usr_valid (ph_users (shm_ph s) ! nat no) \<noteq> 0 \<Longrightarrow> sems s ! nat no < SEMVMX \<Longrightarrow>
           sems s ! nat no < (if newmaxsem s \<noteq> -1 then newmaxsem s else oldmaxsem s) \<Longrightarrow>
           usr_valid (ph_users (shm_ph s') ! nat no) \<noteq> 0"
proof -
  let ?n = "int (length (fst i))"
  let ?ph1 = "pops (room_pops (shm_ph s) (needblocks ?n)) (shm_ph s)"
  let ?a = "added s ?ph1 (fst i) ?n (snd i)"
  have fr: "ph_tail (shm_ph ?a) = NewerEle (ph_tail (shm_ph s))" "ph_users (shm_ph ?a) = ph_users (shm_ph s)"
    "sems ?a = sems s" "newmaxsem ?a = newmaxsem s" "oldmaxsem ?a = oldmaxsem s"
    by (simp_all add: added_def Let_def push_head_def)
  have res: "(r = 0 \<and> s' = SemAddAll ?a) \<or> (r \<noteq> 0 \<and> s' = s\<lparr>shm_ph := ?ph1\<rparr>)"
    using AddResource_eq [OF assms(1), of ?n "fst i" h "snd i"] assms(2)
    by (auto simp: pool_put_def split: if_splits)
  let ?m = "if newmaxsem ?a \<noteq> -1 then newmaxsem ?a else oldmaxsem ?a"
  obtain us vs where e: "SemAddAll_loop ?m (ph_users (shm_ph s)) (sems s) = (us, vs)" by fastforce
  have sa: "ph_tail (shm_ph (SemAddAll ?a)) = ph_tail (shm_ph ?a)" "ph_users (shm_ph (SemAddAll ?a)) = us"
    "sems (SemAddAll ?a) = vs"
    using e by (simp_all add: SemAddAll_def Let_def fr)
  have "nat no < length (ph_users (shm_ph s))" "length (ph_users (shm_ph s)) = length (sems s)"
    using pool_inv_users(1,2) [OF assms(1)] assms(3,4) by simp_all
  note nth = SemAddAll_loop_nth [OF e this(2,1)]
  show "ph_tail (shm_ph s') = (if r = 0 then NewerEle (ph_tail (shm_ph s)) else ph_tail (shm_ph s))"
    using res fr sa by auto
  show "usr_curele (ph_users (shm_ph s') ! nat no) = usr_curele (ph_users (shm_ph s) ! nat no)"
    using res nth sa by auto
  show "r \<noteq> 0 \<Longrightarrow> sems s' = sems s" using res by auto
  show "r = 0 \<Longrightarrow> usr_valid (ph_users (shm_ph s) ! nat no) \<noteq> 0 \<Longrightarrow>
           usr_valid (ph_users (shm_ph s') ! nat no) \<noteq> 0 \<Longrightarrow> sems s' ! nat no = sems s ! nat no + 1"
    using res nth sa by (auto split: if_splits)
  show "usr_valid (ph_users (shm_ph s) ! nat no) \<noteq> 0 \<Longrightarrow> sems s ! nat no < SEMVMX \<Longrightarrow>
           sems s ! nat no < (if newmaxsem s \<noteq> -1 then newmaxsem s else oldmaxsem s) \<Longrightarrow>
           usr_valid (ph_users (shm_ph s') ! nat no) \<noteq> 0"
    using res nth sa fr by (auto split: if_splits)
qed

lemma put_unread:
  assumes "reader_inv pool buflen s" "usr_synced pool s" "usr_attached pool s"
    "pool_put h s i = Some (r, s')" "usr_attached pool s'"
  shows "usr_synced pool s' \<and> usr_unread pool s' = usr_unread pool s + (if r = 0 then 1 else 0)"
proof -
  have inv: "pool_inv s" and u: "user_ok pool" using assms(1) by (auto simp: reader_inv_def)
  note f = put_frame [OF inv assms(4), of "userno pool"]
  have v0: "0 \<le> sems s ! nat (userno pool)"
    using pool_inv_users(2,3) [OF inv] u by (auto simp: list_all_length)
  have t: "0 \<le> ph_tail (shm_ph s)" "ph_tail (shm_ph s) < MAXE"
    using inv head_inv_tail by (auto simp: pool_inv_def)
  show ?thesis
  proof (cases "r = 0")
    case True
    then have v: "sems s' ! nat (userno pool) = sems s ! nat (userno pool) + 1"
      using f(4) u assms(3,5) by (simp add: usr_attached_def)
    have "(NewerEle (ph_tail (shm_ph s)) - (sems s ! nat (userno pool) + 1)) mod MAXE =
          (ph_tail (shm_ph s) - sems s ! nat (userno pool)) mod MAXE"
      using t by (simp add: NewerEle_mod mod_simps)
    then show ?thesis using True v v0 f(1,2) u assms(2)
      by (simp add: usr_synced_def usr_unread_def nat_add_distrib)
  next
    case False
    then show ?thesis using f(1-3) u assms(2) by (simp add: usr_synced_def usr_unread_def)
  qed
qed

lemma pool_rd_next:
  assumes r: "reader_inv pool buflen s" and sy: "usr_synced pool s" and pos: "0 < usr_unread pool s"
    and le: "usr_unread pool s \<le> length (pool_contents s)"
  defines "k \<equiv> length (pool_contents s) - usr_unread pool s"
  shows "pool_rd pool buflen s = Some (pool_contents s ! k, after_read pool s k)"
    "reader_inv pool buflen (after_read pool s k)" "usr_synced pool (after_read pool s k)"
    "pool_contents (after_read pool s k) = pool_contents s"
    "usr_unread pool (after_read pool s k) = usr_unread pool s - 1"
    "usr_attached pool (after_read pool s k) = usr_attached pool s"
proof -
  have inv: "pool_inv s" and u: "user_ok pool" "has_mc pool" using r by (auto simp: reader_inv_def)
  let ?v = "sems s ! nat (userno pool)" and ?c = "ph_count (shm_ph s)" and ?h = "ph_head (shm_ph s)"
  have hi: "head_inv (shm_ph s)" using inv by (simp add: pool_inv_def)
  have c: "int (length (pool_contents s)) = ?c"
    using length_live [OF hi] head_inv_tail(4) [OF hi] by (simp add: pool_contents_def pool_abs_def)
  have v: "?v = int (usr_unread pool s)" using pos by (simp add: usr_unread_def)
  have k: "int k = ?c - ?v" "int k < ?c" using le pos c v by (auto simp: k_def)
  have t: "ph_tail (shm_ph s) = (?h + ?c) mod MAXE" using hi by (simp add: head_inv_def)
  have vv: "?v = ?c - int k" using k(1) by simp
  have "(ph_tail (shm_ph s) - ?v) mod MAXE = (?h + int k) mod MAXE"
    unfolding t vv mod_diff_left_eq by simp
  then have at: "at_pos s (userno pool) k"
    using sy k(2) by (simp add: at_pos_def usr_synced_def)
  have kl: "k < length (pool_contents s)" using le pos by (simp add: k_def)
  then have len: "int (length (fst (fst (pool_abs s) ! k))) \<le> buflen"
    using r by (simp add: reader_inv_def list_all_length pool_contents_def)
  have v1: "1 \<le> ?v" using v pos by simp
  note w = GetResource_window [OF inv u at k(2) len v1]
  show "pool_rd pool buflen s = Some (pool_contents s ! k, after_read pool s k)"
    using w(1) by (simp add: pool_rd_def pool_contents_def)
  show "reader_inv pool buflen (after_read pool s k)" "pool_contents (after_read pool s k) = pool_contents s"
    using w r by (simp_all add: reader_inv_def pool_contents_def)
  let ?i = "userno pool"
  have sem: "sems (after_read pool s k) ! nat ?i = ?v - 1"
    using u pool_inv_users(2) [OF inv] by (simp add: after_read_def nth_arr_set)
  have us: "ph_users (shm_ph (after_read pool s k)) ! nat ?i =
      (ph_users (shm_ph s) ! nat ?i)\<lparr>usr_curele := (?h + int (Suc k)) mod MAXE\<rparr>"
    using u pool_inv_users(1) [OF inv] by (simp add: after_read_def nth_arr_set)
  have tl: "ph_tail (shm_ph (after_read pool s k)) = ph_tail (shm_ph s)" by (simp add: after_read_def)
  have "(?h + int (Suc k)) mod MAXE = (ph_tail (shm_ph s) - (?v - 1)) mod MAXE"
    unfolding t vv mod_diff_left_eq by (simp add: algebra_simps)
  then show "usr_synced pool (after_read pool s k)"
    using sem us tl by (simp add: usr_synced_def)
  show "usr_unread pool (after_read pool s k) = usr_unread pool s - 1"
    using sem by (simp add: usr_unread_def nat_diff_distrib)
  show "usr_attached pool (after_read pool s k) = usr_attached pool s"
    using us by (simp add: usr_attached_def)
qed

interpretation pchan: packet_channel "reader_inv pool buflen" pool_contents "pool_put h" "fits buflen" pool_pkt
    "pool_rd pool buflen" "usr_attached pool" "usr_unread pool" "usr_synced pool"
  for pool buflen h
proof
  fix s i r s'
  show "reader_inv pool buflen s \<Longrightarrow> fits buflen i \<Longrightarrow> \<exists>r s'. pool_put h s i = Some (r, s') \<and> reader_inv pool buflen s'"
    using pool_put_refines [of s h i] reader_inv_put by (metis reader_inv_def)
  show "reader_inv pool buflen s \<Longrightarrow> fits buflen i \<Longrightarrow> pool_put h s i = Some (0, s') \<Longrightarrow>
      \<exists>j \<le> length (pool_contents s). pool_contents s' = drop j (pool_contents s) @ [pool_pkt s i]"
    using pool_put_accepted(1) by (simp add: reader_inv_def)
  show "reader_inv pool buflen s \<Longrightarrow> fits buflen i \<Longrightarrow> pool_put h s i = Some (r, s') \<Longrightarrow> r \<noteq> 0 \<Longrightarrow>
      suffix (pool_contents s') (pool_contents s)"
    using pool_put_refused(2) [of s h i r s'] by (simp add: reader_inv_def)
  show "reader_inv pool buflen s \<Longrightarrow> usr_synced pool s \<Longrightarrow> 0 < usr_unread pool s \<Longrightarrow>
      usr_unread pool s \<le> length (pool_contents s) \<Longrightarrow>
      \<exists>s'. pool_rd pool buflen s = Some (pool_contents s ! (length (pool_contents s) - usr_unread pool s), s') \<and>
           reader_inv pool buflen s' \<and> usr_synced pool s' \<and> pool_contents s' = pool_contents s \<and>
           usr_unread pool s' = usr_unread pool s - 1 \<and> (usr_attached pool s \<longrightarrow> usr_attached pool s')"
    using pool_rd_next by metis
  show "reader_inv pool buflen s \<Longrightarrow> usr_synced pool s \<Longrightarrow> usr_attached pool s \<Longrightarrow> fits buflen i \<Longrightarrow>
      pool_put h s i = Some (r, s') \<Longrightarrow> usr_attached pool s' \<Longrightarrow>
      usr_unread pool s' \<le> length (pool_contents s') \<Longrightarrow>
      usr_synced pool s' \<and> usr_unread pool s' = usr_unread pool s + (if r = 0 then 1 else 0)"
    using put_unread by metis
qed

end
