(* ===== verification/Pool_Props.thy ===== *)
theory Pool_Props
  imports Pool_Stream
begin

text \<open>
  The properties of the packet pool, each with a witness on a small pool: one page of data,
  created in a fresh segment.
\<close>

section \<open>A concrete pool\<close>

definition demo_env :: create_env where
  "demo_env = \<lparr>ce_pagesize = 4096, ce_headsize = 300000, ce_core = 0, ce_mkey = 7, ce_semget_excl = 5,
     ce_semerr = 0, ce_semget_open = 0\<rparr>"

definition demo_handle :: MSHM_POOL where
  "demo_handle = \<lparr>userflag = 0, userno = 0, has_mc = False, has_ph = False\<rparr>"

definition demo_pool :: shm where
  "demo_pool = snd (snd (the (MShmPoolCreate demo_env (Some demo_handle) (fresh_shm 4096) 1 1000)))"

definition demo_reader :: MSHM_POOL where
  "demo_reader = \<lparr>userflag = 0, userno = 1, has_mc = True, has_ph = True\<rparr>"

definition demo_read :: shm where
  "demo_read = (case MShmPoolReq (Some demo_handle) demo_pool 1 None 0 0 1 100 0 of
                  Some (r, h, s) \<Rightarrow> s | None \<Rightarrow> demo_pool)"

lemmas demo_defs = demo_env_def demo_handle_def demo_pool_def demo_reader_def demo_read_def

lemma demo_create:
  "MShmPoolCreate demo_env (Some demo_handle) (fresh_shm 4096) 1 1000 =
     Some (0, Some (demo_handle\<lparr>has_mc := True, has_ph := True, userflag := 1\<rparr>), demo_pool)"
proof -
  have "pool_realsize 300000 4096 1000 = 307200" "pool_tblocks 4096 1000 = 8"
    by (simp_all add: pool_realsize_def pool_tblocks_def SHPOOL_BLOCK_SIZE_def)
  moreover have "length (eledata (fresh_shm 4096) @ seg_rest (fresh_shm 4096)) = 4096"
    by (simp only: fresh_shm_def shm.simps length_append length_replicate list.size add_0)
  ultimately show ?thesis
    by (simp add: demo_env_def demo_handle_def demo_pool_def MShmPoolCreate_def init_head_def LONG_MAX_def
        SHPOOL_BLOCK_SIZE_def)
qed

lemma fresh_users_inv: "users_inv (ph_users (shm_ph (fresh_shm n))) (sems (fresh_shm n))"
  by (simp add: users_inv_def fresh_shm_def zero_head_def zero_usr_def list_all_replicate SEMVMX_def
      SHPOOL_MAX_ELE_def)

lemma demo_pool_facts [simp]:
  "pool_inv demo_pool" "pool_contents demo_pool = []" "ph_tblocks (shm_ph demo_pool) = 8"
  "ph_num (shm_ph demo_pool) = 0" "ph_users (shm_ph demo_pool) = replicate 8 zero_usr"
  "ph_head (shm_ph demo_pool) = 0" "ph_tail (shm_ph demo_pool) = 0" "ph_last_usr_no (shm_ph demo_pool) = -1"
  "\<not> ph_boffset (shm_ph demo_pool) \<le> 0" "sems demo_pool = replicate 8 0" "newmaxsem demo_pool = -1"
  "oldmaxsem demo_pool = 100" "ph_count (shm_ph demo_pool) = 0"
proof -
  note c = Create_Done [OF demo_create fresh_users_inv]
  have "SHPOOL_BLOCK_SIZE \<le> ce_pagesize demo_env" "0 \<le> ce_core demo_env"
    by (simp_all add: demo_defs SHPOOL_BLOCK_SIZE_def)
  from c [OF this] show "pool_inv demo_pool" "pool_contents demo_pool = []"
    "ph_tblocks (shm_ph demo_pool) = 8" "ph_num (shm_ph demo_pool) = 0"
    "ph_users (shm_ph demo_pool) = replicate 8 zero_usr"
    by (simp_all add: pool_contents_def pool_tblocks_def demo_defs SHPOOL_BLOCK_SIZE_def pool_abs_def
        fresh_shm_def zero_head_def SHPOOL_MAX_USERS_def)
  show "ph_head (shm_ph demo_pool) = 0" "ph_tail (shm_ph demo_pool) = 0" "ph_last_usr_no (shm_ph demo_pool) = -1"
    "newmaxsem demo_pool = -1" "oldmaxsem demo_pool = 100" "ph_count (shm_ph demo_pool) = 0"
    "\<not> ph_boffset (shm_ph demo_pool) \<le> 0" "sems demo_pool = replicate 8 0"
    using Create_frame [OF demo_create]
    by (simp_all add: demo_env_def fresh_shm_def SemSetVal_def arr_set_def SHPOOL_MAX_USERS_def numeral_eq_Suc
       )
qed

lemma demo_req:
  "MShmPoolReq (Some demo_handle) demo_pool 1 None 0 0 1 100 0 = Some (0, Some demo_reader, demo_read)"
  by (simp add: demo_read_def MShmPoolReq_def MSHmPoolAttach_def GetAFreeUsrNo_def SHPOOL_MAX_USERS_def
      zero_usr_def demo_reader_def demo_handle_def upto.simps)

lemma demo_read_facts [simp]:
  "pool_inv demo_read" "pool_contents demo_read = []" "ph_tblocks (shm_ph demo_read) = 8"
  "ph_num (shm_ph demo_read) = 0" "usr_attached demo_reader demo_read" "usr_unread demo_reader demo_read = 0"
  "usr_synced demo_reader demo_read" "sems demo_read ! Suc 0 = 0" "newmaxsem demo_read = -1"
  "oldmaxsem demo_read = 100" "ph_head (shm_ph demo_read) = 0" "ph_tail (shm_ph demo_read) = 0"
proof -
  have "pool_inv demo_read \<and> pool_abs demo_read = pool_abs demo_pool"
    using Req_inv [OF _ demo_req] by simp
  then show "pool_inv demo_read" "pool_contents demo_read = []"
    using demo_pool_facts(2) by (simp_all add: pool_contents_def)
  show "ph_tblocks (shm_ph demo_read) = 8" "ph_num (shm_ph demo_read) = 0"
    "usr_attached demo_reader demo_read" "usr_unread demo_reader demo_read = 0"
    "usr_synced demo_reader demo_read" "sems demo_read ! Suc 0 = 0" "newmaxsem demo_read = -1"
    "oldmaxsem demo_read = 100" "ph_head (shm_ph demo_read) = 0" "ph_tail (shm_ph demo_read) = 0"
    by (simp_all add: demo_read_def MShmPoolReq_def MSHmPoolAttach_def GetAFreeUsrNo_def SHPOOL_MAX_USERS_def
      zero_usr_def demo_reader_def demo_handle_def upto.simps MShmPoolSetUserName_def SemSetVal_def arr_set_def
      usr_attached_def usr_unread_def usr_synced_def set_usr_def numeral_eq_Suc)
qed

section \<open>The producer\<close>

text \<open>
  C1. Refinement: on a well-formed pool and a buffer of at least \<open>n\<close> bytes,
  \<open>MShmPoolAddResource\<close> returns (it never leaves an array or the data area), keeps the
  invariant, and its result code, the packets the pool then holds and the packet counter are
  those of the abstract pool \<open>apool_add\<close>.
\<close>

theorem add_refines_abstract_pool:
  assumes "pool_inv s" "0 \<le> n" "n \<le> int (length buf)"
  shows "\<exists>r s'. MShmPoolAddResource (Some h) s (Some buf) n flag = Some (r, s') \<and> pool_inv s' \<and>
           (r, pool_abs s') = apool_add (ph_tblocks (shm_ph s)) (pool_abs s) (take (nat n) buf) flag"
  using AddResource_refines [OF assms] by blast

theorem add_refines_abstract_pool_witness:
  "\<exists>r s'. MShmPoolAddResource (Some demo_handle) demo_pool (Some [1, 2, 3]) 2 9 = Some (r, s') \<and> pool_inv s' \<and>
     (r, pool_abs s') = apool_add 8 (pool_abs demo_pool) [1, 2] 9"
  using add_refines_abstract_pool [of demo_pool 2 "[1, 2, 3]" demo_handle 9] by simp

text \<open>
  C2. Invariant: every state that operations of the pool's interface lead to, from a pool created
  in a fresh segment, is well-formed: the live elements tile the used blocks without overlap, the
  free blocks are the rest, the packet numbers are consecutive, the cursors and semaphores are
  in range. The operations may be called with any arguments by registered readers and by producers whose
  buffer holds the bytes they announce, and the pool may be created again at any time, of any size the
  segment has room for; a creation again that fails at \<open>semget\<close>, after the header is
  re-initialised, must be one of the old size (\<open>failed_creation_breaks_pool\<close>).
\<close>

theorem reachable_pools_well_formed:
  assumes "pool_reach s"
  shows "pool_inv s"
  using pool_reach_inv [OF assms] .

theorem reachable_pools_well_formed_witness: "pool_reach demo_pool \<and> pool_inv demo_pool"
proof -
  have "pool_reach demo_pool"
    by (rule pool_reach.init [OF demo_create]) (simp_all add: demo_defs SHPOOL_BLOCK_SIZE_def)
  then show ?thesis using reachable_pools_well_formed [of demo_pool] by simp
qed

text \<open>
  C3. Delivery: a reader that is attached and synchronised, and that keeps up with a schedule of
  writes and reads, gets exactly the accepted packets, in the order they were written: what it
  has read followed by what is still unread equals what was unread at the start followed by what
  was written.
\<close>

theorem reader_gets_written_packets_in_order:
  assumes "reader_inv pool buflen s" "usr_synced pool s" "usr_attached pool s"
    "usr_unread pool s \<le> length (pool_contents s)" "\<forall>i. Write i \<in> set es \<longrightarrow> fits buflen i"
    "keeps_up (pool_put h) (pool_rd pool buflen) (usr_attached pool) (usr_unread pool) pool_contents s es"
  shows "\<exists>s' ws rs. chan_run (pool_put h) pool_pkt (pool_rd pool buflen) s es = Some (s', ws, rs) \<and>
     rs @ pending pool_contents (usr_unread pool) s' = pending pool_contents (usr_unread pool) s @ ws"
  using pchan.channel_fifo [OF assms(1-4) assms(5)] assms(6) by blast

lemma demo_reader_inv [simp]: "reader_inv demo_reader 100 demo_read"
  by (simp add: reader_inv_def demo_reader_def SHPOOL_MAX_USERS_def)

lemma demo_put:
  "\<exists>s1. pool_put demo_handle demo_read ([1, 2, 3], 9) = Some (0, s1) \<and> usr_attached demo_reader s1 \<and>
     usr_unread demo_reader s1 = 1 \<and> pool_contents s1 = [([1, 2, 3], 1, 9)] \<and>
     reader_inv demo_reader 100 s1 \<and> usr_synced demo_reader s1"
proof -
  let ?i = "([1, 2, 3], 9) :: item"
  note ri = demo_reader_inv
  obtain r s1 where p: "pool_put demo_handle demo_read ?i = Some (r, s1)"
    using plog.add_total [of demo_read demo_handle ?i] by auto
  have nb: "needblocks 3 = 1" by (simp add: needblocks_def SHPOOL_BLOCK_SIZE_def)
  have r0: "r = 0"
    using pool_put_eq(2) [OF _ p] apool_add_refused_iff [of 8 "[]" 0 "[1, 2, 3]" 9]
    by (simp add: nb)
  obtain j where "pool_contents s1 = drop j [] @ [pool_pkt demo_read ?i]"
    using pool_put_accepted(1) [of demo_read demo_handle ?i s1] p r0 by auto
  then have c: "pool_contents s1 = [([1, 2, 3], 1, 9)]" by (simp add: pool_pkt_def)
  have at: "usr_attached demo_reader s1"
    using put_frame(5) [OF _ p, of 1] demo_read_facts(5)
    by (simp add: usr_attached_def demo_reader_def SHPOOL_MAX_USERS_def SEMVMX_def)
  have "usr_synced demo_reader s1 \<and> usr_unread demo_reader s1 = 1"
    using put_unread [OF ri _ _ p at] r0 by simp
  moreover have "reader_inv demo_reader 100 s1" using reader_inv_put [OF ri _ p] by (simp add: fits_def)
  ultimately show ?thesis using p r0 at c by auto
qed

theorem reader_gets_written_packets_in_order_witness:
  "\<exists>s' ws rs. chan_run (pool_put demo_handle) pool_pkt (pool_rd demo_reader 100) demo_read
       [Write ([1, 2, 3], 9), Read] = Some (s', ws, rs) \<and>
     rs @ pending pool_contents (usr_unread demo_reader) s' =
       pending pool_contents (usr_unread demo_reader) demo_read @ ws"
proof -
  obtain s1 where s1: "pool_put demo_handle demo_read ([1, 2, 3], 9) = Some (0, s1)" "usr_attached demo_reader s1"
     "usr_unread demo_reader s1 = 1" "pool_contents s1 = [([1, 2, 3], 1, 9)]" "reader_inv demo_reader 100 s1"
     "usr_synced demo_reader s1" using demo_put by auto
  have "\<exists>p s2. pool_rd demo_reader 100 s1 = Some (p, s2)"
    using pool_rd_next(1) [OF s1(5,6)] s1(3,4) by simp
  then have k: "keeps_up (pool_put demo_handle) (pool_rd demo_reader 100) (usr_attached demo_reader)
      (usr_unread demo_reader) pool_contents demo_read [Write ([1, 2, 3], 9), Read]"
    using s1 by auto
  show ?thesis
    by (rule reader_gets_written_packets_in_order [OF _ _ _ _ _ k])
       (simp_all add: fits_def)
qed

text \<open>
  History: writing any list of packets to a well-formed pool never fails to return, and the
  pool then holds a suffix of what it held followed by the accepted packets.
\<close>

lemma pool_holds_newest_packets:
  assumes "pool_inv s"
  shows "\<exists>s' hist. log_run (pool_put h) pool_pkt s is = Some (s', hist) \<and> pool_inv s' \<and>
           suffix (pool_contents s') (pool_contents s @ hist)"
  using plog.run_suffix [OF assms, of "is" h] by (simp add: list_all_iff)

text \<open>
  C4. Refusal: the only error of an append with valid arguments is \<open>-ENOMEM\<close>. It happens exactly
  when the packet needs at least as many blocks as are free and more than half of all blocks,
  and the pool has then lost every packet it held.
\<close>

theorem add_refused_iff:
  assumes "pool_inv s" "pool_put h s i = Some (r, s')"
  shows "(r = 0 \<or> (r = - ENOMEM \<and> pool_contents s' = [])) \<and>
         (r = - ENOMEM \<longleftrightarrow> ph_fblocks (shm_ph s) \<le> needblocks (int (length (fst i))) \<and>
                          ph_tblocks (shm_ph s) < 2 * needblocks (int (length (fst i))))"
proof -
  have "ph_tblocks (shm_ph s) - used_blocks (pool_contents s) = ph_fblocks (shm_ph s)"
    using abs_blocks(2) assms(1) by (simp add: pool_contents_def pool_abs_def pool_inv_def)
  moreover have "r = - ENOMEM \<longleftrightarrow> r \<noteq> 0" using pool_put_refused [OF assms] by auto
  ultimately show ?thesis
    using pool_put_eq(2) [OF assms] pool_put_refused [OF assms]
      apool_add_refused_iff [of "ph_tblocks (shm_ph s)" "pool_contents s" "ph_num (shm_ph s)" "fst i" "snd i"]
    by auto
qed

lemma demo_big_blocks: "needblocks 5000 = 10"
  by (simp add: needblocks_def SHPOOL_BLOCK_SIZE_def)

lemma demo_fblocks [simp]: "ph_fblocks (shm_ph demo_pool) = 8"
  using abs_blocks(2) [of "shm_ph demo_pool" "eledata demo_pool"] demo_pool_facts(1,2,3)
  by (simp add: pool_contents_def pool_abs_def pool_inv_def)

theorem add_refused_iff_witness:
  "\<exists>r s'. pool_put demo_handle demo_pool (replicate 5000 1, 0) = Some (r, s') \<and> r = - ENOMEM \<and>
     pool_contents s' = []"
proof -
  let ?i = "(replicate 5000 1, 0) :: item"
  obtain r s' where p: "pool_put demo_handle demo_pool ?i = Some (r, s')"
    using plog.add_total [of demo_pool demo_handle ?i] by auto
  show ?thesis using p add_refused_iff [OF _ p] demo_big_blocks by auto
qed

text \<open>
  Frugal eviction: an accepted append drops no packet when more blocks are free than it
  needs; otherwise it stops at the first moment that twice the needed blocks are free: after any
  smaller number of drops fewer are. (The bound on the count leaves out the append that takes
  the last slot of the element ring, which drops one more packet.)
\<close>

lemma eviction_is_minimal:
  assumes "pool_inv s" "pool_put h s i = Some (0, s')" "int (length (pool_contents s)) + 1 < MAXE"
  shows "\<exists>j \<le> length (pool_contents s).
     pool_contents s' = drop j (pool_contents s) @ [pool_pkt s i] \<and>
     (needblocks (int (length (fst i))) < ph_fblocks (shm_ph s) \<longrightarrow> j = 0) \<and>
     (\<forall>k<j. ph_tblocks (shm_ph s) - used_blocks (drop k (pool_contents s)) < 2 * needblocks (int (length (fst i))))"
proof -
  let ?T = "ph_tblocks (shm_ph s)" and ?need = "needblocks (int (length (fst i)))" and ?ps = "pool_contents s"
  let ?e = "evict (?need * 2) (?T - used_blocks ?ps) (map pkt_blocks ?ps)"
  let ?j = "if ?T - used_blocks ?ps > ?need then 0 else ?e"
  have f: "?T - used_blocks ?ps = ph_fblocks (shm_ph s)"
    using abs_blocks(2) assms(1) by (simp add: pool_contents_def pool_abs_def pool_inv_def)
  have le: "?j \<le> length ?ps" using evict_le [of "?need * 2" "?T - used_blocks ?ps" "map pkt_blocks ?ps"] by simp
  have "make_room ?T ?need ?ps = drop ?j ?ps" by (simp add: make_room_def Let_def)
  moreover have "int (length (drop ?j ?ps @ [pool_pkt s i])) \<noteq> MAXE" using assms(3) by simp
  ultimately have c: "pool_contents s' = drop ?j ?ps @ [pool_pkt s i]"
    using pool_put_eq(2) [OF assms(1,2)] by (auto simp: apool_add_def Let_def pool_pkt_def split: if_splits)
  have "\<forall>k<?j. ?T - used_blocks (drop k ?ps) < 2 * ?need"
    using evict_minimal [of _ "?need * 2" "?T - used_blocks ?ps" "map pkt_blocks ?ps"]
    by (auto simp: used_blocks_drop algebra_simps)
  with c le f show ?thesis by (intro exI [of _ ?j]) auto
qed

text \<open>
  C5. Round trip: what an accepted append stored is what \<open>SaveEle2Buf\<close> copies out of the slot that
  was the tail: the bytes, the new packet number and the flag.
\<close>

theorem written_packet_reads_back:
  assumes "pool_inv s" "pool_put h s i = Some (0, s')" "int (length (fst i)) \<le> buflen"
  shows "SaveEle2Buf s' buflen (ph_tail (shm_ph s)) = Some (Inr (pool_pkt s i))"
proof -
  let ?ph = "shm_ph s'" and ?t = "ph_tail (shm_ph s)"
  have inv': "pool_inv s'" and hi: "head_inv ?ph"
    using pool_put_inv [OF assms(1,2)] by (auto simp: pool_inv_def)
  have t: "0 \<le> ?t" "?t < MAXE" using assms(1) head_inv_tail by (auto simp: pool_inv_def)
  have c: "pool_contents s' \<noteq> []" "last (pool_contents s') = pool_pkt s i"
    using plog.newest_kept [of s h i s'] assms(1,2) by auto
  let ?k = "length (pool_contents s') - 1"
  have lk: "length (live ?ph) = length (pool_contents s')" by (simp add: pool_contents_def pool_abs_def)
  then have cnt: "nat (ph_count ?ph) = Suc ?k" using length_live [OF hi] c(1) by simp
  have "ph_count ?ph = int ?k + 1" using cnt by linarith
  then have "NewerEle ?t = (ph_head ?ph + int ?k + 1) mod MAXE"
    using hi put_frame(1) [OF assms(1,2), of 0] by (simp add: head_inv_def SHPOOL_MAX_USERS_def add.assoc)
  then have "(ph_head ?ph + int ?k) mod MAXE = (NewerEle ?t - 1) mod MAXE"
    by (simp add: mod_diff_left_eq)
  then have tk: "(ph_head ?ph + int ?k) mod MAXE = ?t"
    using t by (simp add: NewerEle_mod mod_diff_left_eq)
  have e: "ph_eles ?ph ! nat ?t = live ?ph ! ?k"
    using live_nth [OF hi, of ?k] cnt tk by simp
  have m: "pool_contents s' = map (ele_packet (eledata s')) (live ?ph)"
    by (simp add: pool_contents_def pool_abs_def)
  have "?k < length (live ?ph)" using lk c(1) by simp
  then have "ele_packet (eledata s') (live ?ph ! ?k) = pool_contents s' ! ?k"
    using m by simp
  then have p: "ele_packet (eledata s') (live ?ph ! ?k) = pool_pkt s i"
    using c(2) last_conv_nth [OF c(1)] by simp
  have "ele_ok (live ?ph ! ?k)" using live_ele_ok [OF hi] lk c(1) by simp
  then have "ele_datalen (live ?ph ! ?k) = int (length (fst i))"
    using p ele_packet_length [of "live ?ph ! ?k" "eledata s'"] by (simp add: pool_pkt_def)
  then show ?thesis using SaveEle2Buf_safe [OF inv' t] e p assms(3) by simp
qed

theorem written_packet_reads_back_witness:
  "\<exists>s'. pool_put demo_handle demo_read ([1, 2, 3], 9) = Some (0, s') \<and>
     SaveEle2Buf s' 100 0 = Some (Inr ([1, 2, 3], 1, 9))"
proof -
  obtain s1 where p: "pool_put demo_handle demo_read ([1, 2, 3], 9) = Some (0, s1)" using demo_put by auto
  show ?thesis using p written_packet_reads_back [OF _ p, of 100] by (simp add: pool_pkt_def)
qed

section \<open>The readers\<close>

lemma demo_one:
  "\<exists>s1. pool_inv s1 \<and> at_pos s1 1 0 \<and> ph_count (shm_ph s1) = 1 \<and> sems s1 ! 1 = 1 \<and>
     pool_contents s1 = [([1, 2, 3], 1, 9)]"
proof -
  obtain s1 where s1: "usr_unread demo_reader s1 = 1" "pool_contents s1 = [([1, 2, 3], 1, 9)]"
     "reader_inv demo_reader 100 s1" "usr_synced demo_reader s1" using demo_put by auto
  have inv: "pool_inv s1" and hi: "head_inv (shm_ph s1)" using s1(3) by (auto simp: reader_inv_def pool_inv_def)
  have "length (live (shm_ph s1)) = 1" using arg_cong [OF s1(2), of length] by (simp add: pool_contents_def pool_abs_def)
  then have c: "ph_count (shm_ph s1) = 1" using length_live [OF hi] by simp
  have v: "sems s1 ! 1 = 1" using s1(1) by (simp add: usr_unread_def demo_reader_def)
  have "at_pos s1 1 0"
    using s1(4) c hi v by (simp add: at_pos_def usr_synced_def head_inv_def mod_diff_left_eq demo_reader_def)
  then show ?thesis using inv c v s1(2) by blast
qed

text \<open>
  Reading: a reader whose cursor stands on the \<open>k\<close>-th live element, whose semaphore counts at
  least one and whose buffer is large enough gets the \<open>k\<close>-th packet from
  \<open>MShmPoolGetResource\<close>, moves to element \<open>k + 1\<close> and uses up one unit of its semaphore; the
  contents stay.
\<close>

lemma get_resource_reads_cursor:
  assumes "pool_inv s" "user_ok pool" "has_mc pool" "at_pos s (userno pool) k" "int k < ph_count (shm_ph s)"
    "int (length (fst (pool_contents s ! k))) \<le> buflen" "1 \<le> sems s ! nat (userno pool)"
  shows "\<exists>s'. MShmPoolGetResource pool s buflen 0 = Some (Done (Inr (pool_contents s ! k), s')) \<and>
     pool_inv s' \<and> pool_contents s' = pool_contents s \<and> at_pos s' (userno pool) (Suc k) \<and>
     sems s' = arr_set (sems s) (userno pool) (sems s ! nat (userno pool) - 1)"
proof -
  note w = GetResource_window [OF assms(1-5), of buflen]
  show ?thesis
    using w assms(6,7)
    by (intro exI [of _ "after_read pool s k"]) (simp add: pool_contents_def, simp add: after_read_def)
qed

text \<open>
  C6. Memory safety of reading: for a registered reader of a well-formed pool,
  \<open>MShmPoolGetResource\<close> leaves the element array exactly when the semaphore grants the read
  while the cursor is -1 already, or while head and tail are both 0: the repair for a
  re-initialised pool then puts the cursor at \<open>tail - 1 = -1\<close>. In both cases element -1 is read.
  \<open>kerr\<close> is the errno of \<open>semop\<close>, 0 for none.
\<close>

theorem get_resource_out_of_bounds_iff:
  assumes "pool_inv s" "user_ok pool" "0 \<le> kerr"
  shows "MShmPoolGetResource pool s buflen kerr = None \<longleftrightarrow>
     0 \<le> buflen \<and> has_mc pool \<and> kerr = 0 \<and> 1 \<le> sems s ! nat (userno pool) \<and>
     (cursor s (userno pool) = -1 \<or> ph_head (shm_ph s) = 0 \<and> ph_tail (shm_ph s) = 0)"
proof (cases "0 \<le> buflen \<and> has_mc pool \<and> kerr = 0 \<and> 1 \<le> sems s ! nat (userno pool)")
  case False
  then show ?thesis
    using assms pool_inv_users(2) [OF assms(1)]
    by (auto simp: MShmPoolGetResource_def SemReq_def)
next
  case True
  let ?vs = "arr_set (sems s) (userno pool) (sems s ! nat (userno pool) - 1)"
  let ?s = "s\<lparr>sems := ?vs\<rparr>"
  have sr: "SemReq (sems s) (userno pool) kerr = Done (0, ?vs)"
    using True assms(2) pool_inv_users(2) [OF assms(1)] by (simp add: SemReq_def)
  have i: "pool_inv ?s" using SemReq_inv [OF sr pool_inv_users(3) [OF assms(1)]] assms(1) by (simp add: sems_inv)
  have t: "0 \<le> ph_tail (shm_ph s)" "ph_tail (shm_ph s) < MAXE"
    using head_inv_tail(1,2) [of "shm_ph s"] assms(1) by (auto simp: pool_inv_def)
  have eq: "MShmPoolGetResource pool s buflen kerr =
     map_option Done (read_cur pool (resync_usr pool ?s) buflen (cursor (resync_usr pool ?s) (userno pool)))"
    using True sr assms(2) pool_inv_users(1) [OF assms(1)] by (simp add: MShmPoolGetResource_def cursor_def Let_def)
  have c: "cursor (resync_usr pool ?s) (userno pool) =
     (if ph_head (shm_ph s) = 0 \<and> ph_tail (shm_ph s) < 5 \<and> cursor s (userno pool) \<ge> ph_tail (shm_ph s)
      then ph_tail (shm_ph s) - 1 else cursor s (userno pool))"
    using assms(2) pool_inv_users(1) [OF assms(1)]
    by (simp add: resync_usr_eq [OF i] cursor_def Let_def nth_arr_set)
  have none: "read_cur pool s2 buflen (-1) = None" for s2
    by (simp add: read_cur_def SaveEle2Buf_def Let_def arr_get_def)
  show ?thesis
  proof (cases "cursor s (userno pool) = -1 \<or> ph_head (shm_ph s) = 0 \<and> ph_tail (shm_ph s) = 0")
    case bad: True
    have "-1 \<le> cursor s (userno pool)"
      using pool_inv_users(4) [OF assms(1), of "userno pool"] assms(2) by (simp add: cursor_def)
    then have "cursor (resync_usr pool ?s) (userno pool) = -1" using bad c t by auto
    then show ?thesis using bad True eq none by simp
  next
    case ok: False
    have "0 \<le> cursor (resync_usr pool ?s) (userno pool)" "cursor (resync_usr pool ?s) (userno pool) < MAXE"
      using c ok t assms(2) pool_inv_users(4,5) [OF assms(1), of "userno pool"]
      by (auto simp: cursor_def split: if_splits)
    from read_cur_total [OF resync_usr_inv(1) [OF i assms(2)] this, of pool buflen] show ?thesis
      using ok eq by auto
  qed
qed

theorem get_resource_out_of_bounds_iff_witness:
  "MShmPoolGetResource demo_reader (demo_read\<lparr>sems := replicate 8 1\<rparr>) 100 0 = None"
proof -
  have i: "pool_inv (demo_read\<lparr>sems := replicate 8 1\<rparr>)"
    using pool_inv_users(2) [OF demo_read_facts(1)]
    by (intro sems_inv) (simp_all add: list_all_replicate SEMVMX_def SHPOOL_MAX_USERS_def)
  show ?thesis
    using get_resource_out_of_bounds_iff [OF i, of demo_reader 0 100]
    by (simp add: demo_reader_def SHPOOL_MAX_USERS_def numeral_eq_Suc)
qed

text \<open>
  Waking: \<open>SemAddAll\<close> adds one to the semaphore of every registered reader (a saturated
  semaphore stays) and removes exactly the registered readers whose lag then exceeds the limit or
  whose semaphore was saturated; cursors and the other readers are left alone.
\<close>

lemma sem_add_all_effect:
  assumes "pool_inv s" "0 \<le> i" "i < SHPOOL_MAX_USERS"
  shows "let m = (if newmaxsem s \<noteq> -1 then newmaxsem s else oldmaxsem s);
             u = ph_users (shm_ph s) ! nat i; v = sems s ! nat i; s' = SemAddAll s
         in sems s' ! nat i = (if usr_valid u \<noteq> 0 \<and> v < SEMVMX then v + 1 else v) \<and>
            ph_users (shm_ph s') ! nat i =
              (if usr_valid u \<noteq> 0 \<and> (sems s' ! nat i > m \<or> SEMVMX \<le> v) then u\<lparr>usr_valid := 0\<rparr> else u) \<and>
            ph_maxsem (shm_ph s') = m"
proof -
  let ?m = "if newmaxsem s \<noteq> -1 then newmaxsem s else oldmaxsem s"
  obtain us vs where e: "SemAddAll_loop ?m (ph_users (shm_ph s)) (sems s) = (us, vs)" by fastforce
  have "nat i < length (ph_users (shm_ph s))" "length (ph_users (shm_ph s)) = length (sems s)"
    using pool_inv_users(1,2) [OF assms(1)] assms(2,3) by simp_all
  from SemAddAll_loop_nth [OF e this(2,1)] show ?thesis
    unfolding SemAddAll_def Let_def e prod.case by simp
qed

lemma scan_free_find:
  "(\<And>i. i \<in> set is \<Longrightarrow> 0 \<le> i \<and> i < int (length us)) \<Longrightarrow>
     scan_free us is = Some (find (\<lambda>i. usr_valid (us ! nat i) = 0) is)"
  by (induction us "is" rule: scan_free.induct) (auto simp: arr_get_def)

lemma order_nth:
  fixes la :: int
  assumes "0 \<le> la" "la < 8" "d < 8"
  shows "([la + 1..7] @ [0..la]) ! d = (la + 1 + int d) mod 8"
proof -
  have l: "length [la + 1..7] = nat (7 - la)" by simp
  show ?thesis
  proof (cases "d < nat (7 - la)")
    case True
    then show ?thesis using assms by (simp add: nth_append l)
  next
    case False
    then have "int d - (7 - la) = la + 1 + int d - 8" "0 \<le> int d - (7 - la)" "int d - (7 - la) \<le> la"
      using assms by linarith+
    moreover from this have "(la + 1 + int d) mod 8 = la + 1 + int d - 8"
      using mod_pos_pos_trivial [of "la + 1 + int d - 8" 8] minus_mod_self2 [of "la + 1 + int d" 8] assms(2)
      by linarith
    ultimately show ?thesis using False assms by (simp add: nth_append l)
  qed
qed

text \<open>
  User slots: \<open>GetAFreeUsrNo\<close> never leaves the user array, answers \<open>-EBUSY\<close> exactly when
  all eight slots are taken, and otherwise hands out the first free slot in cyclic order after
  the one it handed out last (after slot 0 when it has handed out none).
\<close>

lemma free_user_slot_round_robin:
  assumes "length (ph_users ph) = 8" "ph_last_usr_no ph < 8"
  shows "\<exists>no ph'. GetAFreeUsrNo ph = Some (no, ph') \<and>
     (no = - EBUSY \<longleftrightarrow> (\<forall>u \<in> set (ph_users ph). usr_valid u \<noteq> 0)) \<and>
     (no \<noteq> - EBUSY \<longrightarrow> 0 \<le> no \<and> no < 8 \<and> usr_valid (ph_users ph ! nat no) = 0 \<and> ph_last_usr_no ph' = no \<and>
        (\<exists>d<8. no = (max 0 (ph_last_usr_no ph) + 1 + int d) mod 8 \<and>
           (\<forall>d'<d. usr_valid (ph_users ph ! nat ((max 0 (ph_last_usr_no ph) + 1 + int d') mod 8)) \<noteq> 0)))"
proof -
  define la where "la = max 0 (ph_last_usr_no ph)"
  let ?is = "[la + 1..7] @ [0..la]" and ?P = "\<lambda>i. usr_valid (ph_users ph ! nat i) = 0"
  have l: "0 \<le> la" "la < 8" using assms(2) by (auto simp: la_def)
  have st: "set ?is = {0..7}" using l by auto
  have len: "length ?is = 8" using l by simp
  have sc: "scan_free (ph_users ph) ?is = Some (find ?P ?is)"
    using assms(1) st by (intro scan_free_find) (auto simp del: set_append)
  have if_last: "(if ph_last_usr_no ph < 0 then 0 else ph_last_usr_no ph) = la" by (simp add: la_def)
  have g: "GetAFreeUsrNo ph = (case find ?P ?is of
      None \<Rightarrow> Some (- EBUSY, ph\<lparr>ph_last_usr_no := la\<rparr>) | Some i \<Rightarrow> Some (i, ph\<lparr>ph_last_usr_no := i\<rparr>))"
    unfolding GetAFreeUsrNo_def Let_def if_last using sc
    by (simp add: SHPOOL_MAX_USERS_def split: option.split)
  have all: "(\<forall>u \<in> set (ph_users ph). usr_valid u \<noteq> 0) \<longleftrightarrow> (\<forall>i \<in> {0..7}. \<not> ?P i)"
  proof
    show "\<forall>i \<in> {0..7}. \<not> ?P i" if "\<forall>u \<in> set (ph_users ph). usr_valid u \<noteq> 0"
      using that assms(1) by (auto simp: all_set_conv_all_nth)
    show "\<forall>u \<in> set (ph_users ph). usr_valid u \<noteq> 0" if a: "\<forall>i \<in> {0..7}. \<not> ?P i"
      unfolding all_set_conv_all_nth assms(1)
    proof (intro allI impI)
      fix k :: nat assume "k < 8"
      then show "usr_valid (ph_users ph ! k) \<noteq> 0" using bspec [OF a, of "int k"] by simp
    qed
  qed
  show ?thesis
  proof (cases "find ?P ?is")
    case None
    then have "\<forall>i \<in> {0..7}. \<not> ?P i" using st by (auto simp: find_None_iff simp del: set_append)
    then show ?thesis using None g all by simp
  next
    case (Some no)
    then obtain d where d: "d < 8" "?P no" "no = ?is ! d" "\<forall>d'<d. \<not> ?P (?is ! d')"
      using len by (auto simp: find_Some_iff simp del: length_append)
    have no: "no \<in> {0..7}" using d(1,3) st len nth_mem by metis
    have "no = (la + 1 + int d) mod 8" using d(3) order_nth [OF l d(1)] by simp
    moreover have "\<forall>d'<d. \<not> ?P ((la + 1 + int d') mod 8)"
      using d(1,4) order_nth [OF l] by (metis dual_order.strict_trans)
    moreover have "\<not> (\<forall>i \<in> {0..7}. \<not> ?P i)" using d(2) no by blast
    ultimately show ?thesis using Some g all no d(1,2) unfolding la_def [symmetric] by auto
  qed
qed

end
