(* ===== verification/Shm_Core.thy ===== *)
theory Shm_Core
  imports Prelude
begin

text \<open>
  The shared-memory core of \<open>libsrc/gtipcs/mshm.c\<close>: creating and attaching a System V segment
  whose first page holds the descriptor \<open>MEM_CORE\<close>, and the lock that is a semaphore with the
  segment's key. The kernel is a state of its own: the segments by key with their size and the
  descriptor they contain, and the lock semaphores by key. \<open>sysres\<close> tells which system calls
  fail for reasons outside the model. The model is the build without \<open>FOR_3022\<close> and
  \<open>VENC_TEST\<close>, which no makefile defines.
\<close>

section \<open>Segments\<close>

definition MSHM_MAGIC :: int where "MSHM_MAGIC = 0x5500aa00"

record MEM_CORE =
  mc_magic :: int
  mc_tsize :: int
  mc_usize :: int
  mc_mkey :: int
  mc_uoffset :: int
  mc_name :: string

definition zero_core :: MEM_CORE where
  "zero_core = \<lparr>mc_magic = 0, mc_tsize = 0, mc_usize = 0, mc_mkey = 0, mc_uoffset = 0, mc_name = []\<rparr>"

record kernel =
  k_pagesize :: int
  segs :: "int \<rightharpoonup> int \<times> MEM_CORE"
  locks :: "int \<rightharpoonup> int"

record sysres =
  r_shmget :: int
  r_shmat :: int
  r_sem :: int

definition core_tsize :: "int \<Rightarrow> int \<Rightarrow> int" where
  "core_tsize pagesize usersize = (((usersize - 1) div pagesize + 1) + 1) * pagesize"

text \<open>
  The outer \<open>None\<close> is the overflow of the 64-byte name field by \<open>sprintf\<close>. An existing segment
  is taken as it is, whatever its size, and its lock is set to 1.
\<close>

definition MShmCoreCreate ::
    "sysres \<Rightarrow> kernel \<Rightarrow> string option \<Rightarrow> int \<Rightarrow> int \<Rightarrow> ((int + MEM_CORE) \<times> kernel) option" where
  "MShmCoreCreate sr k name mkey usersize =
     (if usersize \<le> 0 \<or> mkey < 0 then Some (Inl EINVAL, k)
      else let tsize = core_tsize (k_pagesize k) usersize in
        if r_shmget sr \<noteq> 0 then Some (Inl (r_shmget sr), k)
        else (let (sz, old) = (case segs k mkey of None \<Rightarrow> (tsize, zero_core) | Some sg \<Rightarrow> sg);
                  k1 = k\<lparr>segs := (segs k)(mkey \<mapsto> (sz, old))\<rparr> in
          if r_shmat sr \<noteq> 0 then Some (Inl (r_shmat sr), k1)
          else if r_sem sr \<noteq> 0 then Some (Inl (r_sem sr), k1)
          else (let nm = (case name of None \<Rightarrow> ''NONAME'' | Some n \<Rightarrow> n);
                    mc = old\<lparr>mc_mkey := mkey, mc_tsize := tsize, mc_usize := usersize,
                             mc_uoffset := k_pagesize k, mc_name := nm, mc_magic := MSHM_MAGIC\<rparr>
                in if 64 \<le> length nm then None
                   else Some (Inr mc, k1\<lparr>segs := (segs k1)(mkey \<mapsto> (sz, mc)),
                                         locks := (locks k1)(mkey \<mapsto> 1)\<rparr>))))"

definition MShmCoreAttach :: "sysres \<Rightarrow> kernel \<Rightarrow> int \<Rightarrow> int + MEM_CORE" where
  "MShmCoreAttach sr k mkey =
     (if mkey < 0 then Inl EINVAL
      else case segs k mkey of
             None \<Rightarrow> Inl ENOENT
           | Some (sz, mc) \<Rightarrow>
               if r_shmget sr \<noteq> 0 then Inl (r_shmget sr)
               else if r_shmat sr \<noteq> 0 then Inl (r_shmat sr)
               else if mc_uoffset mc \<noteq> k_pagesize k then Inl EAGAIN
               else Inr mc)"

section \<open>The lock\<close>

text \<open>
  The lock is the semaphore of the kernel with the segment's key, taken with \<open>s_DoLock\<close> and given back with \<open>s_DoUnLock\<close>. The outcomes
  of the successive \<open>semop\<close> calls of one call of \<open>MShmLock\<close> or \<open>MShmUnLock\<close> are given as a list of errno values, 0 for
  success. A successful \<open>semop\<close> adds \<open>sem_op\<close> to the semaphore and is possible only when the sum is not negative; one that fails or is
  interrupted changes nothing, so the state of the kernel is the one at the end of the call. \<open>None\<close> is a call that has not
  returned. A descriptor with a wrong magic number ends the process.
\<close>

datatype lock_result = Exit | Ret int

definition s_DoLock :: int where "s_DoLock = -1"

definition s_DoUnLock :: int where "s_DoUnLock = 1"

definition semop :: "int \<Rightarrow> int \<Rightarrow> kernel \<Rightarrow> kernel option" where
  "semop key sem_op k =
     (case locks k key of
        None \<Rightarrow> None
      | Some v \<Rightarrow> if v + sem_op < 0 then None else Some (k\<lparr>locks := (locks k)(key \<mapsto> v + sem_op)\<rparr>))"

fun semop_loop :: "int \<Rightarrow> int \<Rightarrow> int list \<Rightarrow> kernel \<Rightarrow> (int \<times> kernel) option" where
  "semop_loop key sem_op [] k = None"
| "semop_loop key sem_op (e # es) k =
     (if e = 0 then map_option (Pair 0) (semop key sem_op k)
      else let rc = - e in if rc = - EINTR then semop_loop key sem_op es k else Some (rc, k))"

definition MShmLock :: "MEM_CORE option \<Rightarrow> int list \<Rightarrow> kernel \<Rightarrow> (lock_result \<times> kernel) option" where
  "MShmLock mc outcomes k =
     (case mc of
        None \<Rightarrow> Some (Ret (-1), k)
      | Some m \<Rightarrow> if mc_magic m \<noteq> MSHM_MAGIC then Some (Exit, k)
                  else map_option (\<lambda>(rc, k'). (Ret rc, k')) (semop_loop (mc_mkey m) s_DoLock outcomes k))"

definition MShmUnLock :: "MEM_CORE option \<Rightarrow> int list \<Rightarrow> kernel \<Rightarrow> (lock_result \<times> kernel) option" where
  "MShmUnLock mc outcomes k =
     (case mc of
        None \<Rightarrow> Some (Ret (-1), k)
      | Some m \<Rightarrow> if mc_magic m \<noteq> MSHM_MAGIC then Some (Exit, k)
                  else map_option (\<lambda>(rc, k'). (Ret rc, k')) (semop_loop (mc_mkey m) s_DoUnLock outcomes k))"

text \<open>
  The processes that share a segment: the kernel and the set of processes that hold the lock, that is, whose last call of
  \<open>MShmLock\<close> has returned 0. A process calls \<open>MShmLock\<close> when it does not hold the lock and \<open>MShmUnLock\<close> when it does. The
  operations carry \<open>SEM_UNDO\<close>, so the kernel undoes those of a process that dies. With \<open>again\<close> a process may
  also create the segment again.
\<close>

inductive lock_step :: "bool \<Rightarrow> MEM_CORE \<Rightarrow> kernel \<times> nat set \<Rightarrow> kernel \<times> nat set \<Rightarrow> bool" for again mc where
  lock: "MShmLock (Some mc) outs k = Some (Ret r, k') \<Longrightarrow> p \<notin> H \<Longrightarrow>
    lock_step again mc (k, H) (k', if r = 0 then insert p H else H)"
| unlock: "MShmUnLock (Some mc) outs k = Some (Ret r, k') \<Longrightarrow> p \<in> H \<Longrightarrow>
    lock_step again mc (k, H) (k', if r = 0 then H - {p} else H)"
| die: "p \<in> H \<Longrightarrow> semop (mc_mkey mc) (- s_DoLock) k = Some k' \<Longrightarrow> lock_step again mc (k, H) (k', H - {p})"
| recreate: "again \<Longrightarrow> MShmCoreCreate sr k name (mc_mkey mc) usersize = Some (Inr mc', k') \<Longrightarrow>
    lock_step again mc (k, H) (k', H)"

inductive_cases lock_stepE: "lock_step again mc c c'"

text \<open>From the creation of the segment on.\<close>

inductive lock_reach :: "bool \<Rightarrow> MEM_CORE \<Rightarrow> kernel \<times> nat set \<Rightarrow> bool" for again mc where
  init: "MShmCoreCreate sr k0 name mkey usersize = Some (Inr mc, k) \<Longrightarrow> lock_reach again mc (k, {})"
| step: "lock_reach again mc c \<Longrightarrow> lock_step again mc c c' \<Longrightarrow> lock_reach again mc c'"

section \<open>Properties\<close>







text \<open>Example: process 7 takes the lock of a new segment after one interruption.\<close>

definition empty_kernel :: kernel where
  "empty_kernel = \<lparr>k_pagesize = 4096, segs = Map.empty, locks = Map.empty\<rparr>"

definition sample_core :: MEM_CORE where
  "sample_core = \<lparr>mc_magic = MSHM_MAGIC, mc_tsize = 8192, mc_usize = 100, mc_mkey = 5, mc_uoffset = 4096, mc_name = ''v''\<rparr>"

definition sample_kernel :: "int \<Rightarrow> kernel" where
  "sample_kernel v = empty_kernel\<lparr>segs := [5 \<mapsto> (8192, sample_core)], locks := [5 \<mapsto> v]\<rparr>"

lemma sample_core_create: "MShmCoreCreate \<lparr>r_shmget = 0, r_shmat = 0, r_sem = 0\<rparr> empty_kernel (Some ''v'') 5 100 = Some (Inr sample_core, sample_kernel 1)"
  by (simp add: MShmCoreCreate_def empty_kernel_def sample_kernel_def sample_core_def core_tsize_def zero_core_def Let_def)

lemma sample_locked: "lock_reach again sample_core (sample_kernel 0, {7})"
proof -
  have "MShmLock (Some sample_core) [EINTR, 0] (sample_kernel 1) = Some (Ret 0, sample_kernel 0)"
    by (simp add: MShmLock_def sample_core_def sample_kernel_def semop_def s_DoLock_def)
  from lock_reach.step [OF lock_reach.init [OF sample_core_create] lock_step.lock [OF this, of 7]] show ?thesis by simp
qed


text \<open>Creating the segment again while the lock is held sets the semaphore to 1 and lets a second process in.\<close>

lemma recreation_breaks_exclusion: "\<exists>k. lock_reach True sample_core (k, {8, 7})"
proof -
  have "MShmCoreCreate \<lparr>r_shmget = 0, r_shmat = 0, r_sem = 0\<rparr> (sample_kernel 0) (Some ''v'') (mc_mkey sample_core) 100 =
      Some (Inr sample_core, sample_kernel 1)"
    by (simp add: MShmCoreCreate_def empty_kernel_def sample_kernel_def sample_core_def core_tsize_def Let_def)
  from lock_reach.step [OF sample_locked lock_step.recreate [OF _ this]]
  have r: "lock_reach True sample_core (sample_kernel 1, {7})" by simp
  have "MShmLock (Some sample_core) [0] (sample_kernel 1) = Some (Ret 0, sample_kernel 0)"
    by (simp add: MShmLock_def sample_core_def sample_kernel_def semop_def s_DoLock_def)
  from lock_reach.step [OF r lock_step.lock [OF this, of 8]] show ?thesis by auto
qed

text \<open>
  The descriptor is honest about a new segment: its total size is the size of the segment
  and holds the descriptor's page and the user's bytes. For a key that exists already the
  recorded size is the requested one, even when the segment is smaller.
\<close>

lemma core_create_sizes:
  assumes "MShmCoreCreate sr k name mkey usersize = Some (Inr mc, k')" "0 < k_pagesize k"
  shows "mc_uoffset mc + mc_usize mc \<le> mc_tsize mc \<and> locks k' mkey = Some 1 \<and>
         (\<exists>sz. segs k' mkey = Some (sz, mc) \<and>
            (segs k mkey = None \<longrightarrow> sz = mc_tsize mc) \<and>
            (\<forall>sz0 mc0. segs k mkey = Some (sz0, mc0) \<longrightarrow> sz = sz0))"
proof -
  have u: "0 < usersize" using assms(1) by (auto simp: MShmCoreCreate_def Let_def split: if_splits)
  let ?q = "(usersize - 1) div k_pagesize k"
  have "usersize - 1 = ?q * k_pagesize k + (usersize - 1) mod k_pagesize k" by simp
  moreover have "(usersize - 1) mod k_pagesize k < k_pagesize k" using assms(2) by simp
  ultimately have "usersize \<le> (?q + 1) * k_pagesize k" unfolding distrib_right by linarith
  then have "k_pagesize k + usersize \<le> core_tsize (k_pagesize k) usersize"
    by (simp add: core_tsize_def distrib_right)
  then show ?thesis using assms(1)
    by (auto simp: MShmCoreCreate_def Let_def split: if_splits option.splits prod.splits)
qed

end
