(* ===== verification/Pool_Admin.thy ===== *)
theory Pool_Admin
  imports Pool_Props Shm_Core
begin

text \<open>
  Creation of the pool, the packet-wise reader, moving a reader's cursor, the distance between
  elements and removing a reader by its process id.
\<close>

section \<open>Creation\<close>

lemma pool_size_bounds:
  assumes "SHPOOL_BLOCK_SIZE dvd ps" "0 < ps" "0 < bytes" "0 < hs"
  shows "((hs - 1) sdiv ps + 1) * ps + SHPOOL_BLOCK_SIZE * pool_tblocks ps bytes \<le> pool_realsize hs ps bytes"
    "bytes \<le> SHPOOL_BLOCK_SIZE * pool_tblocks ps bytes"
proof -
  let ?pages = "(bytes - 1) div ps + 1"
  obtain c where c: "ps = 512 * c" using assms(1) by (auto simp: SHPOOL_BLOCK_SIZE_def)
  have q: "0 \<le> (bytes - 1) div ps" using assms by (simp add: pos_imp_zdiv_nonneg_iff)
  then have "?pages * ps sdiv 512 = ?pages * ps div 512" using assms(2) by (intro sdiv_nonneg) simp_all
  also have "\<dots> = ?pages * c" unfolding c by (simp add: mult.left_commute)
  finally have T: "SHPOOL_BLOCK_SIZE * pool_tblocks ps bytes = ?pages * ps"
    using assms(2,3) by (simp add: pool_tblocks_def sdiv_nonneg SHPOOL_BLOCK_SIZE_def) (simp add: c)
  have "(bytes - 1) div ps \<le> (bytes + 1) div ps" using assms by (simp add: zdiv_mono1)
  then have "?pages * ps \<le> ((bytes + 1) div ps + 1) * ps" using assms by simp
  then show "((hs - 1) sdiv ps + 1) * ps + SHPOOL_BLOCK_SIZE * pool_tblocks ps bytes \<le> pool_realsize hs ps bytes"
    unfolding T pool_realsize_def using assms by (simp add: sdiv_nonneg distrib_right)
  have "bytes - 1 = (bytes - 1) div ps * ps + (bytes - 1) mod ps" by simp
  moreover have "(bytes - 1) mod ps < ps" using assms by simp
  ultimately show "bytes \<le> SHPOOL_BLOCK_SIZE * pool_tblocks ps bytes" unfolding T distrib_right by linarith
qed

text \<open>
  C7. Creation: on the segment that \<open>MShmCoreCreate\<close> gave for the size \<open>MShmPoolCreate\<close> asks for, new or
  at least as large as asked, \<open>MShmPoolCreate\<close> writes nothing behind the segment; it returns 0 exactly
  when it gets the semaphores, new or existing, and then leaves a well-formed empty pool with room for
  the requested bytes whose data area ends inside the segment. The sizes fit a \<open>long\<close>.
\<close>

theorem create_gives_empty_pool_in_segment:
  assumes "MShmCoreCreate sr k name pkey (pool_realsize (ce_headsize e) (ce_pagesize e) bytes) = Some (Inr mc, k')"
    "ce_pagesize e = k_pagesize k" "ce_core e = 0" "mc_tsize mc \<le> LONG_MAX"
    "segs k' pkey = Some (sz, mc)" "segs k pkey = None \<or> mc_tsize mc \<le> sz"
    "int (length (eledata old @ seg_rest old)) =
       sz - mc_uoffset mc - ((ce_headsize e - 1) sdiv ce_pagesize e + 1) * ce_pagesize e"
    "users_inv (ph_users (shm_ph old)) (sems old)"
    "SHPOOL_BLOCK_SIZE dvd ce_pagesize e" "0 < ce_pagesize e" "0 < ce_headsize e" "0 < bytes"
  shows "\<exists>r p' s. MShmPoolCreate e (Some h) old pkey bytes = Some (r, p', s) \<and>
     (r = 0 \<longleftrightarrow> 0 \<le> ce_semget_excl e \<or> ce_semerr e = EEXIST \<and> 0 \<le> ce_semget_open e) \<and>
     (r = 0 \<longrightarrow> pool_inv s \<and> pool_contents s = [] \<and> bytes \<le> int (length (eledata s)) \<and>
        mc_uoffset mc + ph_boffset (shm_ph s) + int (length (eledata s)) \<le> sz)"
proof -
  let ?R = "pool_realsize (ce_headsize e) (ce_pagesize e) bytes"
  let ?T = "SHPOOL_BLOCK_SIZE * pool_tblocks (ce_pagesize e) bytes"
  have ps: "0 < k_pagesize k" "SHPOOL_BLOCK_SIZE \<le> ce_pagesize e" using assms(2,9,10) by (auto intro: zdvd_imp_le)
  have cs: "mc_uoffset mc + mc_usize mc \<le> mc_tsize mc" "mc_tsize mc \<le> sz"
    using core_create_sizes [OF assms(1) ps(1)] assms(5,6) by auto
  have us: "mc_usize mc = ?R" "0 \<le> mc_uoffset mc" "\<not> pkey < 0"
    using assms(1) ps(1) by (auto simp: MShmCoreCreate_def Let_def split: if_splits option.splits prod.splits)
  note b = pool_size_bounds [OF assms(9,10,12,11)]
  have room: "nat ?T \<le> length (eledata old @ seg_rest old)" "?R \<le> LONG_MAX"
    using b(1) cs us assms(4,7) by linarith+
  have "\<exists>x. MShmPoolCreate e (Some h) old pkey bytes = Some x \<and>
      (fst x = 0 \<longleftrightarrow> 0 \<le> ce_semget_excl e \<or> ce_semerr e = EEXIST \<and> 0 \<le> ce_semget_open e)"
    using room us(3) assms(3,12) by (simp add: MShmPoolCreate_def Let_def init_head_def)
  then obtain r p' s where c: "MShmPoolCreate e (Some h) old pkey bytes = Some (r, p', s)"
      "r = 0 \<longleftrightarrow> 0 \<le> ce_semget_excl e \<or> ce_semerr e = EEXIST \<and> 0 \<le> ce_semget_open e"
    by auto
  have "pool_inv s \<and> pool_contents s = [] \<and> bytes \<le> int (length (eledata s)) \<and>
      mc_uoffset mc + ph_boffset (shm_ph s) + int (length (eledata s)) \<le> sz" if "r = 0"
  proof -
    note d = Create_Done [OF c(1) [unfolded that] assms(8) ps(2)]
    then have l: "int (length (eledata s)) = ?T" using assms(3) by (simp add: pool_inv_def)
    then show ?thesis using d Create_frame(1) [OF c(1) [unfolded that]] b cs us assms(3) by (simp add: pool_contents_def)
  qed
  then show ?thesis using c by blast
qed

definition demo_core :: MEM_CORE where
  "demo_core = \<lparr>mc_magic = MSHM_MAGIC, mc_tsize = 311296, mc_usize = 307200, mc_mkey = 1, mc_uoffset = 4096, mc_name = ''v''\<rparr>"

lemma demo_core_create:
  "MShmCoreCreate \<lparr>r_shmget = 0, r_shmat = 0, r_sem = 0\<rparr> empty_kernel (Some ''v'') 1 307200 =
     Some (Inr demo_core, empty_kernel\<lparr>segs := [1 \<mapsto> (311296, demo_core)], locks := [1 \<mapsto> 1]\<rparr>)"
  by (simp add: MShmCoreCreate_def empty_kernel_def demo_core_def core_tsize_def zero_core_def Let_def)

theorem create_gives_empty_pool_in_segment_witness:
  "pool_inv demo_pool \<and> 1000 \<le> int (length (eledata demo_pool))"
proof -
  have "pool_realsize (ce_headsize demo_env) (ce_pagesize demo_env) 1000 = 307200"
    by (simp add: pool_realsize_def demo_env_def)
  moreover have "int (length (eledata (fresh_shm 4096) @ seg_rest (fresh_shm 4096))) = 4096"
    by (simp add: fresh_shm_def)
  ultimately show ?thesis
    using create_gives_empty_pool_in_segment [where e = demo_env and old = "fresh_shm 4096" and bytes = 1000 and
        h = demo_handle and mc = demo_core and sz = 311296 and pkey = 1, OF _ _ _ _ _ _ _ fresh_users_inv]
      demo_core_create demo_create
    by (simp add: demo_env_def empty_kernel_def demo_core_def SHPOOL_BLOCK_SIZE_def LONG_MAX_def)
qed

text \<open>
  An existing segment that is smaller than the request is taken too, and clearing the blocks
  then runs over its end.
\<close>

lemma small_segment_overrun:
  assumes "int (length (eledata old @ seg_rest old)) < SHPOOL_BLOCK_SIZE * pool_tblocks (ce_pagesize e) bytes"
    "0 \<le> pkey" "0 < bytes" "ce_core e = 0" "0 \<le> ce_semget_excl e"
  shows "MShmPoolCreate e (Some h) old pkey bytes = None"
  using assms by (auto simp: MShmPoolCreate_def Let_def init_head_def)

section \<open>Reading packet-wise\<close>

text \<open>
  \<open>MShmPoolGetPacket\<close> does not wait for a reader that has something to read: with the cursor
  on the \<open>k\<close>-th live element it returns that packet and moves on without touching the
  semaphore; a reader at the tail whose semaphore is 0 waits and changes nothing.
\<close>

lemma get_packet_reads_or_waits:
  assumes "pool_inv s" "user_ok pool" "has_mc pool" "at_pos s (userno pool) k" "0 \<le> buflen"
  shows "(int k < ph_count (shm_ph s) \<and> int (length (fst (pool_contents s ! k))) \<le> buflen \<longrightarrow>
            (\<exists>s'. MShmPoolGetPacket pool s buflen kerr False = Some (Done (Inr (pool_contents s ! k), s')) \<and>
                  pool_contents s' = pool_contents s \<and> at_pos s' (userno pool) (Suc k) \<and> sems s' = sems s)) \<and>
         (int k = ph_count (shm_ph s) \<and> sems s ! nat (userno pool) = 0 \<longrightarrow>
            MShmPoolGetPacket pool s buflen 0 False = Some (Blocked s))"
proof (intro conjI impI)
  have hi: "head_inv (shm_ph s)" using assms(1) by (simp add: pool_inv_def)
  have u: "arr_get (ph_users (shm_ph s)) (userno pool) = Some (ph_users (shm_ph s) ! nat (userno pool))"
    using assms(2) pool_inv_users(1) [OF assms(1)] by simp
  have cm: "ph_count (shm_ph s) < MAXE" "0 \<le> ph_head (shm_ph s)" "ph_head (shm_ph s) < MAXE"
    and t: "ph_tail (shm_ph s) = (ph_head (shm_ph s) + ph_count (shm_ph s)) mod MAXE"
    using assms(1) by (auto simp: pool_inv_def head_inv_def)
  { assume a: "int k < ph_count (shm_ph s) \<and> int (length (fst (pool_contents s ! k))) \<le> buflen"
    have "(ph_head (shm_ph s) + int k) mod MAXE \<noteq> (ph_head (shm_ph s) + ph_count (shm_ph s)) mod MAXE"
    proof
      assume "(ph_head (shm_ph s) + int k) mod MAXE = (ph_head (shm_ph s) + ph_count (shm_ph s)) mod MAXE"
      then have "int k mod MAXE = ph_count (shm_ph s) mod MAXE"
        using mod_diff_cong [of _ MAXE _ "ph_head (shm_ph s)" "ph_head (shm_ph s)"] by fastforce
      then show False using a cm by simp
    qed
    then have "GetPacket_loop pool s kerr False = Done (0, s)"
      using assms(4) t head_inv_tail(3) [OF hi] a cm
      by (subst GetPacket_loop.simps) (simp add: at_pos_def)
    moreover have "read_cur pool s buflen (cursor s (userno pool)) = Some (Inr (pool_contents s ! k),
        set_usr (userno pool) (\<lambda>u. u\<lparr>usr_curele := (ph_head (shm_ph s) + int (Suc k)) mod MAXE\<rparr>) s)"
      using read_cur_window [OF assms(1,2,4)] a by (simp add: pool_contents_def)
    ultimately have "MShmPoolGetPacket pool s buflen kerr False = Some (Done (Inr (pool_contents s ! k),
        set_usr (userno pool) (\<lambda>u. u\<lparr>usr_curele := (ph_head (shm_ph s) + int (Suc k)) mod MAXE\<rparr>) s))"
      using u assms(3,5) by (simp add: MShmPoolGetPacket_def cursor_def)
    then show "\<exists>s'. MShmPoolGetPacket pool s buflen kerr False = Some (Done (Inr (pool_contents s ! k), s')) \<and>
                  pool_contents s' = pool_contents s \<and> at_pos s' (userno pool) (Suc k) \<and> sems s' = sems s"
      using at_pos_advance [OF assms(1,2), of k] a by (simp add: pool_contents_def) }
  assume b: "int k = ph_count (shm_ph s) \<and> sems s ! nat (userno pool) = 0"
  have "SemReq (sems s) (userno pool) 0 = Blocked (sems s)"
    using b assms(2) pool_inv_users(2) [OF assms(1)] by (simp add: SemReq_def)
  then have "GetPacket_loop pool s 0 False = Blocked s"
    using b assms(4) t by (subst GetPacket_loop.simps) (simp add: at_pos_def)
  then show "MShmPoolGetPacket pool s buflen 0 False = Some (Blocked s)"
    using u assms(3,5) by (simp add: MShmPoolGetPacket_def)
qed

section \<open>Moving the cursor\<close>

lemma mod_pos_inj:
  assumes "0 \<le> i" "i < MAXE" "0 \<le> j" "j < MAXE"
  shows "(h + i) mod MAXE = (h + j) mod MAXE \<longleftrightarrow> i = j"
proof
  assume "(h + i) mod MAXE = (h + j) mod MAXE"
  then have "(h + i - h) mod MAXE = (h + j - h) mod MAXE" by (rule mod_diff_cong) simp
  then show "i = j" using assms by simp
qed simp

lemma mv_loop_older:
  assumes "0 \<le> h" "h < MAXE" "0 < k" "int k < MAXE"
  shows "mv_loop OlderEle h n ((h + int k) mod MAXE) m =
     ((h + int (k - min n k)) mod MAXE, m + int (min n k))"
  using assms(3,4)
proof (induction n arbitrary: k m)
  case (Suc n)
  have o: "OlderEle ((h + int k) mod MAXE) = (h + int (k - 1)) mod MAXE"
    using Suc.prems by (simp add: OlderEle_mod SHPOOL_MAX_ELE_def mod_simps of_nat_diff algebra_simps)
  have stop: "(h + int (k - 1)) mod MAXE = h \<longleftrightarrow> k = 1"
    using mod_pos_inj [of "int (k - 1)" 0 h] Suc.prems assms(1,2) by auto
  show ?case
  proof (cases "k = 1")
    case True
    then show ?thesis using o stop assms(1,2) by (simp add: Let_def)
  next
    case False
    obtain k' where k': "k = Suc k'" using Suc.prems(1) by (cases k) auto
    show ?thesis using False o stop Suc.IH [of k' "m + 1"] Suc.prems unfolding k' by (simp add: Let_def)
  qed
qed simp

lemma mv_loop_newer:
  assumes "0 \<le> h" "h < MAXE" "c < MAXE" "int k < c"
  shows "mv_loop NewerEle ((h + c) mod MAXE) n ((h + int k) mod MAXE) m =
     ((h + int k + min (int n) (c - int k)) mod MAXE, m + min (int n) (c - int k))"
  using assms(4)
proof (induction n arbitrary: k m)
  case (Suc n)
  have o: "NewerEle ((h + int k) mod MAXE) = (h + int (Suc k)) mod MAXE"
    by (simp add: NewerEle_mod SHPOOL_MAX_ELE_def mod_simps algebra_simps)
  have stop: "(h + int (Suc k)) mod MAXE = (h + c) mod MAXE \<longleftrightarrow> int (Suc k) = c"
    using mod_pos_inj [of "int (Suc k)" c h] Suc.prems assms(3) by auto
  show ?case
  proof (cases "int (Suc k) = c")
    case True
    then have "min (int (Suc n)) (c - int k) = 1" by simp
    then show ?thesis using True o stop by (simp add: Let_def algebra_simps)
  next
    case False
    then show ?thesis using o stop Suc.IH [of "Suc k" "m + 1"] Suc.prems
      by (simp add: Let_def min_def algebra_simps)
  qed
qed (use assms in simp)

text \<open>
  Moving inside the window: from the \<open>k\<close>-th live element, \<open>MShmPoolMvNewPlace\<close> moves back by
  the asked distance or to the oldest element, forward by the asked distance or to the tail, and
  returns how far it went. The reader must not stand on the oldest element to move back, nor at
  the tail to move forward.
\<close>

lemma move_stays_in_window:
  assumes "pool_inv s" "user_ok pool" "has_mc pool" "has_ph pool" "at_pos s (userno pool) k"
  shows "(place < 0 \<and> 0 < k \<longrightarrow> (\<exists>s'. MShmPoolMvNewPlace pool s place = Some (int (min (nat (- place)) k), s') \<and>
             at_pos s' (userno pool) (k - min (nat (- place)) k))) \<and>
         (0 < place \<and> int k < ph_count (shm_ph s) \<longrightarrow>
            (\<exists>s'. MShmPoolMvNewPlace pool s place = Some (min place (ph_count (shm_ph s) - int k), s') \<and>
             at_pos s' (userno pool) (k + nat (min place (ph_count (shm_ph s) - int k)))))"
proof (intro conjI impI)
  let ?h = "ph_head (shm_ph s)" and ?c = "ph_count (shm_ph s)"
  have h: "0 \<le> ?h" "?h < MAXE" "?c < MAXE" and kc: "int k \<le> ?c"
    and t: "ph_tail (shm_ph s) = (?h + ?c) mod MAXE"
    using assms(1,5) by (auto simp: pool_inv_def head_inv_def at_pos_def)
  have u: "arr_get (ph_users (shm_ph s)) (userno pool) = Some (ph_users (shm_ph s) ! nat (userno pool))"
    and cur: "usr_curele (ph_users (shm_ph s) ! nat (userno pool)) = (?h + int k) mod MAXE"
    using assms(2,5) pool_inv_users(1) [OF assms(1)] by (simp_all add: at_pos_def)
  have at: "at_pos (set_usr (userno pool) (\<lambda>u. u\<lparr>usr_curele := (?h + int j) mod MAXE\<rparr>) s) (userno pool) j"
    if "int j \<le> ?c" for j
    using that assms(2) users_nth_set_usr [OF assms(1)] by (simp add: at_pos_def)
  { assume "place < 0 \<and> 0 < k"
    then show "\<exists>s'. MShmPoolMvNewPlace pool s place = Some (int (min (nat (- place)) k), s') \<and>
             at_pos s' (userno pool) (k - min (nat (- place)) k)"
      using mv_loop_older [OF h(1,2), of k "nat (- place)" 0] h kc u cur assms(3,4)
        at [of "k - min (nat (- place)) k"]
      by (simp add: MShmPoolMvNewPlace_def) }
  assume b: "0 < place \<and> int k < ?c"
  let ?m = "min place (?c - int k)"
  have m: "mv_loop NewerEle (ph_tail (shm_ph s)) (nat place) ((?h + int k) mod MAXE) 0 =
      ((?h + int (k + nat ?m)) mod MAXE, ?m)"
    using mv_loop_newer [OF h, of k "nat place" 0] b t by (simp add: add.assoc min_def)
  have "MShmPoolMvNewPlace pool s place = Some (?m,
      set_usr (userno pool) (\<lambda>u. u\<lparr>usr_curele := (?h + int (k + nat ?m)) mod MAXE\<rparr>) s)"
    unfolding MShmPoolMvNewPlace_def Let_def u option.case cur m using b assms(3,4) by simp
  moreover have "int (k + nat ?m) \<le> ?c" using b by (auto simp: min_def)
  ultimately show "\<exists>s'. MShmPoolMvNewPlace pool s place = Some (?m, s') \<and> at_pos s' (userno pool) (k + nat ?m)"
    using at by blast
qed

text \<open>
  The loops of \<open>MShmPoolMvNewPlace\<close> test for the end of the window only after a step: from
  the oldest element one step back is taken, and counted, although there is nothing older. The
  cursor is then on no live element, unless all slots are in use.
\<close>

lemma move_back_from_head_leaves_window:
  assumes "pool_inv s" "user_ok pool" "has_mc pool" "has_ph pool" "at_pos s (userno pool) 0"
    "ph_count (shm_ph s) < MAXE - 1"
  shows "\<exists>s'. MShmPoolMvNewPlace pool s (-1) = Some (1, s') \<and> (\<forall>k. \<not> at_pos s' (userno pool) k)"
proof -
  let ?h = "ph_head (shm_ph s)"
  let ?s = "set_usr (userno pool) (\<lambda>u. u\<lparr>usr_curele := OlderEle ?h\<rparr>) s"
  have h: "0 \<le> ?h" "?h < MAXE" using assms(1) by (auto simp: pool_inv_def head_inv_def)
  have u: "arr_get (ph_users (shm_ph s)) (userno pool) = Some (ph_users (shm_ph s) ! nat (userno pool))"
    and cur: "usr_curele (ph_users (shm_ph s) ! nat (userno pool)) = ?h"
    using assms(2,5) pool_inv_users(1) [OF assms(1)] h by (simp_all add: at_pos_def)
  have o: "OlderEle ?h = (?h + (MAXE - 1)) mod MAXE"
    using h by (simp add: OlderEle_mod) (metis add_diff_eq diff_add_eq mod_add_self2)
  have "MShmPoolMvNewPlace pool s (-1) = Some (1, ?s)"
    using u cur assms(3,4) by (simp add: MShmPoolMvNewPlace_def Let_def)
  moreover have "\<not> at_pos ?s (userno pool) k" for k
    using mod_pos_inj [of "MAXE - 1" "int k" ?h] users_nth_set_usr [OF assms(1)] assms(2,6) o
    by (auto simp: at_pos_def SHPOOL_MAX_ELE_def)
  ultimately show ?thesis by blast
qed

section \<open>Distance and removal\<close>

text \<open>
  \<open>MShmDistanceEle\<close> counts the steps from the head to an element correctly only while the
  element's index is not smaller than the head's; once the ring has wrapped, the result exceeds
  the distance by twice the difference of the indices.
\<close>

lemma distance_from_head:
  assumes "0 \<le> ph_head ph" "ph_head ph < MAXE" "0 \<le> b" "b < MAXE"
  shows "MShmDistanceEle ph (ph_head ph) b =
     (b - ph_head ph) mod MAXE + (if b < ph_head ph then 2 * (ph_head ph - b) else 0)"
  using assms mod_wrap_once [of MAXE "b - ph_head ph"]
  by (auto simp: MShmDistanceEle_def Let_def)

text \<open>
  \<open>MShmPoolDelUsrByPid\<close> returns 0 whether or not it found a user; it clears the valid flag of
  the first user with the given process id and changes nothing else.
\<close>

lemma del_user_by_pid:
  assumes "has_ph h" "MShmPoolDelUsrByPid (Some h) s pid = (r, s')"
  shows "r = 0 \<and> shm_ph s' = (shm_ph s)\<lparr>ph_users :=
     takeWhile (\<lambda>u. usr_upid u \<noteq> pid) (ph_users (shm_ph s)) @
     (case dropWhile (\<lambda>u. usr_upid u \<noteq> pid) (ph_users (shm_ph s)) of
        [] \<Rightarrow> [] | u # us \<Rightarrow> u\<lparr>usr_valid := 0\<rparr> # us)\<rparr>"
proof -
  have d: "snd (del_by_pid pid us) = takeWhile (\<lambda>u. usr_upid u \<noteq> pid) us @
      (case dropWhile (\<lambda>u. usr_upid u \<noteq> pid) us of [] \<Rightarrow> [] | u # us \<Rightarrow> u\<lparr>usr_valid := 0\<rparr> # us)" for us
    by (induction us) (auto split: prod.splits)
  show ?thesis
    using assms d [of "ph_users (shm_ph s)"] by (auto simp: MShmPoolDelUsrByPid_def split: prod.splits)
qed

end
