(* ===== verification/Crc.thy ===== *)
theory Crc
  imports Prelude
begin

text \<open>
  The two checksums of the device: the 16-bit CRC of \<open>src/rebootd/crc16.c\<close>, used on the serial
  line to the watchdog board, and the 32-bit CRC of \<open>libsrc/gtdevapi/src/tab_crc32.c\<close>, used for
  the multicast device packets. Both tables are taken over as they are and proved to be the
  bitwise polynomial division they stand for; from the bitwise form follows that a single
  corrupted byte is always noticed.
\<close>

named_theorems crc_simps \<open>bitwise form of the table-driven checksums\<close>

section \<open>The tables and the code\<close>

definition Crc16Table :: "u16 list" where
  "Crc16Table =
    [0x0000, 0x1021, 0x2042, 0x3063, 0x4084, 0x50a5, 0x60c6, 0x70e7,
     0x8108, 0x9129, 0xa14a, 0xb16b, 0xc18c, 0xd1ad, 0xe1ce, 0xf1ef,
     0x1231, 0x0210, 0x3273, 0x2252, 0x52b5, 0x4294, 0x72f7, 0x62d6,
     0x9339, 0x8318, 0xb37b, 0xa35a, 0xd3bd, 0xc39c, 0xf3ff, 0xe3de,
     0x2462, 0x3443, 0x0420, 0x1401, 0x64e6, 0x74c7, 0x44a4, 0x5485,
     0xa56a, 0xb54b, 0x8528, 0x9509, 0xe5ee, 0xf5cf, 0xc5ac, 0xd58d,
     0x3653, 0x2672, 0x1611, 0x0630, 0x76d7, 0x66f6, 0x5695, 0x46b4,
     0xb75b, 0xa77a, 0x9719, 0x8738, 0xf7df, 0xe7fe, 0xd79d, 0xc7bc,
     0x48c4, 0x58e5, 0x6886, 0x78a7, 0x0840, 0x1861, 0x2802, 0x3823,
     0xc9cc, 0xd9ed, 0xe98e, 0xf9af, 0x8948, 0x9969, 0xa90a, 0xb92b,
     0x5af5, 0x4ad4, 0x7ab7, 0x6a96, 0x1a71, 0x0a50, 0x3a33, 0x2a12,
     0xdbfd, 0xcbdc, 0xfbbf, 0xeb9e, 0x9b79, 0x8b58, 0xbb3b, 0xab1a,
     0x6ca6, 0x7c87, 0x4ce4, 0x5cc5, 0x2c22, 0x3c03, 0x0c60, 0x1c41,
     0xedae, 0xfd8f, 0xcdec, 0xddcd, 0xad2a, 0xbd0b, 0x8d68, 0x9d49,
     0x7e97, 0x6eb6, 0x5ed5, 0x4ef4, 0x3e13, 0x2e32, 0x1e51, 0x0e70,
     0xff9f, 0xefbe, 0xdfdd, 0xcffc, 0xbf1b, 0xaf3a, 0x9f59, 0x8f78,
     0x9188, 0x81a9, 0xb1ca, 0xa1eb, 0xd10c, 0xc12d, 0xf14e, 0xe16f,
     0x1080, 0x00a1, 0x30c2, 0x20e3, 0x5004, 0x4025, 0x7046, 0x6067,
     0x83b9, 0x9398, 0xa3fb, 0xb3da, 0xc33d, 0xd31c, 0xe37f, 0xf35e,
     0x02b1, 0x1290, 0x22f3, 0x32d2, 0x4235, 0x5214, 0x6277, 0x7256,
     0xb5ea, 0xa5cb, 0x95a8, 0x8589, 0xf56e, 0xe54f, 0xd52c, 0xc50d,
     0x34e2, 0x24c3, 0x14a0, 0x0481, 0x7466, 0x6447, 0x5424, 0x4405,
     0xa7db, 0xb7fa, 0x8799, 0x97b8, 0xe75f, 0xf77e, 0xc71d, 0xd73c,
     0x26d3, 0x36f2, 0x0691, 0x16b0, 0x6657, 0x7676, 0x4615, 0x5634,
     0xd94c, 0xc96d, 0xf90e, 0xe92f, 0x99c8, 0x89e9, 0xb98a, 0xa9ab,
     0x5844, 0x4865, 0x7806, 0x6827, 0x18c0, 0x08e1, 0x3882, 0x28a3,
     0xcb7d, 0xdb5c, 0xeb3f, 0xfb1e, 0x8bf9, 0x9bd8, 0xabbb, 0xbb9a,
     0x4a75, 0x5a54, 0x6a37, 0x7a16, 0x0af1, 0x1ad0, 0x2ab3, 0x3a92,
     0xfd2e, 0xed0f, 0xdd6c, 0xcd4d, 0xbdaa, 0xad8b, 0x9de8, 0x8dc9,
     0x7c26, 0x6c07, 0x5c64, 0x4c45, 0x3ca2, 0x2c83, 0x1ce0, 0x0cc1,
     0xef1f, 0xff3e, 0xcf5d, 0xdf7c, 0xaf9b, 0xbfba, 0x8fd9, 0x9ff8,
     0x6e17, 0x7e36, 0x4e55, 0x5e74, 0x2e93, 0x3eb2, 0x0ed1, 0x1ef0]"

definition UpdateCRC :: "byte \<Rightarrow> u16 \<Rightarrow> u16" where
  "UpdateCRC octet crc = push_bit 8 crc XOR (Crc16Table ! unat (drop_bit 8 crc XOR ucast octet))"

definition crc_table :: "u32 list" where
  "crc_table =
    [0x00000000, 0x77073096, 0xee0e612c, 0x990951ba, 0x076dc419,
     0x706af48f, 0xe963a535, 0x9e6495a3, 0x0edb8832, 0x79dcb8a4,
     0xe0d5e91e, 0x97d2d988, 0x09b64c2b, 0x7eb17cbd, 0xe7b82d07,
     0x90bf1d91, 0x1db71064, 0x6ab020f2, 0xf3b97148, 0x84be41de,
     0x1adad47d, 0x6ddde4eb, 0xf4d4b551, 0x83d385c7, 0x136c9856,
     0x646ba8c0, 0xfd62f97a, 0x8a65c9ec, 0x14015c4f, 0x63066cd9,
     0xfa0f3d63, 0x8d080df5, 0x3b6e20c8, 0x4c69105e, 0xd56041e4,
     0xa2677172, 0x3c03e4d1, 0x4b04d447, 0xd20d85fd, 0xa50ab56b,
     0x35b5a8fa, 0x42b2986c, 0xdbbbc9d6, 0xacbcf940, 0x32d86ce3,
     0x45df5c75, 0xdcd60dcf, 0xabd13d59, 0x26d930ac, 0x51de003a,
     0xc8d75180, 0xbfd06116, 0x21b4f4b5, 0x56b3c423, 0xcfba9599,
     0xb8bda50f, 0x2802b89e, 0x5f058808, 0xc60cd9b2, 0xb10be924,
     0x2f6f7c87, 0x58684c11, 0xc1611dab, 0xb6662d3d, 0x76dc4190,
     0x01db7106, 0x98d220bc, 0xefd5102a, 0x71b18589, 0x06b6b51f,
     0x9fbfe4a5, 0xe8b8d433, 0x7807c9a2, 0x0f00f934, 0x9609a88e,
     0xe10e9818, 0x7f6a0dbb, 0x086d3d2d, 0x91646c97, 0xe6635c01,
     0x6b6b51f4, 0x1c6c6162, 0x856530d8, 0xf262004e, 0x6c0695ed,
     0x1b01a57b, 0x8208f4c1, 0xf50fc457, 0x65b0d9c6, 0x12b7e950,
     0x8bbeb8ea, 0xfcb9887c, 0x62dd1ddf, 0x15da2d49, 0x8cd37cf3,
     0xfbd44c65, 0x4db26158, 0x3ab551ce, 0xa3bc0074, 0xd4bb30e2,
     0x4adfa541, 0x3dd895d7, 0xa4d1c46d, 0xd3d6f4fb, 0x4369e96a,
     0x346ed9fc, 0xad678846, 0xda60b8d0, 0x44042d73, 0x33031de5,
     0xaa0a4c5f, 0xdd0d7cc9, 0x5005713c, 0x270241aa, 0xbe0b1010,
     0xc90c2086, 0x5768b525, 0x206f85b3, 0xb966d409, 0xce61e49f,
     0x5edef90e, 0x29d9c998, 0xb0d09822, 0xc7d7a8b4, 0x59b33d17,
     0x2eb40d81, 0xb7bd5c3b, 0xc0ba6cad, 0xedb88320, 0x9abfb3b6,
     0x03b6e20c, 0x74b1d29a, 0xead54739, 0x9dd277af, 0x04db2615,
     0x73dc1683, 0xe3630b12, 0x94643b84, 0x0d6d6a3e, 0x7a6a5aa8,
     0xe40ecf0b, 0x9309ff9d, 0x0a00ae27, 0x7d079eb1, 0xf00f9344,
     0x8708a3d2, 0x1e01f268, 0x6906c2fe, 0xf762575d, 0x806567cb,
     0x196c3671, 0x6e6b06e7, 0xfed41b76, 0x89d32be0, 0x10da7a5a,
     0x67dd4acc, 0xf9b9df6f, 0x8ebeeff9, 0x17b7be43, 0x60b08ed5,
     0xd6d6a3e8, 0xa1d1937e, 0x38d8c2c4, 0x4fdff252, 0xd1bb67f1,
     0xa6bc5767, 0x3fb506dd, 0x48b2364b, 0xd80d2bda, 0xaf0a1b4c,
     0x36034af6, 0x41047a60, 0xdf60efc3, 0xa867df55, 0x316e8eef,
     0x4669be79, 0xcb61b38c, 0xbc66831a, 0x256fd2a0, 0x5268e236,
     0xcc0c7795, 0xbb0b4703, 0x220216b9, 0x5505262f, 0xc5ba3bbe,
     0xb2bd0b28, 0x2bb45a92, 0x5cb36a04, 0xc2d7ffa7, 0xb5d0cf31,
     0x2cd99e8b, 0x5bdeae1d, 0x9b64c2b0, 0xec63f226, 0x756aa39c,
     0x026d930a, 0x9c0906a9, 0xeb0e363f, 0x72076785, 0x05005713,
     0x95bf4a82, 0xe2b87a14, 0x7bb12bae, 0x0cb61b38, 0x92d28e9b,
     0xe5d5be0d, 0x7cdcefb7, 0x0bdbdf21, 0x86d3d2d4, 0xf1d4e242,
     0x68ddb3f8, 0x1fda836e, 0x81be16cd, 0xf6b9265b, 0x6fb077e1,
     0x18b74777, 0x88085ae6, 0xff0f6a70, 0x66063bca, 0x11010b5c,
     0x8f659eff, 0xf862ae69, 0x616bffd3, 0x166ccf45, 0xa00ae278,
     0xd70dd2ee, 0x4e048354, 0x3903b3c2, 0xa7672661, 0xd06016f7,
     0x4969474d, 0x3e6e77db, 0xaed16a4a, 0xd9d65adc, 0x40df0b66,
     0x37d83bf0, 0xa9bcae53, 0xdebb9ec5, 0x47b2cf7f, 0x30b5ffe9,
     0xbdbdf21c, 0xcabac28a, 0x53b39330, 0x24b4a3a6, 0xbad03605,
     0xcdd70693, 0x54de5729, 0x23d967bf, 0xb3667a2e, 0xc4614ab8,
     0x5d681b02, 0x2a6f2b94, 0xb40bbe37, 0xc30c8ea1, 0x5a05df1b,
     0x2d02ef8d]"

fun crc32_loop :: "u32 \<Rightarrow> byte list \<Rightarrow> u32" where
  "crc32_loop crc [] = crc"
| "crc32_loop crc (b # bs) = crc32_loop ((crc_table ! unat ((crc XOR ucast b) AND 0xff)) XOR drop_bit 8 crc) bs"

definition tab_crc32 :: "byte list \<Rightarrow> u32" where
  "tab_crc32 buf = (let crc = 0xffffffff XOR 0xffffffff in crc32_loop crc buf XOR 0xffffffff)"

section \<open>Bitwise division\<close>

definition step16 :: "u16 \<Rightarrow> u16" where
  "step16 c = (if bit c 15 then push_bit 1 c XOR 0x1021 else push_bit 1 c)"

definition step32 :: "u32 \<Rightarrow> u32" where
  "step32 c = (if bit c 0 then drop_bit 1 c XOR 0xedb88320 else drop_bit 1 c)"

definition crc16_byte :: "byte \<Rightarrow> u16 \<Rightarrow> u16" where
  "crc16_byte b c = (step16 ^^ 8) (c XOR push_bit 8 (ucast b))"

definition crc32_byte :: "byte \<Rightarrow> u32 \<Rightarrow> u32" where
  "crc32_byte b c = (step32 ^^ 8) (c XOR ucast b)"

section \<open>The tables are spanned by eight entries\<close>

text \<open>All sums of a list of words, in the order of the binary numbers that select them.\<close>

fun span :: "'a::len word list \<Rightarrow> 'a word list" where
  "span [] = [0]"
| "span (b # bs) = (let t = span bs in t @ map (\<lambda>x. b XOR x) t)"

lemma map_span:
  assumes "\<And>x y. f (x XOR y) = f x XOR f y" "f 0 = 0"
  shows "map f (span bs) = span (map f bs)"
proof (induction bs)
  case (Cons b bs)
  have "map f (map ((XOR) b) xs) = map ((XOR) (f b)) (map f xs)" for xs by (simp add: assms(1))
  with Cons show ?case by (simp add: Let_def del: map_map)
qed (simp add: assms(2))

lemma step16_xor: "step16 (x XOR y) = step16 x XOR step16 y"
  by (auto simp: step16_def bit_xor_iff push_bit_xor ac_simps)

lemma step32_xor: "step32 (x XOR y) = step32 x XOR step32 y"
  by (auto simp: step32_def bit_xor_iff drop_bit_xor ac_simps)

lemma funpow_linear:
  fixes f :: "'a::len word \<Rightarrow> 'a word"
  assumes "\<And>x y. f (x XOR y) = f x XOR f y" "f 0 = 0"
  shows "(f ^^ n) (x XOR y) = (f ^^ n) x XOR (f ^^ n) y" "(f ^^ n) 0 = 0"
proof -
  show "(f ^^ n) (x XOR y) = (f ^^ n) x XOR (f ^^ n) y" by (induction n) (simp_all add: assms(1))
  show "(f ^^ n) 0 = 0" by (induction n) (simp_all add: assms(2))
qed

lemma step_0 [simp]: "step16 0 = 0" "step32 0 = 0"
  by (simp_all add: step16_def step32_def)

lemmas steps16 = funpow_linear [of step16, OF step16_xor step_0(1)]
lemmas steps32 = funpow_linear [of step32, OF step32_xor step_0(2)]

lemma span_bytes: "span [0x80, 0x40, 0x20, 0x10, 8, 4, 2, 1 :: u32] = map word_of_int [0..255]"
  by (simp add: Let_def upto.simps)

lemma span_bytes16: "span [0x80, 0x40, 0x20, 0x10, 8, 4, 2, 1 :: u16] = map word_of_int [0..255]"
  by (simp add: Let_def upto.simps)

lemma crc_table_span:
  "crc_table = span [0xedb88320, 0x76dc4190, 0x3b6e20c8, 0x1db71064, 0x0edb8832, 0x076dc419, 0xee0e612c, 0x77073096]"
  by (simp add: Let_def crc_table_def)

lemma Crc16Table_span:
  "Crc16Table = span [0x9188, 0x48c4, 0x2462, 0x1231, 0x8108, 0x4084, 0x2042, 0x1021]"
  by (simp add: Let_def Crc16Table_def)

lemma funpow_8: "(f ^^ 8) x = f (f (f (f (f (f (f (f x)))))))"
  by (simp add: eval_nat_numeral)

lemma basis32:
  "map (step32 ^^ 8) [0x80, 0x40, 0x20, 0x10, 8, 4, 2, 1] =
     [0xedb88320, 0x76dc4190, 0x3b6e20c8, 0x1db71064, 0x0edb8832, 0x076dc419, 0xee0e612c, 0x77073096]"
  by (simp add: funpow_8 step32_def bit_0)

lemma basis16:
  "map (\<lambda>x. (step16 ^^ 8) (push_bit 8 x)) [0x80, 0x40, 0x20, 0x10, 8, 4, 2, 1] =
     [0x9188, 0x48c4, 0x2462, 0x1231, 0x8108, 0x4084, 0x2042, 0x1021]"
  by (simp add: funpow_8 step16_def)

section \<open>The table-driven update is the bitwise one\<close>

lemma byte_index: "i < 256 \<Longrightarrow> i < length [0..255] \<and> [0..255] ! i = int i"
  by simp

lemma crc_table_nth:
  assumes "i < 256"
  shows "crc_table ! i = (step32 ^^ 8) (of_nat i)"
proof -
  have eq: "crc_table = map (step32 ^^ 8) (map word_of_int [0..255])"
    unfolding crc_table_span basis32 [symmetric] span_bytes [symmetric]
    by (rule map_span [symmetric]) (rule steps32)+
  show ?thesis unfolding eq using byte_index [OF assms] by (simp only: nth_map length_map) simp
qed

lemma Crc16Table_nth:
  assumes "i < 256"
  shows "Crc16Table ! i = (step16 ^^ 8) (push_bit 8 (of_nat i))"
proof -
  have eq: "Crc16Table = map (\<lambda>x. (step16 ^^ 8) (push_bit 8 x)) (map word_of_int [0..255])"
    unfolding Crc16Table_span basis16 [symmetric] span_bytes16 [symmetric]
    by (rule map_span [symmetric]) (simp_all add: push_bit_xor steps16)
  show ?thesis unfolding eq using byte_index [OF assms] by (simp only: nth_map length_map) simp
qed

lemma unat_byte:
  fixes h :: "'a::len word"
  assumes "\<And>n. 8 \<le> n \<Longrightarrow> \<not> bit h n"
  shows "unat h < 256"
proof -
  have "take_bit 8 h = h" by (rule bit_word_eqI) (metis assms bit_take_bit_iff not_le)
  then have "unat h = take_bit 8 (unat h)" by (metis unsigned_take_bit_eq)
  then show ?thesis using take_bit_nat_less_exp [of 8 "unat h"] by simp
qed

lemma step32_high:
  assumes "\<And>n. n < 8 \<Longrightarrow> \<not> bit x n" "k \<le> 8"
  shows "(step32 ^^ k) x = drop_bit k x"
  using assms(2)
proof (induction k)
  case (Suc k)
  then show ?case using assms(1) [of k] by (simp add: step32_def bit_drop_bit_eq ac_simps)
qed simp

lemma step16_low:
  assumes "\<And>n. 8 \<le> n \<Longrightarrow> \<not> bit x n" "k \<le> 8"
  shows "(step16 ^^ k) x = push_bit k x"
  using assms(2)
proof (induction k)
  case (Suc k)
  then show ?case using assms(1) [of "15 - k"] by (simp add: step16_def bit_push_bit_iff)
qed simp

lemma bit_byte: "bit (ucast (b::byte) :: 'a::len word) n \<Longrightarrow> n < 8"
  using bit_imp_le_length [of b n] by (auto simp: bit_ucast_iff)

lemma crc32_update [crc_simps]:
  "(crc_table ! unat ((c XOR ucast b) AND 0xff)) XOR drop_bit 8 c = crc32_byte b c"
proof -
  let ?d = "c XOR ucast b"
  let ?l = "?d AND mask 8" and ?h = "?d AND NOT (mask 8)"
  have m: "(0xff :: u32) = mask 8" by (simp add: mask_eq_exp_minus_1)
  have "(step32 ^^ 8) ?d = (step32 ^^ 8) (?l XOR ?h)"
    by (rule arg_cong [of _ _ "step32 ^^ 8"]) (rule bit_word_eqI, auto simp: bit_simps)
  also have "\<dots> = (step32 ^^ 8) ?l XOR (step32 ^^ 8) ?h" by (rule steps32)
  also have "(step32 ^^ 8) ?h = drop_bit 8 ?h"
    by (rule step32_high) (auto simp: bit_simps)
  also have "drop_bit 8 ?h = drop_bit 8 c"
    by (rule bit_word_eqI) (auto simp: bit_simps dest: bit_imp_le_length)
  also have "(step32 ^^ 8) ?l = crc_table ! unat ?l"
    by (subst crc_table_nth) (auto intro: unat_byte simp: bit_simps)
  finally show ?thesis by (simp add: crc32_byte_def m)
qed

lemma crc16_update [crc_simps]: "UpdateCRC b c = crc16_byte b c"
proof -
  let ?h = "drop_bit 8 c XOR ucast b" and ?l = "c AND mask 8"
  have hb: "\<not> bit ?h n" if "8 \<le> n" for n
    using that by (auto simp: bit_simps dest: bit_byte bit_imp_le_length)
  have "(step16 ^^ 8) (c XOR push_bit 8 (ucast b)) = (step16 ^^ 8) (push_bit 8 ?h XOR ?l)"
    by (rule arg_cong [of _ _ "step16 ^^ 8"]) (rule bit_word_eqI, auto simp: bit_simps)
  also have "\<dots> = (step16 ^^ 8) (push_bit 8 ?h) XOR (step16 ^^ 8) ?l" by (rule steps16)
  also have "(step16 ^^ 8) ?l = push_bit 8 ?l"
    by (rule step16_low) (auto simp: bit_simps)
  also have "push_bit 8 ?l = push_bit 8 c"
    by (rule bit_word_eqI) (auto simp: bit_simps)
  also have "(step16 ^^ 8) (push_bit 8 ?h) = Crc16Table ! unat ?h"
    by (subst Crc16Table_nth) (rule unat_byte, erule hb, simp)
  finally show ?thesis by (simp add: UpdateCRC_def crc16_byte_def xor.commute)
qed

section \<open>Error detection\<close>

lemma xor_cancel: "x XOR a = y XOR a \<longleftrightarrow> x = y" "a XOR x = a XOR y \<longleftrightarrow> x = y"
  for a x y :: "'a::len word"
  by (metis xor.assoc xor.right_neutral xor_self_eq, metis xor.assoc xor.left_neutral xor_self_eq)

lemma step16_inj: "step16 x = step16 y \<Longrightarrow> x = y"
proof -
  assume e: "step16 x = step16 y"
  have z0: "\<not> bit (push_bit 1 z) 0" "bit (0x1021 :: u16) 0" for z :: u16
    by (subst bit_push_bit_iff, simp, simp)
  have b0: "bit (step16 z) 0 = bit z 15" for z
    by (simp only: step16_def bit_xor_iff z0 split: if_split) simp
  have h: "bit x 15 = bit y 15" using b0 [of x] b0 [of y] e by simp
  then have p: "push_bit 1 x = push_bit 1 y"
    using e by (auto simp only: step16_def xor_cancel split: if_splits)
  have s: "bit (push_bit 1 z) (Suc n) = bit z n" if "n < 15" for n and z :: u16
    by (subst bit_push_bit_iff) (use that in simp)
  have l: "bit x n = bit y n" if "n < 15" for n
    using arg_cong [OF p, of "\<lambda>w. bit w (Suc n)"] s [OF that] by simp
  show "x = y"
  proof (rule bit_word_eqI)
    fix n assume "n < LENGTH(16)"
    then have "n < 15 \<or> n = 15" by auto
    then show "bit x n = bit y n" using l h by blast
  qed
qed

lemma step32_inj: "step32 x = step32 y \<Longrightarrow> x = y"
proof -
  assume e: "step32 x = step32 y"
  have b31: "bit (step32 z) 31 = bit z 0" for z
    using bit_imp_le_length [of z 32] by (auto simp: step32_def bit_simps)
  have h: "bit x 0 = bit y 0" using b31 [of x] b31 [of y] e by simp
  then have p: "drop_bit 1 x = drop_bit 1 y"
    using e by (auto simp only: step32_def xor_cancel split: if_splits)
  have "bit x (Suc n) = bit y (Suc n)" for n
    using arg_cong [OF p, of "\<lambda>w. bit w n"] by (simp add: bit_drop_bit_eq)
  with h show "x = y" by (intro bit_word_eqI) (metis not0_implies_Suc)
qed

lemma funpow_inj:
  fixes f :: "'a \<Rightarrow> 'a"
  assumes "\<And>x y. f x = f y \<Longrightarrow> x = y"
  shows "(f ^^ n) x = (f ^^ n) y \<Longrightarrow> x = y"
  by (induction n) (auto dest: assms)

lemma ucast_byte_inj:
  fixes a b :: byte
  shows "(ucast a :: u32) = ucast b \<Longrightarrow> a = b"
proof (rule bit_word_eqI)
  fix n assume e: "(ucast a :: u32) = ucast b" and n: "n < LENGTH(8)"
  show "bit a n = bit b n" using arg_cong [OF e, of "\<lambda>w. bit w n"] n by (simp add: bit_ucast_iff)
qed

lemma crc32_byte_inj:
  "crc32_byte b c = crc32_byte b c' \<Longrightarrow> c = c'" "crc32_byte a c = crc32_byte b c \<Longrightarrow> a = b"
proof -
  show "crc32_byte b c = crc32_byte b c' \<Longrightarrow> c = c'"
    using funpow_inj [of step32 8, OF step32_inj] xor_cancel(1) unfolding crc32_byte_def by blast
  show "crc32_byte a c = crc32_byte b c \<Longrightarrow> a = b"
    using funpow_inj [of step32 8, OF step32_inj] xor_cancel(2) ucast_byte_inj unfolding crc32_byte_def by blast
qed

lemma crc32_loop_append: "crc32_loop c (xs @ ys) = crc32_loop (crc32_loop c xs) ys"
  by (induction xs arbitrary: c) simp_all

lemma crc32_loop_inj: "crc32_loop c bs = crc32_loop c' bs \<Longrightarrow> c = c'"
proof (induction bs arbitrary: c c')
  case (Cons b bs)
  then show ?case using crc32_byte_inj(1) unfolding crc32_loop.simps crc32_update by blast
qed simp

text \<open>
  C22. The table of \<open>tab_crc32\<close> is right: one step of the loop is eight steps of the bitwise
  division by the reflected polynomial \<open>0xedb88320\<close>, for every register and every byte; likewise
  \<open>UpdateCRC\<close> is eight steps of the division by \<open>0x1021\<close>.
\<close>

theorem crc_tables_are_polynomial_division:
  "crc32_loop c (b # bs) = crc32_loop (crc32_byte b c) bs \<and> UpdateCRC b r = crc16_byte b r"
  by (simp add: crc32_update crc16_update)

text \<open>
  Error detection of the device packets: two byte strings that differ in exactly one byte
  never have the same \<open>tab_crc32\<close>.
\<close>

lemma crc32_detects_one_byte:
  assumes "a \<noteq> b"
  shows "tab_crc32 (xs @ a # ys) \<noteq> tab_crc32 (xs @ b # ys)"
proof
  assume "tab_crc32 (xs @ a # ys) = tab_crc32 (xs @ b # ys)"
  then have "crc32_loop (crc32_byte a (crc32_loop 0 xs)) ys = crc32_loop (crc32_byte b (crc32_loop 0 xs)) ys"
    unfolding tab_crc32_def Let_def xor_cancel crc32_loop_append by (simp add: crc32_update)
  then show False using crc32_loop_inj crc32_byte_inj(2) assms by blast
qed

text \<open>
  The register starts at \<open>0xffffffff XOR 0xffffffff = 0\<close> instead of at all ones: leading zero
  bytes do not change the checksum, so it does not tell how many of them were sent.
\<close>

lemma crc32_ignores_leading_zeros: "tab_crc32 (replicate n 0 @ bs) = tab_crc32 bs"
proof -
  have "crc32_byte 0 0 = 0" by (simp add: crc32_byte_def steps32)
  then have "crc32_loop 0 (replicate n 0) = 0"
    by (induction n) (simp_all only: replicate.simps crc32_loop.simps crc32_update)
  then show ?thesis by (simp add: tab_crc32_def crc32_loop_append)
qed

end
