(* ===== verification/Dev_Pkt.thy ===== *)
theory Dev_Pkt
  imports Crc
begin

text \<open>
  The multicast device packets of \<open>libsrc/gtdevapi/src/gt_dev_api.c\<close>. \<open>send_dev_pkt\<close> frames a
  message (32-byte header with an XOR checksum, the data padded to words, a CRC-32);
  \<open>recv_dev_pkt\<close> and \<open>dual_id_recv_dev_pkt\<close> wait for a datagram that passes the checks and is
  addressed to the device. The machine is the 32-bit little-endian target, so \<open>unsigned long\<close> is
  a 32-bit word and the header occupies bytes 0 to 31 of the buffer. What the socket delivers is
  a list of events; the receive buffer keeps its bytes from one datagram to the next, as the
  local array of the C function does. \<open>None\<close> is an access outside that buffer.
\<close>

section \<open>Words in memory\<close>

definition le32 :: "u32 \<Rightarrow> byte list" where
  "le32 w = [ucast w, ucast (drop_bit 8 w), ucast (drop_bit 16 w), ucast (drop_bit 24 w)]"

fun of_le32 :: "byte list \<Rightarrow> u32" where
  "of_le32 [a, b, c, d] = ucast a OR push_bit 8 (ucast b) OR push_bit 16 (ucast c) OR push_bit 24 (ucast d)"
| "of_le32 _ = 0"

definition field :: "byte list \<Rightarrow> nat \<Rightarrow> nat \<Rightarrow> byte list" where
  "field mem off n = take n (drop off mem)"

section \<open>Framing\<close>

definition pkt_head :: u32 where "pkt_head = 0x55aa5540"
definition proto_version :: byte where "proto_version = 1"
definition broadcast_addr :: "byte list" where "broadcast_addr = replicate 8 0xff"
abbreviation (input) GUID_LEN :: nat where "GUID_LEN \<equiv> 8"
abbreviation (input) BUF_SIZE :: int where "BUF_SIZE \<equiv> 2048"
abbreviation (input) HDR_LEN :: nat where "HDR_LEN \<equiv> 32"
abbreviation (input) GTDEV_ENC_NONE :: int where "GTDEV_ENC_NONE \<equiv> 0"

text \<open>The six words from \<open>version\<close> to \<open>pkt_len\<close>, bytes 4 to 27.\<close>

definition xor_body :: "byte list \<Rightarrow> u32" where
  "xor_body body = of_le32 (field body 0 4) XOR of_le32 (field body 4 4) XOR of_le32 (field body 8 4) XOR
     of_le32 (field body 12 4) XOR of_le32 (field body 16 4) XOR of_le32 (field body 20 4)"

definition pkt_body :: "byte list \<Rightarrow> byte list \<Rightarrow> u16 \<Rightarrow> u16 \<Rightarrow> byte list" where
  "pkt_body target source enc len =
     [proto_version, 0] @ le16 enc @ take GUID_LEN target @ take GUID_LEN source @ le16 0 @ le16 len"

definition pad4 :: "int \<Rightarrow> nat" where
  "pad4 n = (if n smod 4 \<noteq> 0 then nat (4 - n smod 4) else 0)"

definition pack_dev_pkt :: "byte list \<Rightarrow> byte list \<Rightarrow> byte list \<Rightarrow> byte list" where
  "pack_dev_pkt target source data =
     (let body = pkt_body target source 0 (of_nat (length data))
      in le32 pkt_head @ body @ le32 (xor_body body) @ data @ le32 (tab_crc32 data))"

text \<open>\<open>sendto\<close> answers with the number of bytes sent or the negated errno.\<close>

definition send_dev_pkt ::
    "(byte list \<Rightarrow> int) \<Rightarrow> int \<Rightarrow> byte list \<Rightarrow> byte list \<Rightarrow> byte list option \<Rightarrow> int \<Rightarrow> int \<Rightarrow>
     int \<times> byte list option" where
  "send_dev_pkt sendto fd target source buf buflen enc_type =
     (case buf of
        None \<Rightarrow> (- EINVAL, None)
      | Some bs \<Rightarrow>
          if fd < 0 \<or> buflen \<le> 0 then (- EINVAL, None)
          else if buflen \<ge> BUF_SIZE - 36 then (- EINVAL, None)
          else if enc_type \<noteq> GTDEV_ENC_NONE then (- EINVAL, None)
          else (let data = take (nat buflen) bs @ replicate (pad4 buflen) 0;
                    dgram = pack_dev_pkt target source data
                in (sendto dgram, Some dgram)))"

section \<open>Receiving\<close>

datatype recv_event = RecvErr int | Datagram "byte list"

datatype verdict = Ignore | TooSmall | Accept "byte list" "byte list" "byte list"

text \<open>\<open>recvfrom\<close> fills the front of the buffer; a longer datagram is cut off.\<close>

definition fill_buf :: "byte list \<Rightarrow> byte list \<Rightarrow> byte list" where
  "fill_buf buf d = take (length buf) d @ drop (length d) buf"

text \<open>
  The checks on one datagram; \<open>ids\<close> are the receiver's own ids. \<open>Accept\<close> carries the target, the
  source and the message.
\<close>

definition check_pkt :: "byte list list \<Rightarrow> int \<Rightarrow> byte list \<Rightarrow> verdict option" where
  "check_pkt ids buflen m =
     (let body = field m 4 24; enc = of_le16 (field m 6 2); target = field m 8 GUID_LEN;
          source = field m 16 GUID_LEN; n = sint (of_le16 (field m 26 2)) in
      if of_le32 (field m 0 4) \<noteq> pkt_head then Some Ignore
      else if xor_body body \<noteq> of_le32 (field m 28 4) then Some Ignore
      else if source \<in> set (map (take GUID_LEN) ids) then Some Ignore
      else if target \<noteq> broadcast_addr \<and> target \<notin> set (map (take GUID_LEN) ids) then Some Ignore
      else if n < 0 \<or> int HDR_LEN + n + 4 > int (length m) then None
      else if tab_crc32 (field m HDR_LEN (nat n)) \<noteq> of_le32 (field m (HDR_LEN + nat n) 4) then Some Ignore
      else if uint enc \<noteq> GTDEV_ENC_NONE then Some Ignore
      else if buflen < n then Some TooSmall
      else Some (Accept target source (field m HDR_LEN (nat n))))"

datatype recv_result = Waiting | Ret int | Got "byte list" "byte list" "byte list"

fun recv_loop :: "byte list list \<Rightarrow> int \<Rightarrow> byte list \<Rightarrow> recv_event list \<Rightarrow> recv_result option" where
  "recv_loop ids buflen buf [] = Some Waiting"
| "recv_loop ids buflen buf (RecvErr e # evs) =
     (if e = EINTR then recv_loop ids buflen buf evs else Some (Ret (-1)))"
| "recv_loop ids buflen buf (Datagram d # evs) =
     (if d = [] then recv_loop ids buflen buf evs
      else let m = fill_buf buf d in
        case check_pkt ids buflen m of
          None \<Rightarrow> None
        | Some Ignore \<Rightarrow> recv_loop ids buflen m evs
        | Some TooSmall \<Rightarrow> Some (Ret (- ENOMEM))
        | Some (Accept t s msg) \<Rightarrow> Some (Got t s msg))"

text \<open>The pointers to the address, the sender's id, the message buffer and the encoder type are not \<open>NULL\<close>; the code returns \<open>-EINVAL\<close> for these too.\<close>

definition recv_dev_pkt ::
    "int \<Rightarrow> byte list option \<Rightarrow> int \<Rightarrow> byte list \<Rightarrow> recv_event list \<Rightarrow> recv_result option" where
  "recv_dev_pkt fd selfid buflen recv_buf evs =
     (case selfid of
        None \<Rightarrow> Some (Ret (- EINVAL))
      | Some self \<Rightarrow>
          if fd < 0 \<or> buflen \<le> 0 then Some (Ret (- EINVAL)) else recv_loop [self] buflen recv_buf evs)"

definition dual_id_recv_dev_pkt ::
    "int \<Rightarrow> byte list option \<Rightarrow> byte list option \<Rightarrow> int \<Rightarrow> byte list \<Rightarrow> recv_event list \<Rightarrow> recv_result option" where
  "dual_id_recv_dev_pkt fd selfid selfid1 buflen recv_buf evs =
     (case (selfid, selfid1) of
        (Some self, Some self1) \<Rightarrow>
          if fd < 0 \<or> buflen \<le> 0 then Some (Ret (- EINVAL))
          else recv_loop [self, self1] buflen recv_buf evs
      | _ \<Rightarrow> Some (Ret (- EINVAL)))"

section \<open>Words round trip\<close>

lemma length_le32 [simp]: "length (le32 w) = 4"
  by (simp add: le32_def)

lemma of_le32_le32 [simp]: "of_le32 (le32 w) = w"
proof (rule bit_word_eqI)
  fix n assume n: "n < LENGTH(32)"
  have "n < 24 \<or> (\<exists>k. n = 24 + k)" by (metis le_Suc_ex not_le)
  then show "bit (of_le32 (le32 w)) n = bit w n"
    unfolding le32_def of_le32.simps using n by (auto simp: bit_simps)
qed

lemma field_skip: "length a \<le> off \<Longrightarrow> field (a @ b) off n = field b (off - length a) n"
  by (simp add: field_def)

lemma field_take: "length a = n \<Longrightarrow> field (a @ b) 0 n = a"
  by (simp add: field_def)

lemma field_pre: "off + n \<le> length a \<Longrightarrow> field (a @ b) off n = field a off n"
  by (simp add: field_def)

lemma field_field: "off' + n' \<le> n \<Longrightarrow> field (field m off n) off' n' = field m (off + off') n'"
  by (simp add: field_def drop_take min_def add.commute)

lemma length_pkt_body [simp]:
  "length target = GUID_LEN \<Longrightarrow> length source = GUID_LEN \<Longrightarrow> length (pkt_body target source enc len) = 24"
  by (simp add: pkt_body_def)

lemma pad4_dvd: "0 \<le> n \<Longrightarrow> (n + int (pad4 n)) mod 4 = 0" "0 \<le> n \<Longrightarrow> pad4 n < 4"
proof -
  have s: "n smod 4 = n mod 4" if "0 \<le> n" using that by (simp add: signed_modulo_int_def sgn_if)
  show "0 \<le> n \<Longrightarrow> pad4 n < 4" by (auto simp: pad4_def s nat_less_iff)
  show "0 \<le> n \<Longrightarrow> (n + int (pad4 n)) mod 4 = 0" by (auto simp: pad4_def s) presburger
qed

section \<open>A packed datagram passes the checks\<close>

lemma sint_of_nat16: "n < 2 ^ 15 \<Longrightarrow> sint (of_nat n :: u16) = int n"
  by (simp add: signed_of_nat signed_take_bit_int_eq_self)

lemma body_fields:
  assumes "length target = 8" "length source = 8"
  shows "field (pkt_body target source enc len) 2 2 = le16 enc"
    "field (pkt_body target source enc len) 4 8 = target"
    "field (pkt_body target source enc len) 12 8 = source"
    "field (pkt_body target source enc len) 22 2 = le16 len"
  using assms by (simp_all add: pkt_body_def field_def le16_def)

lemma pack_fields:
  fixes data rest
  assumes "length target = 8" "length source = 8"
  defines "m \<equiv> pack_dev_pkt target source data @ rest"
  shows "field m 0 4 = le32 pkt_head"
    "field m 4 24 = pkt_body target source 0 (of_nat (length data))"
    "field m 28 4 = le32 (xor_body (pkt_body target source 0 (of_nat (length data))))"
    "field m 32 (length data) = data"
    "field m (32 + length data) 4 = le32 (tab_crc32 data)"
  using assms(1,2) unfolding m_def pack_dev_pkt_def Let_def append_assoc
  by (simp_all add: field_skip field_take)

lemma check_packed:
  assumes len: "length target = 8" "length source = 8" and src: "source \<notin> set (map (take 8) ids)"
    and tgt: "target = broadcast_addr \<or> target \<in> set (map (take 8) ids)"
    and n: "length data < 2 ^ 15" "int (length data) \<le> buflen"
  shows "check_pkt ids buflen (pack_dev_pkt target source data @ rest) = Some (Accept target source data)"
proof -
  let ?m = "pack_dev_pkt target source data @ rest"
  note f = pack_fields [OF len, of data rest] and b = body_fields [OF len]
  have "field ?m 6 2 = le16 0" "field ?m 8 8 = target" "field ?m 16 8 = source"
    "field ?m 26 2 = le16 (of_nat (length data))"
    using field_field [of 2 2 24 ?m 4] field_field [of 4 8 24 ?m 4] field_field [of 12 8 24 ?m 4]
      field_field [of 22 2 24 ?m 4] b f(2) by simp_all
  moreover have "int (length ?m) = 32 + int (length data) + 4 + int (length rest)"
    using len by (simp add: pack_dev_pkt_def Let_def)
  moreover note sint_of_nat16 [OF n(1)]
  ultimately show ?thesis
    using f src tgt n(2) by (auto simp: check_pkt_def Let_def)
qed

lemma fill_buf_short: "length d \<le> length buf \<Longrightarrow> fill_buf buf d = d @ drop (length d) buf"
  by (simp add: fill_buf_def)

fun harmless :: "recv_event \<Rightarrow> bool" where
  "harmless (RecvErr e) = (e = EINTR)"
| "harmless (Datagram d) = (d = [])"

lemma recv_skip: "list_all harmless pre \<Longrightarrow> recv_loop ids buflen buf (pre @ evs) = recv_loop ids buflen buf evs"
proof (induction pre)
  case (Cons e pre)
  then show ?case by (cases e) auto
qed simp

text \<open>
  C23. Round trip: a datagram that \<open>send_dev_pkt\<close> hands to the socket is accepted by
  \<open>recv_dev_pkt\<close> on a device it is addressed to (or by everyone, for the broadcast id) when the
  sender's id is not the receiver's own; the receiver gets the sender's id and the message,
  padded with zero bytes to whole words, whatever its buffer held before and however often the
  wait was interrupted.
\<close>

theorem device_packet_round_trip:
  assumes "length target = 8" "length source = 8" "length self = 8" "source \<noteq> self"
    "target = broadcast_addr \<or> target = self"
    "0 < n" "n \<le> int (length bs)" "n < 2012" "n + 3 \<le> buflen" "0 \<le> fd" "0 \<le> fd'"
    "length recv_buf = 2048" "list_all harmless pre"
  shows "\<exists>dgram. send_dev_pkt sendto fd target source (Some bs) n 0 = (sendto dgram, Some dgram) \<and>
     recv_dev_pkt fd' (Some self) buflen recv_buf (pre @ Datagram dgram # evs) =
       Some (Got target source (take (nat n) bs @ replicate (pad4 n) 0))"
proof -
  let ?data = "take (nat n) bs @ replicate (pad4 n) 0"
  let ?d = "pack_dev_pkt target source ?data"
  have p: "pad4 n < 4" using pad4_dvd(2) [of n] assms(6) by simp
  have ld: "length ?data = nat n + pad4 n" using assms(6,7) by simp
  have lp: "length ?d = 36 + length ?data" using assms(1,2) by (simp add: pack_dev_pkt_def Let_def)
  have "(n + int (pad4 n)) mod 4 = 0" using pad4_dvd(1) [of n] assms(6) by simp
  then have "n + int (pad4 n) \<le> 2012" using assms(8) p by presburger
  then have short: "length ?d \<le> length recv_buf" using lp ld assms(6,12) by linarith
  have ne: "?d \<noteq> []" using lp by auto
  have "check_pkt [self] buflen (fill_buf recv_buf ?d) = Some (Accept target source ?data)"
    unfolding fill_buf_short [OF short]
    by (rule check_packed) (use assms ld p in auto)
  then have "recv_loop [self] buflen recv_buf (pre @ Datagram ?d # evs) = Some (Got target source ?data)"
    using ne by (simp add: recv_skip [OF assms(13)] Let_def)
  moreover have "send_dev_pkt sendto fd target source (Some bs) n 0 = (sendto ?d, Some ?d)"
    using assms(6,8,10) by (simp add: send_dev_pkt_def Let_def)
  ultimately show ?thesis using assms(6,9,11) by (auto simp: recv_dev_pkt_def)
qed

theorem device_packet_round_trip_witness:
  "\<exists>dgram. send_dev_pkt (\<lambda>d. int (length d)) 3 broadcast_addr (replicate 8 1) (Some [65, 66]) 2 0 =
       (int (length dgram), Some dgram) \<and>
     recv_dev_pkt 4 (Some (replicate 8 2)) 1500 (replicate 2048 0) [RecvErr EINTR, Datagram dgram] =
       Some (Got broadcast_addr (replicate 8 1) [65, 66, 0, 0])"
proof -
  have l: "length broadcast_addr = 8" by (simp add: broadcast_addr_def)
  have "pad4 2 = 2" "replicate 2 (0 :: byte) = [0, 0]" by (simp_all add: pad4_def numeral_2_eq_2)
  then show ?thesis
    using device_packet_round_trip [of broadcast_addr "replicate 8 1" "replicate 8 2" 2 "[65, 66]" 1500 3 4
        "replicate 2048 0" "[RecvErr EINTR]" "\<lambda>d. int (length d)" "[]"] l
    by simp
qed

section \<open>What is accepted, and what is not checked\<close>

lemma check_Accept:
  assumes "check_pkt ids buflen m = Some (Accept t s msg)"
  shows "s \<notin> set (map (take 8) ids)" "t = broadcast_addr \<or> t \<in> set (map (take 8) ids)"
    "int (length msg) \<le> buflen" "\<exists>off. msg = field m 32 (length msg) \<and> of_le32 (field m off 4) = tab_crc32 msg"
proof -
  let ?n = "sint (of_le16 (field m 26 2))"
  have c: "s \<notin> set (map (take 8) ids)" "t = broadcast_addr \<or> t \<in> set (map (take 8) ids)"
    "0 \<le> ?n" "32 + ?n + 4 \<le> int (length m)" "?n \<le> buflen" "msg = field m 32 (nat ?n)"
    "tab_crc32 msg = of_le32 (field m (32 + nat ?n) 4)"
    using assms by (auto simp: check_pkt_def Let_def split: if_splits)
  then have "length msg = nat ?n" by (simp add: field_def)
  with c show "s \<notin> set (map (take 8) ids)" "t = broadcast_addr \<or> t \<in> set (map (take 8) ids)"
    "int (length msg) \<le> buflen" "\<exists>off. msg = field m 32 (length msg) \<and> of_le32 (field m off 4) = tab_crc32 msg"
    by auto
qed

lemma recv_loop_Got:
  "recv_loop ids buflen buf evs = Some (Got t s msg) \<Longrightarrow> \<exists>m. check_pkt ids buflen m = Some (Accept t s msg)"
  by (induction ids buflen buf evs rule: recv_loop.induct)
     (auto simp: Let_def split: if_splits option.splits verdict.splits)

text \<open>
  C24. Filtering: whatever arrives, \<open>recv_dev_pkt\<close> and \<open>dual_id_recv_dev_pkt\<close> hand out only messages
  whose sender is not the device itself, that are addressed to everyone or to one of its ids,
  and that fit the caller's buffer.
\<close>

theorem received_packets_are_for_me:
  assumes "dual_id_recv_dev_pkt fd (Some a) (Some b) buflen buf evs = Some (Got t s msg) \<or>
           recv_dev_pkt fd (Some a) buflen buf evs = Some (Got t s msg) \<and> b = a"
  shows "s \<noteq> take 8 a \<and> s \<noteq> take 8 b \<and> (t = broadcast_addr \<or> t = take 8 a \<or> t = take 8 b) \<and>
         int (length msg) \<le> buflen"
proof -
  obtain ids where "recv_loop ids buflen buf evs = Some (Got t s msg)" "ids = [a, b] \<or> ids = [a] \<and> b = a"
    using assms by (auto simp: dual_id_recv_dev_pkt_def recv_dev_pkt_def split: if_splits)
  moreover from this obtain m where "check_pkt ids buflen m = Some (Accept t s msg)"
    using recv_loop_Got by blast
  ultimately show ?thesis using check_Accept(1,2,3) by fastforce
qed

theorem received_packets_are_for_me_witness:
  "\<exists>t s msg. recv_dev_pkt 4 (Some (replicate 8 2)) 100 (replicate 2048 0)
       [Datagram (pack_dev_pkt broadcast_addr (replicate 8 1) [65, 66, 67, 68])] = Some (Got t s msg) \<and>
     s \<noteq> replicate 8 2"
proof -
  let ?d = "pack_dev_pkt broadcast_addr (replicate 8 1) [65, 66, 67, 68]"
  have l: "length broadcast_addr = 8" by (simp add: broadcast_addr_def)
  have "length ?d \<le> 2048" "?d \<noteq> []" by (auto simp: pack_dev_pkt_def Let_def le32_def pkt_body_def l)
  moreover have "check_pkt [replicate 8 2] 100 (?d @ drop (length ?d) (replicate 2048 0)) =
      Some (Accept broadcast_addr (replicate 8 1) [65, 66, 67, 68])"
    by (rule check_packed) (auto simp: l)
  ultimately have r: "recv_dev_pkt 4 (Some (replicate 8 2)) 100 (replicate 2048 0) [Datagram ?d] =
      Some (Got broadcast_addr (replicate 8 1) [65, 66, 67, 68])"
    by (simp add: recv_dev_pkt_def fill_buf_short Let_def)
  then show ?thesis using received_packets_are_for_me [of _ "replicate 8 2" "replicate 8 2"] by force
qed

definition forged_header :: "byte list \<Rightarrow> byte list \<Rightarrow> u16 \<Rightarrow> byte list" where
  "forged_header target source len =
     (let body = pkt_body target source 0 len in le32 pkt_head @ body @ le32 (xor_body body))"

lemma forged_fields:
  fixes len rest
  assumes "length target = 8" "length source = 8"
  defines "m \<equiv> forged_header target source len @ rest"
  shows "field m 0 4 = le32 pkt_head" "field m 4 24 = pkt_body target source 0 len"
    "field m 28 4 = le32 (xor_body (pkt_body target source 0 len))"
    "field m 6 2 = le16 0" "field m 8 8 = target" "field m 16 8 = source" "field m 26 2 = le16 len"
proof -
  show f: "field m 0 4 = le32 pkt_head" "field m 4 24 = pkt_body target source 0 len"
    "field m 28 4 = le32 (xor_body (pkt_body target source 0 len))"
    using assms(1,2) unfolding m_def forged_header_def Let_def append_assoc
    by (simp_all add: field_skip field_take)
  show "field m 6 2 = le16 0" "field m 8 8 = target" "field m 16 8 = source" "field m 26 2 = le16 len"
    using field_field [of 2 2 24 m 4] field_field [of 4 8 24 m 4] field_field [of 12 8 24 m 4]
      field_field [of 22 2 24 m 4] body_fields [OF assms(1,2)] f(2) by simp_all
qed

text \<open>
  The length field is not checked: any well-formed header addressed to the device whose
  \<open>pkt_len\<close> is negative or above 2012, sent as a datagram of 32 bytes, makes \<open>recv_dev_pkt\<close>
  read outside its 2048-byte buffer.
\<close>

lemma forged_length_reads_out_of_bounds:
  assumes "length target = 8" "length source = 8" "length self = 8" "source \<noteq> self"
    "target = broadcast_addr \<or> target = self" "sint len < 0 \<or> 2012 < sint len"
    "0 \<le> fd" "0 < buflen" "length recv_buf = 2048"
  shows "length (forged_header target source len) = 32 \<and>
     recv_dev_pkt fd (Some self) buflen recv_buf [Datagram (forged_header target source len)] = None"
proof -
  let ?h = "forged_header target source len"
  have l: "length ?h = 32" using assms(1,2) by (simp add: forged_header_def Let_def)
  then have fb: "fill_buf recv_buf ?h = ?h @ drop 32 recv_buf" "length (fill_buf recv_buf ?h) = 2048"
    using assms(9) by (simp_all add: fill_buf_def)
  have "check_pkt [self] buflen (fill_buf recv_buf ?h) = None"
    using forged_fields [OF assms(1,2), of len "drop 32 recv_buf"] assms(3-6) fb
    by (auto simp: check_pkt_def Let_def)
  then show ?thesis using l assms(7,8) by (auto simp: recv_dev_pkt_def Let_def)
qed

text \<open>
  The number of received bytes is not checked either: after a datagram for another device,
  which is ignored, a bare 32-byte header with the same length, addressed to the device, is
  accepted, and the message handed out is the other device's.
\<close>

lemma bare_header_takes_stale_data:
  assumes "length target = 8" "length source = 8" "length self = 8" "source \<noteq> self"
    "length other = 8" "other \<noteq> broadcast_addr" "other \<noteq> self" "target = broadcast_addr \<or> target = self"
    "length data \<le> 2012" "int (length data) \<le> buflen" "0 \<le> fd" "0 < buflen" "length recv_buf = 2048"
  shows "recv_dev_pkt fd (Some self) buflen recv_buf
     [Datagram (pack_dev_pkt other source data), Datagram (forged_header target source (of_nat (length data)))] =
     Some (Got target source data)"
proof -
  let ?d = "pack_dev_pkt other source data" and ?h = "forged_header target source (of_nat (length data))"
  let ?m = "fill_buf recv_buf ?d"
  have ld: "length ?d = 36 + length data" using assms(2,5) by (simp add: pack_dev_pkt_def Let_def)
  have m: "?m = ?d @ drop (length ?d) recv_buf" using ld assms(9,13) by (intro fill_buf_short) simp
  note f = pack_fields [OF assms(5,2), of data "drop (length ?d) recv_buf"]
  have "field ?m 8 8 = other" using field_field [of 4 8 24 ?m 4] f(2) body_fields [OF assms(5,2)] m by simp
  then have c1: "check_pkt [self] buflen ?m = Some Ignore"
    using assms(3,6,7) by (simp add: check_pkt_def Let_def)
  have lh: "length ?h = 32" using assms(1,2) by (simp add: forged_header_def Let_def)
  have lm: "length ?m = 2048" using ld assms(9,13) by (simp add: m)
  have d32: "drop 32 ?d = data @ le32 (tab_crc32 data)"
    using assms(2,5) by (simp add: pack_dev_pkt_def Let_def pkt_body_def)
  have pk: "pack_dev_pkt target source data = ?h @ data @ le32 (tab_crc32 data)"
    by (simp add: pack_dev_pkt_def forged_header_def Let_def)
  have "fill_buf ?m ?h = ?h @ drop 32 ?m" using fill_buf_short [of ?h ?m] lh lm by simp
  also have "drop 32 ?m = drop 32 ?d @ drop (length ?d) recv_buf"
    unfolding m drop_append using ld by simp
  finally have "fill_buf ?m ?h = pack_dev_pkt target source data @ drop (length ?d) recv_buf"
    unfolding d32 pk by simp
  then have c2: "check_pkt [self] buflen (fill_buf ?m ?h) = Some (Accept target source data)"
    using assms(1,2,3,4,8,9,10) by (simp only:) (rule check_packed, auto)
  have "?d \<noteq> []" "?h \<noteq> []" using ld lh by auto
  then show ?thesis using c1 c2 assms(11,12) by (simp add: recv_dev_pkt_def Let_def)
qed

end
