(* ===== verification/Sec_Fifo.thy ===== *)
theory Sec_Fifo
  imports Prelude
begin

text \<open>
  The byte ring of \<open>src/rtimage/sec_fifo.c\<close> through which the serial and secondary streams of the
  real-time image process pass. \<open>sec_buffer_t\<close> has the fields of the C structure without its
  mutexes. \<open>None\<close> is a copy outside an array or a division by zero. The contract of a byte queue is
  the locale \<open>byte_fifo\<close>; the ring keeps it as long as the writer leaves room and the reader
  asks for no more than there is.
\<close>

section \<open>Model\<close>

definition SEC_MAX_LEN :: int where "SEC_MAX_LEN = 1048576"

record sec_buffer_t =
  sb_buffer :: "byte list option"
  sb_in :: int
  sb_out :: int
  sb_size :: int
  sb_stop :: int

definition sec_buff_init :: "bool \<Rightarrow> int \<Rightarrow> int \<times> sec_buffer_t" where
  "sec_buff_init malloc_ok sec_max_len =
     (if \<not> malloc_ok
      then (-1, \<lparr>sb_buffer = None, sb_in = 0, sb_out = 0, sb_size = 0, sb_stop = 0\<rparr>)
      else (0, \<lparr>sb_buffer = Some (replicate (nat SEC_MAX_LEN) 0), sb_in = 0, sb_out = 0,
                sb_size = sec_max_len - 1, sb_stop = 0\<rparr>))"

text \<open>
  The write loop. The last piece sets \<open>buff_cnt\<close> to its own length where the earlier ones add
  to it, so the returned count is right only for a write of one piece.
\<close>

function sec_write_loop ::
    "int \<Rightarrow> byte list \<Rightarrow> byte list \<Rightarrow> int \<Rightarrow> int \<Rightarrow> int \<Rightarrow> (byte list \<times> int \<times> int) option" where
  "sec_write_loop sz buff buf in1 buff_cnt left =
     (if left > 0
      then let valid_len = sz - in1 in
        if left < valid_len
        then (case mem_get buff buff_cnt left of
                None \<Rightarrow> None
              | Some bs \<Rightarrow>
                 (case mem_put buf in1 bs of
                    None \<Rightarrow> None
                  | Some buf' \<Rightarrow> if sz = 0 then None else Some (buf', (in1 + left) smod sz, left)))
        else (case mem_get buff buff_cnt valid_len of
                None \<Rightarrow> None
              | Some bs \<Rightarrow>
                 (case mem_put buf in1 bs of
                    None \<Rightarrow> None
                  | Some buf' \<Rightarrow>
                      if sz = 0 then None
                      else sec_write_loop sz buff buf' ((in1 + valid_len) smod sz) (buff_cnt + valid_len)
                             (left - valid_len)))
      else Some (buf, in1, buff_cnt))"
  by pat_completeness auto
termination
proof (relation "measure (\<lambda>(sz, buff, buf, in1, cnt, left). 2 * nat left + (if in1 = sz then 1 else 0))")
  fix sz in1 cnt left valid_len :: int and buff buf bs buf' :: "byte list"
  assume a: "0 < left" "valid_len = sz - in1" "\<not> left < valid_len" "mem_get buff cnt valid_len = Some bs" "sz \<noteq> 0"
  have v: "0 \<le> valid_len" using a(4) by (simp add: mem_get_Some)
  have "(in1 + valid_len) smod sz = 0" using a(2) by (simp add: signed_modulo_int_def)
  then show "((sz, buff, buf', (in1 + valid_len) smod sz, cnt + valid_len, left - valid_len), sz, buff, buf, in1, cnt, left)
      \<in> measure (\<lambda>(sz, buff, buf, in1, cnt, left). 2 * nat left + (if in1 = sz then 1 else 0))"
    using a v by (cases "valid_len = 0") auto
qed simp

declare sec_write_loop.simps [simp del]

definition sec_buff_write :: "sec_buffer_t \<Rightarrow> byte list \<Rightarrow> int \<Rightarrow> (int \<times> sec_buffer_t) option" where
  "sec_buff_write sb buff buff_len =
     (case sb_buffer sb of
        None \<Rightarrow> Some (-1, sb)
      | Some buf \<Rightarrow>
          map_option (\<lambda>(buf', in', cnt). (cnt, sb\<lparr>sb_buffer := Some buf', sb_in := in'\<rparr>))
            (sec_write_loop (sb_size sb) buff buf (sb_in sb) 0 buff_len))"

text \<open>Copy out and clear: the \<open>memcpy\<close> and \<open>memset\<close> pair of the read function.\<close>

definition take_clear :: "byte list \<Rightarrow> int \<Rightarrow> int \<Rightarrow> (byte list \<times> byte list) option" where
  "take_clear buf off n =
     (case mem_get buf off n of
        None \<Rightarrow> None
      | Some bs \<Rightarrow> map_option (\<lambda>buf'. (bs, buf')) (mem_put buf off (replicate (nat n) 0)))"

definition sec_buff_read :: "sec_buffer_t \<Rightarrow> int \<Rightarrow> (int \<times> byte list \<times> sec_buffer_t) option" where
  "sec_buff_read sb len =
     (let sz = sb_size sb; out = sb_out sb; in1 = sb_in sb in
      if sb_stop sb \<noteq> 0 then Some (-1, [], sb)
      else case sb_buffer sb of
        None \<Rightarrow> None
      | Some buf \<Rightarrow>
         if sz = 0 then None
         else if out \<le> in1
         then (let n = (if out + len \<le> in1 then len else in1 - out) in
               map_option (\<lambda>(bs, buf'). (n, bs, sb\<lparr>sb_buffer := Some buf', sb_out := (out + n) smod sz\<rparr>))
                 (take_clear buf out n))
         else if out + len \<le> sz
         then map_option (\<lambda>bs. (len, bs, sb\<lparr>sb_out := (out + len) smod sz\<rparr>)) (mem_get buf out len)
         else (case take_clear buf out (sz - out) of
                 None \<Rightarrow> None
               | Some (a, buf1) \<Rightarrow>
                   (let out1 = (out + (sz - out)) smod sz; n2 = len - (sz - out) in
                    map_option (\<lambda>(b, buf2). (sz - out + n2, a @ b,
                                  sb\<lparr>sb_buffer := Some buf2, sb_out := (out1 + n2) smod sz\<rparr>))
                      (take_clear buf1 0 n2))))"

definition sec_buff_remain :: "sec_buffer_t \<Rightarrow> int" where
  "sec_buff_remain sb =
     (if sb_in sb \<ge> sb_out sb then sb_in sb - sb_out sb else sb_in sb + sb_size sb - sb_out sb)"

definition sec_buff_resize :: "sec_buffer_t \<Rightarrow> int \<Rightarrow> sec_buffer_t" where
  "sec_buff_resize sb resize =
     (let r = (if resize \<ge> SEC_MAX_LEN then SEC_MAX_LEN else resize) in
      sb\<lparr>sb_size := r, sb_in := (if sb_in sb \<ge> r then r else sb_in sb),
         sb_out := (if sb_out sb \<ge> r then r else sb_out sb)\<rparr>)"

definition sec_buff_get_size :: "sec_buffer_t \<Rightarrow> int" where
  "sec_buff_get_size sb = sb_size sb"

section \<open>The contract of a byte queue\<close>

datatype fifo_op = Put "byte list" | Get int

fun fifo_run :: "('s \<Rightarrow> byte list \<Rightarrow> 's option) \<Rightarrow> ('s \<Rightarrow> int \<Rightarrow> (byte list \<times> 's) option) \<Rightarrow> 's \<Rightarrow> fifo_op list \<Rightarrow>
    ('s \<times> byte list \<times> byte list) option" where
  "fifo_run put get s [] = Some (s, [], [])"
| "fifo_run put get s (Put bs # ops) =
     (case put s bs of
        None \<Rightarrow> None
      | Some s1 \<Rightarrow> map_option (\<lambda>(s2, w, r). (s2, bs @ w, r)) (fifo_run put get s1 ops))"
| "fifo_run put get s (Get n # ops) =
     (case get s n of
        None \<Rightarrow> None
      | Some (bs, s1) \<Rightarrow> map_option (\<lambda>(s2, w, r). (s2, w, bs @ r)) (fifo_run put get s1 ops))"

text \<open>The fill level stays below the capacity and no read asks for more than there is.\<close>

fun fifo_fits :: "int \<Rightarrow> int \<Rightarrow> fifo_op list \<Rightarrow> bool" where
  "fifo_fits cap lvl [] = True"
| "fifo_fits cap lvl (Put bs # ops) = (lvl + int (length bs) < cap \<and> fifo_fits cap (lvl + int (length bs)) ops)"
| "fifo_fits cap lvl (Get n # ops) = (0 \<le> n \<and> n \<le> lvl \<and> fifo_fits cap (lvl - n) ops)"

locale byte_fifo =
  fixes inv :: "'s \<Rightarrow> bool"
    and contents :: "'s \<Rightarrow> byte list"
    and cap :: "'s \<Rightarrow> int"
    and put :: "'s \<Rightarrow> byte list \<Rightarrow> 's option"
    and get :: "'s \<Rightarrow> int \<Rightarrow> (byte list \<times> 's) option"
  assumes put_ok: "inv s \<Longrightarrow> int (length (contents s)) + int (length bs) < cap s \<Longrightarrow>
      \<exists>s'. put s bs = Some s' \<and> inv s' \<and> cap s' = cap s \<and> contents s' = contents s @ bs"
    and get_ok: "inv s \<Longrightarrow> 0 \<le> n \<Longrightarrow> n \<le> int (length (contents s)) \<Longrightarrow>
      \<exists>s'. get s n = Some (take (nat n) (contents s), s') \<and> inv s' \<and> cap s' = cap s \<and>
           contents s' = drop (nat n) (contents s)"
begin

lemma run_fifo:
  "inv s \<Longrightarrow> fifo_fits (cap s) (int (length (contents s))) ops \<Longrightarrow>
   \<exists>s' w r. fifo_run put get s ops = Some (s', w, r) \<and> r @ contents s' = contents s @ w"
proof (induction ops arbitrary: s)
  case (Cons op ops)
  show ?case
  proof (cases op)
    case (Put bs)
    then obtain s1 where s1: "put s bs = Some s1" "inv s1" "cap s1 = cap s" "contents s1 = contents s @ bs"
      using put_ok [OF Cons.prems(1), of bs] Cons.prems(2) by auto
    then show ?thesis using Cons.IH [OF s1(2)] Cons.prems(2) Put by auto
  next
    case (Get n)
    then obtain s1 where s1: "get s n = Some (take (nat n) (contents s), s1)" "inv s1" "cap s1 = cap s"
        "contents s1 = drop (nat n) (contents s)"
      using get_ok [OF Cons.prems(1), of n] Cons.prems(2) by auto
    have "int (length (contents s1)) = int (length (contents s)) - n"
      using Get Cons.prems(2) s1(4) by auto
    then obtain s' w r where r: "fifo_run put get s1 ops = Some (s', w, r)" "r @ contents s' = contents s1 @ w"
      using Cons.IH [OF s1(2)] Cons.prems(2) Get s1(3) by auto
    have "(take (nat n) (contents s) @ r) @ contents s' = contents s @ w"
      unfolding append_assoc r(2) s1(4) by (simp flip: append_assoc)
    then show ?thesis using Get s1(1) r(1) by simp
  qed
qed simp

end

section \<open>The ring keeps the contract\<close>

definition sb_mem :: "sec_buffer_t \<Rightarrow> byte list" where
  "sb_mem sb = (case sb_buffer sb of None \<Rightarrow> [] | Some b \<Rightarrow> take (nat (sb_size sb)) b)"

definition sb_inv :: "sec_buffer_t \<Rightarrow> bool" where
  "sb_inv sb \<longleftrightarrow> (case sb_buffer sb of None \<Rightarrow> False | Some b \<Rightarrow> int (length b) = SEC_MAX_LEN) \<and>
     0 < sb_size sb \<and> sb_size sb \<le> SEC_MAX_LEN \<and> 0 \<le> sb_in sb \<and> sb_in sb < sb_size sb \<and>
     0 \<le> sb_out sb \<and> sb_out sb < sb_size sb \<and> sb_stop sb = 0"

definition sb_contents :: "sec_buffer_t \<Rightarrow> byte list" where
  "sb_contents sb = ring_read (sb_mem sb) (sb_out sb) (sec_buff_remain sb)"

lemma mem_put_take:
  assumes "0 \<le> off" "off + int (length bs) \<le> sz" "sz \<le> int (length buf)"
  shows "\<exists>buf'. mem_put buf off bs = Some buf' \<and> length buf' = length buf \<and>
     take (nat sz) buf' = ring_write (take (nat sz) buf) off bs"
proof -
  obtain buf' where b: "mem_put buf off bs = Some buf'" using assms by (simp add: mem_put_def)
  have w: "mem_put (take (nat sz) buf) off bs = Some (ring_write (take (nat sz) buf) off bs)"
    using assms by (intro mem_put_ring) auto
  have l: "length buf' = length buf" using mem_put_length [OF b] .
  have "take (nat sz) buf' = ring_write (take (nat sz) buf) off bs"
  proof (rule nth_equalityI)
    fix p assume "p < length (take (nat sz) buf')"
    then have "p < length (take (nat sz) buf)" "p < length buf" "p < nat sz" using l by auto
    then show "take (nat sz) buf' ! p = ring_write (take (nat sz) buf) off bs ! p"
      by (simp add: mem_put_nth [OF b] mem_put_nth [OF w])
  qed (simp add: l)
  then show ?thesis using b l by simp
qed

lemma mem_get_take:
  assumes "0 \<le> off" "0 \<le> n" "off + n \<le> sz" "sz \<le> int (length buf)"
  shows "mem_get buf off n = Some (ring_read (take (nat sz) buf) off n)"
proof -
  have "mem_get (take (nat sz) buf) off n = Some (ring_read (take (nat sz) buf) off n)"
    using assms by (intro mem_get_ring) auto
  then show ?thesis using assms by (auto simp: mem_get_Some drop_take min_def)
qed

lemma take_clear_ring:
  assumes "0 \<le> off" "0 \<le> n" "off + n \<le> sz" "sz \<le> int (length buf)"
  shows "\<exists>buf'. take_clear buf off n = Some (ring_read (take (nat sz) buf) off n, buf') \<and> length buf' = length buf \<and>
     take (nat sz) buf' = ring_write (take (nat sz) buf) off (replicate (nat n) 0)"
  using mem_get_take [OF assms] mem_put_take [of off "replicate (nat n) 0" sz buf] assms
  by (auto simp: take_clear_def)

lemma smod_pos: "0 \<le> a \<Longrightarrow> 0 < b \<Longrightarrow> a smod b = a mod b" for a b :: int
  by (simp add: signed_modulo_int_def sgn_if)

lemma write_loop_ring:
  assumes "0 \<le> in1" "in1 < sz" "sz \<le> int (length buf)" "0 \<le> n" "n < sz" "n \<le> int (length buff)"
  shows "\<exists>buf'. sec_write_loop sz buff buf in1 0 n =
      Some (buf', (in1 + n) mod sz, if n \<le> sz - in1 then n else n - (sz - in1)) \<and>
     length buf' = length buf \<and> take (nat sz) buf' = ring_write (take (nat sz) buf) in1 (take (nat n) buff)"
proof (cases "n < sz - in1")
  case True
  obtain buf' where b: "mem_put buf in1 (take (nat n) buff) = Some buf'" "length buf' = length buf"
      "take (nat sz) buf' = ring_write (take (nat sz) buf) in1 (take (nat n) buff)"
    using mem_put_take [of in1 "take (nat n) buff" sz buf] assms True by auto
  have "mem_get buff 0 n = Some (take (nat n) buff)" using assms by (simp add: mem_get_def)
  then show ?thesis using True b assms
    by (cases "n = 0") (subst sec_write_loop.simps, simp add: smod_pos mem_put_def)+
next
  case False
  let ?v = "sz - in1"
  have v: "0 < ?v" "?v \<le> n" using False assms by auto
  obtain b1 where b1: "mem_put buf in1 (take (nat ?v) buff) = Some b1" "length b1 = length buf"
      "take (nat sz) b1 = ring_write (take (nat sz) buf) in1 (take (nat ?v) buff)"
    using mem_put_take [of in1 "take (nat ?v) buff" sz buf] assms v by auto
  let ?d2 = "take (nat (n - ?v)) (drop (nat ?v) buff)"
  obtain b2 where b2: "mem_put b1 0 ?d2 = Some b2" "length b2 = length b1"
      "take (nat sz) b2 = ring_write (take (nat sz) b1) 0 ?d2"
    using mem_put_take [of 0 ?d2 sz b1] assms v b1(2) by auto
  have g: "mem_get buff 0 ?v = Some (take (nat ?v) buff)" "mem_get buff ?v (n - ?v) = Some ?d2"
    using assms v by (simp_all add: mem_get_def)
  have "sec_write_loop sz buff buf in1 0 n = sec_write_loop sz buff b1 0 ?v (n - ?v)"
    using False v assms g(1) b1(1) by (subst sec_write_loop.simps) (simp add: signed_modulo_int_def Let_def)
  also have "\<dots> = Some (if n = ?v then b1 else b2, (in1 + n) mod sz, if n \<le> ?v then n else n - ?v)"
  proof (cases "n = ?v")
    case True
    then show ?thesis by (subst sec_write_loop.simps) simp
  next
    case ne: False
    have "(in1 + n) mod sz = n - ?v"
      using minus_mod_self2 [of "in1 + n" sz] mod_pos_pos_trivial [of "in1 + n - sz" sz] assms v by linarith
    then show ?thesis using ne v assms g(2) b2(1)
      by (subst sec_write_loop.simps) (simp add: smod_pos)
  qed
  moreover have "take (nat sz) (if n = ?v then b1 else b2) = ring_write (take (nat sz) buf) in1 (take (nat n) buff)"
  proof (cases "n = ?v")
    case True
    then show ?thesis using b1(3) by simp
  next
    case ne: False
    let ?M = "take (nat sz) buf"
    have len: "int (length ?M) = sz" using assms by simp
    have sp: "take (nat ?v) buff @ ?d2 = take (nat n) buff"
      using v take_add [of "nat ?v" "nat (n - ?v)" buff] by (simp flip: nat_add_distrib)
    have "ring_write (ring_write ?M in1 (take (nat ?v) buff)) 0 ?d2 =
        ring_write (ring_write ?M in1 (take (nat ?v) buff)) (in1 + int (length (take (nat ?v) buff))) ?d2"
      using assms v len by (simp add: ring_write_def)
    also have "\<dots> = ring_write ?M in1 (take (nat ?v) buff @ ?d2)"
      using assms v len by (intro ring_write_append) auto
    finally show ?thesis using ne b2(3) b1(3) sp by simp
  qed
  ultimately show ?thesis using b1(2) b2(2) by auto
qed

lemma sb_inv_D:
  assumes "sb_inv sb"
  obtains b where "sb_buffer sb = Some b" "int (length b) = SEC_MAX_LEN" "sb_size sb \<le> int (length b)"
    "sb_mem sb = take (nat (sb_size sb)) b" "int (length (sb_mem sb)) = sb_size sb"
  using assms by (cases "sb_buffer sb") (auto simp: sb_inv_def sb_mem_def)

lemma remain_bounds:
  assumes "sb_inv sb"
  shows "0 \<le> sec_buff_remain sb" "sec_buff_remain sb < sb_size sb"
    "sb_in sb = (sb_out sb + sec_buff_remain sb) mod sb_size sb"
    "int (length (sb_contents sb)) = sec_buff_remain sb"
proof -
  have b: "0 \<le> sb_in sb" "sb_in sb < sb_size sb" "0 \<le> sb_out sb" "sb_out sb < sb_size sb"
    using assms by (auto simp: sb_inv_def)
  then show r: "0 \<le> sec_buff_remain sb" "sec_buff_remain sb < sb_size sb"
    "sb_in sb = (sb_out sb + sec_buff_remain sb) mod sb_size sb"
    by (auto simp: sec_buff_remain_def)
  then show "int (length (sb_contents sb)) = sec_buff_remain sb" by (simp add: sb_contents_def)
qed

lemma remain_after:
  assumes "sb_inv sb'" "sb_in sb' = (sb_out sb' + r) mod sb_size sb'" "0 \<le> r" "r < sb_size sb'"
  shows "sec_buff_remain sb' = r"
proof -
  have "(sb_out sb' + r) mod sb_size sb' =
      (if sb_out sb' + r < sb_size sb' then sb_out sb' + r else sb_out sb' + r - sb_size sb')"
    using assms(1,3,4) minus_mod_self2 [of "sb_out sb' + r" "sb_size sb'"]
      mod_pos_pos_trivial [of "sb_out sb' + r - sb_size sb'" "sb_size sb'"] by (auto simp: sb_inv_def)
  then show ?thesis using assms by (auto simp: sec_buff_remain_def sb_inv_def)
qed

lemma write_contract:
  assumes inv: "sb_inv sb" and room: "sec_buff_remain sb + int (length bs) < sb_size sb"
  shows "\<exists>sb'. sec_buff_write sb bs (int (length bs)) =
      Some (if int (length bs) \<le> sb_size sb - sb_in sb then int (length bs)
            else int (length bs) - (sb_size sb - sb_in sb), sb') \<and>
     sb_inv sb' \<and> sb_size sb' = sb_size sb \<and> sb_contents sb' = sb_contents sb @ bs"
proof -
  obtain b where b: "sb_buffer sb = Some b" "int (length b) = SEC_MAX_LEN" "sb_size sb \<le> int (length b)"
    "sb_mem sb = take (nat (sb_size sb)) b" "int (length (sb_mem sb)) = sb_size sb" using sb_inv_D [OF inv] .
  note r = remain_bounds [OF inv]
  have i: "0 \<le> sb_in sb" "sb_in sb < sb_size sb" using inv by (auto simp: sb_inv_def)
  let ?n = "int (length bs)"
  have "?n < sb_size sb" using room r by linarith
  then obtain b' where w: "sec_write_loop (sb_size sb) bs b (sb_in sb) 0 ?n =
      Some (b', (sb_in sb + ?n) mod sb_size sb, if ?n \<le> sb_size sb - sb_in sb then ?n else ?n - (sb_size sb - sb_in sb))"
      "length b' = length b" "take (nat (sb_size sb)) b' = ring_write (sb_mem sb) (sb_in sb) bs"
    using write_loop_ring [of "sb_in sb" "sb_size sb" b ?n bs] i b by auto
  let ?sb = "sb\<lparr>sb_buffer := Some b', sb_in := (sb_in sb + ?n) mod sb_size sb\<rparr>"
  have inv': "sb_inv ?sb" using inv b w(2) i by (auto simp: sb_inv_def)
  have "(sb_in sb + ?n) mod sb_size sb = (sb_out sb + (sec_buff_remain sb + ?n)) mod sb_size sb"
    unfolding r(3) by (simp add: mod_add_left_eq add.assoc)
  then have rem: "sec_buff_remain ?sb = sec_buff_remain sb + ?n"
    using remain_after [OF inv', of "sec_buff_remain sb + ?n"] r(1) room by simp
  have "sb_mem ?sb = ring_write (sb_mem sb) (sb_in sb) bs" using w(3) by (simp add: sb_mem_def)
  moreover have "ring_read (ring_write (sb_mem sb) (sb_in sb) bs) (sb_out sb) (sec_buff_remain sb + ?n) =
      ring_read (sb_mem sb) (sb_out sb) (sec_buff_remain sb) @ bs"
  proof (rule ring_read_snoc)
    show "sb_in sb mod int (length (sb_mem sb)) = (sb_out sb + sec_buff_remain sb) mod int (length (sb_mem sb))"
      unfolding b(5) using i r(3) by simp
    show "0 < length (sb_mem sb)" using b(5) i by linarith
  qed (use r room b(5) in auto)
  ultimately have "sb_contents ?sb = sb_contents sb @ bs"
    unfolding sb_contents_def rem by simp
  then show ?thesis using w(1) b(1) inv' by (auto simp: sec_buff_write_def)
qed

text \<open>What a read leaves, whichever way the bytes were cleared.\<close>

lemma read_leaves:
  assumes inv: "sb_inv sb" and n: "0 \<le> n" "n \<le> sec_buff_remain sb"
    and b': "int (length b') = SEC_MAX_LEN"
    and keep: "ring_read (take (nat (sb_size sb)) b') (sb_out sb + n) (sec_buff_remain sb - n) =
               ring_read (sb_mem sb) (sb_out sb + n) (sec_buff_remain sb - n)"
  defines "sb' \<equiv> sb\<lparr>sb_buffer := Some b', sb_out := (sb_out sb + n) mod sb_size sb\<rparr>"
  shows "sb_inv sb'" "sb_size sb' = sb_size sb" "sb_contents sb' = drop (nat n) (sb_contents sb)"
proof -
  note r = remain_bounds [OF inv]
  have sz: "0 < sb_size sb" "sb_size sb \<le> int (length b')" using inv b' by (auto simp: sb_inv_def)
  show inv': "sb_inv sb'" "sb_size sb' = sb_size sb"
    using inv b' sz by (auto simp: sb'_def sb_inv_def)
  have "sb_in sb' = (sb_out sb' + (sec_buff_remain sb - n)) mod sb_size sb'"
    using r(3) by (simp add: sb'_def mod_add_left_eq)
  then have rem: "sec_buff_remain sb' = sec_buff_remain sb - n"
    using remain_after [OF inv'(1)] n r inv'(2) by simp
  have L: "int (length (take (nat (sb_size sb)) b')) = sb_size sb" using sz by simp
  have "sb_contents sb' = ring_read (take (nat (sb_size sb)) b') (sb_out sb + n) (sec_buff_remain sb - n)"
    unfolding sb_contents_def rem using ring_read_off_mod [of "take (nat (sb_size sb)) b'" "sb_out sb + n"] L
    by (simp add: sb'_def sb_mem_def)
  then show "sb_contents sb' = drop (nat n) (sb_contents sb)"
    using keep ring_read_split [OF n, of "sb_mem sb" "sb_out sb"] by (simp add: sb_contents_def)
qed

lemma read_contract:
  assumes inv: "sb_inv sb" and n: "0 \<le> n" "n \<le> sec_buff_remain sb"
  shows "\<exists>sb'. sec_buff_read sb n = Some (n, take (nat n) (sb_contents sb), sb') \<and>
     sb_inv sb' \<and> sb_size sb' = sb_size sb \<and> sb_contents sb' = drop (nat n) (sb_contents sb)"
proof -
  obtain b where b: "sb_buffer sb = Some b" "int (length b) = SEC_MAX_LEN" "sb_size sb \<le> int (length b)"
    "sb_mem sb = take (nat (sb_size sb)) b" "int (length (sb_mem sb)) = sb_size sb" using sb_inv_D [OF inv] .
  have i: "0 \<le> sb_in sb" "sb_in sb < sb_size sb" "0 \<le> sb_out sb" "sb_out sb < sb_size sb" "sb_stop sb = 0"
    using inv by (auto simp: sb_inv_def)
  note r = remain_bounds [OF inv]
  let ?M = "sb_mem sb" and ?o = "sb_out sb" and ?sz = "sb_size sb" and ?rest = "sec_buff_remain sb - n"
  have tk: "take (nat n) (sb_contents sb) = ring_read ?M ?o n"
    using ring_read_split [OF n, of ?M ?o] by (simp add: sb_contents_def)
  show ?thesis
  proof (cases "?o \<le> sb_in sb")
    case True
    then have on: "?o + n \<le> sb_in sb" using n by (simp add: sec_buff_remain_def)
    obtain b' where c: "take_clear b ?o n = Some (ring_read ?M ?o n, b')" "length b' = length b"
        "take (nat ?sz) b' = ring_write ?M ?o (replicate (nat n) 0)"
      using take_clear_ring [of ?o n ?sz b] on i b n by auto
    have "ring_read (take (nat ?sz) b') (?o + n) ?rest = ring_read ?M (?o + n) ?rest"
      unfolding c(3) using n r(2) b(5) by (intro ring_read_write_other) simp_all
    from read_leaves [OF inv n _ this] show ?thesis
      using True on b i n c(1,2) tk by (simp add: sec_buff_read_def Let_def smod_pos)
  next
    case wrap: False
    show ?thesis
    proof (cases "?o + n \<le> ?sz")
      case True
      have g: "mem_get b ?o n = Some (ring_read ?M ?o n)" using mem_get_take [of ?o n ?sz b] True i b n by simp
      have upd: "sb\<lparr>sb_out := x\<rparr> = sb\<lparr>sb_buffer := Some b, sb_out := x\<rparr>" for x using b(1) by simp
      show ?thesis
        using read_leaves [OF inv n b(2)] wrap True b i n g tk
        by (simp add: sec_buff_read_def Let_def smod_pos upd)
    next
      case False
      let ?v = "?sz - ?o" and ?n2 = "n - (?sz - ?o)"
      have v: "0 < ?v" "0 < ?n2" "?n2 \<le> sb_in sb" using False i wrap n by (auto simp: sec_buff_remain_def)
      obtain b1 where c1: "take_clear b ?o ?v = Some (ring_read ?M ?o ?v, b1)" "length b1 = length b"
          "take (nat ?sz) b1 = ring_write ?M ?o (replicate (nat ?v) 0)"
        using take_clear_ring [of ?o ?v ?sz b] i b v by auto
      obtain b2 where c2: "take_clear b1 0 ?n2 = Some (ring_read (take (nat ?sz) b1) 0 ?n2, b2)" "length b2 = length b1"
          "take (nat ?sz) b2 = ring_write (take (nat ?sz) b1) 0 (replicate (nat ?n2) 0)"
        using take_clear_ring [of 0 ?n2 ?sz b1] i b v c1(2) by auto
      have first: "ring_read (take (nat ?sz) b1) (?o + ?v) m = ring_read ?M (?o + ?v) m" if "?v + m \<le> ?sz" for m
        unfolding c1(3) using that v b(5) by (intro ring_read_write_other) simp_all
      have z: "ring_read (take (nat ?sz) b1) 0 ?n2 = ring_read ?M (?o + ?v) ?n2"
        using first [of ?n2] v wrap ring_read_off_mod [of "take (nat ?sz) b1" ?sz ?n2] c1(2) b(3)
        by (simp add: sec_buff_remain_def)
      then have data: "ring_read ?M ?o ?v @ ring_read (take (nat ?sz) b1) 0 ?n2 = ring_read ?M ?o n"
        using ring_read_append [of ?v ?n2 ?M ?o] v by simp
      have L1: "int (length (take (nat ?sz) b1)) = ?sz" using c1(2) b(3) i by simp
      have "ring_read (take (nat ?sz) b2) (0 + ?n2) ?rest = ring_read (take (nat ?sz) b1) (0 + ?n2) ?rest"
        unfolding c2(3) using v n r(2) L1 by (intro ring_read_write_other) simp_all
      moreover have shift: "ring_read X (0 + ?n2) ?rest = ring_read X (?o + n) ?rest" if "int (length X) = ?sz" for X :: "byte list"
        using ring_read_off_mod [of X "?o + n" ?rest] ring_read_off_mod [of X ?n2 ?rest] that
          minus_mod_self2 [of "?o + n" ?sz] by (simp add: algebra_simps)
      moreover have "ring_read (take (nat ?sz) b1) (?o + n) ?rest = ring_read ?M (?o + n) ?rest"
        unfolding c1(3) using v n r(2) b(5) by (intro ring_read_write_other) simp_all
      ultimately have keep: "ring_read (take (nat ?sz) b2) (?o + n) ?rest = ring_read ?M (?o + n) ?rest"
        using L1 c2(2) c1(2) b(3) i by simp
      have out': "?n2 smod ?sz = (?o + n) mod ?sz"
        using minus_mod_self2 [of "?o + n" ?sz] v i by (simp add: smod_pos algebra_simps)
      have ss: "?sz smod ?sz = 0" by (simp add: signed_modulo_int_def)
      show ?thesis
        using read_leaves [OF inv n _ keep] wrap False b i c1(1,2) c2(1,2) data tk out' ss
        by (simp add: sec_buff_read_def Let_def)
    qed
  qed
qed

definition fifo_put :: "sec_buffer_t \<Rightarrow> byte list \<Rightarrow> sec_buffer_t option" where
  "fifo_put sb bs = map_option snd (sec_buff_write sb bs (int (length bs)))"

definition fifo_get :: "sec_buffer_t \<Rightarrow> int \<Rightarrow> (byte list \<times> sec_buffer_t) option" where
  "fifo_get sb n = map_option snd (sec_buff_read sb n)"

interpretation secfifo: byte_fifo sb_inv sb_contents sb_size fifo_put fifo_get
proof
  fix sb bs n
  show "sb_inv sb \<Longrightarrow> int (length (sb_contents sb)) + int (length bs) < sb_size sb \<Longrightarrow>
      \<exists>s'. fifo_put sb bs = Some s' \<and> sb_inv s' \<and> sb_size s' = sb_size sb \<and> sb_contents s' = sb_contents sb @ bs"
    using write_contract [of sb bs] remain_bounds(4) [of sb] by (auto simp: fifo_put_def)
  show "sb_inv sb \<Longrightarrow> 0 \<le> n \<Longrightarrow> n \<le> int (length (sb_contents sb)) \<Longrightarrow>
      \<exists>s'. fifo_get sb n = Some (take (nat n) (sb_contents sb), s') \<and> sb_inv s' \<and> sb_size s' = sb_size sb \<and>
           sb_contents s' = drop (nat n) (sb_contents sb)"
    using read_contract [of sb n] remain_bounds(4) [of sb] by (auto simp: fifo_get_def)
qed

section \<open>Properties\<close>

text \<open>
  C25. Byte queue: for every sequence of writes and reads in which the fill level stays below the
  ring's size and no read asks for more than the ring holds, no operation leaves the buffer, and
  the bytes read followed by the bytes still held are the bytes held at first followed by the
  bytes written.
\<close>

theorem sec_fifo_is_a_queue:
  assumes "sb_inv sb" "fifo_fits (sb_size sb) (sec_buff_remain sb) ops"
  shows "\<exists>sb' w r. fifo_run fifo_put fifo_get sb ops = Some (sb', w, r) \<and>
     r @ sb_contents sb' = sb_contents sb @ w"
  using secfifo.run_fifo [OF assms(1)] assms(2) remain_bounds(4) [OF assms(1)] by simp

lemma sec_init_inv: "sb_inv (snd (sec_buff_init True SEC_MAX_LEN))"
  by (simp add: sec_buff_init_def sb_inv_def SEC_MAX_LEN_def)

theorem sec_fifo_is_a_queue_witness:
  "\<exists>sb' w r. fifo_run fifo_put fifo_get (snd (sec_buff_init True SEC_MAX_LEN)) [Put [1, 2, 3], Get 2, Put [4]] =
       Some (sb', w, r) \<and>
     r @ sb_contents sb' = sb_contents (snd (sec_buff_init True SEC_MAX_LEN)) @ w"
  by (rule sec_fifo_is_a_queue [OF sec_init_inv])
     (simp add: sec_buff_init_def sec_buff_remain_def SEC_MAX_LEN_def)

text \<open>
  The value \<open>sec_buff_write\<close> returns: the number of bytes written as long as the write does
  not go past the end of the ring, and only the length of the part at the beginning of the ring
  when it does, although all bytes are stored.
\<close>

lemma sec_write_result:
  assumes "sb_inv sb" "sec_buff_remain sb + int (length bs) < sb_size sb"
  shows "\<exists>sb'. sec_buff_write sb bs (int (length bs)) =
      Some (if sb_in sb + int (length bs) \<le> sb_size sb then int (length bs)
            else sb_in sb + int (length bs) - sb_size sb, sb') \<and>
     sb_contents sb' = sb_contents sb @ bs"
  using write_contract [OF assms] by (auto simp: algebra_simps)

text \<open>
  When the unread bytes wrap around the end of the ring, \<open>sec_buff_read\<close> does not compare the
  request with what is there: a request for more than the ring holds, up to the ring's size, is
  answered in full, so the last bytes handed out are not unread ones and the read position
  passes the write position.
\<close>

lemma sec_read_beyond_contents:
  assumes "sb_inv sb" "sb_in sb < sb_out sb" "sec_buff_remain sb < n" "n \<le> sb_size sb"
  shows "\<exists>bs sb'. sec_buff_read sb n = Some (n, bs, sb') \<and> int (length bs) = n \<and>
     int (length (sb_contents sb)) < int (length bs) \<and> sb_out sb' = (sb_out sb + n) mod sb_size sb"
proof -
  obtain b where b: "sb_buffer sb = Some b" "sb_size sb \<le> int (length b)"
    using sb_inv_D [OF assms(1)] by metis
  note r = remain_bounds [OF assms(1)]
  let ?sz = "sb_size sb" and ?o = "sb_out sb"
  have i: "0 \<le> sb_in sb" "0 \<le> ?o" "?o < ?sz" "sb_stop sb = 0" using assms(1) by (auto simp: sb_inv_def)
  have big: "\<not> ?o + n \<le> ?sz" using assms(2,3) i by (simp add: sec_buff_remain_def)
  obtain x b1 where c1: "take_clear b ?o (?sz - ?o) = Some (x, b1)" "length b1 = length b" "int (length x) = ?sz - ?o"
    using take_clear_ring [of ?o "?sz - ?o" ?sz b] i b by auto
  obtain y b2 where c2: "take_clear b1 0 (n - (?sz - ?o)) = Some (y, b2)" "int (length y) = n - (?sz - ?o)"
    using take_clear_ring [of 0 "n - (?sz - ?o)" ?sz b1] big i b c1(2) assms(4) by auto
  have out': "(?sz smod ?sz + (n - (?sz - ?o))) smod ?sz = (?o + n) mod ?sz"
    using minus_mod_self2 [of "?o + n" ?sz] big i by (simp add: smod_pos signed_modulo_int_def sgn_if algebra_simps)
  show ?thesis using assms(2,3) b i r(4) big c1 c2 out' by (simp add: sec_buff_read_def Let_def)
qed

end
