(* ===== verification/Watch_Cmd.thy ===== *)
theory Watch_Cmd
  imports Crc
begin

text \<open>
  The command frames to the watchdog board of \<open>src/rebootd/resetcmd.c\<close>: two head bytes, the length
  and the message, a CRC-16 over both, two tail bytes. \<open>send_to_watch\<close> makes three \<open>write\<close> calls
  on the serial line; the model returns the buffers in order, and \<open>wr\<close> is the result of the last
  call. The target is little-endian, so \<open>htons\<close> puts the high byte first in memory. \<open>None\<close> is a
  read beyond the message.
\<close>

section \<open>Model\<close>

definition htons_bytes :: "u16 \<Rightarrow> byte list" where
  "htons_bytes w = [ucast (drop_bit 8 w), ucast w]"

fun crc_bytes :: "u16 \<Rightarrow> byte list \<Rightarrow> u16" where
  "crc_bytes c [] = c"
| "crc_bytes c (b # bs) = crc_bytes (UpdateCRC b c) bs"

definition send_to_watch :: "int \<Rightarrow> byte list option \<Rightarrow> int \<Rightarrow> int \<Rightarrow> (int \<times> byte list list) option" where
  "send_to_watch watch_fd msg msg_len wr =
     (if watch_fd < 0 then Some (-1, [])
      else case msg of
        None \<Rightarrow> Some (-1, [])
      | Some m \<Rightarrow>
          if int (length m) < msg_len then None
          else (let body = take (nat msg_len) m;
                    len = htons_bytes (of_int msg_len);
                    crcval = crc_bytes 0 (len @ body)
                in Some (wr, [[0x55, 0x40] @ len, body, htons_bytes crcval @ [0xaa, 0x23]])))"

text \<open>\<open>fd\<close> is the result of opening the serial line; a failure is only reported on the console.\<close>

definition send_reboot_cmd_51 :: "int \<Rightarrow> int \<Rightarrow> (int \<times> byte list list) option" where
  "send_reboot_cmd_51 fd wr =
     (let cmdbuf = htons_bytes 0x0004 @ htons_bytes 0 @ replicate 16 0 in send_to_watch fd (Some cmdbuf) 4 wr)"

section \<open>The checksum of a frame\<close>

lemma crc_bytes_append: "crc_bytes c (xs @ ys) = crc_bytes (crc_bytes c xs) ys"
  by (induction xs arbitrary: c) simp_all

lemma ucast_high: "(ucast (ucast (drop_bit 8 c) :: byte) :: u16) = drop_bit 8 c" for c :: u16
  by (rule bit_word_eqI) (auto simp: bit_simps dest: bit_imp_le_length)

lemma drop_push: "drop_bit 8 (push_bit 8 c) = (ucast (ucast c :: byte) :: u16)" for c :: u16
  by (rule bit_word_eqI) (auto simp: bit_simps)

lemma Crc16Table_0: "Crc16Table ! 0 = 0"
  by (simp add: Crc16Table_def)

lemma crc_of_own_bytes: "crc_bytes c (htons_bytes c) = 0"
proof -
  have "UpdateCRC (ucast (drop_bit 8 c)) c = push_bit 8 c"
    unfolding UpdateCRC_def ucast_high by (simp add: Crc16Table_0)
  moreover have "UpdateCRC (ucast c) (push_bit 8 c) = push_bit 8 (push_bit 8 c)"
    unfolding UpdateCRC_def drop_push by (simp add: Crc16Table_0)
  moreover have "push_bit 8 (push_bit 8 c) = 0" by (rule bit_word_eqI) (simp add: bit_simps)
  ultimately show ?thesis by (simp add: htons_bytes_def)
qed

lemma push_byte_inj16: "push_bit 8 (ucast a :: u16) = push_bit 8 (ucast b) \<Longrightarrow> a = b" for a b :: byte
proof (rule bit_word_eqI)
  fix n assume e: "push_bit 8 (ucast a :: u16) = push_bit 8 (ucast b)" and n: "n < LENGTH(8)"
  show "bit a n = bit b n"
    using arg_cong [OF e, of "\<lambda>w. bit w (n + 8)"] n by (simp add: bit_push_bit_iff bit_ucast_iff)
qed

lemma crc16_byte_inj:
  "crc16_byte b c = crc16_byte b c' \<Longrightarrow> c = c'" "crc16_byte a c = crc16_byte b c \<Longrightarrow> a = b"
proof -
  show "crc16_byte b c = crc16_byte b c' \<Longrightarrow> c = c'"
    using funpow_inj [of step16 8, OF step16_inj] xor_cancel(1) unfolding crc16_byte_def by blast
  show "crc16_byte a c = crc16_byte b c \<Longrightarrow> a = b"
    using funpow_inj [of step16 8, OF step16_inj] xor_cancel(2) push_byte_inj16 unfolding crc16_byte_def by blast
qed

lemma crc_bytes_inj: "crc_bytes c bs = crc_bytes c' bs \<Longrightarrow> c = c'"
proof (induction bs arbitrary: c c')
  case (Cons b bs)
  then show ?case using crc16_byte_inj(1) unfolding crc_bytes.simps crc16_update by blast
qed simp

lemma crc_bytes_one_byte: "a \<noteq> b \<Longrightarrow> crc_bytes c (xs @ a # ys) \<noteq> crc_bytes c (xs @ b # ys)"
  using crc_bytes_inj crc16_byte_inj(2) unfolding crc_bytes_append crc_bytes.simps crc16_update by blast

section \<open>Properties\<close>

text \<open>
  C33. What \<open>send_to_watch\<close> puts on the line is one frame: head, length, message, checksum, tail.
  The CRC over length, message and checksum is 0, which is how the board can check it, and is
  not 0 when one byte of them arrives changed.
\<close>

theorem watch_frame_checks:
  assumes "0 \<le> fd" "length m < 65536"
  shows "\<exists>len crc. send_to_watch fd (Some m) (int (length m)) wr = Some (wr, [[0x55, 0x40] @ len, m, crc @ [0xaa, 0x23]]) \<and>
    length len = 2 \<and> length crc = 2 \<and> crc_bytes 0 (len @ m @ crc) = 0 \<and>
    (\<forall>xs a b ys. len @ m @ crc = xs @ a # ys \<longrightarrow> a \<noteq> b \<longrightarrow> crc_bytes 0 (xs @ b # ys) \<noteq> 0)"
proof -
  let ?len = "htons_bytes (of_int (int (length m)))"
  let ?crc = "htons_bytes (crc_bytes 0 (?len @ m))"
  have z: "crc_bytes 0 (?len @ m @ ?crc) = 0"
    using crc_of_own_bytes by (simp only: crc_bytes_append append_assoc [symmetric])
  have "crc_bytes 0 (xs @ b # ys) \<noteq> 0" if "?len @ m @ ?crc = xs @ a # ys" "a \<noteq> b" for xs a b ys
    using crc_bytes_one_byte [OF that(2), of 0 xs ys] z unfolding that(1) by simp
  moreover have "length ?len = 2" "length ?crc = 2" by (simp_all add: htons_bytes_def)
  moreover have "send_to_watch fd (Some m) (int (length m)) wr = Some (wr, [[0x55, 0x40] @ ?len, m, ?crc @ [0xaa, 0x23]])"
    using assms(1) by (simp add: send_to_watch_def Let_def)
  ultimately show ?thesis using z by blast
qed

theorem watch_frame_checks_witness:
  "\<exists>len crc. send_to_watch 3 (Some [0, 4, 0, 0]) 4 4 = Some (4, [[0x55, 0x40] @ len, [0, 4, 0, 0], crc @ [0xaa, 0x23]]) \<and>
     crc_bytes 0 (len @ [0, 4, 0, 0] @ crc) = 0"
proof -
  have "(0 :: int) \<le> 3" "length [0, 4, 0, 0 :: byte] < 65536" by simp_all
  from watch_frame_checks [OF this, of 4] obtain len crc where
    "send_to_watch 3 (Some [0, 4, 0, 0]) (int (length [0, 4, 0, 0 :: byte])) 4 =
       Some (4, [[0x55, 0x40] @ len, [0, 4, 0, 0], crc @ [0xaa, 0x23]])"
    "crc_bytes 0 (len @ [0, 4, 0, 0] @ crc) = 0" by blast
  then show ?thesis by (intro exI [of _ len] exI [of _ crc]) simp
qed

end
