(* ===== verification/C_String.thy ===== *)
theory C_String
  imports Prelude
begin

text \<open>
  The functions of the C library on strings and text files that the text formats of the device use. A C string
  is the list of its characters before the terminating zero; a character array that holds one is
  the same list, and an array that is full has no terminator. \<open>strncmp_eq\<close> is
  \<open>strncmp(p, s, strlen(s)) == 0\<close>, the search functions return an offset instead of a pointer.
  \<open>printf_d\<close> is the conversion \<open>%d\<close>; \<open>atoi\<close> is \<open>None\<close> where the number does not fit an \<open>int\<close>,
  which the C standard leaves undefined.
\<close>

named_theorems cstr_simps \<open>searching in concatenated strings\<close>

section \<open>Searching\<close>

definition strncmp_eq :: "string \<Rightarrow> string \<Rightarrow> bool" where
  "strncmp_eq p s = (take (length s) p = s)"

fun strstr :: "string \<Rightarrow> string \<Rightarrow> nat option" where
  "strstr [] n = (if n = [] then Some 0 else None)"
| "strstr (c # cs) n = (if strncmp_eq (c # cs) n then Some 0 else map_option Suc (strstr cs n))"

fun strchr :: "string \<Rightarrow> char \<Rightarrow> nat option" where
  "strchr [] x = None"
| "strchr (c # cs) x = (if c = x then Some 0 else map_option Suc (strchr cs x))"

fun strrchr :: "string \<Rightarrow> char \<Rightarrow> nat option" where
  "strrchr [] x = None"
| "strrchr (c # cs) x =
     (case strrchr cs x of Some i \<Rightarrow> Some (Suc i) | None \<Rightarrow> if c = x then Some 0 else None)"

lemma strncmp_eq_append [cstr_simps]: "strncmp_eq (s @ t) s"
  by (simp add: strncmp_eq_def)

lemma strncmp_eq_prefix: "strncmp_eq p s \<longleftrightarrow> (\<exists>t. p = s @ t)"
  by (metis append_eq_conv_conj append_take_drop_id strncmp_eq_def)

lemma strncmp_eq_split: "strncmp_eq p (a @ b) \<longleftrightarrow> strncmp_eq p a \<and> strncmp_eq (drop (length a) p) b"
  by (auto simp: strncmp_eq_prefix)

lemma strncmp_eq_hd: "strncmp_eq p s \<Longrightarrow> s \<noteq> [] \<Longrightarrow> p \<noteq> [] \<and> hd p = hd s"
  by (metis hd_take length_greater_0_conv strncmp_eq_def take_Nil)

text \<open>The first occurrence of a needle whose first character does not occur before it.\<close>

lemma strstr_first [cstr_simps]:
  assumes "n \<noteq> []" "hd n \<notin> set a"
  shows "strstr (a @ n @ b) n = Some (length a)"
  using assms(2)
proof (induction a)
  case Nil
  show ?case using assms(1) by (cases n) (simp_all add: strncmp_eq_def)
next
  case (Cons c a)
  then have "\<not> strncmp_eq (c # a @ n @ b) n" using strncmp_eq_hd [OF _ assms(1)] by fastforce
  then show ?case using Cons by simp
qed

lemma strstr_none [cstr_simps]:
  assumes "n \<noteq> []" "hd n \<notin> set a"
  shows "strstr a n = None"
  using assms(2)
proof (induction a)
  case (Cons c a)
  then have "\<not> strncmp_eq (c # a) n" using strncmp_eq_hd [OF _ assms(1)] by fastforce
  then show ?case using Cons by simp
qed (simp add: assms(1))

lemma strchr_first [cstr_simps]: "x \<notin> set a \<Longrightarrow> strchr (a @ x # b) x = Some (length a)"
  by (induction a) auto

lemma strchr_none [cstr_simps]: "strchr a x = None \<longleftrightarrow> x \<notin> set a"
  by (induction a) auto

lemma strchr_less: "strchr a x = Some i \<Longrightarrow> i < length a \<and> a ! i = x \<and> x \<notin> set (take i a)"
  by (induction a arbitrary: i) (auto split: if_splits)

lemma strrchr_none [cstr_simps]: "strrchr a x = None \<longleftrightarrow> x \<notin> set a"
  by (induction a) (auto split: option.splits)

lemma strrchr_snoc [cstr_simps]: "strrchr (a @ [c]) x = (if c = x then Some (length a) else strrchr a x)"
  by (induction a) (auto split: option.splits)

lemma strrchr_less: "strrchr a x = Some i \<Longrightarrow> i < length a"
  by (induction a arbitrary: i) (auto split: option.splits if_splits)

text \<open>The place of the first element with a property.\<close>

fun first_at :: "('a \<Rightarrow> bool) \<Rightarrow> 'a list \<Rightarrow> nat option" where
  "first_at P [] = None"
| "first_at P (x # xs) = (if P x then Some 0 else map_option Suc (first_at P xs))"

lemma first_at_None: "first_at P xs = None \<longleftrightarrow> (\<forall>x \<in> set xs. \<not> P x)"
  by (induction xs) auto

lemma first_at_SomeD: "first_at P xs = Some j \<Longrightarrow> j < length xs \<and> P (xs ! j)"
  by (induction xs arbitrary: j) (auto split: if_splits)

lemma first_at_snoc:
  "first_at P (xs @ [x]) = (case first_at P xs of Some j \<Rightarrow> Some j | None \<Rightarrow> if P x then Some (length xs) else None)"
  by (induction xs) (auto split: option.splits)

lemma first_at_update_same: "first_at P xs = Some j \<Longrightarrow> P y \<Longrightarrow> first_at P (xs[j := y]) = Some j"
  by (induction xs arbitrary: j) (auto split: if_splits)

lemma first_at_update_other: "j < length xs \<Longrightarrow> \<not> P (xs ! j) \<Longrightarrow> \<not> P y \<Longrightarrow> first_at P (xs[j := y]) = first_at P xs"
  by (induction xs arbitrary: j) (auto simp: nth_Cons split: nat.splits)

section \<open>Decimal numbers\<close>

definition digit_char :: "nat \<Rightarrow> char" where
  "digit_char d = char_of (48 + d)"

fun show_nat :: "nat \<Rightarrow> string" where
  "show_nat n = (if n < 10 then [digit_char n] else show_nat (n div 10) @ [digit_char (n mod 10)])"

declare show_nat.simps [simp del]

definition printf_d :: "int \<Rightarrow> string" where
  "printf_d i = (if i < 0 then CHR ''-'' # show_nat (nat (- i)) else show_nat (nat i))"

definition is_space :: "char \<Rightarrow> bool" where
  "is_space c = (c = CHR '' '' \<or> (9 \<le> (of_char c :: nat) \<and> (of_char c :: nat) \<le> 13))"

definition is_digit :: "char \<Rightarrow> bool" where
  "is_digit c = (48 \<le> (of_char c :: nat) \<and> (of_char c :: nat) \<le> 57)"

definition dec_value :: "string \<Rightarrow> nat" where
  "dec_value s = foldl (\<lambda>acc c. acc * 10 + (of_char c - 48)) 0 s"

definition int_ok :: "int \<Rightarrow> bool" where
  "int_ok i = (- (2 ^ 31) \<le> i \<and> i < 2 ^ 31)"

definition atoi :: "string \<Rightarrow> int option" where
  "atoi s =
     (let t = dropWhile is_space s;
          neg = (t \<noteq> [] \<and> hd t = CHR ''-'');
          u = (if t \<noteq> [] \<and> (hd t = CHR ''-'' \<or> hd t = CHR ''+'') then tl t else t);
          v = int (dec_value (takeWhile is_digit u));
          i = (if neg then - v else v)
      in if int_ok i then Some i else None)"

lemma of_digit_char: "d < 10 \<Longrightarrow> (of_char (digit_char d) :: nat) = 48 + d"
  by (simp add: digit_char_def)

lemma digit_char_is_digit: "d < 10 \<Longrightarrow> is_digit (digit_char d)"
  by (simp add: is_digit_def of_digit_char)

lemma show_nat_digits: "list_all is_digit (show_nat n) \<and> show_nat n \<noteq> []"
proof (induction n rule: show_nat.induct)
  case (1 n)
  then show ?case
    by (subst (1 2) show_nat.simps) (auto simp: digit_char_is_digit)
qed

lemma dec_value_show_nat: "dec_value (show_nat n) = n"
proof (induction n rule: show_nat.induct)
  case (1 n)
  then show ?case
    by (subst show_nat.simps) (auto simp: dec_value_def of_digit_char)
qed

lemma takeWhile_show_nat: "takeWhile is_digit (show_nat n) = show_nat n"
  using show_nat_digits [of n] by (auto simp: list_all_iff takeWhile_eq_all_conv)

lemma digit_not_sign: "is_digit c \<Longrightarrow> \<not> is_space c \<and> c \<noteq> CHR ''-'' \<and> c \<noteq> CHR ''+''"
  by (auto simp: is_digit_def is_space_def)

lemma show_nat_hd: "\<exists>c cs. show_nat n = c # cs \<and> is_digit c"
  using show_nat_digits [of n] by (cases "show_nat n") auto

lemma atoi_printf_d:
  assumes "int_ok i"
  shows "atoi (printf_d i) = Some i"
proof -
  obtain c cs where c: "show_nat (nat \<bar>i\<bar>) = c # cs" "is_digit c" using show_nat_hd by blast
  note ns = digit_not_sign [OF c(2)]
  have m: "\<not> is_space (CHR ''-'')" by (simp add: is_space_def)
  have d: "dec_value (takeWhile is_digit (c # cs)) = nat \<bar>i\<bar>"
    using takeWhile_show_nat [of "nat \<bar>i\<bar>"] dec_value_show_nat [of "nat \<bar>i\<bar>"] unfolding c(1) by simp
  show ?thesis
  proof (cases "i < 0")
    case True
    then have "printf_d i = CHR ''-'' # c # cs" using c(1) by (simp add: printf_d_def)
    then show ?thesis using True d m assms by (simp add: atoi_def Let_def del: takeWhile.simps)
  next
    case False
    then have "printf_d i = c # cs" using c(1) by (simp add: printf_d_def)
    then show ?thesis using False d ns assms by (simp add: atoi_def Let_def del: takeWhile.simps)
  qed
qed

text \<open>A number of type \<open>int\<close> has at most ten digits and a sign.\<close>

lemma show_nat_length: "n < 10 ^ Suc k \<Longrightarrow> length (show_nat n) \<le> Suc k"
proof (induction k arbitrary: n)
  case (Suc k)
  then have "n div 10 < 10 ^ Suc k" by (simp add: less_mult_imp_div_less)
  then show ?case using Suc.IH [of "n div 10"] by (subst show_nat.simps) auto
qed (simp add: show_nat.simps)

lemma printf_d_length: "int_ok i \<Longrightarrow> length (printf_d i) \<le> 11"
proof -
  assume "int_ok i"
  then have "nat \<bar>i\<bar> < 10 ^ Suc 9" by (subst nat_less_iff) (auto simp: int_ok_def)
  then have "length (show_nat (nat \<bar>i\<bar>)) \<le> 10" using show_nat_length [of "nat \<bar>i\<bar>" 9] by simp
  then show ?thesis by (auto simp: printf_d_def)
qed

lemma printf_d_chars: "c \<in> set (printf_d i) \<Longrightarrow> is_digit c \<or> c = CHR ''-''"
  using show_nat_digits by (auto simp: printf_d_def list_all_iff split: if_splits)

lemma printf_d_nonempty: "printf_d i \<noteq> []"
  using show_nat_digits by (auto simp: printf_d_def)

section \<open>Files of text\<close>

type_synonym files = "string \<rightharpoonup> string"

abbreviation (input) LF :: char where "LF \<equiv> CHR 0x0a"
abbreviation (input) NUL :: char where "NUL \<equiv> CHR 0x00"

definition fgets :: "nat \<Rightarrow> string \<Rightarrow> (string \<times> string) option" where
  "fgets sz s =
     (if s = [] then None
      else let t = take (sz - 1) s;
               n = (case strchr t LF of Some i \<Rightarrow> i + 1 | None \<Rightarrow> length t)
           in Some (take n s, drop n s))"

text \<open>What \<open>fprintf(fp, "%s", buf)\<close> writes.\<close>

definition as_cstr :: "string \<Rightarrow> string" where
  "as_cstr l = takeWhile (\<lambda>c. c \<noteq> NUL) l"

lemma fgets_line:
  assumes "LF \<notin> set b" "length b + 1 < sz"
  shows "fgets sz (b @ LF # s) = Some (b @ [LF], s)"
proof -
  have "take (sz - 1) (b @ LF # s) = b @ LF # take (sz - 2 - length b) s"
    using assms(2) by (simp add: take_Cons' numeral_2_eq_2)
  then have "strchr (take (sz - 1) (b @ LF # s)) LF = Some (length b)" using strchr_first [OF assms(1)] by simp
  then show ?thesis by (simp add: fgets_def Let_def)
qed

end
