(* ===== verification/Key_Value.thy ===== *)
theory Key_Value
  imports Prelude
begin

text \<open>
  The contract of a store of values under keys with a bounded number of entries, kept by the
  name-value pairs and by the fields of a record. \<open>ok\<close> tells which keys and values the store can
  hold, \<open>put\<close> is \<open>None\<close> when it does not succeed. The consequences that clients rely on are proved
  once here: after any list of writes a read gives the last value written, and the writes
  succeed as long as there are not more keys than places.
\<close>

fun puts :: "('s \<Rightarrow> 'k \<Rightarrow> 'v \<Rightarrow> 's option) \<Rightarrow> 's \<Rightarrow> ('k \<times> 'v) list \<Rightarrow> 's option" where
  "puts put s [] = Some s"
| "puts put s ((k, v) # kvs) = (case put s k v of None \<Rightarrow> None | Some s1 \<Rightarrow> puts put s1 kvs)"

locale kv_store =
  fixes inv :: "'s \<Rightarrow> bool"
    and ok :: "'k \<Rightarrow> 'v \<Rightarrow> bool"
    and put :: "'s \<Rightarrow> 'k \<Rightarrow> 'v \<Rightarrow> 's option"
    and get :: "'s \<Rightarrow> 'k \<Rightarrow> 'v option"
  assumes put_inv: "inv s \<Longrightarrow> ok k v \<Longrightarrow> put s k v = Some s' \<Longrightarrow> inv s'"
    and get_same: "inv s \<Longrightarrow> ok k v \<Longrightarrow> put s k v = Some s' \<Longrightarrow> get s' k = Some v"
    and get_other: "inv s \<Longrightarrow> ok k v \<Longrightarrow> ok k' v' \<Longrightarrow> k' \<noteq> k \<Longrightarrow> put s k v = Some s' \<Longrightarrow> get s' k' = get s k'"
begin

lemma puts_inv:
  "inv s \<Longrightarrow> \<forall>(k, v) \<in> set kvs. ok k v \<Longrightarrow> puts put s kvs = Some s' \<Longrightarrow> inv s'"
proof (induction kvs arbitrary: s)
  case (Cons kv kvs)
  then show ?case by (cases kv) (auto split: option.splits intro: put_inv)
qed simp

lemma get_puts:
  assumes "inv s" "\<forall>(k, v) \<in> set kvs. ok k v" "puts put s kvs = Some s'" "ok k w"
  shows "get s' k = (case map_of (rev kvs) k of None \<Rightarrow> get s k | Some v \<Rightarrow> Some v)"
  using assms(1-3)
proof (induction kvs arbitrary: s)
  case (Cons kv kvs)
  obtain k1 v1 where kv: "kv = (k1, v1)" by (cases kv)
  with Cons.prems obtain s1 where s1: "put s k1 v1 = Some s1" "puts put s1 kvs = Some s'"
    by (auto split: option.splits)
  have ok1: "ok k1 v1" using Cons.prems kv by auto
  have "get s' k = (case map_of (rev kvs) k of None \<Rightarrow> get s1 k | Some v \<Rightarrow> Some v)"
    using Cons.IH [of s1] Cons.prems s1 put_inv [OF _ ok1] by auto
  moreover have "get s1 k = (if k = k1 then Some v1 else get s k)"
    using get_same [OF _ ok1 s1(1)] get_other [OF _ ok1 assms(4) _ s1(1)] Cons.prems by auto
  ultimately show ?case by (auto simp: kv map_add_def split: option.splits)
qed simp

end

locale kv_bounded = kv_store inv ok put get
  for inv :: "'s \<Rightarrow> bool" and ok :: "'k \<Rightarrow> 'v \<Rightarrow> bool"
    and put :: "'s \<Rightarrow> 'k \<Rightarrow> 'v \<Rightarrow> 's option" and get :: "'s \<Rightarrow> 'k \<Rightarrow> 'v option" +
  fixes size :: "'s \<Rightarrow> nat" and cap :: nat
  assumes put_succeeds: "inv s \<Longrightarrow> ok k v \<Longrightarrow> get s k \<noteq> None \<or> size s < cap \<Longrightarrow> \<exists>s'. put s k v = Some s'"
    and size_put: "inv s \<Longrightarrow> ok k v \<Longrightarrow> put s k v = Some s' \<Longrightarrow>
      size s' = size s + (if get s k = None then 1 else 0)"
begin

text \<open>The keys of a list of writes that the store does not hold yet.\<close>

lemma new_keys_after_put:
  assumes "inv s" "\<forall>(k, v) \<in> set ((k, v) # kvs). ok k v" "put s k v = Some s1"
  shows "size s1 + card {k' \<in> fst ` set kvs. get s1 k' = None} =
    size s + card {k' \<in> fst ` set ((k, v) # kvs). get s k' = None}"
proof -
  let ?new = "{k' \<in> fst ` set ((k, v) # kvs). get s k' = None}"
  have ok1: "ok k v" using assms(2) by auto
  have same: "get s1 k = Some v" by (rule get_same [OF assms(1) ok1 assms(3)])
  have other: "get s1 k' = get s k'" if m: "k' \<in> fst ` set kvs" and d: "k' \<noteq> k" for k'
  proof -
    obtain w where "(k', w) \<in> set kvs" using m by auto
    then have "ok k' w" using assms(2) by auto
    then show ?thesis by (rule get_other [OF assms(1) ok1 _ d assms(3)])
  qed
  have "{k' \<in> fst ` set kvs. get s1 k' = None} = ?new - {k}"
  proof (rule set_eqI)
    fix k'
    show "k' \<in> {k' \<in> fst ` set kvs. get s1 k' = None} \<longleftrightarrow> k' \<in> ?new - {k}"
      by (cases "k' = k"; cases "k' \<in> fst ` set kvs") (simp_all add: same other)
  qed
  moreover have "card (?new - {k}) + (if get s k = None then 1 else 0) = card ?new"
  proof (cases "get s k = None")
    case True
    then have "k \<in> ?new" by force
    then show ?thesis using True card_Suc_Diff1 [of ?new k] by simp
  qed simp
  ultimately show ?thesis using size_put [OF assms(1) ok1 assms(3)] by simp
qed

lemma size_puts:
  assumes "inv s" "\<forall>(k, v) \<in> set kvs. ok k v" "puts put s kvs = Some s'"
  shows "size s' = size s + card {k \<in> fst ` set kvs. get s k = None}"
  using assms
proof (induction kvs arbitrary: s)
  case (Cons kv kvs)
  obtain k v where kv: "kv = (k, v)" by (cases kv)
  with Cons.prems obtain s1 where s1: "put s k v = Some s1" "puts put s1 kvs = Some s'"
    by (auto split: option.splits)
  have "inv s1" using put_inv [OF Cons.prems(1) _ s1(1)] Cons.prems(2) kv by auto
  then show ?case using Cons.IH [of s1] Cons.prems(2) s1 new_keys_after_put [OF Cons.prems(1) _ s1(1), of kvs] kv by auto
qed simp

lemma puts_succeed:
  assumes "inv s" "\<forall>(k, v) \<in> set kvs. ok k v" "size s + card {k \<in> fst ` set kvs. get s k = None} \<le> cap"
  shows "\<exists>s'. puts put s kvs = Some s'"
  using assms
proof (induction kvs arbitrary: s)
  case (Cons kv kvs)
  obtain k v where kv: "kv = (k, v)" by (cases kv)
  let ?new = "{k' \<in> fst ` set (kv # kvs). get s k' = None}"
  have ok1: "ok k v" using Cons.prems kv by auto
  have "get s k = None \<Longrightarrow> k \<in> ?new" using kv by force
  then have "get s k = None \<Longrightarrow> 0 < card ?new" by (subst card_gt_0_iff) auto
  then have "get s k \<noteq> None \<or> size s < cap" using Cons.prems(3) by linarith
  then obtain s1 where s1: "put s k v = Some s1" using put_succeeds Cons.prems(1) ok1 by blast
  have "size s1 + card {k' \<in> fst ` set kvs. get s1 k' = None} \<le> cap"
    using new_keys_after_put [OF Cons.prems(1) _ s1, of kvs] Cons.prems(2,3) kv by simp
  then show ?case using Cons.IH [of s1] Cons.prems put_inv [OF Cons.prems(1) ok1 s1] s1 kv by auto
qed simp

end

end
