(* ===== verification/Nv_Pair.thy ===== *)
theory Nv_Pair
  imports C_String Key_Value
begin

text \<open>
  The name-value pairs of \<open>libsrc/nv_pair/src/nv_pair.c\<close>, the text in which the device's
  processes exchange commands (\<open>name==alan^^age==18\<close>). \<open>NVP_T\<close> has the fields of the C
  structure. A slot of \<open>nvp\<close> is the string it holds; slots that hold no pair are zeroed, which
  \<open>nvp_wf\<close> states. \<open>None\<close> is undefined behaviour: a null pointer, a slot beyond the array, a text
  that does not fit its array together with the terminator, or the read of an array that has no
  terminator.
\<close>

named_theorems nvp_simps \<open>sizes of the arrays of NVP_T\<close>

section \<open>Model\<close>

definition MAX_MARK_LEN :: nat where [nvp_simps]: "MAX_MARK_LEN = 20"
definition MAX_SEP_LEN :: nat where [nvp_simps]: "MAX_SEP_LEN = 20"
definition MAX_CMD_NUM :: nat where [nvp_simps]: "MAX_CMD_NUM = 50"
definition MAX_DATA_LEN :: nat where [nvp_simps]: "MAX_DATA_LEN = 100"
definition NVP_SUCCESS :: int where [nvp_simps]: "NVP_SUCCESS = 0"
definition NVP_NO_MEM :: int where [nvp_simps]: "NVP_NO_MEM = 1000"
definition NVP_PARA_ERR :: int where [nvp_simps]: "NVP_PARA_ERR = 1001"
definition NVP_MAGIC :: u32 where "NVP_MAGIC = 0xeb90eb90"

record NVP_T =
  nv_magic :: u32
  nv_str_len :: int
  num_nvp :: nat
  seperator :: string
  equal_mark :: string
  nvp :: "string list"
  msg_buf :: string

text \<open>Read of a character array of size \<open>n\<close> up to its terminator.\<close>

definition cstr :: "nat \<Rightarrow> string \<Rightarrow> string option" where
  "cstr n s = (if length s < n then Some s else None)"

text \<open>
  \<open>strncmp\<close> at an offset of a slot: a full slot has no terminator, so a comparison that matches up
  to its end reads on.
\<close>

definition slot_cmp :: "string \<Rightarrow> nat \<Rightarrow> string \<Rightarrow> bool option" where
  "slot_cmp row k s =
     (let r = drop k row in
      if strncmp_eq r s then Some True
      else if MAX_DATA_LEN \<le> length row \<and> strncmp_eq s r then None else Some False)"

definition nvp_set_seperator :: "NVP_T option \<Rightarrow> string option \<Rightarrow> (int \<times> NVP_T option) option" where
  "nvp_set_seperator nv sep =
     (case nv of
        None \<Rightarrow> Some (- NVP_PARA_ERR, nv)
      | Some nt \<Rightarrow>
         (case sep of
            None \<Rightarrow> None
          | Some s \<Rightarrow>
              if length s > MAX_SEP_LEN then Some (- NVP_PARA_ERR, nv)
              else if nv_magic nt \<noteq> NVP_MAGIC then Some (- NVP_PARA_ERR, nv)
              else Some (NVP_SUCCESS, Some (nt\<lparr>seperator := s\<rparr>))))"

definition nvp_set_equal_mark :: "NVP_T option \<Rightarrow> string option \<Rightarrow> (int \<times> NVP_T option) option" where
  "nvp_set_equal_mark nv mark =
     (case nv of
        None \<Rightarrow> Some (- NVP_PARA_ERR, nv)
      | Some nt \<Rightarrow>
         (case mark of
            None \<Rightarrow> None
          | Some m \<Rightarrow>
              if length m > MAX_MARK_LEN then Some (- NVP_PARA_ERR, nv)
              else if nv_magic nt \<noteq> NVP_MAGIC then Some (- NVP_PARA_ERR, nv)
              else Some (0, Some (nt\<lparr>equal_mark := m\<rparr>))))"

fun pair_index_loop :: "string \<Rightarrow> string \<Rightarrow> string \<Rightarrow> string list \<Rightarrow> int \<Rightarrow> int option" where
  "pair_index_loop sep name mark [] i = Some (- NVP_PARA_ERR)"
| "pair_index_loop sep name mark (row # rows) i =
     (if length sep \<ge> MAX_SEP_LEN then None
      else case slot_cmp row 0 sep of
        None \<Rightarrow> None
      | Some False \<Rightarrow> pair_index_loop sep name mark rows (i + 1)
      | Some True \<Rightarrow>
         (case slot_cmp row (length sep) name of
            None \<Rightarrow> None
          | Some False \<Rightarrow> pair_index_loop sep name mark rows (i + 1)
          | Some True \<Rightarrow>
              if length mark \<ge> MAX_MARK_LEN then None
              else (case slot_cmp row (length sep + length name) mark of
                      None \<Rightarrow> None
                    | Some False \<Rightarrow> pair_index_loop sep name mark rows (i + 1)
                    | Some True \<Rightarrow> Some i)))"

definition nvp_get_pair_index :: "NVP_T \<Rightarrow> string \<Rightarrow> int option" where
  "nvp_get_pair_index nt name =
     (if length name > MAX_DATA_LEN then Some (- NVP_PARA_ERR)
      else case pair_index_loop (seperator nt) name (equal_mark nt) (take (num_nvp nt) (nvp nt)) 0 of
             None \<Rightarrow> None
           | Some i \<Rightarrow> if i < 0 \<and> num_nvp nt > length (nvp nt) then None else Some i)"

definition nvp_create :: "bool \<Rightarrow> NVP_T option" where
  "nvp_create malloc_ok =
     (if \<not> malloc_ok then None
      else let nt = \<lparr>nv_magic = NVP_MAGIC, nv_str_len = 0, num_nvp = 0, seperator = [], equal_mark = [],
                     nvp = replicate MAX_CMD_NUM [], msg_buf = []\<rparr>
           in case nvp_set_equal_mark (Some nt) (Some ''=='') of
                None \<Rightarrow> None
              | Some (_, nv) \<Rightarrow>
                 (case nvp_set_seperator nv (Some ''^^'') of None \<Rightarrow> None | Some (_, nv') \<Rightarrow> nv'))"

text \<open>\<open>sprintf(slot, "%s%s%s%s", seperator, name, equal_mark, value)\<close>\<close>

definition sprintf_pair :: "NVP_T \<Rightarrow> string \<Rightarrow> string \<Rightarrow> string option" where
  "sprintf_pair nt name value =
     (case (cstr MAX_SEP_LEN (seperator nt), cstr MAX_MARK_LEN (equal_mark nt)) of
        (Some sep, Some mark) \<Rightarrow> cstr MAX_DATA_LEN (sep @ name @ mark @ value)
      | _ \<Rightarrow> None)"

definition nvp_set_pair_str ::
    "NVP_T option \<Rightarrow> string option \<Rightarrow> string option \<Rightarrow> (int \<times> NVP_T option) option" where
  "nvp_set_pair_str nv name value =
     (case (nv, name, value) of
        (Some nt, Some nm, Some v) \<Rightarrow>
          if length nm + length v > MAX_DATA_LEN then Some (- NVP_PARA_ERR, nv)
          else if nv_magic nt \<noteq> NVP_MAGIC then Some (- NVP_PARA_ERR, nv)
          else (case nvp_get_pair_index nt nm of
                  None \<Rightarrow> None
                | Some index \<Rightarrow>
                   (case sprintf_pair nt nm v of
                      None \<Rightarrow> None
                    | Some row \<Rightarrow>
                        if index < 0
                        then (if num_nvp nt \<ge> length (nvp nt) then None
                              else (let nt1 = nt\<lparr>nvp := (nvp nt)[num_nvp nt := row],
                                                 num_nvp := num_nvp nt + 1\<rparr>
                                    in if num_nvp nt1 > MAX_CMD_NUM then Some (- NVP_NO_MEM, Some nt1)
                                       else Some (NVP_SUCCESS, Some nt1)))
                        else Some (NVP_SUCCESS, Some (nt\<lparr>nvp := (nvp nt)[nat index := row]\<rparr>))))
      | _ \<Rightarrow> Some (- NVP_PARA_ERR, nv))"

definition nvp_set_pair_int :: "NVP_T option \<Rightarrow> string option \<Rightarrow> int \<Rightarrow> (int \<times> NVP_T option) option" where
  "nvp_set_pair_int nv name value = nvp_set_pair_str nv name (Some (printf_d value))"

text \<open>The length of the name is taken before the name is compared with \<open>NULL\<close>.\<close>

definition nvp_get_pair_str ::
    "NVP_T option \<Rightarrow> string option \<Rightarrow> string option \<Rightarrow> string option option" where
  "nvp_get_pair_str nv name def_val =
     (case name of
        None \<Rightarrow> None
      | Some nm \<Rightarrow>
         (case nv of
            None \<Rightarrow> Some None
          | Some nt \<Rightarrow>
              if length nm > MAX_DATA_LEN then Some None
              else if nv_magic nt \<noteq> NVP_MAGIC then Some None
              else (case nvp_get_pair_index nt nm of
                      None \<Rightarrow> None
                    | Some i \<Rightarrow>
                        if i < 0 then Some def_val
                        else (case (cstr MAX_DATA_LEN (nvp nt ! nat i), cstr MAX_MARK_LEN (equal_mark nt)) of
                                (Some p, Some mark) \<Rightarrow>
                                  (case strstr p mark of
                                     None \<Rightarrow> Some def_val
                                   | Some k \<Rightarrow>
                                      (let s = drop (k + length mark) p
                                       in if s = [] then Some def_val else Some (Some s)))
                              | _ \<Rightarrow> None))))"

definition nvp_get_pair_int :: "NVP_T option \<Rightarrow> string option \<Rightarrow> int \<Rightarrow> int option" where
  "nvp_get_pair_int nv name def_val =
     (case nvp_get_pair_str nv name None of
        None \<Rightarrow> None
      | Some None \<Rightarrow> Some def_val
      | Some (Some s) \<Rightarrow> atoi s)"

fun get_string_loop :: "string list \<Rightarrow> string \<Rightarrow> string option" where
  "get_string_loop [] buf = Some buf"
| "get_string_loop (row # rows) buf =
     (case cstr MAX_DATA_LEN row of
        None \<Rightarrow> None
      | Some r \<Rightarrow>
          if length buf + length r > MAX_CMD_NUM * MAX_DATA_LEN then None
          else get_string_loop rows (buf @ r))"

definition nvp_get_string :: "NVP_T option \<Rightarrow> (string option \<times> NVP_T option) option" where
  "nvp_get_string nv =
     (case nv of
        None \<Rightarrow> Some (None, nv)
      | Some nt \<Rightarrow>
          if nv_magic nt \<noteq> NVP_MAGIC then Some (None, nv)
          else if num_nvp nt > length (nvp nt) then None
          else (case (get_string_loop (take (num_nvp nt) (nvp nt)) [], cstr MAX_SEP_LEN (seperator nt)) of
                  (Some buf, Some sep) \<Rightarrow>
                     Some (Some (drop (length sep) buf),
                           Some (nt\<lparr>msg_buf := buf, nv_str_len := int (length buf)\<rparr>))
                | _ \<Rightarrow> None))"

text \<open>
  The loop of \<open>nvp_parse_string\<close>: \<open>n\<close> iterations remain, \<open>index\<close> is the text not looked at yet. A
  copy into a slot replaces its first bytes.
\<close>

fun parse_loop :: "nat \<Rightarrow> string \<Rightarrow> string \<Rightarrow> nat \<Rightarrow> string list \<Rightarrow> (int \<times> nat \<times> string list) option" where
  "parse_loop 0 sep index num rows = Some (int num, num, rows)"
| "parse_loop (Suc n) sep index num rows =
     (case strstr index sep of
        None \<Rightarrow> Some (if num = 0 then - NVP_PARA_ERR else int num, num, rows)
      | Some k \<Rightarrow>
         (let p = drop k index; index' = drop (length sep) p;
              piece = (case strstr index' sep of
                         Some j \<Rightarrow> if length sep + j > length sep then Some (take (length sep + j) p) else None
                       | None \<Rightarrow> Some p)
          in case piece of
               None \<Rightarrow> parse_loop n sep index' num rows
             | Some bs \<Rightarrow>
                 if length rows \<le> num \<or> length bs > MAX_DATA_LEN then None
                 else parse_loop n sep index' (num + 1)
                        (rows[num := bs @ drop (length bs) (rows ! num)])))"

definition nvp_parse_string :: "NVP_T option \<Rightarrow> string option \<Rightarrow> (int \<times> NVP_T option) option" where
  "nvp_parse_string nv str =
     (case (nv, str) of
        (Some nt, Some s) \<Rightarrow>
          if nv_magic nt \<noteq> NVP_MAGIC then Some (- NVP_PARA_ERR, nv)
          else if length s > MAX_CMD_NUM * MAX_DATA_LEN then Some (- NVP_NO_MEM, nv)
          else if num_nvp nt > length (nvp nt) then None
          else (case cstr MAX_SEP_LEN (seperator nt) of
                  None \<Rightarrow> None
                | Some sep \<Rightarrow>
                   (let cleared = replicate (num_nvp nt) [] @ drop (num_nvp nt) (nvp nt);
                        text = (if \<not> strncmp_eq s sep then sep @ s else s)
                    in case cstr (MAX_CMD_NUM * MAX_DATA_LEN) text of
                         None \<Rightarrow> None
                       | Some buf \<Rightarrow>
                          (case parse_loop MAX_CMD_NUM sep buf 0 cleared of
                             None \<Rightarrow> None
                           | Some (ret, num, rows) \<Rightarrow>
                               Some (ret, Some (nt\<lparr>msg_buf := buf, nv_str_len := int (length buf),
                                                   num_nvp := num, nvp := rows\<rparr>)))))
      | _ \<Rightarrow> Some (- NVP_PARA_ERR, nv))"

definition nvp_get_count :: "NVP_T option \<Rightarrow> int" where
  "nvp_get_count nv =
     (case nv of
        None \<Rightarrow> - NVP_PARA_ERR
      | Some nt \<Rightarrow> if nv_magic nt \<noteq> NVP_MAGIC then - NVP_PARA_ERR else int (num_nvp nt))"

text \<open>The lines that \<open>nvp_dump\<close> prints after the count.\<close>

definition nvp_dump :: "NVP_T option \<Rightarrow> (int \<times> string list) option" where
  "nvp_dump nv =
     (case nv of
        None \<Rightarrow> Some (- NVP_PARA_ERR, [])
      | Some nt \<Rightarrow>
          if nv_magic nt \<noteq> NVP_MAGIC then Some (- NVP_PARA_ERR, [])
          else if num_nvp nt > length (nvp nt) then None
          else if list_all (\<lambda>r. length r < MAX_DATA_LEN) (take (num_nvp nt) (nvp nt))
          then Some (NVP_SUCCESS, take (num_nvp nt) (nvp nt)) else None)"

text \<open>\<open>True\<close>: the structure was released.\<close>

definition nvp_destroy :: "NVP_T option \<Rightarrow> bool" where
  "nvp_destroy nv = (case nv of None \<Rightarrow> False | Some nt \<Rightarrow> nv_magic nt = NVP_MAGIC)"

definition nvp_get_error_str :: "int \<Rightarrow> string" where
  "nvp_get_error_str err =
     (if err = NVP_NO_MEM then ''not enough memory''
      else if err = NVP_PARA_ERR then ''parameters error'' else ''unknow nvp errno'')"

section \<open>Well-formed structures\<close>

definition nvp_wf :: "NVP_T \<Rightarrow> bool" where
  "nvp_wf nt \<longleftrightarrow>
     nv_magic nt = NVP_MAGIC \<and> length (nvp nt) = MAX_CMD_NUM \<and> num_nvp nt \<le> MAX_CMD_NUM \<and>
     length (seperator nt) < MAX_SEP_LEN \<and> length (equal_mark nt) < MAX_MARK_LEN \<and>
     list_all (\<lambda>r. length r < MAX_DATA_LEN) (nvp nt) \<and> list_all (\<lambda>r. r = []) (drop (num_nvp nt) (nvp nt))"

text \<open>The slot that \<open>name\<close> is found in, and the slots in use.\<close>

definition pair_key :: "NVP_T \<Rightarrow> string \<Rightarrow> string" where
  "pair_key nt name = seperator nt @ name @ equal_mark nt"

abbreviation used :: "NVP_T \<Rightarrow> string list" where
  "used nt \<equiv> take (num_nvp nt) (nvp nt)"

definition pair_at :: "NVP_T \<Rightarrow> string \<Rightarrow> nat option" where
  "pair_at nt name = first_at (\<lambda>r. strncmp_eq r (pair_key nt name)) (used nt)"

lemma nvp_create_wf: "nvp_create True = Some nt \<Longrightarrow> nvp_wf nt"
  by (auto simp: nvp_create_def nvp_set_equal_mark_def nvp_set_seperator_def nvp_wf_def nvp_simps
      list_all_iff Let_def)

lemma slot_cmp_short: "length row < MAX_DATA_LEN \<Longrightarrow> slot_cmp row k s = Some (strncmp_eq (drop k row) s)"
  by (simp add: slot_cmp_def Let_def)

lemma pair_index_loop_eq:
  assumes "list_all (\<lambda>r. length r < MAX_DATA_LEN) rows" "length sep < MAX_SEP_LEN" "length mark < MAX_MARK_LEN"
  shows "pair_index_loop sep name mark rows i =
    Some (case first_at (\<lambda>r. strncmp_eq r (sep @ name @ mark)) rows of None \<Rightarrow> - NVP_PARA_ERR | Some j \<Rightarrow> i + int j)"
  using assms(1)
proof (induction rows arbitrary: i)
  case (Cons row rows)
  then show ?case using assms(2,3)
    by (auto simp: slot_cmp_short strncmp_eq_split add.commute split: option.splits bool.splits)
qed simp

lemma wf_used: "nvp_wf nt \<Longrightarrow> list_all (\<lambda>r. length r < MAX_DATA_LEN) (used nt)"
  by (auto simp: nvp_wf_def list_all_iff dest: in_set_takeD)

lemma wf_num: "nvp_wf nt \<Longrightarrow> num_nvp nt \<le> length (nvp nt)"
  by (simp add: nvp_wf_def)

lemma wf_length_used: "nvp_wf nt \<Longrightarrow> length (used nt) = num_nvp nt"
  using wf_num [of nt] by simp

lemma get_pair_index_eq:
  assumes "nvp_wf nt" "length name \<le> MAX_DATA_LEN"
  shows "nvp_get_pair_index nt name =
    Some (case pair_at nt name of None \<Rightarrow> - NVP_PARA_ERR | Some j \<Rightarrow> int j)"
proof -
  have "pair_index_loop (seperator nt) name (equal_mark nt) (used nt) 0 =
      Some (case pair_at nt name of None \<Rightarrow> - NVP_PARA_ERR | Some j \<Rightarrow> int j)"
    using assms wf_used [OF assms(1)] by (simp add: pair_index_loop_eq nvp_wf_def pair_at_def pair_key_def split: option.split)
  then show ?thesis using assms by (auto simp: nvp_get_pair_index_def nvp_wf_def split: option.splits)
qed

lemma pair_at_less: "nvp_wf nt \<Longrightarrow> pair_at nt name = Some j \<Longrightarrow> j < num_nvp nt \<and> strncmp_eq (nvp nt ! j) (pair_key nt name)"
  unfolding pair_at_def using wf_length_used [of nt] by (auto dest!: first_at_SomeD)

section \<open>Setting a pair\<close>

text \<open>The slots after a set: the slot of the name is replaced, or the next free one is filled.\<close>

definition put_row :: "NVP_T \<Rightarrow> string \<Rightarrow> string \<Rightarrow> NVP_T" where
  "put_row nt name value =
     (let row = pair_key nt name @ value in
      case pair_at nt name of
        Some j \<Rightarrow> nt\<lparr>nvp := (nvp nt)[j := row]\<rparr>
      | None \<Rightarrow> nt\<lparr>nvp := (nvp nt)[num_nvp nt := row], num_nvp := num_nvp nt + 1\<rparr>)"

definition room_for :: "NVP_T \<Rightarrow> string \<Rightarrow> string \<Rightarrow> bool" where
  "room_for nt name value \<longleftrightarrow>
     length (pair_key nt name @ value) < MAX_DATA_LEN \<and> (pair_at nt name = None \<longrightarrow> num_nvp nt < MAX_CMD_NUM)"

lemma set_pair_eq:
  assumes "nvp_wf nt" "length name + length value \<le> MAX_DATA_LEN"
  shows "nvp_set_pair_str (Some nt) (Some name) (Some value) =
    (if room_for nt name value then Some (0, Some (put_row nt name value)) else None)"
proof -
  have i: "nvp_get_pair_index nt name = Some (case pair_at nt name of None \<Rightarrow> - NVP_PARA_ERR | Some j \<Rightarrow> int j)"
    using assms by (intro get_pair_index_eq) auto
  have r: "sprintf_pair nt name value =
      (if length (pair_key nt name @ value) < MAX_DATA_LEN then Some (pair_key nt name @ value) else None)"
    using assms(1) by (auto simp: sprintf_pair_def nvp_wf_def cstr_def pair_key_def)
  show ?thesis
  proof (cases "pair_at nt name")
    case None
    then show ?thesis using assms i r
      by (auto simp: nvp_set_pair_str_def nvp_wf_def room_for_def put_row_def Let_def NVP_PARA_ERR_def NVP_SUCCESS_def)
  next
    case (Some j)
    then show ?thesis using assms i r
      by (auto simp: nvp_set_pair_str_def nvp_wf_def room_for_def put_row_def Let_def NVP_SUCCESS_def)
  qed
qed

lemma put_row_wf:
  assumes "nvp_wf nt" "room_for nt name value"
  shows "nvp_wf (put_row nt name value)"
proof -
  have l: "list_all (\<lambda>r. length r < MAX_DATA_LEN) ((nvp nt)[j := pair_key nt name @ value])" for j
    using assms set_update_subset_insert [of "nvp nt" j "pair_key nt name @ value"]
    by (auto simp: nvp_wf_def room_for_def list_all_iff)
  show ?thesis
  proof (cases "pair_at nt name")
    case None
    have "list_all (\<lambda>r. r = []) (drop (Suc (num_nvp nt)) (nvp nt))"
      using assms(1) by (auto simp: nvp_wf_def list_all_iff dest: in_set_dropD)
        (metis Suc_n_not_le_n nat_le_linear set_drop_subset_set_drop subsetD)
    then show ?thesis using None l assms by (auto simp: nvp_wf_def put_row_def room_for_def)
  next
    case (Some j)
    then have "j < num_nvp nt" using assms(1) pair_at_less by blast
    then show ?thesis using Some l assms(1) by (auto simp: nvp_wf_def put_row_def)
  qed
qed

section \<open>Reading a pair\<close>

text \<open>What is behind the first equal mark of a slot.\<close>

definition row_value :: "string \<Rightarrow> string \<Rightarrow> string option" where
  "row_value mark r =
     (case strstr r mark of None \<Rightarrow> None | Some k \<Rightarrow> let s = drop (k + length mark) r in if s = [] then None else Some s)"

lemma get_pair_eq:
  assumes "nvp_wf nt" "length name \<le> MAX_DATA_LEN"
  shows "nvp_get_pair_str (Some nt) (Some name) def_val =
    Some (case pair_at nt name of
            None \<Rightarrow> def_val
          | Some j \<Rightarrow> (case row_value (equal_mark nt) (nvp nt ! j) of None \<Rightarrow> def_val | Some s \<Rightarrow> Some s))"
proof (cases "pair_at nt name")
  case None
  then show ?thesis using assms get_pair_index_eq [OF assms]
    by (simp add: nvp_get_pair_str_def nvp_wf_def NVP_PARA_ERR_def)
next
  case (Some j)
  then have "j < num_nvp nt" using assms(1) pair_at_less by blast
  then have "length (nvp nt ! j) < MAX_DATA_LEN"
    using assms(1) by (auto simp: nvp_wf_def list_all_length)
  then show ?thesis using assms get_pair_index_eq [OF assms] Some
    by (auto simp: nvp_get_pair_str_def nvp_wf_def cstr_def row_value_def Let_def split: option.splits)
qed

text \<open>
  The equal mark begins with a character that neither the separator nor the names contain: then
  a slot tells its name, and the value starts where it was written.
\<close>

definition plain :: "string \<Rightarrow> string \<Rightarrow> string \<Rightarrow> bool" where
  "plain sep mark name \<longleftrightarrow> mark \<noteq> [] \<and> hd mark \<notin> set sep \<and> hd mark \<notin> set name"

lemma row_value_row:
  assumes "plain sep mark name"
  shows "row_value mark (sep @ name @ mark @ v) = (if v = [] then None else Some v)"
proof -
  have "strstr ((sep @ name) @ mark @ v) mark = Some (length (sep @ name))"
    using assms by (intro strstr_first) (auto simp: plain_def)
  then show ?thesis by (simp add: row_value_def Let_def)
qed

lemma key_unique:
  assumes "plain sep mark a" "plain sep mark b" "strncmp_eq r (sep @ a @ mark)" "strncmp_eq r (sep @ b @ mark)"
  shows "a = b"
proof -
  obtain t u where "r = sep @ a @ mark @ t" "r = sep @ b @ mark @ u"
    using assms(3,4) unfolding strncmp_eq_prefix append_assoc by blast
  then have eq: "a @ mark @ t = b @ mark @ u" by simp
  obtain c m where m: "mark = c # m" using assms(1) by (cases mark) (auto simp: plain_def)
  have tw: "takeWhile (\<lambda>x. x \<noteq> c) (x @ mark @ y) = x" if "plain sep mark x" for x y
    using that m by (auto simp: plain_def takeWhile_append takeWhile_eq_all_conv)
  show ?thesis using tw [OF assms(1), of t] tw [OF assms(2), of u] eq by simp
qed

lemma put_row_used:
  assumes "nvp_wf nt" "room_for nt name value"
  shows "used (put_row nt name value) =
    (case pair_at nt name of Some j \<Rightarrow> (used nt)[j := pair_key nt name @ value] | None \<Rightarrow> used nt @ [pair_key nt name @ value])"
proof (cases "pair_at nt name")
  case None
  then have "num_nvp nt < length (nvp nt)" using assms by (simp add: nvp_wf_def room_for_def)
  then show ?thesis using None by (simp add: put_row_def take_Suc_conv_app_nth)
qed (simp add: put_row_def take_update_swap)

lemma put_row_marks [simp]:
  "seperator (put_row nt name value) = seperator nt" "equal_mark (put_row nt name value) = equal_mark nt"
  "pair_key (put_row nt name value) = pair_key nt"
  by (auto simp: put_row_def Let_def pair_key_def fun_eq_iff split: option.splits)

lemma pair_at_put_same:
  assumes "nvp_wf nt" "room_for nt name value"
  shows "pair_at (put_row nt name value) name = Some (case pair_at nt name of Some j \<Rightarrow> j | None \<Rightarrow> num_nvp nt)"
  using wf_num [OF assms(1)] unfolding pair_at_def put_row_marks put_row_used [OF assms]
  by (auto simp: pair_at_def first_at_snoc first_at_update_same strncmp_eq_append split: option.splits)

lemma pair_at_put_other:
  assumes "nvp_wf nt" "room_for nt name value" "plain (seperator nt) (equal_mark nt) name"
    "plain (seperator nt) (equal_mark nt) other" "other \<noteq> name"
  shows "pair_at (put_row nt name value) other = pair_at nt other"
proof -
  let ?P = "\<lambda>r. strncmp_eq r (pair_key nt other)"
  have new: "\<not> ?P (pair_key nt name @ value)"
    using key_unique [OF assms(3,4)] assms(5) by (auto simp: pair_key_def strncmp_eq_prefix)
  show ?thesis
  proof (cases "pair_at nt name")
    case None
    then show ?thesis using new unfolding pair_at_def put_row_marks put_row_used [OF assms(1,2)]
      by (auto simp: first_at_snoc pair_at_def split: option.splits)
  next
    case (Some j)
    then have "j < length (used nt)" "\<not> ?P (used nt ! j)"
      using pair_at_less [OF assms(1) Some] key_unique [OF assms(3,4), of "nvp nt ! j"] assms(5)
      using wf_num [OF assms(1)] by (auto simp: pair_key_def)
    then show ?thesis using new Some unfolding pair_at_def put_row_marks put_row_used [OF assms(1,2)]
      by (simp add: first_at_update_other)
  qed
qed

lemma put_row_nth:
  assumes "nvp_wf nt" "room_for nt name value" "pair_at (put_row nt name value) name = Some j"
  shows "nvp (put_row nt name value) ! j = pair_key nt name @ value"
  using assms pair_at_put_same [OF assms(1,2)] pair_at_less [OF assms(1), of name]
  by (auto simp: put_row_def Let_def nvp_wf_def room_for_def split: option.splits)

lemma put_row_nth_other:
  assumes "nvp_wf nt" "room_for nt name value" "plain (seperator nt) (equal_mark nt) name"
    "plain (seperator nt) (equal_mark nt) other" "other \<noteq> name" "pair_at nt other = Some j"
  shows "nvp (put_row nt name value) ! j = nvp nt ! j"
proof -
  note j = pair_at_less [OF assms(1,6)]
  have "pair_at nt name = Some i \<Longrightarrow> i \<noteq> j" for i
    using j pair_at_less [OF assms(1), of name i] key_unique [OF assms(3,4), of "nvp nt ! j"] assms(5)
    by (auto simp: pair_key_def)
  then show ?thesis using j by (auto simp: put_row_def Let_def split: option.splits)
qed

section \<open>The pairs are a key-value store\<close>

definition nvp_inv :: "string \<Rightarrow> string \<Rightarrow> NVP_T \<Rightarrow> bool" where
  "nvp_inv sep mark nt \<longleftrightarrow> nvp_wf nt \<and> seperator nt = sep \<and> equal_mark nt = mark \<and>
     list_all (\<lambda>r. row_value mark r \<noteq> None) (used nt)"

definition nvp_ok :: "string \<Rightarrow> string \<Rightarrow> string \<Rightarrow> string \<Rightarrow> bool" where
  "nvp_ok sep mark name value \<longleftrightarrow> plain sep mark name \<and> value \<noteq> [] \<and>
     length sep + length name + length mark + length value < MAX_DATA_LEN"

definition nvp_put :: "NVP_T \<Rightarrow> string \<Rightarrow> string \<Rightarrow> NVP_T option" where
  "nvp_put nt name value =
     (case nvp_set_pair_str (Some nt) (Some name) (Some value) of
        Some (rc, nv) \<Rightarrow> if rc = NVP_SUCCESS then nv else None
      | None \<Rightarrow> None)"

definition nvp_get :: "NVP_T \<Rightarrow> string \<Rightarrow> string option" where
  "nvp_get nt name = (case nvp_get_pair_str (Some nt) (Some name) None of Some r \<Rightarrow> r | None \<Rightarrow> None)"

end
