(* ===== verification/Nv_Props.thy ===== *)
theory Nv_Props
  imports Nv_Pair
begin

text \<open>
  Properties of the name-value pairs: the outcome of every set, the pairs as a key-value store
  (interpretation of \<open>kv_bounded\<close>), integers, and the text form that one process writes and
  another one parses.
\<close>

section \<open>Interpretation\<close>

lemma nvp_get_eq:
  assumes "nvp_wf nt" "length name \<le> MAX_DATA_LEN"
  shows "nvp_get nt name = (case pair_at nt name of None \<Rightarrow> None | Some j \<Rightarrow> row_value (equal_mark nt) (nvp nt ! j))"
  using get_pair_eq [OF assms, of None] by (simp add: nvp_get_def split: option.split)

lemma nvp_ok_sizes: "nvp_ok sep mark name value \<Longrightarrow> length name + length value \<le> MAX_DATA_LEN \<and> length name \<le> MAX_DATA_LEN"
  by (simp add: nvp_ok_def)

lemma nvp_put_eq:
  assumes "nvp_inv sep mark nt" "nvp_ok sep mark name value"
  shows "nvp_put nt name value = (if room_for nt name value then Some (put_row nt name value) else None)"
  using assms set_pair_eq [of nt name "value"] nvp_ok_sizes [OF assms(2)]
  by (simp add: nvp_put_def nvp_inv_def NVP_SUCCESS_def)

lemma nvp_absent:
  assumes "nvp_inv sep mark nt" "length name \<le> MAX_DATA_LEN"
  shows "nvp_get nt name = None \<longleftrightarrow> pair_at nt name = None"
proof -
  have wf: "nvp_wf nt" "equal_mark nt = mark" using assms(1) by (auto simp: nvp_inv_def)
  have "row_value mark (nvp nt ! j) \<noteq> None" if "pair_at nt name = Some j" for j
    using pair_at_less [OF wf(1) that] assms(1) wf_length_used [OF wf(1)]
    by (auto simp: nvp_inv_def list_all_length)
  then show ?thesis using nvp_get_eq [OF wf(1) assms(2)] wf(2) by (auto split: option.splits)
qed

lemma nvp_room:
  assumes "nvp_inv sep mark nt" "nvp_ok sep mark name value"
  shows "room_for nt name value \<longleftrightarrow> nvp_get nt name \<noteq> None \<or> num_nvp nt < MAX_CMD_NUM"
  using assms nvp_absent [OF assms(1), of name] nvp_ok_sizes [OF assms(2)]
  by (auto simp: room_for_def nvp_inv_def nvp_ok_def pair_key_def)

lemma put_row_inv:
  assumes "nvp_inv sep mark nt" "nvp_ok sep mark name value" "room_for nt name value"
  shows "nvp_inv sep mark (put_row nt name value)"
proof -
  have wf: "nvp_wf nt" "seperator nt = sep" "equal_mark nt = mark" "list_all (\<lambda>r. row_value mark r \<noteq> None) (used nt)"
    using assms(1) by (auto simp: nvp_inv_def)
  have v: "row_value mark (pair_key nt name @ value) \<noteq> None"
    using row_value_row [of sep mark name "value"] assms(2) wf by (simp add: nvp_ok_def pair_key_def)
  have "list_all (\<lambda>r. row_value mark r \<noteq> None) (used (put_row nt name value))"
    unfolding put_row_used [OF wf(1) assms(3)]
    using v wf(4) set_update_subset_insert [of "used nt" _ "pair_key nt name @ value"]
    by (auto simp: list_all_iff split: option.splits)
  then show ?thesis using put_row_wf [OF wf(1) assms(3)] wf by (simp add: nvp_inv_def)
qed

interpretation nvkv: kv_bounded "nvp_inv sep mark" "nvp_ok sep mark" nvp_put nvp_get num_nvp MAX_CMD_NUM for sep mark
proof
  fix nt nt' k v k' v'
  assume i: "nvp_inv sep mark nt" and o: "nvp_ok sep mark k v"
  have wf: "nvp_wf nt" "seperator nt = sep" "equal_mark nt = mark" using i by (auto simp: nvp_inv_def)
  show "\<exists>nt'. nvp_put nt k v = Some nt'" if "nvp_get nt k \<noteq> None \<or> num_nvp nt < MAX_CMD_NUM"
    using that nvp_put_eq [OF i o] nvp_room [OF i o] by simp
  assume p: "nvp_put nt k v = Some nt'"
  then have r: "room_for nt k v" and e: "nt' = put_row nt k v"
    using nvp_put_eq [OF i o] by (auto split: if_splits)
  show "nvp_inv sep mark nt'" unfolding e by (rule put_row_inv [OF i o r])
  then have wf': "nvp_wf nt'" "equal_mark nt' = mark" by (auto simp: nvp_inv_def)
  have "nvp nt' ! (case pair_at nt k of Some j \<Rightarrow> j | None \<Rightarrow> num_nvp nt) = sep @ k @ mark @ v"
    using put_row_nth [OF wf(1) r pair_at_put_same [OF wf(1) r]] wf by (simp add: e pair_key_def)
  then show "nvp_get nt' k = Some v"
    using row_value_row [of sep mark k v] o nvp_get_eq [OF wf'(1), of k] nvp_ok_sizes [OF o] wf'(2)
      pair_at_put_same [OF wf(1) r] by (simp add: e nvp_ok_def)
  show "num_nvp nt' = num_nvp nt + (if nvp_get nt k = None then 1 else 0)"
    using nvp_absent [OF i, of k] nvp_ok_sizes [OF o] by (auto simp: e put_row_def split: option.splits)
  assume o': "nvp_ok sep mark k' v'" and d: "k' \<noteq> k"
  have "plain (seperator nt) (equal_mark nt) k" "plain (seperator nt) (equal_mark nt) k'"
    using o o' wf by (auto simp: nvp_ok_def)
  note other = pair_at_put_other [OF wf(1) r this d] put_row_nth_other [OF wf(1) r this d]
  show "nvp_get nt' k' = nvp_get nt k'"
    using nvp_get_eq [OF wf(1), of k'] nvp_get_eq [OF wf'(1), of k'] nvp_ok_sizes [OF o'] wf(3) wf'(2) other
    by (auto simp: e split: option.splits)
qed

section \<open>The text form\<close>

lemma get_string_loop_concat:
  assumes "list_all (\<lambda>r. length r < MAX_DATA_LEN) rows" "length buf + length (concat rows) \<le> MAX_CMD_NUM * MAX_DATA_LEN"
  shows "get_string_loop rows buf = Some (buf @ concat rows)"
  using assms by (induction rows arbitrary: buf) (auto simp: cstr_def)

lemma concat_short: "list_all (\<lambda>r. length r < m) rows \<Longrightarrow> length (concat rows) + length rows \<le> length rows * m"
  by (induction rows) auto

text \<open>A text of pairs, \<open>skip\<close> being what is left of the pair before.\<close>

lemma parse_loop_pairs:
  assumes "sep \<noteq> []" "hd sep \<notin> set skip"
    and "list_all (\<lambda>b. b \<noteq> [] \<and> hd sep \<notin> set b \<and> length sep + length b \<le> MAX_DATA_LEN) bs"
    and "length bs \<le> n" "length bs \<le> m" "length pre = num" "0 < num + length bs"
  shows "parse_loop n sep (skip @ concat (map ((@) sep) bs)) num (pre @ replicate m []) =
    Some (int (num + length bs), num + length bs, pre @ map ((@) sep) bs @ replicate (m - length bs) [])"
  using assms(2-)
proof (induction bs arbitrary: skip n m pre num)
  case Nil
  then show ?case using strstr_none [OF assms(1) Nil(1)] by (cases n) simp_all
next
  case (Cons b bs)
  let ?rest = "concat (map ((@) sep) bs)"
  obtain n' m' where nm: "n = Suc n'" "m = Suc m'" using Cons.prems by (metis Suc_le_D length_Cons)
  have k: "strstr (skip @ sep @ b @ ?rest) sep = Some (length skip)"
    using strstr_first [OF assms(1) Cons.prems(1), of "b @ ?rest"] .
  have piece: "(case strstr (b @ ?rest) sep of
                  Some j \<Rightarrow> if length sep + j > length sep then Some (take (length sep + j) (sep @ b @ ?rest)) else None
                | None \<Rightarrow> Some (sep @ b @ ?rest)) = Some (sep @ b)"
  proof (cases bs)
    case Nil
    then show ?thesis using strstr_none [OF assms(1), of b] Cons.prems(2) by simp
  next
    case (Cons b2 bs2)
    then show ?thesis using strstr_first [OF assms(1), of b "b2 @ concat (map ((@) sep) bs2)"] Cons.prems(2) by simp
  qed
  have slot: "(pre @ replicate m [])[num := (sep @ b) @ drop (length (sep @ b)) ((pre @ replicate m []) ! num)] =
      (pre @ [sep @ b]) @ replicate m' []"
    using Cons.prems(5) nm by (simp add: nth_append list_update_append)
  have "parse_loop n sep (skip @ concat (map ((@) sep) (b # bs))) num (pre @ replicate m []) =
      parse_loop n' sep (b @ ?rest) (num + 1) ((pre @ [sep @ b]) @ replicate m' [])"
    using k piece slot Cons.prems(2,5) nm by (simp add: Let_def)
  also have "\<dots> = Some (int (num + 1 + length bs), num + 1 + length bs,
      (pre @ [sep @ b]) @ map ((@) sep) bs @ replicate (m' - length bs) [])"
    using Cons.prems nm by (intro Cons.IH) auto
  finally show ?case using nm by simp
qed

lemma nvp_create_eq:
  "nvp_create True = Some \<lparr>nv_magic = NVP_MAGIC, nv_str_len = 0, num_nvp = 0, seperator = ''^^'', equal_mark = ''=='',
     nvp = replicate MAX_CMD_NUM [], msg_buf = []\<rparr>"
  by (simp add: nvp_create_def nvp_set_equal_mark_def nvp_set_seperator_def nvp_simps)

lemma nvp_create_inv: "nvp_create True = Some nt \<Longrightarrow> nvp_inv ''^^'' ''=='' nt \<and> num_nvp nt = 0"
  using nvp_create_wf [of nt] by (auto simp: nvp_inv_def nvp_create_eq)

section \<open>Properties\<close>

text \<open>
  C26. Outcome of every accepted \<open>nvp_set_pair_str\<close>: it returns 0 and leaves a well-formed
  structure, unless the four parts and the terminator do not fit the 100 bytes of a slot or the
  pair would be the fifty-first. The two checks of the code catch neither case: the first one
  leaves out the separator and the equal mark, the second one comes after the write.
\<close>

theorem nvp_set_outcome:
  assumes "nvp_wf nt" "length name + length v \<le> MAX_DATA_LEN"
  shows "case nvp_set_pair_str (Some nt) (Some name) (Some v) of
      None \<Rightarrow> MAX_DATA_LEN \<le> length (seperator nt) + length name + length (equal_mark nt) + length v \<or>
              num_nvp nt = MAX_CMD_NUM \<and>
              (\<forall>r \<in> set (take (num_nvp nt) (nvp nt)). \<not> strncmp_eq r (seperator nt @ name @ equal_mark nt))
    | Some (rc, nv) \<Rightarrow> rc = 0 \<and>
        length (seperator nt) + length name + length (equal_mark nt) + length v < MAX_DATA_LEN \<and>
        (\<exists>nt'. nv = Some nt' \<and> nvp_wf nt' \<and>
               seperator nt @ name @ equal_mark nt @ v \<in> set (take (num_nvp nt') (nvp nt')))"
proof (cases "room_for nt name v")
  case True
  note put = pair_at_put_same [OF assms(1) True] and wf = put_row_wf [OF assms(1) True]
  have "pair_key nt name @ v \<in> set (used (put_row nt name v))"
    using put_row_nth [OF assms(1) True put] pair_at_less [OF wf put] wf_length_used [OF wf]
    by (metis nth_mem nth_take)
  then show ?thesis using set_pair_eq [OF assms] True wf by (auto simp: room_for_def pair_key_def)
next
  case False
  then show ?thesis using set_pair_eq [OF assms] assms(1)
    by (auto simp: room_for_def pair_key_def pair_at_def first_at_None nvp_wf_def)
qed

theorem nvp_set_outcome_witness:
  "\<exists>nt. nvp_create True = Some nt \<and> nvp_wf nt \<and>
     nvp_set_pair_str (Some nt) (Some (replicate 40 (CHR ''a''))) (Some (replicate 56 (CHR ''b''))) = None"
proof -
  obtain nt where nt: "nvp_create True = Some nt" using nvp_create_eq by blast
  have l: "length (replicate 40 (CHR ''a'')) + length (replicate 56 (CHR ''b'')) \<le> MAX_DATA_LEN"
    by (simp add: MAX_DATA_LEN_def)
  show ?thesis using nvp_set_outcome [OF nvp_create_wf [OF nt] l] nt nvp_create_wf [OF nt]
    by (auto simp: nvp_create_eq nvp_simps split: option.splits)
qed

text \<open>
  C27. The pairs are a map: after any list of sets of non-empty values for at most fifty different
  names on a new structure, all of which succeed, a get returns the last value set for the name,
  and the default for a name never set. The names do not contain \<open>=\<close>, name and value together have
  at most 95 characters, and the name that is asked for less than 95. (A name whose value was set to
  the empty string reads as the default.)
\<close>

theorem nvp_pairs_are_a_map:
  assumes "nvp_create True = Some nt"
    and "\<forall>(k, v) \<in> set kvs. CHR ''='' \<notin> set k \<and> v \<noteq> [] \<and> length k + length v \<le> 95"
    and "card (fst ` set kvs) \<le> 50" "CHR ''='' \<notin> set k" "length k < 95"
  shows "\<exists>nt'. puts nvp_put nt kvs = Some nt' \<and>
    nvp_get_pair_str (Some nt') (Some k) d = Some (case map_of (rev kvs) k of None \<Rightarrow> d | Some v \<Rightarrow> Some v)"
proof -
  have i: "nvp_inv ''^^'' ''=='' nt" "num_nvp nt = 0" using nvp_create_inv [OF assms(1)] by auto
  have ok: "\<forall>(k, v) \<in> set kvs. nvp_ok ''^^'' ''=='' k v" "nvp_ok ''^^'' ''=='' k ''x''"
    using assms(2,4,5) by (auto simp: nvp_ok_def plain_def MAX_DATA_LEN_def)
  have sub: "{k \<in> fst ` set kvs. nvp_get nt k = None} \<subseteq> fst ` set kvs" by auto
  have "card {k \<in> fst ` set kvs. nvp_get nt k = None} \<le> 50"
    using card_mono [OF _ sub] assms(3) by simp
  then obtain nt' where nt': "puts nvp_put nt kvs = Some nt'"
    using nvkv.puts_succeed [OF i(1) ok(1)] i(2) by (auto simp: MAX_CMD_NUM_def)
  have l: "length k \<le> MAX_DATA_LEN" using assms(5) by (simp add: MAX_DATA_LEN_def)
  have i': "nvp_wf nt'" using nvkv.puts_inv [OF i(1) ok(1) nt'] by (simp add: nvp_inv_def)
  have "pair_at nt k = None" using i by (simp add: pair_at_def)
  then have "nvp_get nt k = None" using nvp_absent [OF i(1) l] by simp
  then have g: "nvp_get nt' k = map_of (rev kvs) k"
    using nvkv.get_puts [OF i(1) ok(1) nt' ok(2)] by (simp split: option.splits)
  have "nvp_get_pair_str (Some nt') (Some k) d = Some (case nvp_get nt' k of None \<Rightarrow> d | Some v \<Rightarrow> Some v)"
    unfolding get_pair_eq [OF i' l] nvp_get_eq [OF i' l] by (auto split: option.splits)
  then show ?thesis using g nt' by (intro exI [of _ nt']) simp
qed

theorem nvp_pairs_are_a_map_witness:
  "\<exists>nt nt'. nvp_create True = Some nt \<and>
     puts nvp_put nt [(''name'', ''alan''), (''age'', ''17''), (''age'', ''18'')] = Some nt' \<and>
     nvp_get_pair_str (Some nt') (Some ''age'') None = Some (Some ''18'')"
proof -
  obtain nt where nt: "nvp_create True = Some nt" using nvp_create_eq by blast
  let ?kvs = "[(''name'', ''alan''), (''age'', ''17''), (''age'', ''18'')]"
  have "card (fst ` set ?kvs) \<le> card (set ?kvs)" by (rule card_image_le) simp
  also have "\<dots> \<le> length ?kvs" by (rule card_length)
  finally have c: "card (fst ` set ?kvs) \<le> 50" by simp
  have h: "\<forall>(k, v) \<in> set ?kvs. CHR ''='' \<notin> set k \<and> v \<noteq> [] \<and> length k + length v \<le> 95"
    "CHR ''='' \<notin> set ''age''" "length ''age'' < 95" by simp_all
  have m: "map_of (rev ?kvs) ''age'' = Some ''18''" by simp
  from nvp_pairs_are_a_map [OF nt h(1) c h(2,3), of None] show ?thesis unfolding m using nt by auto
qed

text \<open>
  Integers: after \<open>nvp_set_pair_int\<close> succeeded, \<open>nvp_get_pair_int\<close> returns the number, whatever
  the default. It succeeds when separator, name and mark leave eleven digits of room in a slot
  and the structure holds fewer than fifty pairs.
\<close>

lemma nvp_int_round_trip:
  assumes "nvp_wf nt" "int_ok i" "equal_mark nt \<noteq> []"
    and "hd (equal_mark nt) \<notin> set (seperator nt)" "hd (equal_mark nt) \<notin> set name"
    and "length (seperator nt) + length name + length (equal_mark nt) + 11 < MAX_DATA_LEN" "num_nvp nt < MAX_CMD_NUM"
  shows "\<exists>nt'. nvp_set_pair_int (Some nt) (Some name) i = Some (0, Some nt') \<and>
    nvp_get_pair_int (Some nt') (Some name) d = Some i"
proof -
  let ?v = "printf_d i"
  have l: "length name + length ?v \<le> MAX_DATA_LEN" "length name \<le> MAX_DATA_LEN"
    using printf_d_length [OF assms(2)] assms(6) by linarith+
  have r: "room_for nt name ?v"
    using printf_d_length [OF assms(2)] assms(6,7) by (simp add: room_for_def pair_key_def)
  have p: "plain (seperator nt) (equal_mark nt) name" using assms(3-5) by (simp add: plain_def)
  let ?nt = "put_row nt name ?v"
  note same = pair_at_put_same [OF assms(1) r] and wf = put_row_wf [OF assms(1) r]
  have "row_value (equal_mark nt) (nvp ?nt ! (case pair_at nt name of Some j \<Rightarrow> j | None \<Rightarrow> num_nvp nt)) = Some ?v"
    using put_row_nth [OF assms(1) r same] row_value_row [OF p, of ?v] printf_d_nonempty [of i]
    by (simp add: pair_key_def)
  then have "nvp_get_pair_str (Some ?nt) (Some name) None = Some (Some ?v)"
    unfolding get_pair_eq [OF wf l(2)] same by simp
  then show ?thesis using set_pair_eq [OF assms(1) l(1)] r atoi_printf_d [OF assms(2)]
    by (simp add: nvp_set_pair_int_def nvp_get_pair_int_def)
qed

text \<open>
  C28. Text round trip between two processes: the text that \<open>nvp_get_string\<close> makes of a structure
  is parsed by \<open>nvp_parse_string\<close> of any structure with the same separator into the same pairs in
  the same order, and both calls stay inside their buffers. No pair is empty or contains the
  first character of the separator.
\<close>

theorem nvp_text_round_trip:
  assumes "nvp_wf nt" "nvp_wf nt2" "seperator nt2 = seperator nt" "seperator nt \<noteq> []" "0 < num_nvp nt"
    and pairs: "take (num_nvp nt) (nvp nt) = map ((@) (seperator nt)) bs"
    and "\<forall>b \<in> set bs. b \<noteq> [] \<and> hd (seperator nt) \<notin> set b"
  shows "\<exists>txt nt1 nt3. nvp_get_string (Some nt) = Some (Some txt, Some nt1) \<and>
    nvp_parse_string (Some nt2) (Some txt) = Some (int (num_nvp nt), Some nt3) \<and>
    take (num_nvp nt3) (nvp nt3) = take (num_nvp nt) (nvp nt) \<and> nvp_wf nt3"
proof -
  let ?sep = "seperator nt" and ?all = "concat (used nt)"
  have lens: "length (used nt) = num_nvp nt" "length bs = num_nvp nt" "num_nvp nt \<le> MAX_CMD_NUM"
    "length (nvp nt2) = MAX_CMD_NUM" "num_nvp nt2 \<le> MAX_CMD_NUM" "length ?sep < MAX_SEP_LEN"
    using assms(1,2) wf_length_used [OF assms(1)] arg_cong [OF pairs, of length] by (auto simp: nvp_wf_def)
  have short: "list_all (\<lambda>r. length r < MAX_DATA_LEN) (used nt)" by (rule wf_used [OF assms(1)])
  have all: "length ?all < MAX_CMD_NUM * MAX_DATA_LEN"
    using concat_short [OF short, unfolded lens(1)] assms(5) mult_le_mono1 [OF lens(3), of MAX_DATA_LEN] by linarith
  have gs: "nvp_get_string (Some nt) =
      Some (Some (drop (length ?sep) ?all), Some (nt\<lparr>msg_buf := ?all, nv_str_len := int (length ?all)\<rparr>))"
    using get_string_loop_concat [OF short, of "[]"] all lens assms(1)
    by (simp add: nvp_get_string_def nvp_wf_def cstr_def)
  obtain b bs' where bs: "bs = b # bs'" using assms(5) lens(2) by (cases bs) auto
  have all_eq: "?all = ?sep @ b @ concat (map ((@) ?sep) bs')" unfolding pairs bs by simp
  have "hd b \<noteq> hd ?sep" "b \<noteq> []" using assms(7) bs by (cases b; auto)+
  then have first: "\<not> strncmp_eq (drop (length ?sep) ?all) ?sep"
    using strncmp_eq_hd [OF _ assms(4), of "b @ concat (map ((@) ?sep) bs')"] by (auto simp: all_eq)
  have whole: "?sep @ drop (length ?sep) ?all = ?all" by (simp add: all_eq)
  have clr: "replicate (num_nvp nt2) [] @ drop (num_nvp nt2) (nvp nt2) = replicate MAX_CMD_NUM []"
  proof -
    have "drop (num_nvp nt2) (nvp nt2) = replicate (MAX_CMD_NUM - num_nvp nt2) []"
      using assms(2) lens by (intro replicate_eqI) (auto simp: nvp_wf_def list_all_iff)
    then show ?thesis using lens by (simp flip: replicate_add)
  qed
  have bsok: "list_all (\<lambda>b. b \<noteq> [] \<and> hd ?sep \<notin> set b \<and> length ?sep + length b \<le> MAX_DATA_LEN) bs"
    using assms(7) short unfolding pairs by (auto simp: list_all_iff)
  have "parse_loop MAX_CMD_NUM ?sep ?all 0 (replicate MAX_CMD_NUM []) =
      Some (int (num_nvp nt), num_nvp nt, used nt @ replicate (MAX_CMD_NUM - num_nvp nt) [])"
    using parse_loop_pairs [OF assms(4) _ bsok, of "[]" MAX_CMD_NUM MAX_CMD_NUM "[]" 0] lens assms(5) pairs by simp
  moreover have "\<not> MAX_CMD_NUM * MAX_DATA_LEN < length ?all - length ?sep" using all by linarith
  ultimately have ps: "nvp_parse_string (Some nt2) (Some (drop (length ?sep) ?all)) =
      Some (int (num_nvp nt), Some (nt2\<lparr>msg_buf := ?all, nv_str_len := int (length ?all), num_nvp := num_nvp nt,
        nvp := used nt @ replicate (MAX_CMD_NUM - num_nvp nt) []\<rparr>))"
    using assms(2,3) first whole clr all lens by (simp add: nvp_parse_string_def nvp_wf_def cstr_def Let_def)
  show ?thesis using gs ps lens short assms(1,2)
    by (intro exI conjI) (assumption+, auto simp: nvp_wf_def list_all_iff MAX_DATA_LEN_def)
qed

theorem nvp_text_round_trip_witness:
  "\<exists>nt0 txt nt1 nt3. nvp_create True = Some nt0 \<and>
     nvp_get_string (Some (nt0\<lparr>num_nvp := 2, nvp := [''^^a==1'', ''^^b==22''] @ replicate 48 []\<rparr>)) = Some (Some txt, Some nt1) \<and>
     nvp_parse_string (Some nt0) (Some txt) = Some (2, Some nt3) \<and>
     take (num_nvp nt3) (nvp nt3) = [''^^a==1'', ''^^b==22'']"
proof -
  obtain nt0 where nt0: "nvp_create True = Some nt0" using nvp_create_eq by blast
  let ?nt = "nt0\<lparr>num_nvp := 2, nvp := [''^^a==1'', ''^^b==22''] @ replicate 48 []\<rparr>"
  have s: "seperator nt0 = ''^^''" using nt0 by (auto simp: nvp_create_eq)
  have wf: "nvp_wf ?nt" using nvp_create_wf [OF nt0] by (simp add: nvp_wf_def nvp_simps list_all_iff)
  have h: "seperator nt0 = seperator ?nt" "seperator ?nt \<noteq> []" "0 < num_nvp ?nt"
    "take (num_nvp ?nt) (nvp ?nt) = map ((@) (seperator ?nt)) [''a==1'', ''b==22'']"
    "\<forall>b \<in> set [''a==1'', ''b==22'']. b \<noteq> [] \<and> hd (seperator ?nt) \<notin> set b" by (simp_all add: s)
  from nvp_text_round_trip [OF wf nvp_create_wf [OF nt0] h] obtain t nt1 nt3 where
    "nvp_get_string (Some ?nt) = Some (Some t, Some nt1)"
    "nvp_parse_string (Some nt0) (Some t) = Some (int (num_nvp ?nt), Some nt3)"
    "take (num_nvp nt3) (nvp nt3) = take (num_nvp ?nt) (nvp ?nt)" by blast
  then show ?thesis using nt0 by (intro exI [of _ nt0] exI [of _ t] exI [of _ nt1] exI [of _ nt3]) simp
qed

end
