(* ===== verification/Csv_Parser.thy ===== *)
theory Csv_Parser
  imports C_String Key_Value
begin

text \<open>
  Comma separated records, the first half of \<open>libsrc/csvparser/csvparser.c\<close>: the structure
  \<open>CSV_ST\<close> with up to fifty fields, setting and reading fields, and the conversion to and from a
  line of text. A row of \<open>csv_buf\<close> is the string it holds, followed by zeros up to its 100 bytes.
  \<open>None\<close> is undefined behaviour: a null pointer that is read, a row beyond the array, a text that
  does not fit, or a string function on a row without terminator.
\<close>

named_theorems csv_simps \<open>constants of the csv library\<close>

section \<open>Model\<close>

definition MAX_ATOM_NUM :: nat where [csv_simps]: "MAX_ATOM_NUM = 50"
definition MAX_ATOM_LEN :: nat where [csv_simps]: "MAX_ATOM_LEN = 100"
definition CSV_SUCCESS :: int where [csv_simps]: "CSV_SUCCESS = 0"
definition CSV_NO_MEM :: int where [csv_simps]: "CSV_NO_MEM = 1000"
definition CSV_PARA_ERR :: int where [csv_simps]: "CSV_PARA_ERR = 1001"
definition CSV_PARSER_ERR :: int where [csv_simps]: "CSV_PARSER_ERR = 1002"
definition CSV_OPEN_FILE_ERR :: int where [csv_simps]: "CSV_OPEN_FILE_ERR = 1003"
definition CSV_LOCK_FILE_ERR :: int where [csv_simps]: "CSV_LOCK_FILE_ERR = 1004"
definition CSV_NO_RECORD :: int where [csv_simps]: "CSV_NO_RECORD = 1005"
definition CSV_MAGIC :: u32 where "CSV_MAGIC = 0xeb90eb90"

abbreviation (input) SPACE :: char where "SPACE \<equiv> CHR '' ''"
abbreviation (input) COMMA :: char where "COMMA \<equiv> CHR '',''"
abbreviation (input) CR :: char where "CR \<equiv> CHR 0x0d"

record CSV_ST =
  atom_num :: nat
  cs_magic :: u32
  csv_buf :: "string list"
  csv_str :: string

definition CSV_STR_SIZE :: nat where [csv_simps]: "CSV_STR_SIZE = MAX_ATOM_LEN * MAX_ATOM_NUM + MAX_ATOM_NUM"

text \<open>The two loops of \<open>csv_rm_unused_space\<close>, each of at most \<open>len\<close> rounds.\<close>

fun rm_tail_loop :: "nat \<Rightarrow> string \<Rightarrow> string" where
  "rm_tail_loop 0 buf = buf"
| "rm_tail_loop (Suc n) buf =
     (case strrchr buf SPACE of
        None \<Rightarrow> buf
      | Some p \<Rightarrow> if p = length buf - 1 then rm_tail_loop n (take p buf) else buf)"

fun rm_head_loop :: "nat \<Rightarrow> string \<Rightarrow> string" where
  "rm_head_loop 0 buf = buf"
| "rm_head_loop (Suc n) buf =
     (case strchr buf SPACE of
        None \<Rightarrow> buf
      | Some p \<Rightarrow> if p = 0 then rm_head_loop n (drop 1 buf) else buf)"

definition csv_rm_unused_space :: "string option \<Rightarrow> (int \<times> string option) option" where
  "csv_rm_unused_space para =
     (case para of
        None \<Rightarrow> Some (- CSV_PARA_ERR, None)
      | Some s \<Rightarrow>
          if length s > MAX_ATOM_LEN then Some (- CSV_NO_MEM, Some s)
          else if length s = 0 then Some (CSV_SUCCESS, Some s)
          else if length s = MAX_ATOM_LEN then None
          else (let len = length s
                in Some (CSV_SUCCESS, Some (rm_head_loop len (rm_tail_loop len s)))))"

text \<open>The same on a row of \<open>csv_buf\<close>, whose return value the callers drop.\<close>

definition trim_row :: "string \<Rightarrow> string option" where
  "trim_row row =
     (if length row \<ge> MAX_ATOM_LEN then None
      else case csv_rm_unused_space (Some row) of Some (_, r) \<Rightarrow> r | None \<Rightarrow> None)"

definition csv_rm_enter :: "string option \<Rightarrow> (int \<times> string option) option" where
  "csv_rm_enter para =
     (case para of
        None \<Rightarrow> Some (- CSV_PARA_ERR, None)
      | Some s \<Rightarrow>
         (let len = int (length s) in
          case arr_get s (len - 1) of
            None \<Rightarrow> None
          | Some a \<Rightarrow>
              if a \<noteq> LF then Some (CSV_SUCCESS, Some s)
              else (case arr_get s (len - 2) of
                      None \<Rightarrow> None
                    | Some b \<Rightarrow>
                        if b = CR then Some (CSV_SUCCESS, Some (take (nat (len - 2)) s))
                        else Some (CSV_SUCCESS, Some s))))"

text \<open>The negation of the least \<open>int\<close> overflows.\<close>

definition INT_MIN :: int where
  "INT_MIN = - (2 ^ 31)"

definition csv_get_line_num :: "int \<Rightarrow> int \<Rightarrow> int option" where
  "csv_get_line_num tot no =
     (if no > 0 then Some (if no > tot then tot else no)
      else if no = INT_MIN then None
      else if no < 0 then Some (if - no > tot then 1 else tot + no + 1)
      else Some 0)"

definition csv_create :: "bool \<Rightarrow> CSV_ST option" where
  "csv_create malloc_ok =
     (if \<not> malloc_ok then None
      else Some \<lparr>atom_num = 0, cs_magic = CSV_MAGIC, csv_buf = replicate MAX_ATOM_NUM [], csv_str = []\<rparr>)"

definition csv_set_str :: "CSV_ST option \<Rightarrow> int \<Rightarrow> string option \<Rightarrow> (int \<times> CSV_ST option) option" where
  "csv_set_str csv no value =
     (case csv of
        None \<Rightarrow> Some (- CSV_PARA_ERR, csv)
      | Some cs \<Rightarrow>
          if cs_magic cs \<noteq> CSV_MAGIC then Some (- CSV_PARA_ERR, csv)
          else (case value of
                  None \<Rightarrow> Some (- CSV_PARA_ERR, csv)
                | Some v \<Rightarrow>
                    if no \<le> 0 \<or> no > int MAX_ATOM_NUM \<or> length v > MAX_ATOM_LEN then Some (- CSV_PARA_ERR, csv)
                    else (let index = nat (no - 1) in
                      case trim_row v of
                        None \<Rightarrow> None
                      | Some row \<Rightarrow>
                          Some (CSV_SUCCESS,
                            Some (cs\<lparr>atom_num := (if csv_buf cs ! index = [] then atom_num cs + 1 else atom_num cs),
                                     csv_buf := (csv_buf cs)[index := row]\<rparr>)))))"

definition csv_set_int :: "CSV_ST option \<Rightarrow> int \<Rightarrow> int \<Rightarrow> (int \<times> CSV_ST option) option" where
  "csv_set_int csv no value = csv_set_str csv no (Some (printf_d value))"

definition csv_get_str :: "CSV_ST option \<Rightarrow> int \<Rightarrow> string option \<Rightarrow> string option" where
  "csv_get_str csv no def_val =
     (case csv of
        None \<Rightarrow> def_val
      | Some cs \<Rightarrow>
          if cs_magic cs \<noteq> CSV_MAGIC then def_val
          else if no > int MAX_ATOM_NUM \<or> no \<le> 0 then def_val
          else if csv_buf cs ! nat (no - 1) = [] then def_val
          else Some (csv_buf cs ! nat (no - 1)))"

text \<open>
  \<open>csv_get_int\<close> passes the printed default and recognises it by its address: here by \<open>None\<close>.
\<close>

definition csv_get_int :: "CSV_ST option \<Rightarrow> int \<Rightarrow> int \<Rightarrow> int option" where
  "csv_get_int csv no def_val =
     (case csv_get_str csv no None of
        None \<Rightarrow> Some def_val
      | Some s \<Rightarrow> if length s \<ge> MAX_ATOM_LEN then None else atoi s)"

definition csv_get_var_num :: "CSV_ST option \<Rightarrow> int" where
  "csv_get_var_num csv =
     (case csv of
        None \<Rightarrow> - CSV_PARA_ERR
      | Some cs \<Rightarrow> if cs_magic cs \<noteq> CSV_MAGIC then - CSV_PARA_ERR else int (atom_num cs))"

fun join_loop :: "string list \<Rightarrow> string \<Rightarrow> string option" where
  "join_loop [] str = Some str"
| "join_loop (row # rows) str =
     (if length row \<ge> MAX_ATOM_LEN then None
      else if length str + length row + 1 \<ge> CSV_STR_SIZE then None
      else join_loop rows (str @ row @ [COMMA]))"

definition csv_get_string :: "CSV_ST option \<Rightarrow> (string option \<times> CSV_ST option) option" where
  "csv_get_string csv =
     (case csv of
        None \<Rightarrow> Some (None, csv)
      | Some cs \<Rightarrow>
          if cs_magic cs \<noteq> CSV_MAGIC then Some (None, csv)
          else if atom_num cs > length (csv_buf cs) then None
          else (case join_loop (take (atom_num cs) (csv_buf cs)) [] of
                  None \<Rightarrow> None
                | Some str \<Rightarrow>
                   (case arr_get str (int (length str) - 1) of
                      None \<Rightarrow> None
                    | Some c \<Rightarrow>
                        if c \<noteq> LF \<and> c \<noteq> CR
                        then (if length str + 1 \<ge> CSV_STR_SIZE then None
                              else let line = butlast str @ [CR, LF] in Some (Some line, Some (cs\<lparr>csv_str := line\<rparr>)))
                        else Some (Some str, Some (cs\<lparr>csv_str := str\<rparr>)))))"

text \<open>
  The loop of \<open>csv_parse_string\<close>: \<open>n\<close> rounds remain, \<open>index\<close> is the text not looked at yet. The
  rows were zeroed before, so a copy gives the row.
\<close>

fun csv_parse_loop :: "nat \<Rightarrow> string \<Rightarrow> nat \<Rightarrow> string list \<Rightarrow> (int \<times> nat \<times> string list) option" where
  "csv_parse_loop 0 index num rows = Some (CSV_SUCCESS, num, rows)"
| "csv_parse_loop (Suc n) index num rows =
     (case strchr index COMMA of
        None \<Rightarrow> Some (if num = 0 then - CSV_PARSER_ERR else CSV_SUCCESS, num, rows)
      | Some p \<Rightarrow>
         (let index' = drop (p + 1) index;
              offset = (case strchr index' COMMA of Some s \<Rightarrow> s | None \<Rightarrow> length index') in
          if offset \<ge> 1
          then (if num \<ge> length rows \<or> offset > MAX_ATOM_LEN then None
                else csv_parse_loop n index' (num + 1) (rows[num := take offset index']))
          else csv_parse_loop n index' (num + 1) rows))"

fun trim_rows :: "string list \<Rightarrow> string list option" where
  "trim_rows [] = Some []"
| "trim_rows (r # rs) =
     (case trim_row r of None \<Rightarrow> None | Some r' \<Rightarrow> map_option ((#) r') (trim_rows rs))"

definition csv_parse_string :: "CSV_ST option \<Rightarrow> string option \<Rightarrow> (int \<times> CSV_ST option) option" where
  "csv_parse_string csv str =
     (case csv of
        None \<Rightarrow> Some (- CSV_PARA_ERR, csv)
      | Some cs \<Rightarrow>
          if cs_magic cs \<noteq> CSV_MAGIC then Some (- CSV_PARA_ERR, csv)
          else (case str of
                  None \<Rightarrow> None
                | Some s \<Rightarrow>
                    if length s > MAX_ATOM_LEN * MAX_ATOM_NUM + 1 then Some (- CSV_NO_MEM, csv)
                    else (let buf = (if s = [] \<or> hd s \<noteq> COMMA then COMMA # s else s) in
                      case csv_parse_loop MAX_ATOM_NUM buf 0 (replicate MAX_ATOM_NUM []) of
                        None \<Rightarrow> None
                      | Some (ret, num, rows) \<Rightarrow>
                          if ret \<noteq> CSV_SUCCESS
                          then Some (ret, Some (cs\<lparr>csv_str := buf, atom_num := num, csv_buf := rows\<rparr>))
                          else (case trim_rows (take num rows) of
                                  None \<Rightarrow> None
                                | Some rows' \<Rightarrow>
                                    Some (CSV_SUCCESS, Some (cs\<lparr>csv_str := buf, atom_num := num,
                                                               csv_buf := rows' @ drop num rows\<rparr>))))))"

text \<open>\<open>True\<close>: the structure was released.\<close>

definition csv_destroy :: "CSV_ST option \<Rightarrow> bool" where
  "csv_destroy csv = (case csv of None \<Rightarrow> False | Some cs \<Rightarrow> cs_magic cs = CSV_MAGIC)"

definition csv_get_error_str :: "int \<Rightarrow> string" where
  "csv_get_error_str err =
     (if err = CSV_NO_MEM then ''not enough memory''
      else if err = CSV_PARA_ERR then ''parameters error''
      else if err = CSV_PARSER_ERR then ''can not parser string''
      else if err = CSV_OPEN_FILE_ERR then ''can not open file''
      else if err = CSV_LOCK_FILE_ERR then ''can not lock file''
      else if err = CSV_NO_RECORD then ''can not find records in file''
      else ''unknow errno'')"

section \<open>Trimming\<close>

definition trim :: "string \<Rightarrow> string" where
  "trim s = dropWhile (\<lambda>c. c = SPACE) (rev (dropWhile (\<lambda>c. c = SPACE) (rev s)))"

lemma rm_tail_loop_eq:
  "length buf \<le> n \<Longrightarrow> rm_tail_loop n buf = rev (dropWhile (\<lambda>c. c = SPACE) (rev buf))"
proof (induction n arbitrary: buf)
  case (Suc n)
  show ?case
  proof (cases buf rule: rev_cases)
    case (snoc b c)
    have "strrchr b SPACE = Some p \<Longrightarrow> p \<noteq> length b" for p using strrchr_less [of b SPACE p] by simp
    then show ?thesis using Suc snoc by (auto simp: strrchr_snoc split: option.splits)
  qed simp
qed simp

lemma rm_head_loop_eq: "length buf \<le> n \<Longrightarrow> rm_head_loop n buf = dropWhile (\<lambda>c. c = SPACE) buf"
proof (induction n arbitrary: buf)
  case (Suc n)
  then show ?case by (cases buf) (auto split: option.splits)
qed simp

lemma trim_row_eq: "trim_row s = (if length s < MAX_ATOM_LEN then Some (trim s) else None)"
proof -
  have "length (rev (dropWhile (\<lambda>c. c = SPACE) (rev s))) \<le> length s"
    using length_dropWhile_le [of "\<lambda>c. c = SPACE" "rev s"] by simp
  then show ?thesis
    by (auto simp: trim_row_def csv_rm_unused_space_def Let_def rm_tail_loop_eq rm_head_loop_eq trim_def CSV_SUCCESS_def)
qed

lemma trim_length: "length (trim s) \<le> length s"
  using length_dropWhile_le [of "\<lambda>c. c = SPACE" "rev s"]
    length_dropWhile_le [of "\<lambda>c. c = SPACE" "rev (dropWhile (\<lambda>c. c = SPACE) (rev s))"] by (simp add: trim_def)

definition trimmed :: "string \<Rightarrow> bool" where
  "trimmed s \<longleftrightarrow> s = [] \<or> hd s \<noteq> SPACE \<and> last s \<noteq> SPACE"

lemma trim_trimmed: "trimmed s \<Longrightarrow> trim s = s"
proof -
  assume a: "trimmed s"
  have k: "t = [] \<or> hd t \<noteq> SPACE \<Longrightarrow> dropWhile (\<lambda>c. c = SPACE) t = t" for t by (cases t) auto
  show ?thesis using k [of s] k [of "rev s"] a by (auto simp: trim_def trimmed_def hd_rev)
qed

lemma trimmed_trim: "trimmed (trim s)"
proof (cases "trim s = []")
  case False
  let ?r = "rev (dropWhile (\<lambda>c. c = SPACE) (rev s))"
  have r: "?r \<noteq> []"
  proof
    assume "?r = []"
    then have "trim s = []" unfolding trim_def by (simp only: dropWhile.simps)
    then show False using False by contradiction
  qed
  have e: "takeWhile (\<lambda>c. c = SPACE) ?r @ trim s = ?r" unfolding trim_def by (rule takeWhile_dropWhile_id)
  have "last (trim s) = last (takeWhile (\<lambda>c. c = SPACE) ?r @ trim s)" using False by simp
  also have "\<dots> = last ?r" unfolding e ..
  also have "\<dots> = hd (dropWhile (\<lambda>c. c = SPACE) (rev s))" using r by (simp add: last_rev)
  also have "\<dots> \<noteq> SPACE"
    using hd_dropWhile [of "\<lambda>c. c = SPACE" "rev s"] r by (simp only: rev_is_Nil_conv not_False_eq_True)
  finally have "last (trim s) \<noteq> SPACE" .
  moreover have "hd (trim s) \<noteq> SPACE"
    using hd_dropWhile [of "\<lambda>c. c = SPACE" ?r] False unfolding trim_def by (simp only: not_False_eq_True)
  ultimately show ?thesis by (simp add: trimmed_def)
qed (simp add: trimmed_def)

section \<open>Fields\<close>

definition csv_inv :: "CSV_ST \<Rightarrow> bool" where
  "csv_inv cs \<longleftrightarrow> cs_magic cs = CSV_MAGIC \<and> length (csv_buf cs) = MAX_ATOM_NUM \<and>
     list_all (\<lambda>r. length r < MAX_ATOM_LEN \<and> trimmed r) (csv_buf cs) \<and>
     atom_num cs = length (filter (\<lambda>r. r \<noteq> []) (csv_buf cs))"

definition csv_ok :: "int \<Rightarrow> string \<Rightarrow> bool" where
  "csv_ok no v \<longleftrightarrow> 1 \<le> no \<and> no \<le> int MAX_ATOM_NUM \<and> v \<noteq> [] \<and> trimmed v \<and> length v < MAX_ATOM_LEN"

definition csv_put :: "CSV_ST \<Rightarrow> int \<Rightarrow> string \<Rightarrow> CSV_ST option" where
  "csv_put cs no v =
     (case csv_set_str (Some cs) no (Some v) of
        Some (rc, csv) \<Rightarrow> if rc = CSV_SUCCESS then csv else None
      | None \<Rightarrow> None)"

definition csv_get :: "CSV_ST \<Rightarrow> int \<Rightarrow> string option" where
  "csv_get cs no = csv_get_str (Some cs) no None"

lemma csv_create_inv: "csv_create True = Some cs \<Longrightarrow> csv_inv cs \<and> atom_num cs = 0"
  by (auto simp: csv_create_def csv_inv_def list_all_iff trimmed_def MAX_ATOM_LEN_def)

lemma csv_put_eq:
  assumes "csv_inv cs" "csv_ok no v"
  shows "csv_put cs no v =
    Some (cs\<lparr>atom_num := (if csv_buf cs ! nat (no - 1) = [] then atom_num cs + 1 else atom_num cs),
             csv_buf := (csv_buf cs)[nat (no - 1) := v]\<rparr>)"
  using assms
  by (auto simp: csv_put_def csv_set_str_def csv_inv_def csv_ok_def trim_row_eq trim_trimmed Let_def CSV_SUCCESS_def)

lemma csv_get_eq:
  assumes "csv_inv cs" "csv_ok no v"
  shows "csv_get cs no = (let r = csv_buf cs ! nat (no - 1) in if r = [] then None else Some r)"
  using assms by (simp add: csv_get_def csv_get_str_def csv_inv_def csv_ok_def Let_def)

lemma length_filter_update:
  "i < length xs \<Longrightarrow> P y \<Longrightarrow> length (filter P (xs[i := y])) = length (filter P xs) + (if P (xs ! i) then 0 else 1)"
  by (induction xs arbitrary: i) (auto simp: nth_Cons split: nat.splits)

interpretation csvkv: kv_bounded csv_inv csv_ok csv_put csv_get atom_num MAX_ATOM_NUM
proof
  fix cs cs' no v no' v'
  assume i: "csv_inv cs" and o: "csv_ok no v"
  show "\<exists>cs'. csv_put cs no v = Some cs'" using csv_put_eq [OF i o] by simp
  let ?n = "nat (no - 1)"
  assume "csv_put cs no v = Some cs'"
  then have e: "cs' = cs\<lparr>atom_num := (if csv_buf cs ! ?n = [] then atom_num cs + 1 else atom_num cs),
      csv_buf := (csv_buf cs)[?n := v]\<rparr>" using csv_put_eq [OF i o] by simp
  have n: "?n < length (csv_buf cs)" "v \<noteq> []" using i o by (auto simp: csv_inv_def csv_ok_def)
  have "list_all (\<lambda>r. length r < MAX_ATOM_LEN \<and> trimmed r) ((csv_buf cs)[?n := v])"
    using i o set_update_subset_insert [of "csv_buf cs" ?n v] by (auto simp: csv_inv_def csv_ok_def list_all_iff)
  then show i': "csv_inv cs'"
    using i length_filter_update [of ?n "csv_buf cs" "\<lambda>r. r \<noteq> []" v] n by (auto simp: csv_inv_def e)
  show "csv_get cs' no = Some v" using csv_get_eq [OF i' o] n by (simp add: e)
  show "atom_num cs' = atom_num cs + (if csv_get cs no = None then 1 else 0)"
    using csv_get_eq [OF i o] by (simp add: e Let_def)
  assume o': "csv_ok no' v'" and "no' \<noteq> no"
  then have "nat (no' - 1) \<noteq> ?n" using o by (auto simp: csv_ok_def)
  then show "csv_get cs' no' = csv_get cs no'"
    using csv_get_eq [OF i' o'] csv_get_eq [OF i o'] by (simp add: e)
qed

section \<open>Lines\<close>

lemma join_loop_concat:
  assumes "list_all (\<lambda>r. length r < MAX_ATOM_LEN) rows" "length str + length rows * MAX_ATOM_LEN < CSV_STR_SIZE"
  shows "join_loop rows str = Some (str @ concat (map (\<lambda>f. f @ [COMMA]) rows))"
  using assms
proof (induction rows arbitrary: str)
  case (Cons r rows)
  then have "length str + length r + 1 \<le> length str + MAX_ATOM_LEN" by simp
  then show ?case using Cons by (simp add: Cons.IH)
qed simp

lemma comma_shift: "concat (map ((#) COMMA) fs) @ [COMMA] = COMMA # concat (map (\<lambda>f. f @ [COMMA]) fs)"
  by (induction fs) auto

lemma csv_parse_loop_fields:
  assumes "COMMA \<notin> set skip" "list_all (\<lambda>f. COMMA \<notin> set f \<and> length f \<le> MAX_ATOM_LEN) fs"
    and "length fs \<le> n" "length fs \<le> m" "length pre = num" "0 < num + length fs"
  shows "csv_parse_loop n (skip @ concat (map ((#) COMMA) fs)) num (pre @ replicate m []) =
    Some (CSV_SUCCESS, num + length fs, pre @ fs @ replicate (m - length fs) [])"
  using assms
proof (induction fs arbitrary: skip n m pre num)
  case Nil
  then show ?case by (cases n) (simp_all add: strchr_none [THEN iffD2])
next
  case (Cons f fs)
  let ?rest = "concat (map ((#) COMMA) fs)"
  obtain n' m' where nm: "n = Suc n'" "m = Suc m'" using Cons.prems by (metis Suc_le_D length_Cons)
  have off: "(case strchr (f @ ?rest) COMMA of Some s \<Rightarrow> s | None \<Rightarrow> length (f @ ?rest)) = length f"
  proof (cases fs)
    case Nil
    then show ?thesis using strchr_none [of f COMMA] Cons.prems(2) by simp
  next
    case (Cons f2 fs2)
    then show ?thesis using strchr_first [of COMMA f] Cons.prems(2) by simp
  qed
  have slot: "(pre @ replicate m [])[num := f] = (pre @ [f]) @ replicate m' []"
    "f = [] \<Longrightarrow> pre @ replicate m [] = (pre @ [f]) @ replicate m' []"
    using Cons.prems(5) nm by (simp_all add: list_update_append)
  have "csv_parse_loop n (skip @ concat (map ((#) COMMA) (f # fs))) num (pre @ replicate m []) =
      csv_parse_loop n' (f @ ?rest) (num + 1) ((pre @ [f]) @ replicate m' [])"
    using strchr_first [OF Cons.prems(1), of "f @ ?rest"] off slot Cons.prems(2,5) nm
    by (auto simp: Let_def Suc_le_eq)
  also have "\<dots> = Some (CSV_SUCCESS, num + 1 + length fs, (pre @ [f]) @ fs @ replicate (m' - length fs) [])"
    using Cons.prems nm by (intro Cons.IH) auto
  finally show ?case using nm by simp
qed

lemma trim_rows_id: "list_all (\<lambda>r. length r < MAX_ATOM_LEN \<and> trimmed r) rs \<Longrightarrow> trim_rows rs = Some rs"
  by (induction rs) (auto simp: trim_row_eq trim_trimmed)

end
