(* ===== verification/Csv_File.thy ===== *)
theory Csv_File
  imports Csv_Parser
begin

text \<open>
  Record files, the second half of \<open>libsrc/csvparser/csvparser.c\<close>: counting, reading, replacing,
  inserting and removing one line of a file of records. The file system is a map from names to
  contents; \<open>csv_env\<close> tells which system calls fail (locking, opening, the temporary file). A
  change writes a temporary file and copies it back, so its effect is one update of the map. The
  lock is held by the caller throughout. \<open>None\<close> is undefined behaviour, as in \<open>Csv_Parser\<close>.
\<close>

section \<open>Reading lines\<close>

lemma fgets_shorter: "fgets 1024 s = Some (l, r) \<Longrightarrow> length r < length s"
  by (auto simp: fgets_def Let_def split: if_splits option.splits)

text \<open>The lines that \<open>while (fgets(buf, sizeof(buf), fp) != NULL)\<close> visits with a buffer of 1024 bytes.\<close>

function fgets_all :: "string \<Rightarrow> string list" where
  "fgets_all s = (case fgets 1024 s of None \<Rightarrow> [] | Some (l, r) \<Rightarrow> l # fgets_all r)"
  by pat_completeness auto
termination
  by (relation "measure length") (auto dest: fgets_shorter [OF sym] fgets_shorter)

declare fgets_all.simps [simp del]

section \<open>Model\<close>

record csv_env =
  e_lock :: bool
  e_open :: bool
  e_mkstemp :: bool
  e_fdopen :: bool
  e_reopen :: bool

definition INSERT_HEAD :: int where [csv_simps]: "INSERT_HEAD = 0"
definition INSERT_TAIL :: int where [csv_simps]: "INSERT_TAIL = 1"
definition CHANGE_MID :: int where [csv_simps]: "CHANGE_MID = 2"
definition INSERT_MID :: int where [csv_simps]: "INSERT_MID = 3"

text \<open>The file must exist: the lock is taken on a descriptor opened for reading.\<close>

definition csvfile_lock :: "csv_env \<Rightarrow> files \<Rightarrow> string \<Rightarrow> int" where
  "csvfile_lock e fs name = (if fs name = None then -1 else if \<not> e_lock e then -1 else 0)"

definition csvfile_open :: "csv_env \<Rightarrow> files \<Rightarrow> string option \<Rightarrow> string option" where
  "csvfile_open e fs name =
     (case name of None \<Rightarrow> None | Some n \<Rightarrow> if \<not> e_open e then None else fs n)"

definition csvfile_get_total_records :: "csv_env \<Rightarrow> files \<Rightarrow> string option \<Rightarrow> int" where
  "csvfile_get_total_records e fs filename =
     (case filename of
        None \<Rightarrow> - CSV_PARA_ERR
      | Some name \<Rightarrow>
          if csvfile_lock e fs name < 0 then - CSV_LOCK_FILE_ERR
          else (case csvfile_open e fs filename of
                  None \<Rightarrow> - CSV_OPEN_FILE_ERR
                | Some s \<Rightarrow> int (length (fgets_all s))))"

text \<open>\<open>n\<close> times \<open>memset\<close> and \<open>fgets\<close>: the buffer afterwards. At the end of the file it stays zeroed.\<close>

fun fgets_times :: "nat \<Rightarrow> string \<Rightarrow> string \<Rightarrow> string" where
  "fgets_times 0 buf s = buf"
| "fgets_times (Suc n) buf s =
     (case fgets 1024 s of None \<Rightarrow> fgets_times n [] s | Some (l, r) \<Rightarrow> fgets_times n l r)"

definition csvfile_get_record ::
    "csv_env \<Rightarrow> files \<Rightarrow> string option \<Rightarrow> int \<Rightarrow> CSV_ST option \<Rightarrow> (int \<times> CSV_ST option) option" where
  "csvfile_get_record e fs filename record_no csv =
     (case csv of
        None \<Rightarrow> Some (- CSV_PARA_ERR, csv)
      | Some cs \<Rightarrow>
          if cs_magic cs \<noteq> CSV_MAGIC then Some (- CSV_PARA_ERR, csv)
          else if record_no = 0 \<or> filename = None then Some (- CSV_PARA_ERR, csv)
          else (let ret = csvfile_get_total_records e fs filename in
            if ret \<le> 0 then Some (ret, csv)
            else (case csv_get_line_num ret record_no of None \<Rightarrow> None | Some index \<Rightarrow>
              if csvfile_lock e fs (the filename) < 0 then Some (- CSV_LOCK_FILE_ERR, csv)
              else (case csvfile_open e fs filename of
                      None \<Rightarrow> Some (- CSV_OPEN_FILE_ERR, csv)
                    | Some s \<Rightarrow>
                       (case csv_rm_enter (Some (as_cstr (fgets_times (nat index) [] s))) of
                          None \<Rightarrow> None
                        | Some (_, line) \<Rightarrow> csv_parse_string csv line)))))"

text \<open>The loops of \<open>csvfile_set_sub\<close> and \<open>csvfile_rm_record_sub\<close> over the lines of the file.\<close>

fun insert_mid_loop :: "int \<Rightarrow> int \<Rightarrow> string \<Rightarrow> string list \<Rightarrow> string" where
  "insert_mid_loop i no p [] = []"
| "insert_mid_loop i no p (l # ls) =
     (if i + 1 = no then p @ as_cstr l else as_cstr l) @ insert_mid_loop (i + 1) no p ls"

fun change_mid_loop :: "int \<Rightarrow> int \<Rightarrow> string \<Rightarrow> string list \<Rightarrow> string" where
  "change_mid_loop i no p [] = []"
| "change_mid_loop i no p (l # ls) =
     (if i + 1 = no then p else as_cstr l) @ change_mid_loop (i + 1) no p ls"

fun rm_line_loop :: "int \<Rightarrow> int \<Rightarrow> string list \<Rightarrow> string" where
  "rm_line_loop i no [] = []"
| "rm_line_loop i no (l # ls) = (if i + 1 = no then [] else as_cstr l) @ rm_line_loop (i + 1) no ls"

definition csvfile_set_sub ::
    "csv_env \<Rightarrow> files \<Rightarrow> int \<Rightarrow> string option \<Rightarrow> int \<Rightarrow> CSV_ST option \<Rightarrow> (int \<times> files \<times> CSV_ST option) option" where
  "csvfile_set_sub e fs cmd filename record_no csv =
     (case filename of
        None \<Rightarrow> Some (- CSV_PARA_ERR, fs, csv)
      | Some name \<Rightarrow>
         (case csv_get_string csv of
            None \<Rightarrow> None
          | Some (None, csv1) \<Rightarrow> Some (- CSV_PARA_ERR, fs, csv1)
          | Some (Some p_str, csv1) \<Rightarrow>
              if csvfile_lock e fs name < 0 then Some (- CSV_LOCK_FILE_ERR, fs, csv1)
              else (case csvfile_open e fs filename of
                      None \<Rightarrow> Some (- CSV_OPEN_FILE_ERR, fs, csv1)
                    | Some s \<Rightarrow>
                        if cmd = INSERT_TAIL then Some (CSV_SUCCESS, fs(name \<mapsto> s @ p_str), csv1)
                        else if \<not> e_mkstemp e then Some (- CSV_LOCK_FILE_ERR, fs, csv1)
                        else if \<not> e_fdopen e then Some (- CSV_OPEN_FILE_ERR, fs, csv1)
                        else (case (if cmd = INSERT_HEAD then Some (p_str @ s)
                                    else if cmd = INSERT_MID then Some (insert_mid_loop 0 record_no p_str (fgets_all s))
                                    else if cmd = CHANGE_MID then Some (change_mid_loop 0 record_no p_str (fgets_all s))
                                    else None) of
                                None \<Rightarrow> Some (- CSV_PARA_ERR, fs, csv1)
                              | Some temp \<Rightarrow>
                                  if \<not> e_reopen e then None
                                  else Some (CSV_SUCCESS, fs(name \<mapsto> temp), csv1)))))"

definition csvfile_set_record ::
    "csv_env \<Rightarrow> files \<Rightarrow> string option \<Rightarrow> int \<Rightarrow> CSV_ST option \<Rightarrow> (int \<times> files \<times> CSV_ST option) option" where
  "csvfile_set_record e fs filename record_no csv =
     (if filename = None then Some (- CSV_PARA_ERR, fs, csv)
      else case csv of
        None \<Rightarrow> Some (- CSV_PARA_ERR, fs, csv)
      | Some cs \<Rightarrow>
          if cs_magic cs \<noteq> CSV_MAGIC then Some (- CSV_PARA_ERR, fs, csv)
          else (let line_num = csvfile_get_total_records e fs filename in
            if line_num < 0 then Some (line_num, fs, csv)
            else if line_num = 0 \<or> record_no = 0 then csvfile_set_sub e fs INSERT_HEAD filename 1 csv
            else if record_no > 0
            then (if record_no \<le> line_num then csvfile_set_sub e fs CHANGE_MID filename record_no csv
                  else csvfile_set_sub e fs INSERT_TAIL filename (line_num + 1) csv)
            else if record_no = INT_MIN then None
            else (if - record_no > line_num then csvfile_set_sub e fs INSERT_HEAD filename 1 csv
                  else csvfile_set_sub e fs CHANGE_MID filename (line_num + record_no + 1) csv)))"

definition csvfile_insert_record ::
    "csv_env \<Rightarrow> files \<Rightarrow> string option \<Rightarrow> int \<Rightarrow> CSV_ST option \<Rightarrow> (int \<times> files \<times> CSV_ST option) option" where
  "csvfile_insert_record e fs filename record_no csv =
     (if filename = None then Some (- CSV_PARA_ERR, fs, csv)
      else case csv of
        None \<Rightarrow> Some (- CSV_PARA_ERR, fs, csv)
      | Some cs \<Rightarrow>
          if cs_magic cs \<noteq> CSV_MAGIC then Some (- CSV_PARA_ERR, fs, csv)
          else if record_no = 1 \<or> record_no = 0 then csvfile_set_sub e fs INSERT_HEAD filename 1 csv
          else if record_no = -1 then csvfile_set_sub e fs INSERT_TAIL filename (-1) csv
          else (let line_num = csvfile_get_total_records e fs filename in
            if line_num < 0 then Some (line_num, fs, csv)
            else if line_num = 0 then csvfile_set_sub e fs INSERT_HEAD filename 1 csv
            else if record_no > 0
            then (if record_no \<le> line_num then csvfile_set_sub e fs INSERT_MID filename record_no csv
                  else csvfile_set_sub e fs INSERT_TAIL filename (line_num + 1) csv)
            else if record_no = INT_MIN then None
            else (if - record_no > line_num then csvfile_set_sub e fs INSERT_HEAD filename 1 csv
                  else csvfile_set_sub e fs INSERT_MID filename (line_num + record_no + 1) csv)))"

definition csvfile_rm_record_sub :: "csv_env \<Rightarrow> files \<Rightarrow> string option \<Rightarrow> int \<Rightarrow> (int \<times> files) option" where
  "csvfile_rm_record_sub e fs filename record_no =
     (case filename of
        None \<Rightarrow> Some (- CSV_PARA_ERR, fs)
      | Some name \<Rightarrow>
         (let line = (if record_no = 0 then 1 else record_no) in
          if csvfile_lock e fs name < 0 then Some (- CSV_LOCK_FILE_ERR, fs)
          else (case csvfile_open e fs filename of
                  None \<Rightarrow> Some (- CSV_OPEN_FILE_ERR, fs)
                | Some s \<Rightarrow>
                    if \<not> e_mkstemp e then Some (- CSV_LOCK_FILE_ERR, fs)
                    else if \<not> e_fdopen e then Some (- CSV_OPEN_FILE_ERR, fs)
                    else if \<not> e_reopen e then None
                    else Some (CSV_SUCCESS, fs(name \<mapsto> rm_line_loop 0 line (fgets_all s))))))"

definition csvfile_rm_record :: "csv_env \<Rightarrow> files \<Rightarrow> string option \<Rightarrow> int \<Rightarrow> (int \<times> files) option" where
  "csvfile_rm_record e fs filename record_no =
     (if filename = None then Some (- CSV_PARA_ERR, fs)
      else let line_num = csvfile_get_total_records e fs filename in
        if line_num \<le> 0 then Some (line_num, fs)
        else if record_no = INT_MIN then None
        else let line = (if record_no > 0 then (if record_no \<le> line_num then record_no else line_num)
                         else if record_no < 0 then (if - record_no > line_num then 1 else line_num + record_no + 1)
                         else 1)
             in csvfile_rm_record_sub e fs filename line)"

section \<open>Files of records\<close>

text \<open>A record as it stands in a file: one line, terminated, that fits the line buffer.\<close>

definition rec_ok :: "string \<Rightarrow> bool" where
  "rec_ok r \<longleftrightarrow> r \<noteq> [] \<and> last r = LF \<and> LF \<notin> set (butlast r) \<and> NUL \<notin> set r \<and> length r \<le> 1023"

lemma rec_ok_snoc: "rec_ok r \<Longrightarrow> \<exists>b. r = b @ [LF] \<and> LF \<notin> set b"
  by (metis append_butlast_last_id rec_ok_def)

lemma rec_ok_cstr: "rec_ok r \<Longrightarrow> as_cstr r = r"
  by (auto simp: rec_ok_def as_cstr_def takeWhile_eq_all_conv)

lemma fgets_rec: "rec_ok r \<Longrightarrow> fgets 1024 (r @ s) = Some (r, s)"
  using rec_ok_snoc [of r] fgets_line [of _ 1024 s] by (auto simp: rec_ok_def)

lemma fgets_all_concat: "list_all rec_ok rs \<Longrightarrow> fgets_all (concat rs) = rs"
proof (induction rs)
  case Nil
  show ?case by (simp add: fgets_all.simps fgets_def)
next
  case (Cons r rs)
  then show ?case using fgets_rec [of r "concat rs"] by (subst fgets_all.simps) simp
qed

lemma fgets_times_concat:
  "list_all rec_ok rs \<Longrightarrow> 0 < n \<Longrightarrow> n \<le> length rs \<Longrightarrow> fgets_times n buf (concat rs) = rs ! (n - 1)"
proof (induction rs arbitrary: n buf)
  case (Cons r rs)
  obtain k where k: "n = Suc k" using Cons.prems(2) by (cases n) auto
  show ?case
  proof (cases k)
    case 0
    then show ?thesis using Cons.prems fgets_rec [of r "concat rs"] k by simp
  next
    case (Suc j)
    then show ?thesis using Cons.prems Cons.IH [of k r] fgets_rec [of r "concat rs"] k by simp
  qed
qed simp

lemma insert_mid_concat:
  assumes "list_all rec_ok rs" "i < no" "no \<le> i + int (length rs)"
  shows "insert_mid_loop i no p rs = concat (take (nat (no - i - 1)) rs @ p # drop (nat (no - i - 1)) rs)"
  using assms
proof (induction rs arbitrary: i)
  case (Cons r rs)
  have tail: "insert_mid_loop j no p rs = concat rs" if "no \<le> j" for j
    using that Cons.prems(1) by (induction rs arbitrary: j) (auto simp: rec_ok_cstr)
  show ?case
  proof (cases "i + 1 = no")
    case True
    then show ?thesis using tail [of "i + 1"] Cons.prems by (simp add: rec_ok_cstr)
  next
    case False
    then have "nat (no - i - 1) = Suc (nat (no - (i + 1) - 1))" using Cons.prems by simp
    then show ?thesis using False Cons.IH [of "i + 1"] Cons.prems by (simp add: rec_ok_cstr)
  qed
qed simp

lemma change_mid_concat:
  assumes "list_all rec_ok rs" "i < no" "no \<le> i + int (length rs)"
  shows "change_mid_loop i no p rs = concat (rs[nat (no - i - 1) := p])"
  using assms
proof (induction rs arbitrary: i)
  case (Cons r rs)
  have tail: "change_mid_loop j no p rs = concat rs" if "no \<le> j" for j
    using that Cons.prems(1) by (induction rs arbitrary: j) (auto simp: rec_ok_cstr)
  show ?case
  proof (cases "i + 1 = no")
    case True
    then show ?thesis using tail [of "i + 1"] Cons.prems by simp
  next
    case False
    then have "nat (no - i - 1) = Suc (nat (no - (i + 1) - 1))" using Cons.prems by simp
    then show ?thesis using False Cons.IH [of "i + 1"] Cons.prems by (simp add: rec_ok_cstr)
  qed
qed simp

lemma rm_line_concat:
  assumes "list_all rec_ok rs" "i < no" "no \<le> i + int (length rs)"
  shows "rm_line_loop i no rs = concat (take (nat (no - i - 1)) rs @ drop (nat (no - i)) rs)"
  using assms
proof (induction rs arbitrary: i)
  case (Cons r rs)
  have tail: "rm_line_loop j no rs = concat rs" if "no \<le> j" for j
    using that Cons.prems(1) by (induction rs arbitrary: j) (auto simp: rec_ok_cstr)
  show ?case
  proof (cases "i + 1 = no")
    case True
    then show ?thesis using tail [of "i + 1"] Cons.prems by auto
  next
    case False
    then have "nat (no - i - 1) = Suc (nat (no - (i + 1) - 1))" "nat (no - i) = Suc (nat (no - (i + 1)))"
      using Cons.prems by simp_all
    then show ?thesis using False Cons.IH [of "i + 1"] Cons.prems by (simp add: rec_ok_cstr)
  qed
qed simp

end
