(* ===== verification/Csv_Props.thy ===== *)
theory Csv_Props
  imports Csv_File
begin

text \<open>
  Properties of the csv library: the fields of a record as a key-value store, the line of text
  and its parser, and the record file as a list of lines.
\<close>

section \<open>Lines\<close>

text \<open>The line of a list of fields, without its end.\<close>

definition csv_join :: "string list \<Rightarrow> string" where
  "csv_join fs = butlast (concat (map (\<lambda>f. f @ [COMMA]) fs))"

definition field_ok :: "string \<Rightarrow> bool" where
  "field_ok f \<longleftrightarrow> COMMA \<notin> set f \<and> trimmed f \<and> length f < MAX_ATOM_LEN"

lemma comma_join: "fs \<noteq> [] \<Longrightarrow> COMMA # csv_join fs = concat (map ((#) COMMA) fs)"
proof -
  assume "fs \<noteq> []"
  then have ne: "concat (map (\<lambda>f. f @ [COMMA]) fs) \<noteq> []" by (cases fs) auto
  have "butlast (concat (map ((#) COMMA) fs) @ [COMMA]) = butlast (COMMA # concat (map (\<lambda>f. f @ [COMMA]) fs))"
    by (simp only: comma_shift)
  then show ?thesis using ne by (simp add: csv_join_def)
qed

lemma length_fields: "list_all (\<lambda>r. length r < MAX_ATOM_LEN) fs \<Longrightarrow>
  length (concat (map ((#) COMMA) fs)) \<le> length fs * MAX_ATOM_LEN"
  by (induction fs) auto

lemma csv_get_string_eq:
  assumes "cs_magic cs = CSV_MAGIC" "take (atom_num cs) (csv_buf cs) = fs" "atom_num cs = length fs"
    and "fs \<noteq> []" "length fs \<le> MAX_ATOM_NUM" "list_all (\<lambda>r. length r < MAX_ATOM_LEN) fs"
  shows "csv_get_string (Some cs) =
    Some (Some (csv_join fs @ [CR, LF]), Some (cs\<lparr>csv_str := csv_join fs @ [CR, LF]\<rparr>))"
proof -
  let ?all = "concat (map (\<lambda>f. f @ [COMMA]) fs)"
  have size: "length fs * MAX_ATOM_LEN + 1 < CSV_STR_SIZE" using assms(5) by (simp add: csv_simps)
  have j: "join_loop fs [] = Some ?all" using join_loop_concat [OF assms(6), of "[]"] size by simp
  obtain f0 gs where fs: "fs = gs @ [f0]" using assms(4) by (cases fs rule: rev_cases) auto
  then have l: "?all = csv_join fs @ [COMMA]" by (simp add: csv_join_def butlast_append)
  have "length ?all \<le> length fs * MAX_ATOM_LEN"
    using length_fields [OF assms(6)] arg_cong [OF comma_shift, of length fs] by simp
  then have len: "length (csv_join fs) + 2 < CSV_STR_SIZE" using size l by simp
  have n: "\<not> atom_num cs > length (csv_buf cs)"
    using arg_cong [OF assms(2), of length] assms(3) by simp
  show ?thesis using assms(1,2) j l len n
    by (simp add: csv_get_string_def Let_def arr_get_def nth_append)
qed

lemma csv_rm_enter_line: "csv_rm_enter (Some (b @ [CR, LF])) = Some (CSV_SUCCESS, Some b)"
  by (simp add: csv_rm_enter_def arr_get_def nth_append Let_def nat_add_distrib)

lemma csv_parse_string_eq:
  assumes "cs_magic cs = CSV_MAGIC" "fs \<noteq> []" "length fs \<le> MAX_ATOM_NUM" "list_all field_ok fs"
    and "COMMA # s = concat (map ((#) COMMA) fs) \<and> (s = [] \<or> hd s \<noteq> COMMA) \<or> s = concat (map ((#) COMMA) fs)"
  shows "csv_parse_string (Some cs) (Some s) =
    Some (CSV_SUCCESS, Some (cs\<lparr>csv_str := concat (map ((#) COMMA) fs), atom_num := length fs,
                               csv_buf := fs @ replicate (MAX_ATOM_NUM - length fs) []\<rparr>))"
proof -
  let ?all = "concat (map ((#) COMMA) fs)"
  have f: "list_all (\<lambda>f. COMMA \<notin> set f \<and> length f \<le> MAX_ATOM_LEN) fs"
    "list_all (\<lambda>r. length r < MAX_ATOM_LEN \<and> trimmed r) fs" "list_all (\<lambda>r. length r < MAX_ATOM_LEN) fs"
    using assms(4) by (auto simp: list_all_iff field_ok_def)
  have "hd ?all = COMMA" "?all \<noteq> []" using assms(2) by (cases fs; simp)+
  then have buf: "(if s = [] \<or> hd s \<noteq> COMMA then COMMA # s else s) = ?all" using assms(5) by auto
  have "length s \<le> length ?all" using assms(5) by (metis length_Cons le_Suc_eq order_refl)
  then have len: "\<not> length s > MAX_ATOM_LEN * MAX_ATOM_NUM + 1"
    using length_fields [OF f(3)] mult_le_mono1 [OF assms(3), of MAX_ATOM_LEN]
    unfolding mult.commute [of MAX_ATOM_LEN MAX_ATOM_NUM] by linarith
  have "csv_parse_loop MAX_ATOM_NUM ?all 0 (replicate MAX_ATOM_NUM []) =
      Some (CSV_SUCCESS, length fs, fs @ replicate (MAX_ATOM_NUM - length fs) [])"
    using csv_parse_loop_fields [OF _ f(1), of "[]" MAX_ATOM_NUM MAX_ATOM_NUM "[]" 0] assms(2,3) by simp
  note facts = this assms(1) len trim_rows_id [OF f(2)]
  show ?thesis
  proof (cases "s = [] \<or> hd s \<noteq> COMMA")
    case True
    then have e: "COMMA # s = ?all" using buf by simp
    show ?thesis using facts True unfolding csv_parse_string_def Let_def if_P [OF True] e [symmetric] by simp
  next
    case False
    then have e: "s = ?all" using buf by simp
    show ?thesis using facts False unfolding csv_parse_string_def Let_def if_not_P [OF False] e by simp
  qed
qed

section \<open>Files as lists of records\<close>

text \<open>What the three changing operations do to the list of records; \<open>no\<close> counts from 1, or from the end when negative.\<close>

definition set_spec :: "int \<Rightarrow> 'a \<Rightarrow> 'a list \<Rightarrow> 'a list" where
  "set_spec no p rs =
     (let n = int (length rs) in
      if n = 0 \<or> no = 0 \<or> - no > n then p # rs
      else if no > n then rs @ [p]
      else if no > 0 then rs[nat (no - 1) := p]
      else rs[nat (n + no) := p])"

definition insert_spec :: "int \<Rightarrow> 'a \<Rightarrow> 'a list \<Rightarrow> 'a list" where
  "insert_spec no p rs =
     (let n = int (length rs) in
      if no = 0 \<or> no = 1 then p # rs
      else if no = -1 then rs @ [p]
      else if n = 0 \<or> - no > n then p # rs
      else if no > n then rs @ [p]
      else let k = nat (if no > 0 then no - 1 else n + no) in take k rs @ p # drop k rs)"

definition rm_spec :: "int \<Rightarrow> 'a list \<Rightarrow> 'a list" where
  "rm_spec no rs =
     (let n = int (length rs);
          k = nat (if no > n then n - 1 else if no > 0 then no - 1 else if no = 0 \<or> - no > n then 0 else n + no)
      in take k rs @ drop (Suc k) rs)"

definition env_ok :: "csv_env \<Rightarrow> bool" where
  "env_ok e \<longleftrightarrow> e_lock e \<and> e_open e \<and> e_mkstemp e \<and> e_fdopen e \<and> e_reopen e"

definition holds_records :: "files \<Rightarrow> string \<Rightarrow> string list \<Rightarrow> bool" where
  "holds_records fs name rs \<longleftrightarrow> fs name = Some (concat rs) \<and> list_all rec_ok rs"

lemma total_records_concat:
  assumes "env_ok e" "holds_records fs name rs"
  shows "csvfile_get_total_records e fs (Some name) = int (length rs)"
  using assms by (auto simp: holds_records_def fgets_all_concat csvfile_get_total_records_def csvfile_lock_def csvfile_open_def env_ok_def)

lemma set_sub_concat:
  assumes "env_ok e" "holds_records fs name rs" "csv_get_string csv = Some (Some p, csv1)"
  shows "csvfile_set_sub e fs INSERT_HEAD (Some name) no csv = Some (0, fs(name \<mapsto> concat (p # rs)), csv1)"
    and "csvfile_set_sub e fs INSERT_TAIL (Some name) no csv = Some (0, fs(name \<mapsto> concat (rs @ [p])), csv1)"
    and "0 < no \<Longrightarrow> no \<le> int (length rs) \<Longrightarrow>
      csvfile_set_sub e fs CHANGE_MID (Some name) no csv = Some (0, fs(name \<mapsto> concat (rs[nat (no - 1) := p])), csv1)"
    and "0 < no \<Longrightarrow> no \<le> int (length rs) \<Longrightarrow>
      csvfile_set_sub e fs INSERT_MID (Some name) no csv =
        Some (0, fs(name \<mapsto> concat (take (nat (no - 1)) rs @ p # drop (nat (no - 1)) rs)), csv1)"
  using assms change_mid_concat [of rs 0 no p] insert_mid_concat [of rs 0 no p]
  by (simp_all add: holds_records_def fgets_all_concat csvfile_set_sub_def csvfile_lock_def csvfile_open_def env_ok_def csv_simps)

lemma get_string_magic: "csv_get_string csv = Some (Some p, csv1) \<Longrightarrow> \<exists>cs. csv = Some cs \<and> cs_magic cs = CSV_MAGIC"
  by (auto simp: csv_get_string_def split: option.splits if_splits)

lemma set_record_concat:
  assumes "env_ok e" "holds_records fs name rs" "csv_get_string csv = Some (Some p, csv1)" "no \<noteq> INT_MIN"
  shows "csvfile_set_record e fs (Some name) no csv = Some (0, fs(name \<mapsto> concat (set_spec no p rs)), csv1)"
proof -
  obtain cs where cs: "csv = Some cs" "cs_magic cs = CSV_MAGIC" using get_string_magic [OF assms(3)] by blast
  note sub = set_sub_concat [OF assms(1-3)]
  have "- no \<le> int (length rs) \<Longrightarrow> no < 0 \<Longrightarrow>
      csvfile_set_sub e fs CHANGE_MID (Some name) (int (length rs) + no + 1) csv =
        Some (0, fs(name \<mapsto> concat (rs[nat (int (length rs) + no) := p])), csv1)"
    using sub(3) [of "int (length rs) + no + 1"] by simp
  then show ?thesis using cs sub total_records_concat [OF assms(1,2)] assms(4)
    by (auto simp: csvfile_set_record_def set_spec_def Let_def)
qed

lemma insert_record_concat:
  assumes "env_ok e" "holds_records fs name rs" "csv_get_string csv = Some (Some p, csv1)" "no \<noteq> INT_MIN"
  shows "csvfile_insert_record e fs (Some name) no csv = Some (0, fs(name \<mapsto> concat (insert_spec no p rs)), csv1)"
proof -
  obtain cs where cs: "csv = Some cs" "cs_magic cs = CSV_MAGIC" using get_string_magic [OF assms(3)] by blast
  note sub = set_sub_concat [OF assms(1-3)]
  have "- no \<le> int (length rs) \<Longrightarrow> no < 0 \<Longrightarrow>
      csvfile_set_sub e fs INSERT_MID (Some name) (int (length rs) + no + 1) csv =
        Some (0, fs(name \<mapsto> concat (take (nat (int (length rs) + no)) rs @ p # drop (nat (int (length rs) + no)) rs)), csv1)"
    using sub(4) [of "int (length rs) + no + 1"] by simp
  then show ?thesis using cs sub total_records_concat [OF assms(1,2)] assms(4)
    by (auto simp: csvfile_insert_record_def insert_spec_def Let_def)
qed

lemma rm_record_concat:
  assumes "env_ok e" "holds_records fs name rs" "no \<noteq> INT_MIN"
  shows "csvfile_rm_record e fs (Some name) no = Some (0, fs(name \<mapsto> concat (rm_spec no rs)))"
proof (cases "rs = []")
  case True
  then show ?thesis using assms total_records_concat [OF assms(1,2)]
    by (simp add: holds_records_def csvfile_rm_record_def rm_spec_def Let_def fun_upd_idem)
next
  case False
  have "csvfile_rm_record_sub e fs (Some name) k =
      Some (0, fs(name \<mapsto> concat (take (nat (k - 1)) rs @ drop (Suc (nat (k - 1))) rs)))"
    if "0 < k" "k \<le> int (length rs)" for k
    using that assms rm_line_concat [of rs 0 k]
    by (simp add: holds_records_def fgets_all_concat csvfile_rm_record_sub_def csvfile_lock_def csvfile_open_def env_ok_def CSV_SUCCESS_def Suc_nat_eq_nat_zadd1)
  note sub = this
  let ?n = "int (length rs)"
  let ?k = "if no > ?n then ?n else if no > 0 then no else if no = 0 \<or> - no > ?n then 1 else ?n + no + 1"
  have n: "0 < ?n" using False by simp
  then have k: "0 < ?k" "?k \<le> ?n" by (simp_all split: if_splits add: Suc_le_eq)
  have "csvfile_rm_record e fs (Some name) no = csvfile_rm_record_sub e fs (Some name) ?k"
    using n total_records_concat [OF assms(1,2)] assms(3) by (simp add: csvfile_rm_record_def Let_def)
  also have "\<dots> = Some (0, fs(name \<mapsto> concat (take (nat (?k - 1)) rs @ drop (Suc (nat (?k - 1))) rs)))"
    by (rule sub [OF k])
  also have "nat (?k - 1) = nat (if no > ?n then ?n - 1 else if no > 0 then no - 1 else if no = 0 \<or> - no > ?n then 0 else ?n + no)"
    by simp
  finally show ?thesis by (simp only: rm_spec_def Let_def)
qed

lemma set_spec_nth:
  assumes "no \<noteq> 0" "no \<noteq> INT_MIN"
  shows "\<exists>n. csv_get_line_num (int (length (set_spec no p rs))) no = Some n \<and>
    1 \<le> n \<and> n \<le> int (length (set_spec no p rs)) \<and> set_spec no p rs ! nat (n - 1) = p"
  using assms Suc_le_eq [of 0 "length rs"] by (auto simp: set_spec_def csv_get_line_num_def Let_def nth_append nat_less_iff)

lemma set_spec_all: "list_all P rs \<Longrightarrow> P p \<Longrightarrow> list_all P (set_spec no p rs)"
  using set_update_subset_insert [of rs _ p] by (auto simp: set_spec_def Let_def list_all_iff)

lemma csv_line_fields:
  assumes "cs_magic cs = CSV_MAGIC" "cs_magic cs2 = CSV_MAGIC" "take (atom_num cs) (csv_buf cs) = fs"
    and "atom_num cs = length fs" "fs \<noteq> []" "length fs \<le> MAX_ATOM_NUM" "list_all field_ok fs"
  shows "\<exists>line cs1 body cs3. csv_get_string (Some cs) = Some (Some line, Some cs1) \<and>
    csv_rm_enter (Some line) = Some (0, Some body) \<and>
    csv_parse_string (Some cs2) (Some body) = Some (0, Some cs3) \<and>
    take (atom_num cs3) (csv_buf cs3) = (if hd fs = [] \<and> tl fs \<noteq> [] then tl fs else fs)"
proof -
  have short: "list_all (\<lambda>r. length r < MAX_ATOM_LEN) fs" using assms(7) by (auto simp: list_all_iff field_ok_def)
  note line = csv_get_string_eq [OF assms(1,3,4,5,6) short] csv_rm_enter_line [of "csv_join fs"]
  obtain f gs where fs: "fs = f # gs" using assms(5) by (cases fs) auto
  have "\<exists>cs3. csv_parse_string (Some cs2) (Some (csv_join fs)) = Some (0, Some cs3) \<and>
      take (atom_num cs3) (csv_buf cs3) = (if hd fs = [] \<and> tl fs \<noteq> [] then tl fs else fs)"
  proof (cases "f = [] \<and> gs \<noteq> []")
    case True
    then have "csv_join fs = concat (map ((#) COMMA) gs)" using comma_join [of fs] fs by simp
    then show ?thesis
      using csv_parse_string_eq [OF assms(2), of gs "csv_join fs"] True assms(6,7) fs by (simp add: CSV_SUCCESS_def)
  next
    case False
    have "csv_join fs = [] \<or> hd (csv_join fs) \<noteq> COMMA"
    proof (cases "f = []")
      case True
      then show ?thesis using False fs by (simp add: csv_join_def)
    next
      case nonempty: False
      then have "concat (map (\<lambda>f. f @ [COMMA]) fs) = f @ COMMA # concat (map (\<lambda>f. f @ [COMMA]) gs)" using fs by simp
      then have "hd (csv_join fs) = hd f" using nonempty by (cases f) (auto simp: csv_join_def butlast_append)
      then show ?thesis using nonempty assms(7) fs by (cases f) (auto simp: field_ok_def)
    qed
    then show ?thesis
      using csv_parse_string_eq [OF assms(2,5,6,7), of "csv_join fs"] comma_join [OF assms(5)] False fs
      by (auto simp: CSV_SUCCESS_def)
  qed
  then show ?thesis using line by (auto simp: CSV_SUCCESS_def)
qed

section \<open>Properties\<close>

text \<open>
  C29. The fields of a record are a map: after any list of \<open>csv_set_str\<close> with field numbers from 1
  to 50 and non-empty values of less than 100 characters without outer blanks on a new structure, all calls have succeeded,
  \<open>csv_get_str\<close> gives the last value set for a field and the default otherwise, and
  \<open>csv_get_var_num\<close> is the number of different fields set.
\<close>

theorem csv_fields_are_a_map:
  assumes "csv_create True = Some cs"
    and "\<forall>(no, v) \<in> set kvs. 1 \<le> no \<and> no \<le> 50 \<and> v \<noteq> [] \<and> trimmed v \<and> length v < 100" "1 \<le> no" "no \<le> 50"
  shows "\<exists>cs'. puts csv_put cs kvs = Some cs' \<and>
    csv_get_str (Some cs') no d = (case map_of (rev kvs) no of None \<Rightarrow> d | Some v \<Rightarrow> Some v) \<and>
    csv_get_var_num (Some cs') = int (card (fst ` set kvs))"
proof -
  have i: "csv_inv cs" "atom_num cs = 0" using csv_create_inv [OF assms(1)] by auto
  have ok: "\<forall>(k, v) \<in> set kvs. csv_ok k v" "csv_ok no ''x''"
    using assms(2-4) by (auto simp: csv_ok_def csv_simps trimmed_def)
  have none: "csv_get cs k = None" for k
    using assms(1) by (auto simp: csv_create_def csv_get_def csv_get_str_def csv_simps)
  have sub: "fst ` set kvs \<subseteq> {1..50}" using assms(2) by auto
  have "card (fst ` set kvs) \<le> 50" using card_mono [OF _ sub] by simp
  then obtain cs' where cs': "puts csv_put cs kvs = Some cs'"
    using csvkv.puts_succeed [OF i(1) ok(1)] i(2) none by (auto simp: csv_simps)
  have i': "csv_inv cs'" by (rule csvkv.puts_inv [OF i(1) ok(1) cs'])
  have "csv_get cs' no = map_of (rev kvs) no"
    using csvkv.get_puts [OF i(1) ok(1) cs' ok(2)] none by (simp split: option.splits)
  moreover have "csv_get_str (Some cs') no d = (case csv_get cs' no of None \<Rightarrow> d | Some v \<Rightarrow> Some v)"
    by (simp add: csv_get_def csv_get_str_def)
  moreover have "csv_get_var_num (Some cs') = int (card (fst ` set kvs))"
    using csvkv.size_puts [OF i(1) ok(1) cs'] i(2) none i' by (simp add: csv_get_var_num_def csv_inv_def)
  ultimately show ?thesis using cs' by simp
qed

theorem csv_fields_are_a_map_witness:
  "\<exists>cs cs'. csv_create True = Some cs \<and> puts csv_put cs [(1, ''cam''), (2, ''on''), (2, ''off'')] = Some cs' \<and>
     csv_get_str (Some cs') 2 None = Some ''off'' \<and>
     csv_get_var_num (Some cs') = int (card (fst ` set [(1 :: int, ''cam''), (2, ''on''), (2, ''off'')]))"
proof -
  obtain cs where cs: "csv_create True = Some cs" by (simp add: csv_create_def)
  have h: "\<forall>(no, v) \<in> set [(1 :: int, ''cam''), (2, ''on''), (2, ''off'')].
      1 \<le> no \<and> no \<le> 50 \<and> v \<noteq> [] \<and> trimmed v \<and> length v < 100" by (simp add: trimmed_def)
  have m: "map_of (rev [(1 :: int, ''cam''), (2, ''on''), (2, ''off'')]) 2 = Some ''off''" by simp
  show ?thesis using csv_fields_are_a_map [OF cs h, of 2 None, unfolded m] cs by auto
qed

text \<open>
  From a record to its line and back: \<open>csv_get_string\<close> gives the fields joined by commas with
  \<open>CR LF\<close> at the end, \<open>csv_rm_enter\<close> takes that end away, and \<open>csv_parse_string\<close> of any structure
  gives the same fields in the same order, empty ones included. An empty first field of several
  is lost: the parser takes a comma at the start of the line for the mark it would add itself.
\<close>

lemma csv_line_round_trip:
  assumes "cs_magic cs = CSV_MAGIC" "cs_magic cs2 = CSV_MAGIC" "take (atom_num cs) (csv_buf cs) = fs"
    and "atom_num cs = length fs" "fs \<noteq> []" "length fs \<le> MAX_ATOM_NUM" "list_all field_ok fs"
  shows "\<exists>line cs1 body cs3. csv_get_string (Some cs) = Some (Some line, Some cs1) \<and>
    csv_rm_enter (Some line) = Some (0, Some body) \<and>
    csv_parse_string (Some cs2) (Some body) = Some (0, Some cs3) \<and>
    take (atom_num cs3) (csv_buf cs3) = (if hd fs = [] \<and> tl fs \<noteq> [] then tl fs else fs)"
  by (rule csv_line_fields [OF assms])

text \<open>
  C30. A record file is a list of records: replacing and inserting record number \<open>no\<close>, and removing
  it when the file has records, returns 0 and changes the file as the list operation does, for every number
  but the least \<open>int\<close>, positive ones counting from the start and negative ones from the end; other
  files do not change. No system call fails, every line of the file is terminated and fits the line buffer.
\<close>

theorem csvfile_refines_list:
  assumes "env_ok e" "holds_records fs name rs" "csv_get_string csv = Some (Some p, csv1)" "INT_MIN < no"
  shows "csvfile_set_record e fs (Some name) no csv = Some (0, fs(name \<mapsto> concat (set_spec no p rs)), csv1) \<and>
    csvfile_insert_record e fs (Some name) no csv = Some (0, fs(name \<mapsto> concat (insert_spec no p rs)), csv1) \<and>
    (rs \<noteq> [] \<longrightarrow> csvfile_rm_record e fs (Some name) no = Some (0, fs(name \<mapsto> concat (rm_spec no rs))))"
proof -
  have "no \<noteq> INT_MIN" using assms(4) by simp
  then show ?thesis
    using set_record_concat [OF assms(1-3)] insert_record_concat [OF assms(1-3)] rm_record_concat [OF assms(1,2)] by blast
qed

theorem csvfile_refines_list_witness:
  "\<exists>cs csv1 fs'. csv_create True = Some cs \<and>
     csvfile_set_record \<lparr>e_lock = True, e_open = True, e_mkstemp = True, e_fdopen = True, e_reopen = True\<rparr>
       [''/log'' \<mapsto> ''a'' @ [CR, LF] @ ''b'' @ [CR, LF]] (Some ''/log'') (- 1)
       (Some (cs\<lparr>atom_num := 1, csv_buf := [''x''] @ replicate 49 []\<rparr>)) = Some (0, fs', csv1) \<and>
     fs' ''/log'' = Some (''a'' @ [CR, LF] @ ''x'' @ [CR, LF])"
proof -
  obtain cs where cs: "csv_create True = Some cs" by (simp add: csv_create_def)
  let ?cs = "cs\<lparr>atom_num := 1, csv_buf := [''x''] @ replicate 49 []\<rparr>"
  let ?e = "\<lparr>e_lock = True, e_open = True, e_mkstemp = True, e_fdopen = True, e_reopen = True\<rparr>"
  let ?fs = "[''/log'' \<mapsto> ''a'' @ [CR, LF] @ ''b'' @ [CR, LF]]"
  let ?rs = "[''a'' @ [CR, LF], ''b'' @ [CR, LF]]"
  have g: "csv_get_string (Some ?cs) = Some (Some (''x'' @ [CR, LF]), Some (?cs\<lparr>csv_str := ''x'' @ [CR, LF]\<rparr>))"
    using csv_get_string_eq [of ?cs "[''x'']"] cs by (auto simp: csv_create_def csv_simps csv_join_def)
  have e: "env_ok ?e" by (simp add: env_ok_def)
  have h: "holds_records ?fs ''/log'' ?rs" by (simp add: holds_records_def rec_ok_def)
  have s: "concat (set_spec (- 1) (''x'' @ [CR, LF]) ?rs) = ''a'' @ [CR, LF] @ ''x'' @ [CR, LF]"
    by (simp add: set_spec_def)
  from csvfile_refines_list [OF e h g, of "- 1", unfolded s] show ?thesis
    using cs by (intro exI [of _ cs]) (auto simp: INT_MIN_def)
qed

text \<open>Removing from a file without records returns 0, too, and changes nothing.\<close>

lemma rm_from_empty_file:
  assumes "env_ok e" "holds_records fs name []" "no \<noteq> INT_MIN"
  shows "csvfile_rm_record e fs (Some name) no = Some (0, fs)"
  using rm_record_concat [OF assms] assms(2) by (simp add: rm_spec_def holds_records_def fun_upd_idem)

text \<open>
  What is written to a record file is read back: after \<open>csvfile_set_record\<close> with any number
  but 0, \<open>csvfile_get_record\<close> with the same number, by any structure, gives the fields that were
  written, also when the number lay outside the file and the record was put at one of its ends.
\<close>

lemma csvfile_record_round_trip:
  assumes "env_ok e" "holds_records fs name rs" "no \<noteq> 0" "no \<noteq> INT_MIN"
    and "cs_magic cs = CSV_MAGIC" "cs_magic cs2 = CSV_MAGIC" "take (atom_num cs) (csv_buf cs) = xs"
    and "atom_num cs = length xs" "xs \<noteq> []" "hd xs \<noteq> []" "length xs \<le> MAX_ATOM_NUM" "list_all field_ok xs"
    and "\<forall>x \<in> set xs. LF \<notin> set x \<and> NUL \<notin> set x" "length (csv_join xs) \<le> 1021"
  shows "\<exists>fs' csv1 cs3. csvfile_set_record e fs (Some name) no (Some cs) = Some (0, fs', csv1) \<and>
    csvfile_get_record e fs' (Some name) no (Some cs2) = Some (0, Some cs3) \<and>
    take (atom_num cs3) (csv_buf cs3) = xs"
proof -
  let ?p = "csv_join xs @ [CR, LF]" and ?rs = "set_spec no (csv_join xs @ [CR, LF]) rs"
  let ?fs = "fs(name \<mapsto> concat ?rs)"
  obtain line cs1 body cs3 where rt: "csv_get_string (Some cs) = Some (Some line, Some cs1)"
    "csv_rm_enter (Some line) = Some (0, Some body)" "csv_parse_string (Some cs2) (Some body) = Some (0, Some cs3)"
    "take (atom_num cs3) (csv_buf cs3) = xs"
    using csv_line_fields [OF assms(5-9,11,12)] assms(10) by auto
  have short: "list_all (\<lambda>r. length r < MAX_ATOM_LEN) xs" using assms(12) by (auto simp: list_all_iff field_ok_def)
  have line: "line = ?p" using rt(1) csv_get_string_eq [OF assms(5,7,8,9,11) short] by simp
  have "c = COMMA \<or> (\<exists>x \<in> set xs. c \<in> set x)" if "c \<in> set (csv_join xs)" for c
    using in_set_butlastD [OF that [unfolded csv_join_def]] by (auto split: if_splits)
  then have "LF \<notin> set (csv_join xs)" "NUL \<notin> set (csv_join xs)" using assms(13) by blast+
  then have p: "rec_ok ?p" using assms(14) by (simp add: rec_ok_def butlast_append)
  have h: "holds_records ?fs name ?rs"
    using assms(2) set_spec_all [of rec_ok rs ?p no, OF _ p] by (simp add: holds_records_def)
  obtain n where n: "csv_get_line_num (int (length ?rs)) no = Some n" "1 \<le> n" "n \<le> int (length ?rs)" "?rs ! nat (n - 1) = ?p"
    using set_spec_nth [OF assms(3,4), of ?p rs] by blast
  have "fgets_times (nat n) [] (concat ?rs) = ?rs ! (nat n - 1)"
    using h n by (intro fgets_times_concat) (auto simp: holds_records_def)
  then have buf: "as_cstr (fgets_times (nat n) [] (concat ?rs)) = line"
    using n rec_ok_cstr [OF p] line by (simp add: nat_diff_distrib)
  have pos: "0 < int (length ?rs)" using n by linarith
  have "csvfile_get_record e ?fs (Some name) no (Some cs2) = Some (0, Some cs3)"
    using assms(1,3,6) n(1) total_records_concat [OF assms(1) h] pos buf rt(2,3)
    by (simp add: csvfile_get_record_def csvfile_lock_def csvfile_open_def env_ok_def Let_def)
  then show ?thesis using set_record_concat [OF assms(1,2) rt(1) assms(4)] rt(4) line by auto
qed

end
