(* ===== verification/Rt_Pool.thy ===== *)
theory Rt_Pool
  imports Prelude
begin

text \<open>
  The element pool of \<open>src/mp_hdmodule_m/rtpool.c\<close> through which captured frames pass to the
  network threads: a fixed set of elements that are linked either into the free list, or into the
  list of active elements, or are held by a thread. Elements live in a heap, a map from addresses
  to \<open>pool_ele_struct\<close>; a pointer is an address or \<open>NULL\<close> (\<open>None\<close>). Every function runs under the
  pool's mutex, so it is one transition of head and heap. An outer \<open>None\<close> is a dereference of
  \<open>NULL\<close> or of memory that is not an element.
\<close>

named_theorems rt_simps \<open>linked lists in the heap\<close>

section \<open>Model\<close>

type_synonym ptr = "nat option"

record pool_ele_struct =
  ele_type :: u32
  ele_next :: ptr

record pool_head_struct =
  rt_total_size :: int
  rt_count :: int
  rt_plen :: int
  rt_pool :: "ptr list option"
  rt_free :: ptr
  rt_active :: ptr

type_synonym heap = "nat \<rightharpoonup> pool_ele_struct"
type_synonym rt_state = "pool_head_struct \<times> heap"

definition deref :: "heap \<Rightarrow> ptr \<Rightarrow> pool_ele_struct option" where
  "deref h p = (case p of None \<Rightarrow> None | Some a \<Rightarrow> h a)"

definition set_next :: "heap \<Rightarrow> ptr \<Rightarrow> ptr \<Rightarrow> heap option" where
  "set_next h p q =
     (case p of None \<Rightarrow> None | Some a \<Rightarrow> (case h a of None \<Rightarrow> None | Some x \<Rightarrow> Some (h(a \<mapsto> x\<lparr>ele_next := q\<rparr>))))"

definition set_ele_type :: "heap \<Rightarrow> ptr \<Rightarrow> u32 \<Rightarrow> heap option" where
  "set_ele_type h p t =
     (case p of None \<Rightarrow> None | Some a \<Rightarrow> (case h a of None \<Rightarrow> None | Some x \<Rightarrow> Some (h(a \<mapsto> x\<lparr>ele_type := t\<rparr>))))"

fun init_loop :: "ptr list \<Rightarrow> heap \<Rightarrow> ptr \<Rightarrow> (heap \<times> ptr) option" where
  "init_loop [] h fr = Some (h, fr)"
| "init_loop (cur # ps) h fr =
     (if cur = None then init_loop ps h fr
      else case set_next h cur fr of None \<Rightarrow> None | Some h' \<Rightarrow> init_loop ps h' cur)"

text \<open>
  The flag tells whether the mutex was released: the early return for a missing pool keeps it.
  Only the first \<open>total_size\<close> entries of the array are read, and there must be as many.
\<close>

definition initrtpool :: "rt_state option \<Rightarrow> (int \<times> bool \<times> rt_state option) option" where
  "initrtpool st =
     (case st of
        None \<Rightarrow> Some (-1, True, st)
      | Some (head, h) \<Rightarrow>
         (case rt_pool head of
            None \<Rightarrow> Some (-1, False, st)
          | Some pool \<Rightarrow>
              if int (length pool) < rt_total_size head then None
              else (case init_loop (take (nat (rt_total_size head)) pool) h None of
                      None \<Rightarrow> None
                    | Some (h', fr) \<Rightarrow>
                        Some (0, True, Some (head\<lparr>rt_active := None, rt_free := fr, rt_count := 0\<rparr>, h')))))"

text \<open>
  \<open>mkrtpool\<close>: \<open>calls\<close> are the results of the element allocations, a \<open>None\<close> among them a failure
  (and the end). \<open>calloc(4, mem_len/4)\<close> reserves less than the \<open>mem_len\<close> bytes that \<open>memset\<close> clears
  when \<open>plen\<close> is not a multiple of four.
\<close>

fun mk_loop :: "ptr list \<Rightarrow> heap \<Rightarrow> ptr \<Rightarrow> ptr \<Rightarrow> ptr list \<Rightarrow> (ptr list option \<times> ptr \<times> heap \<times> ptr) option" where
  "mk_loop [] h fr old pool = Some (Some pool, fr, h, old)"
| "mk_loop (new # calls) h fr old pool =
     (case new of
        None \<Rightarrow> Some (None, fr, h, old)
      | Some a \<Rightarrow>
         (let h1 = h(a \<mapsto> \<lparr>ele_type = 0, ele_next = None\<rparr>) in
          if fr = None then mk_loop calls h1 new new (pool @ [new])
          else case set_next h1 old new of
                 None \<Rightarrow> None
               | Some h2 \<Rightarrow> mk_loop calls h2 fr new (pool @ [new])))"

definition mkrtpool ::
    "bool \<Rightarrow> bool \<Rightarrow> ptr list \<Rightarrow> heap \<Rightarrow> int \<Rightarrow> (int \<times> rt_state) option" where
  "mkrtpool sem_ok array_ok calls h plen =
     (let num = int (length calls);
          head = \<lparr>rt_total_size = num, rt_count = 0, rt_plen = plen, rt_pool = None, rt_free = None, rt_active = None\<rparr> in
      if \<not> sem_ok then Some (-1, head, h)
      else if \<not> array_ok then Some (-1, head, h)
      else if calls \<noteq> [] \<and> hd calls \<noteq> None \<and> (8 + plen) smod 4 \<noteq> 0 then None
      else (case mk_loop calls h None None [] of
              None \<Rightarrow> None
            | Some (None, fr, h', _) \<Rightarrow> Some (-1, head\<lparr>rt_free := fr\<rparr>, h')
            | Some (Some pool, fr, h', new) \<Rightarrow>
               (case set_next h' new None of
                  None \<Rightarrow> None
                | Some h2 \<Rightarrow>
                   (case initrtpool (Some (head\<lparr>rt_free := fr, rt_pool := Some pool\<rparr>, h2)) of
                      Some (_, _, Some st) \<Rightarrow> Some (0, st)
                    | _ \<Rightarrow> None))))"

definition get_free_eleroom :: "rt_state \<Rightarrow> (ptr \<times> rt_state) option" where
  "get_free_eleroom st =
     (let (head, h) = st; pret = rt_free head in
      if pret = None then Some (None, st)
      else case deref h pret of
             None \<Rightarrow> None
           | Some x \<Rightarrow>
              (case set_next h pret None of
                 None \<Rightarrow> None
               | Some h1 \<Rightarrow>
                  (case set_ele_type h1 pret 0 of
                     None \<Rightarrow> None
                   | Some h2 \<Rightarrow> Some (pret, head\<lparr>rt_free := ele_next x\<rparr>, h2))))"

text \<open>The loop that looks for the last active element, \<open>n\<close> rounds remaining.\<close>

fun put_loop :: "nat \<Rightarrow> rt_state \<Rightarrow> ptr \<Rightarrow> ptr \<Rightarrow> (int \<times> rt_state) option" where
  "put_loop 0 st cur active = Some (-1, st)"
| "put_loop (Suc n) st cur active =
     (let (head, h) = st in
      if rt_active head = None
      then (case set_next h active None of
              None \<Rightarrow> None
            | Some h' \<Rightarrow> Some (0, head\<lparr>rt_active := active, rt_count := 1\<rparr>, h'))
      else (case deref h cur of
              None \<Rightarrow> None
            | Some x \<Rightarrow>
                if ele_next x = None
                then (case set_next h cur active of
                        None \<Rightarrow> None
                      | Some h1 \<Rightarrow>
                         (case set_next h1 active None of
                            None \<Rightarrow> None
                          | Some h2 \<Rightarrow> Some (0, head\<lparr>rt_count := rt_count head + 1\<rparr>, h2)))
                else put_loop n st (ele_next x) active))"

definition put_active_ele :: "rt_state \<Rightarrow> ptr \<Rightarrow> (int \<times> rt_state) option" where
  "put_active_ele st active =
     (if active = None then Some (-1, st)
      else put_loop (nat (rt_total_size (fst st))) st (rt_active (fst st)) active)"

definition GET_ALL_ELE_TYPE :: u32 where "GET_ALL_ELE_TYPE = 0xffffffff"

text \<open>The search behind the first element: \<open>Some (prev, cur)\<close> when \<open>cur\<close> has the type.\<close>

fun find_loop :: "nat \<Rightarrow> heap \<Rightarrow> ptr \<Rightarrow> u32 \<Rightarrow> (ptr \<times> ptr) option option" where
  "find_loop 0 h prev t = Some None"
| "find_loop (Suc n) h prev t =
     (case deref h prev of
        None \<Rightarrow> None
      | Some x \<Rightarrow>
         (let cur = ele_next x in
          if cur = None then Some None
          else case deref h cur of
                 None \<Rightarrow> None
               | Some y \<Rightarrow> if ele_type y = t then Some (Some (prev, cur)) else find_loop n h cur t))"

definition dec_count :: "pool_head_struct \<Rightarrow> pool_head_struct" where
  "dec_count head = (if rt_count head > 0 then head\<lparr>rt_count := rt_count head - 1\<rparr> else head)"

definition get_active_type_ele :: "rt_state \<Rightarrow> u32 \<Rightarrow> (ptr \<times> rt_state) option" where
  "get_active_type_ele st t =
     (let (head, h) = st; prev = rt_active head in
      if prev = None then Some (None, st)
      else case deref h prev of
             None \<Rightarrow> None
           | Some x \<Rightarrow>
               if t = GET_ALL_ELE_TYPE \<or> ele_type x = t
               then Some (prev, dec_count (head\<lparr>rt_active := ele_next x\<rparr>), h)
               else (case find_loop (nat (rt_total_size head)) h prev t of
                       None \<Rightarrow> None
                     | Some None \<Rightarrow> Some (None, st)
                     | Some (Some (pv, cur)) \<Rightarrow>
                        (case deref h cur of
                           None \<Rightarrow> None
                         | Some y \<Rightarrow>
                            (case set_next h pv (ele_next y) of
                               None \<Rightarrow> None
                             | Some h' \<Rightarrow> Some (cur, dec_count head, h')))))"

definition get_active_ele :: "rt_state \<Rightarrow> (ptr \<times> rt_state) option" where
  "get_active_ele st = get_active_type_ele st GET_ALL_ELE_TYPE"

fun count_loop :: "nat \<Rightarrow> heap \<Rightarrow> ptr \<Rightarrow> int option" where
  "count_loop 0 h cur = Some 0"
| "count_loop (Suc n) h cur =
     (if cur = None then Some 0
      else case deref h cur of None \<Rightarrow> None | Some x \<Rightarrow> map_option ((+) 1) (count_loop n h (ele_next x)))"

definition get_pool_active_num :: "rt_state \<Rightarrow> int option" where
  "get_pool_active_num st = count_loop (nat (rt_total_size (fst st))) (snd st) (rt_active (fst st))"

definition get_pool_free_num :: "rt_state \<Rightarrow> int option" where
  "get_pool_free_num st = count_loop (nat (rt_total_size (fst st))) (snd st) (rt_free (fst st))"

definition free_ele :: "rt_state \<Rightarrow> ptr \<Rightarrow> (int \<times> rt_state) option" where
  "free_ele st ele =
     (let (head, h) = st in
      if ele = None then Some (-1, st)
      else case set_next h ele (rt_free head) of
             None \<Rightarrow> None
           | Some h1 \<Rightarrow>
              (case set_ele_type h1 ele 0 of
                 None \<Rightarrow> None
               | Some h2 \<Rightarrow> Some (0, head\<lparr>rt_free := ele\<rparr>, h2)))"

fun drop_loop :: "nat \<Rightarrow> rt_state \<Rightarrow> u32 \<Rightarrow> int \<Rightarrow> (int \<times> rt_state) option" where
  "drop_loop 0 st t ret = Some (ret, st)"
| "drop_loop (Suc n) st t ret =
     (case get_active_type_ele st t of
        None \<Rightarrow> None
      | Some (cur, st1) \<Rightarrow>
          if cur = None then Some (ret, st1)
          else (case free_ele st1 cur of
                  None \<Rightarrow> None
                | Some (rc, st2) \<Rightarrow> drop_loop n st2 t (if rc = 0 then ret + 1 else ret)))"

definition drop_ele_type :: "rt_state \<Rightarrow> u32 \<Rightarrow> int \<Rightarrow> (int \<times> rt_state) option" where
  "drop_ele_type st t num = drop_loop (nat num) st t 0"

section \<open>Lists in the heap\<close>

fun lseg :: "heap \<Rightarrow> ptr \<Rightarrow> nat list \<Rightarrow> ptr \<Rightarrow> bool" where
  "lseg h p [] q = (p = q)"
| "lseg h p (a # as) q = (p = Some a \<and> (case h a of None \<Rightarrow> False | Some x \<Rightarrow> lseg h (ele_next x) as q))"

lemma lseg_append: "lseg h p (as @ bs) q \<longleftrightarrow> (\<exists>r. lseg h p as r \<and> lseg h r bs q)"
  by (induction as arbitrary: p) (auto split: option.splits)

lemma lseg_upd [rt_simps]: "a \<notin> set as \<Longrightarrow> lseg (h(a \<mapsto> x)) p as q = lseg h p as q"
  by (induction as arbitrary: p) (auto split: option.splits)

lemma lseg_type [rt_simps]:
  "h a = Some x \<Longrightarrow> lseg (h(a \<mapsto> x\<lparr>ele_type := t\<rparr>)) p as q = lseg h p as q"
  by (induction as arbitrary: p) (auto split: option.splits)

lemma lseg_null: "lseg h None as None \<longleftrightarrow> as = []"
  by (cases as) auto

lemma lseg_mem: "lseg h p as q \<Longrightarrow> a \<in> set as \<Longrightarrow> \<exists>x. h a = Some x"
  by (induction as arbitrary: p) (auto split: option.splits)

lemma lseg_snoc_set:
  assumes "lseg h p (as @ [b]) q" "h b = Some x" "b \<notin> set as"
  shows "lseg (h(b \<mapsto> x\<lparr>ele_next := r\<rparr>)) p (as @ [b]) r"
  using assms by (auto simp: lseg_append lseg_upd)

definition ety :: "heap \<Rightarrow> nat \<Rightarrow> u32" where
  "ety h a = (case h a of None \<Rightarrow> 0 | Some x \<Rightarrow> ele_type x)"

lemma ety_upd [rt_simps]:
  "ety (h(a \<mapsto> x)) b = (if a = b then ele_type x else ety h b)"
  by (simp add: ety_def)

section \<open>Invariant\<close>

text \<open>
  \<open>rt_inv st fr ac held\<close>: the free list of the pool is \<open>fr\<close>, its active list is \<open>ac\<close>, the threads
  hold the elements \<open>held\<close>, and these are all elements, each in one place.
\<close>

definition rt_inv :: "rt_state \<Rightarrow> nat list \<Rightarrow> nat list \<Rightarrow> nat list \<Rightarrow> bool" where
  "rt_inv st fr ac held \<longleftrightarrow>
     lseg (snd st) (rt_free (fst st)) fr None \<and> lseg (snd st) (rt_active (fst st)) ac None \<and>
     distinct (fr @ ac @ held) \<and> (\<forall>a \<in> set held. snd st a \<noteq> None) \<and>
     rt_total_size (fst st) = int (length (fr @ ac @ held)) \<and> rt_count (fst st) = int (length ac)"

lemma get_free_some:
  assumes "rt_inv st (x # fr) ac held"
  shows "\<exists>st'. get_free_eleroom st = Some (Some x, st') \<and> rt_inv st' fr ac (x # held) \<and>
    (\<forall>a. a \<noteq> x \<longrightarrow> ety (snd st') a = ety (snd st) a)"
proof -
  obtain head h where st: "st = (head, h)" by (cases st)
  obtain e where e: "h x = Some e" "rt_free head = Some x" "lseg h (ele_next e) fr None"
    using assms by (auto simp: rt_inv_def st split: option.splits)
  have x: "x \<notin> set fr" "x \<notin> set ac" "x \<notin> set held" using assms by (auto simp: rt_inv_def)
  let ?h = "h(x \<mapsto> e\<lparr>ele_next := None, ele_type := 0\<rparr>)"
  have "get_free_eleroom st = Some (Some x, head\<lparr>rt_free := ele_next e\<rparr>, ?h)"
    using e by (simp add: get_free_eleroom_def st deref_def set_next_def set_ele_type_def)
  moreover have "rt_inv (head\<lparr>rt_free := ele_next e\<rparr>, ?h) fr ac (x # held)"
    using assms e x by (auto simp: rt_inv_def st lseg_upd)
  ultimately show ?thesis using st by (auto simp: ety_upd)
qed

lemma get_free_none: "rt_inv st [] ac held \<Longrightarrow> get_free_eleroom st = Some (None, st)"
  by (cases st) (simp add: rt_inv_def get_free_eleroom_def)

lemma put_loop_end:
  assumes "lseg h cur (as @ [b]) None" "h x = Some e" "x \<notin> set (as @ [b])" "distinct (as @ [b])"
    and "length as < n" "rt_active head \<noteq> None"
  shows "\<exists>y. h b = Some y \<and> put_loop n (head, h) cur (Some x) =
    Some (0, head\<lparr>rt_count := rt_count head + 1\<rparr>, h(b \<mapsto> y\<lparr>ele_next := Some x\<rparr>, x \<mapsto> e\<lparr>ele_next := None\<rparr>))"
  using assms(1,3-5)
proof (induction as arbitrary: cur n)
  case Nil
  then obtain y where y: "h b = Some y" "ele_next y = None" "cur = Some b" by (auto split: option.splits)
  obtain m where "n = Suc m" using Nil.prems(4) by (cases n) auto
  then show ?case using Nil.prems y assms(2,6) by (auto simp: deref_def set_next_def)
next
  case (Cons a as)
  then obtain y where y: "h a = Some y" "cur = Some a" "lseg h (ele_next y) (as @ [b]) None"
    by (auto split: option.splits)
  obtain m where n: "n = Suc m" using Cons.prems(4) by (cases n) auto
  have "ele_next y \<noteq> None" using y(3) by (cases as) auto
  then have "put_loop n (head, h) cur (Some x) = put_loop m (head, h) (ele_next y) (Some x)"
    using y n assms(6) by (auto simp: deref_def)
  then show ?case using Cons.IH [OF y(3), of m] Cons.prems n by auto
qed

lemma int_length_remove1: "x \<in> set xs \<Longrightarrow> int (length xs) = 1 + int (length (remove1 x xs))"
  using length_pos_if_in_set [of x xs] by (simp add: length_remove1 of_nat_diff Suc_le_eq)

lemma put_active_step:
  assumes "rt_inv st fr ac held" "x \<in> set held"
  shows "\<exists>st'. put_active_ele st (Some x) = Some (0, st') \<and> rt_inv st' fr (ac @ [x]) (remove1 x held) \<and>
    ety (snd st') = ety (snd st)"
proof -
  obtain head h where st: "st = (head, h)" by (cases st)
  obtain e where e: "h x = Some e" using assms by (auto simp: rt_inv_def st)
  have x: "x \<notin> set fr" "x \<notin> set ac" "x \<notin> set (remove1 x held)" using assms by (auto simp: rt_inv_def)
  have len: "int (length held) = 1 + int (length (remove1 x held))" "0 < length held"
    using assms(2) by (auto simp: int_length_remove1 length_pos_if_in_set)
  have sub: "set (remove1 x held) \<subseteq> set held" by (rule set_remove1_subset)
  have n: "nat (rt_total_size head) = length fr + length ac + length held" using assms(1) by (simp add: rt_inv_def st)
  show ?thesis
  proof (cases ac rule: rev_cases)
    case Nil
    let ?st = "(head\<lparr>rt_active := Some x, rt_count := 1\<rparr>, h(x \<mapsto> e\<lparr>ele_next := None\<rparr>))"
    have act: "rt_active head = None" using Nil assms(1) by (simp add: rt_inv_def st)
    have "0 < nat (rt_total_size head)" using n len(2) by simp
    then obtain m where m: "nat (rt_total_size head) = Suc m" unfolding gr0_conv_Suc by blast
    have "put_active_ele st (Some x) = Some (0, ?st)"
      using act e by (simp add: put_active_ele_def st m set_next_def)
    moreover have "rt_inv ?st fr (ac @ [x]) (remove1 x held)"
      using Nil assms(1) e x len sub by (auto simp: rt_inv_def st lseg_upd)
    ultimately show ?thesis using e st by (auto simp: fun_eq_iff ety_def)
  next
    case (snoc as b)
    have act: "lseg h (rt_active head) (as @ [b]) None" "rt_active head \<noteq> None" "distinct (as @ [b])" "b \<notin> set fr" "b \<notin> set held"
      using assms(1) snoc by (auto simp: rt_inv_def st lseg_append) (cases as; auto)+
    obtain y where y: "h b = Some y" "put_active_ele st (Some x) =
        Some (0, head\<lparr>rt_count := rt_count head + 1\<rparr>, h(b \<mapsto> y\<lparr>ele_next := Some x\<rparr>, x \<mapsto> e\<lparr>ele_next := None\<rparr>))"
      using put_loop_end [OF act(1) e _ act(3) _ act(2), of "nat (rt_total_size head)"] x snoc n len(2)
      by (auto simp: put_active_ele_def st)
    let ?h = "h(b \<mapsto> y\<lparr>ele_next := Some x\<rparr>, x \<mapsto> e\<lparr>ele_next := None\<rparr>)"
    have "lseg ?h (rt_active head) ((as @ [b]) @ [x]) None"
      using lseg_snoc_set [OF act(1) y(1), of "Some x"] act(3) x snoc
      by (subst lseg_append) (auto simp: lseg_upd)
    moreover have "lseg ?h (rt_free head) fr None" using assms(1) act x by (simp add: rt_inv_def st lseg_upd)
    ultimately have "rt_inv (head\<lparr>rt_count := rt_count head + 1\<rparr>, ?h) fr (ac @ [x]) (remove1 x held)"
      using assms(1) x len sub snoc by (auto simp: rt_inv_def st)
    then show ?thesis using y e st by (auto simp: fun_eq_iff ety_def)
  qed
qed

text \<open>The search: \<open>p\<close> is the element before \<open>rest\<close>.\<close>

lemma find_loop_none:
  assumes "lseg h (Some p) (p # rest) None" "\<forall>a \<in> set rest. ety h a \<noteq> t" "length rest < n"
  shows "find_loop n h (Some p) t = Some None"
  using assms
proof (induction rest arbitrary: p n)
  case Nil
  then show ?case by (cases n) (auto simp: deref_def split: option.splits)
next
  case (Cons a rest)
  obtain m where n: "n = Suc m" using Cons.prems(3) by (cases n) auto
  obtain x y where x: "h p = Some x" "ele_next x = Some a" "h a = Some y" "lseg h (Some a) (a # rest) None"
    using Cons.prems(1) by (auto split: option.splits)
  have "ele_type y \<noteq> t" using Cons.prems(2) x(3) by (auto simp: ety_def)
  then have "find_loop n h (Some p) t = find_loop m h (Some a) t" using x n by (simp add: deref_def)
  then show ?case using Cons.IH [OF x(4), of m] Cons.prems n by simp
qed

lemma find_loop_some:
  assumes "lseg h (Some p) (p # as @ c # bs) None" "\<forall>a \<in> set as. ety h a \<noteq> t" "ety h c = t" "length as < n"
  shows "find_loop n h (Some p) t = Some (Some (Some (last (p # as)), Some c))"
  using assms
proof (induction as arbitrary: p n)
  case Nil
  then show ?case by (cases n) (auto simp: deref_def ety_def split: option.splits)
next
  case (Cons a as)
  obtain m where n: "n = Suc m" using Cons.prems(4) by (cases n) auto
  obtain x y where x: "h p = Some x" "ele_next x = Some a" "h a = Some y" "lseg h (Some a) (a # as @ c # bs) None"
    using Cons.prems(1) by (auto split: option.splits)
  have "ele_type y \<noteq> t" using Cons.prems(2) x(3) by (auto simp: ety_def)
  then have "find_loop n h (Some p) t = find_loop m h (Some a) t" using x n by (simp add: deref_def)
  then show ?case using Cons.IH [OF x(4), of m] Cons.prems n by simp
qed

text \<open>Taking out the first element of a type; every element counts for the type \<open>GET_ALL_ELE_TYPE\<close>.\<close>

definition of_type :: "heap \<Rightarrow> u32 \<Rightarrow> nat \<Rightarrow> bool" where
  "of_type h t a \<longleftrightarrow> t = GET_ALL_ELE_TYPE \<or> ety h a = t"

lemma get_type_none:
  assumes "rt_inv st fr ac held" "\<forall>a \<in> set ac. \<not> of_type (snd st) t a"
  shows "get_active_type_ele st t = Some (None, st)"
proof -
  obtain head h where st: "st = (head, h)" by (cases st)
  show ?thesis
  proof (cases ac)
    case Nil
    then show ?thesis using assms(1) by (simp add: rt_inv_def get_active_type_ele_def st)
  next
    case (Cons p rest)
    obtain x where x: "rt_active head = Some p" "h p = Some x" "lseg h (Some p) (p # rest) None"
      using assms(1) Cons by (auto simp: rt_inv_def st split: option.splits)
    have "length rest < nat (rt_total_size head)" using assms(1) Cons by (simp add: rt_inv_def st)
    then have "find_loop (nat (rt_total_size head)) h (Some p) t = Some None"
      using find_loop_none [OF x(3)] assms(2) Cons by (auto simp: of_type_def st)
    moreover have "t \<noteq> GET_ALL_ELE_TYPE" "ele_type x \<noteq> t"
      using assms(2) Cons x(2) by (auto simp: of_type_def st ety_def)
    ultimately show ?thesis using x by (simp add: get_active_type_ele_def st deref_def)
  qed
qed

lemma get_type_some:
  assumes "rt_inv st fr (as @ x # bs) held" "\<forall>a \<in> set as. \<not> of_type (snd st) t a" "of_type (snd st) t x"
  shows "\<exists>st'. get_active_type_ele st t = Some (Some x, st') \<and> rt_inv st' fr (as @ bs) (x # held) \<and>
    ety (snd st') = ety (snd st)"
proof -
  obtain head h where st: "st = (head, h)" by (cases st)
  have cnt: "rt_count head > 0" using assms(1) by (simp add: rt_inv_def st)
  show ?thesis
  proof (cases as)
    case Nil
    obtain e where e: "rt_active head = Some x" "h x = Some e" "lseg h (ele_next e) bs None"
      using assms(1) Nil by (auto simp: rt_inv_def st split: option.splits)
    have "t = GET_ALL_ELE_TYPE \<or> ele_type e = t" using assms(3) e(2) by (auto simp: of_type_def st ety_def)
    then have "get_active_type_ele st t = Some (Some x, dec_count (head\<lparr>rt_active := ele_next e\<rparr>), h)"
      using e by (simp add: get_active_type_ele_def st deref_def)
    then show ?thesis using assms(1) e cnt Nil by (auto simp: rt_inv_def st dec_count_def)
  next
    case (Cons p as')
    obtain e where e: "rt_active head = Some p" "h p = Some e" "lseg h (Some p) (p # as' @ x # bs) None"
      using assms(1) Cons by (auto simp: rt_inv_def st split: option.splits)
    have tp: "t \<noteq> GET_ALL_ELE_TYPE" "ele_type e \<noteq> t" "ety h x = t" "\<forall>a \<in> set as'. ety h a \<noteq> t"
      using assms(2,3) Cons e(2) by (auto simp: of_type_def st ety_def)
    have "length as' < nat (rt_total_size head)" using assms(1) Cons by (simp add: rt_inv_def st)
    then have f: "find_loop (nat (rt_total_size head)) h (Some p) t = Some (Some (Some (last as), Some x))"
      using find_loop_some [OF e(3) tp(4,3)] Cons by simp
    obtain cs l where l: "as = cs @ [l]" using Cons by (metis append_butlast_last_id list.distinct(1))
    have seg: "lseg h (rt_active head) ((cs @ [l]) @ x # bs) None" using assms(1) l by (simp add: rt_inv_def st)
    then obtain y z where y: "h l = Some y" "h x = Some z" "lseg h (rt_active head) (cs @ [l]) (Some x)" "lseg h (ele_next z) bs None"
      by (auto simp: lseg_append split: option.splits)
    have d: "l \<notin> set cs" "l \<notin> set bs" "l \<notin> set fr" using assms(1) l by (auto simp: rt_inv_def)
    let ?h = "h(l \<mapsto> y\<lparr>ele_next := ele_next z\<rparr>)"
    have g: "get_active_type_ele st t = Some (Some x, dec_count head, ?h)"
      using e f tp y l by (simp add: get_active_type_ele_def st deref_def set_next_def)
    have "lseg ?h (rt_active head) ((cs @ [l]) @ bs) None"
      using lseg_snoc_set [OF y(3,1) d(1), of "ele_next z"] y(4) d(2) unfolding lseg_append by (auto simp: lseg_upd)
    then have "rt_inv (dec_count head, ?h) fr (as @ bs) (x # held)"
      using assms(1) cnt d l y by (auto simp: rt_inv_def st dec_count_def lseg_upd)
    then show ?thesis using g y st by (auto simp: fun_eq_iff ety_def)
  qed
qed

lemma free_ele_step:
  assumes "rt_inv st fr ac held" "x \<in> set held"
  shows "\<exists>st'. free_ele st (Some x) = Some (0, st') \<and> rt_inv st' (x # fr) ac (remove1 x held) \<and>
    (\<forall>a. a \<noteq> x \<longrightarrow> ety (snd st') a = ety (snd st) a)"
proof -
  obtain head h where st: "st = (head, h)" by (cases st)
  obtain e where e: "h x = Some e" using assms by (auto simp: rt_inv_def st)
  have x: "x \<notin> set fr" "x \<notin> set ac" "x \<notin> set (remove1 x held)" using assms by (auto simp: rt_inv_def)
  have len: "int (length held) = 1 + int (length (remove1 x held))" "0 < length held"
    using assms(2) by (auto simp: int_length_remove1 length_pos_if_in_set)
  have sub: "set (remove1 x held) \<subseteq> set held" by (rule set_remove1_subset)
  let ?h = "h(x \<mapsto> e\<lparr>ele_next := rt_free head, ele_type := 0\<rparr>)"
  have "free_ele st (Some x) = Some (0, head\<lparr>rt_free := Some x\<rparr>, ?h)"
    using e by (simp add: free_ele_def st set_next_def set_ele_type_def)
  moreover have "rt_inv (head\<lparr>rt_free := Some x\<rparr>, ?h) (x # fr) ac (remove1 x held)"
    using assms(1) x len sub by (auto simp: rt_inv_def st lseg_upd)
  ultimately show ?thesis using st by (auto simp: ety_upd)
qed

lemma count_loop_list: "lseg h p as None \<Longrightarrow> length as \<le> n \<Longrightarrow> count_loop n h p = Some (int (length as))"
proof (induction as arbitrary: p n)
  case Nil
  then show ?case by (cases n) simp_all
next
  case (Cons a as)
  obtain m where n: "n = Suc m" using Cons.prems(2) by (cases n) auto
  obtain x where "h a = Some x" "p = Some a" "lseg h (ele_next x) as None" using Cons.prems(1) by (auto split: option.splits)
  then show ?case using Cons.IH [of "ele_next x" m] Cons.prems(2) n by (simp add: deref_def)
qed

lemma pool_nums:
  assumes "rt_inv st fr ac held"
  shows "get_pool_active_num st = Some (int (length ac))" "get_pool_free_num st = Some (int (length fr))"
  using assms count_loop_list [of "snd st" "rt_active (fst st)" ac "nat (rt_total_size (fst st))"]
    count_loop_list [of "snd st" "rt_free (fst st)" fr "nat (rt_total_size (fst st))"]
  by (auto simp: rt_inv_def get_pool_active_num_def get_pool_free_num_def)

end
