(* ===== verification/Rt_Props.thy ===== *)
theory Rt_Props
  imports Rt_Pool
begin

text \<open>
  Properties of the element pool: creation, dropping elements of a type, the pool as two lists,
  and the invariant of every state that threads can reach by taking, passing on and returning
  elements in any order.
\<close>

section \<open>Creation\<close>

lemma init_loop_list:
  assumes "lseg h p fs None" "distinct (as @ fs)" "\<forall>a \<in> set as. h a \<noteq> None"
  shows "\<exists>h' q. init_loop (map Some as) h p = Some (h', q) \<and> lseg h' q (rev as @ fs) None"
  using assms
proof (induction as arbitrary: h p fs)
  case (Cons a as)
  obtain x where x: "h a = Some x" using Cons.prems(3) by auto
  let ?h = "h(a \<mapsto> x\<lparr>ele_next := p\<rparr>)"
  have l: "lseg ?h (Some a) (a # fs) None" using Cons.prems(1,2) by (simp add: lseg_upd)
  have d: "distinct (as @ a # fs)" "\<forall>b \<in> set as. ?h b \<noteq> None" using Cons.prems by auto
  from Cons.IH [of ?h "Some a" "a # fs", OF l d] obtain h' q
    where "init_loop (map Some as) ?h (Some a) = Some (h', q)" "lseg h' q (rev as @ a # fs) None" by blast
  then show ?case using x by (simp add: set_next_def)
qed simp

lemma mk_loop_list:
  assumes "fr \<noteq> None \<longrightarrow> (\<exists>a x. old = Some a \<and> h a = Some x)"
  shows "\<exists>fr' h'. mk_loop (map Some as) h fr old pool =
      Some (Some (pool @ map Some as), fr', h', if as = [] then old else Some (last as)) \<and>
    (\<forall>a. a \<in> set as \<or> h a \<noteq> None \<longrightarrow> h' a \<noteq> None)"
  using assms
proof (induction as arbitrary: h fr old pool)
  case (Cons a as)
  let ?h = "h(a \<mapsto> \<lparr>ele_type = 0, ele_next = None\<rparr>)"
  obtain h2 where h2: "mk_loop (map Some (a # as)) h fr old pool =
      mk_loop (map Some as) h2 (if fr = None then Some a else fr) (Some a) (pool @ [Some a])"
    "\<forall>b. ?h b \<noteq> None \<longrightarrow> h2 b \<noteq> None"
  proof (cases "fr = None")
    case True
    then show ?thesis using that [of ?h] by simp
  next
    case False
    then obtain b x where b: "old = Some b" "h b = Some x" using Cons.prems by auto
    then obtain y where "?h b = Some y" by (cases "b = a") auto
    then have "set_next ?h old (Some a) = Some (?h(b \<mapsto> y\<lparr>ele_next := Some a\<rparr>))"
      using b by (simp only: set_next_def option.case)
    then show ?thesis using that [of "?h(b \<mapsto> y\<lparr>ele_next := Some a\<rparr>)"] False by (simp add: Let_def)
  qed
  have keep: "h b \<noteq> None \<or> b = a \<Longrightarrow> h2 b \<noteq> None" for b using h2(2) by auto
  then have "\<exists>b x. Some a = Some b \<and> h2 b = Some x" by auto
  then obtain fr' h' where "mk_loop (map Some as) h2 (if fr = None then Some a else fr) (Some a) (pool @ [Some a]) =
      Some (Some ((pool @ [Some a]) @ map Some as), fr', h', if as = [] then Some a else Some (last as))"
    "\<forall>b. b \<in> set as \<or> h2 b \<noteq> None \<longrightarrow> h' b \<noteq> None"
    using Cons.IH [where fr = "if fr = None then Some a else fr" and old = "Some a" and h = h2 and pool = "pool @ [Some a]"]
    by blast
  then show ?case using h2(1) keep by (intro exI [of _ fr'] exI [of _ h']) auto
qed simp

lemma mkrtpool_inv:
  assumes "as \<noteq> []" "distinct as" "(8 + plen) smod 4 = 0"
  shows "\<exists>st. mkrtpool True True (map Some as) h plen = Some (0, st) \<and> rt_inv st (rev as) [] []"
proof -
  obtain fr h1 where h1: "mk_loop (map Some as) h None None [] = Some (Some (map Some as), fr, h1, Some (last as))"
    "\<forall>a \<in> set as. h1 a \<noteq> None" using mk_loop_list [of None None h as "[]"] assms(1) by auto
  then obtain x where x: "h1 (last as) = Some x" using last_in_set [OF assms(1)] by blast
  let ?h = "h1(last as \<mapsto> x\<lparr>ele_next := None\<rparr>)"
  have "\<forall>a \<in> set as. ?h a \<noteq> None" using h1(2) by simp
  then obtain h' q where q: "init_loop (map Some as) ?h None = Some (h', q)" "lseg h' q (rev as) None"
    using init_loop_list [of ?h None "[]" as] assms(2) by auto
  show ?thesis using h1(1) x q assms by (simp add: mkrtpool_def set_next_def initrtpool_def rt_inv_def Let_def)
qed

section \<open>Dropping elements of a type\<close>

fun drop_first :: "nat \<Rightarrow> ('a \<Rightarrow> bool) \<Rightarrow> 'a list \<Rightarrow> 'a list" where
  "drop_first (Suc n) P (x # xs) = (if P x then drop_first n P xs else x # drop_first (Suc n) P xs)"
| "drop_first n P xs = xs"

lemma drop_first_0 [simp]: "drop_first 0 P xs = xs"
  by (cases xs) simp_all

lemma drop_first_none: "\<forall>x \<in> set xs. \<not> P x \<Longrightarrow> drop_first n P xs = xs"
  by (induction xs; cases n) auto

lemma drop_first_skip: "\<forall>x \<in> set as. \<not> P x \<Longrightarrow> drop_first n P (as @ bs) = as @ drop_first n P bs"
  by (induction as; cases n) auto

lemma drop_first_cong: "\<forall>x \<in> set xs. P x = Q x \<Longrightarrow> drop_first n P xs = drop_first n Q xs"
  by (induction n P xs rule: drop_first.induct) auto

lemma first_split:
  assumes "\<exists>x \<in> set xs. P x"
  obtains as x bs where "xs = as @ x # bs" "\<forall>a \<in> set as. \<not> P a" "P x"
  using split_list_first_prop [OF assms] by blast

lemma drop_loop_step:
  assumes "rt_inv st fr ac held"
  shows "\<exists>st' fr'. drop_loop n st t ret = Some (ret + int (min n (length (filter (of_type (snd st) t) ac))), st') \<and>
    rt_inv st' fr' (drop_first n (of_type (snd st) t) ac) held \<and> rt_total_size (fst st') = rt_total_size (fst st)"
  using assms
proof (induction n arbitrary: st fr ac ret)
  case (Suc n)
  let ?P = "of_type (snd st) t"
  show ?case
  proof (cases "\<exists>x \<in> set ac. ?P x")
    case False
    then have "get_active_type_ele st t = Some (None, st)" using get_type_none [OF Suc.prems] by simp
    moreover have "filter ?P ac = []" using False by (simp add: filter_empty_conv)
    ultimately show ?thesis using Suc.prems False drop_first_none [of ac ?P "Suc n"] by auto
  next
    case True
    then obtain as x bs where ac: "ac = as @ x # bs" "\<forall>a \<in> set as. \<not> ?P a" "?P x" by (rule first_split)
    obtain st1 where st1: "get_active_type_ele st t = Some (Some x, st1)" "rt_inv st1 fr (as @ bs) (x # held)"
      "ety (snd st1) = ety (snd st)" using get_type_some [OF Suc.prems [unfolded ac(1)] ac(2,3)] by blast
    obtain st2 where st2: "free_ele st1 (Some x) = Some (0, st2)" "rt_inv st2 (x # fr) (as @ bs) held"
      "\<forall>a. a \<noteq> x \<longrightarrow> ety (snd st2) a = ety (snd st1) a" using free_ele_step [OF st1(2), of x] by auto
    have tot: "rt_total_size (fst st2) = rt_total_size (fst st)"
      using Suc.prems st2(2) ac(1) by (simp add: rt_inv_def)
    have same: "\<forall>a \<in> set (as @ bs). of_type (snd st2) t a = ?P a"
      using st1(2,3) st2(3) by (auto simp: rt_inv_def of_type_def)
    have f: "filter (of_type (snd st2) t) (as @ bs) = filter ?P (as @ bs)" using same by (intro filter_cong) auto
    have d: "drop_first n (of_type (snd st2) t) (as @ bs) = drop_first (Suc n) ?P ac"
      using drop_first_cong [OF same, of n] drop_first_skip [OF ac(2)] ac by simp
    have "filter ?P as = []" using ac(2) by (simp add: filter_empty_conv)
    then have "drop_loop (Suc n) st t ret = drop_loop n st2 t (ret + 1)"
      "length (filter ?P ac) = Suc (length (filter ?P (as @ bs)))" using st1(1) st2(1) ac by simp_all
    then show ?thesis using Suc.IH [OF st2(2), of "ret + 1"] unfolding f d tot by auto
  qed
qed auto

section \<open>Threads\<close>

text \<open>
  One call of a thread, together with the elements that threads hold. A thread passes on or
  returns only elements it got and did not give away. \<open>drop_ele_type\<close> gives the mutex back between its calls
  of \<open>get_active_type_ele\<close> and \<open>free_ele\<close>: undisturbed it is the last rule; when other threads come in between, it
  is a sequence of the rules \<open>getact\<close> and \<open>free\<close>, with the element held by its thread meanwhile.
\<close>

inductive rt_step :: "rt_state \<times> nat list \<Rightarrow> rt_state \<times> nat list \<Rightarrow> bool" where
  getfree: "get_free_eleroom st = Some (Some x, st') \<Longrightarrow> rt_step (st, held) (st', x # held)"
| putact: "x \<in> set held \<Longrightarrow> put_active_ele st (Some x) = Some (rc, st') \<Longrightarrow> rt_step (st, held) (st', remove1 x held)"
| getact: "get_active_type_ele st t = Some (Some x, st') \<Longrightarrow> rt_step (st, held) (st', x # held)"
| free: "x \<in> set held \<Longrightarrow> free_ele st (Some x) = Some (rc, st') \<Longrightarrow> rt_step (st, held) (st', remove1 x held)"
| dropt: "drop_ele_type st t num = Some (n, st') \<Longrightarrow> rt_step (st, held) (st', held)"

definition rt_good :: "nat \<Rightarrow> rt_state \<times> nat list \<Rightarrow> bool" where
  "rt_good n s \<longleftrightarrow> (\<exists>fr ac. rt_inv (fst s) fr ac (snd s) \<and> length (fr @ ac @ snd s) = n)"

lemma rt_goodI: "rt_inv st fr ac held \<Longrightarrow> length (fr @ ac @ held) = n \<Longrightarrow> rt_good n (st, held)"
  by (auto simp: rt_good_def)

lemma getact_inv:
  assumes "rt_inv st fr ac held" "get_active_type_ele st t = Some (Some x, st')"
  shows "\<exists>ac'. rt_inv st' fr ac' (x # held) \<and> length ac = Suc (length ac')"
proof (cases "\<exists>y \<in> set ac. of_type (snd st) t y")
  case True
  then obtain as y bs where ac: "ac = as @ y # bs" "\<forall>a \<in> set as. \<not> of_type (snd st) t a" "of_type (snd st) t y"
    by (rule first_split)
  then show ?thesis using get_type_some [OF assms(1) [unfolded ac(1)] ac(2,3)] assms(2) by auto
next
  case False
  then show ?thesis using get_type_none [OF assms(1)] assms(2) by auto
qed

lemma getfree_inv:
  assumes "rt_inv st fr ac held" "get_free_eleroom st = Some (Some x, st')"
  shows "\<exists>fr'. fr = x # fr' \<and> rt_inv st' fr' ac (x # held)"
proof (cases fr)
  case Nil
  then show ?thesis using assms get_free_none [of st ac held] by simp
next
  case (Cons y fr')
  then show ?thesis using assms(2) get_free_some [OF assms(1) [unfolded Cons]] by auto
qed

lemma length_remove1_Suc: "x \<in> set xs \<Longrightarrow> length xs = Suc (length (remove1 x xs))"
  using int_length_remove1 [of x xs] by linarith

lemma rt_step_good:
  assumes "rt_step s s'" "rt_good n s"
  shows "rt_good n s'"
proof -
  obtain fr ac where i: "rt_inv (fst s) fr ac (snd s)" "length (fr @ ac @ snd s) = n"
    using assms(2) by (auto simp: rt_good_def)
  from assms(1) show ?thesis
  proof cases
    case (getfree st x st' held)
    then obtain fr' where "fr = x # fr'" "rt_inv st' fr' ac (x # held)" using getfree_inv [of st fr ac held x st'] i by auto
    then show ?thesis using getfree i rt_goodI [of st' fr' ac "x # held" n] by simp
  next
    case (putact x held st rc st')
    then obtain st1 where "put_active_ele st (Some x) = Some (0, st1)" "rt_inv st1 fr (ac @ [x]) (remove1 x held)"
      using put_active_step [of st fr ac held x] i by auto
    then show ?thesis using putact i(2) length_remove1_Suc [of x held]
      rt_goodI [of st1 fr "ac @ [x]" "remove1 x held" n] by simp
  next
    case (getact st t x st' held)
    then obtain ac' where "rt_inv st' fr ac' (x # held)" "length ac = Suc (length ac')"
      using getact_inv [of st fr ac held t x st'] i by auto
    then show ?thesis using getact i rt_goodI [of st' fr ac' "x # held" n] by simp
  next
    case (free x held st rc st')
    then obtain st1 where "free_ele st (Some x) = Some (0, st1)" "rt_inv st1 (x # fr) ac (remove1 x held)"
      using free_ele_step [of st fr ac held x] i by auto
    then show ?thesis using free i(2) length_remove1_Suc [of x held]
      rt_goodI [of st1 "x # fr" ac "remove1 x held" n] by simp
  next
    case (dropt st t num k st' held)
    then obtain fr' ac' where "rt_inv st' fr' ac' held" "rt_total_size (fst st') = rt_total_size (fst st)"
      using drop_loop_step [of st fr ac held "nat num" t 0] i by (auto simp: drop_ele_type_def)
    then show ?thesis using i dropt rt_goodI [of st' fr' ac' held n] by (simp add: rt_inv_def)
  qed
qed

lemma rt_reach_good: "rt_step\<^sup>*\<^sup>* s s' \<Longrightarrow> rt_good n s \<Longrightarrow> rt_good n s'"
  by (induction rule: rtranclp_induct) (auto intro: rt_step_good)

section \<open>Properties\<close>

lemma get_type_first:
  assumes "rt_inv st fr ac held"
  shows "case dropWhile (\<lambda>a. \<not> of_type (snd st) t a) ac of
      [] \<Rightarrow> get_active_type_ele st t = Some (None, st)
    | y # bs \<Rightarrow> \<exists>st'. get_active_type_ele st t = Some (Some y, st') \<and>
        rt_inv st' fr (takeWhile (\<lambda>a. \<not> of_type (snd st) t a) ac @ bs) (y # held)"
proof (cases "dropWhile (\<lambda>a. \<not> of_type (snd st) t a) ac")
  case Nil
  then have "\<forall>a \<in> set ac. \<not> of_type (snd st) t a" by (simp add: dropWhile_eq_Nil_conv)
  then show ?thesis unfolding Nil using get_type_none [OF assms] by simp
next
  case (Cons y bs)
  let ?as = "takeWhile (\<lambda>a. \<not> of_type (snd st) t a) ac"
  have "ac = ?as @ y # bs" using takeWhile_dropWhile_id [of "\<lambda>a. \<not> of_type (snd st) t a" ac] Cons by simp
  moreover have "of_type (snd st) t y" using Cons by (simp add: dropWhile_eq_Cons_conv)
  moreover have "\<forall>a \<in> set ?as. \<not> of_type (snd st) t a" using set_takeWhileD by metis
  ultimately show ?thesis using get_type_some [of st fr ?as y bs held t] assms Cons by auto
qed

lemma get_first_active:
  assumes "rt_inv st fr ac held"
  shows "case ac of [] \<Rightarrow> get_active_ele st = Some (None, st)
    | y # ac' \<Rightarrow> \<exists>st'. get_active_ele st = Some (Some y, st') \<and> rt_inv st' fr ac' (y # held)"
  using get_type_first [OF assms, of GET_ALL_ELE_TYPE] by (cases ac) (simp_all add: get_active_ele_def of_type_def)

lemma get_first_free:
  assumes "rt_inv st fr ac held"
  shows "case fr of [] \<Rightarrow> get_free_eleroom st = Some (None, st)
    | y # fr' \<Rightarrow> \<exists>st'. get_free_eleroom st = Some (Some y, st') \<and> rt_inv st' fr' ac (y # held)"
proof (cases fr)
  case Nil
  then show ?thesis using assms get_free_none by simp
next
  case (Cons y fr')
  then show ?thesis using get_free_some [OF assms [unfolded Cons]] by auto
qed

text \<open>
  C31. The pool refines two lists and the elements in the hands of the threads: with free list
  \<open>fr\<close>, active list \<open>ac\<close> and held elements \<open>held\<close>, \<open>get_free_eleroom\<close> hands out the first free
  element or \<open>NULL\<close> when there is none, \<open>get_active_ele\<close> the first active one, \<open>get_active_type_ele\<close> the first active
  one of the type, \<open>put_active_ele\<close> appends a held element to the active list,
  \<open>free_ele\<close> puts it in front of the free list, \<open>drop_ele_type\<close>, when no other thread comes between its
  calls, takes the first \<open>num\<close> active elements of a type out and returns their number, and
  \<open>get_pool_active_num\<close> and \<open>get_pool_free_num\<close> return the lengths of the lists. No call dereferences
  \<open>NULL\<close>. A new pool has all elements free and none held.
\<close>

theorem rtpool_refines_lists:
  assumes "rt_inv st fr ac held"
  shows "(case fr of
      [] \<Rightarrow> get_free_eleroom st = Some (None, st)
    | y # fr' \<Rightarrow> \<exists>st'. get_free_eleroom st = Some (Some y, st') \<and> rt_inv st' fr' ac (y # held)) \<and>
    (case ac of
      [] \<Rightarrow> get_active_ele st = Some (None, st)
    | y # ac' \<Rightarrow> \<exists>st'. get_active_ele st = Some (Some y, st') \<and> rt_inv st' fr ac' (y # held)) \<and>
    (case dropWhile (\<lambda>a. \<not> of_type (snd st) t a) ac of
      [] \<Rightarrow> get_active_type_ele st t = Some (None, st)
    | y # bs \<Rightarrow> \<exists>st'. get_active_type_ele st t = Some (Some y, st') \<and>
        rt_inv st' fr (takeWhile (\<lambda>a. \<not> of_type (snd st) t a) ac @ bs) (y # held)) \<and>
    (\<forall>x \<in> set held. \<exists>st'. put_active_ele st (Some x) = Some (0, st') \<and> rt_inv st' fr (ac @ [x]) (remove1 x held)) \<and>
    (\<forall>x \<in> set held. \<exists>st'. free_ele st (Some x) = Some (0, st') \<and> rt_inv st' (x # fr) ac (remove1 x held)) \<and>
    (\<exists>st' fr'. drop_ele_type st t num =
        Some (int (min (nat num) (length (filter (of_type (snd st) t) ac))), st') \<and>
      rt_inv st' fr' (drop_first (nat num) (of_type (snd st) t) ac) held) \<and>
    get_pool_active_num st = Some (int (length ac)) \<and> get_pool_free_num st = Some (int (length fr))"
proof (intro conjI get_first_free get_first_active get_type_first ballI pool_nums [OF assms] assms)
  show "\<exists>st'. put_active_ele st (Some x) = Some (0, st') \<and> rt_inv st' fr (ac @ [x]) (remove1 x held)" if "x \<in> set held" for x
    using put_active_step [OF assms that] by blast
  show "\<exists>st'. free_ele st (Some x) = Some (0, st') \<and> rt_inv st' (x # fr) ac (remove1 x held)" if "x \<in> set held" for x
    using free_ele_step [OF assms that] by blast
  show "\<exists>st' fr'. drop_ele_type st t num =
        Some (int (min (nat num) (length (filter (of_type (snd st) t) ac))), st') \<and>
      rt_inv st' fr' (drop_first (nat num) (of_type (snd st) t) ac) held"
    using drop_loop_step [OF assms, of "nat num" t 0] by (auto simp: drop_ele_type_def)
qed

theorem rtpool_refines_lists_witness:
  "\<exists>st st1 st2. mkrtpool True True [Some 10, Some 20] Map.empty 4 = Some (0, st) \<and>
     get_free_eleroom st = Some (Some 20, st1) \<and> put_active_ele st1 (Some 20) = Some (0, st2) \<and>
     rt_inv st2 [10] [20] []"
proof -
  obtain st where st: "mkrtpool True True (map Some [10, 20]) Map.empty 4 = Some (0, st)" "rt_inv st (rev [10, 20]) [] []"
    using mkrtpool_inv [of "[10, 20]" 4 Map.empty] by (auto simp: signed_modulo_int_def signed_divide_int_def)
  have i: "rt_inv st [20, 10] [] []" using st(2) by simp
  obtain st1 where st1: "get_free_eleroom st = Some (Some 20, st1)" "rt_inv st1 [10] [] [20]"
    using conjunct1 [OF rtpool_refines_lists [OF i, of 0 0]] by auto
  obtain st2 where "put_active_ele st1 (Some 20) = Some (0, st2)" "rt_inv st2 [10] [20] []"
    using rtpool_refines_lists [OF st1(2), of 0 0] by auto
  then show ?thesis using st(1) st1(1) by (intro exI [of _ st] exI [of _ st1] exI [of _ st2]) simp
qed

text \<open>
  C32. No element is lost or duplicated, and the pool never jams: in every state that any number
  of threads reach from a new pool of \<open>n\<close> elements, the free count, the active count and the held
  elements add up to \<open>n\<close>, \<open>count\<close> is the length of the active list, and as long as the threads do
  not hold all \<open>n\<close> elements one of \<open>get_free_eleroom\<close> and \<open>get_active_ele\<close> returns an element.
\<close>

theorem rtpool_conserves_elements:
  assumes "as \<noteq> []" "distinct as" "(8 + plen) smod 4 = 0"
    and "mkrtpool True True (map Some as) h plen = Some (0, st0)" "rt_step\<^sup>*\<^sup>* (st0, []) (st, held)"
  shows "\<exists>f a. get_pool_free_num st = Some f \<and> get_pool_active_num st = Some a \<and>
    f + a + int (length held) = int (length as) \<and> rt_count (fst st) = a \<and> distinct held \<and>
    (length held < length as \<longrightarrow>
       (\<exists>x st'. get_free_eleroom st = Some (Some x, st')) \<or> (\<exists>x st'. get_active_ele st = Some (Some x, st')))"
proof -
  have "rt_inv st0 (rev as) [] []" using mkrtpool_inv [OF assms(1-3), of h] assms(4) by auto
  then have "rt_good (length as) (st0, [])" by (rule rt_goodI) simp
  then obtain fr ac where i: "rt_inv st fr ac held" "length (fr @ ac @ held) = length as"
    using rt_reach_good [OF assms(5), of "length as"] unfolding rt_good_def fst_conv snd_conv by blast
  have live: "(\<exists>x st'. get_free_eleroom st = Some (Some x, st')) \<or> (\<exists>x st'. get_active_ele st = Some (Some x, st'))"
    if short: "length held < length as"
  proof (cases fr)
    case Nil
    then obtain x ac' where ac: "ac = [] @ x # ac'" using i(2) short by (cases ac) auto
    show ?thesis using get_type_some [of st fr "[]" x ac' held GET_ALL_ELE_TYPE] i(1) ac
      by (auto simp: get_active_ele_def of_type_def)
  next
    case (Cons x fr')
    then show ?thesis using get_free_some [of st x fr' ac held] i(1) by blast
  qed
  show ?thesis using pool_nums [OF i(1)] i live by (auto simp: rt_inv_def)
qed

theorem rtpool_conserves_elements_witness:
  "\<exists>st0 st f a. mkrtpool True True [Some 10, Some 20] Map.empty 4 = Some (0, st0) \<and>
     rt_step\<^sup>*\<^sup>* (st0, []) (st, [20]) \<and> get_pool_free_num st = Some f \<and> get_pool_active_num st = Some a \<and> f + a = 1"
proof -
  obtain st0 where st0: "mkrtpool True True (map Some [10, 20]) Map.empty 4 = Some (0, st0)" "rt_inv st0 (rev [10, 20]) [] []"
    using mkrtpool_inv [of "[10, 20]" 4 Map.empty] by (auto simp: signed_modulo_int_def signed_divide_int_def)
  obtain st where "get_free_eleroom st0 = Some (Some 20, st)" using get_free_some [of st0 20 "[10]" "[]" "[]"] st0(2) by auto
  then have r: "rt_step\<^sup>*\<^sup>* (st0, []) (st, [20])" by (intro r_into_rtranclp rt_step.getfree)
  have "(8 + 4 :: int) smod 4 = 0" by (simp add: signed_modulo_int_def signed_divide_int_def)
  then obtain f a where "get_pool_free_num st = Some f" "get_pool_active_num st = Some a" "f + a = 1"
    using rtpool_conserves_elements [OF _ _ _ st0(1) r] by auto
  then show ?thesis using st0(1) r by (intro exI [of _ st0] exI [of _ st] exI [of _ f] exI [of _ a]) simp
qed

end
