(* ===== verification/Conf_Parser.thy ===== *)
theory Conf_Parser
  imports Key_Value C_String "HOL-Library.Sublist"
begin

text \<open>
  The parser of the configuration files, \<open>libsrc/confparser/confparser.c\<close>: lines \<open>KEY=value\<close> are
  read into a fixed array, stripped of comments, quotes, blanks and line ends, searched and
  replaced by key, and written back. A row of \<open>filebuf\<close> is the string it holds; rows at and above
  \<open>lines\<close> are never read and are not kept. The calls of \<open>memcpy\<close> that close a gap copy from a higher to
  an overlapping lower address; they are taken to copy in ascending order, as the C library of the
  device does. \<open>None\<close> is undefined behaviour: a row beyond the array, a text that does not fit its row
  or a null pointer that is read.
\<close>

section \<open>Model\<close>

definition CONF_MAXLINE :: nat where "CONF_MAXLINE = 200"
definition MAX_CHAR_LINE :: nat where "MAX_CHAR_LINE = 256"

abbreviation (input) HASH :: char where "HASH \<equiv> CHR ''#''"
abbreviation (input) QUOTE :: char where "QUOTE \<equiv> CHR 0x22"
abbreviation (input) BLANK :: char where "BLANK \<equiv> CHR '' ''"
abbreviation (input) TAB :: char where "TAB \<equiv> CHR 0x09"
abbreviation (input) EQUALS :: char where "EQUALS \<equiv> CHR ''=''"

record confdict =
  cd_lines :: nat
  filebuf :: "string list"

text \<open>One of the four loops \<open>while (1) { p = index(buf, c); ... }\<close> of \<open>process_line\<close>.\<close>

function strip_loop :: "char \<Rightarrow> string \<Rightarrow> string" where
  "strip_loop c buf =
     (case strchr buf c of None \<Rightarrow> buf | Some i \<Rightarrow> strip_loop c (take i buf @ drop (i + 1) buf))"
  by pat_completeness auto
termination
  by (relation "measure (\<lambda>(c, buf). length buf)") (auto dest!: strchr_less)

declare strip_loop.simps [simp del]

definition process_line :: "string \<Rightarrow> string" where
  "process_line buf =
     (case strchr buf HASH of
        Some 0 \<Rightarrow> []
      | h \<Rightarrow>
          (let b = (case h of None \<Rightarrow> buf | Some i \<Rightarrow> take i buf)
           in strip_loop LF (strip_loop TAB (strip_loop BLANK (strip_loop QUOTE b)))))"

text \<open>The loop of \<open>confparser_load\<close> with \<open>n\<close> rows left: the rows filled.\<close>

fun load_loop :: "nat \<Rightarrow> string \<Rightarrow> string list" where
  "load_loop 0 conf = []"
| "load_loop (Suc n) conf =
     (case fgets MAX_CHAR_LINE conf of
        None \<Rightarrow> []
      | Some (l, rest) \<Rightarrow> process_line (as_cstr l) # load_loop n rest)"

text \<open>\<open>mem\<close>: the allocation succeeds. The file is opened when it exists.\<close>

definition confparser_load :: "files \<Rightarrow> bool \<Rightarrow> string option \<Rightarrow> confdict option" where
  "confparser_load fs mem confname =
     (case confname of
        None \<Rightarrow> None
      | Some n \<Rightarrow>
         (case fs n of
            None \<Rightarrow> None
          | Some conf \<Rightarrow>
              if \<not> mem then None
              else (let rows = load_loop CONF_MAXLINE conf
                    in Some \<lparr>cd_lines = length rows, filebuf = rows\<rparr>)))"

text \<open>\<open>lock\<close> is the result of \<open>lock_file\<close>. The second component is the file kept open with its lock.\<close>

definition confparser_load_lockfile ::
    "files \<Rightarrow> bool \<Rightarrow> int \<Rightarrow> string option \<Rightarrow> confdict option \<times> string option" where
  "confparser_load_lockfile fs mem lock confname =
     (case confname of
        None \<Rightarrow> (None, None)
      | Some n \<Rightarrow>
          if fs n = None then (None, None)
          else if lock < 0 then (None, None)
          else (case confparser_load fs mem confname of
                  None \<Rightarrow> (None, None)
                | Some conf \<Rightarrow> (Some conf, confname)))"

text \<open>
  How the loop of \<open>confparser_getstring\<close> ends: at a line that has the key and a value, with a
  return at one without a value, or after the last line. The variable \<open>name\<close> keeps what the last
  search found: \<open>name = p\<close> is \<open>Some\<close> of that line.
\<close>

datatype scan = At string | NoValue | Ended "string option"

fun getstring_loop :: "string list \<Rightarrow> string \<Rightarrow> string option \<Rightarrow> scan" where
  "getstring_loop [] key name = Ended name"
| "getstring_loop (p # ps) key name =
     (if strstr p key \<noteq> Some 0 then getstring_loop ps key None
      else (case drop (length key) p of
              [] \<Rightarrow> getstring_loop ps key (Some p)
            | c # v \<Rightarrow>
                if c \<noteq> EQUALS then getstring_loop ps key (Some p)
                else if v = [] then NoValue else At p))"

definition value_of :: "string \<Rightarrow> string option \<Rightarrow> string option" where
  "value_of p d = (case strchr p EQUALS of None \<Rightarrow> d | Some i \<Rightarrow> Some (drop (i + 1) p))"

definition confparser_getstring :: "confdict option \<Rightarrow> string option \<Rightarrow> string option \<Rightarrow> string option" where
  "confparser_getstring dict key d =
     (case (dict, key) of
        (Some cd, Some k) \<Rightarrow>
          (case getstring_loop (take (cd_lines cd) (filebuf cd)) k None of
             NoValue \<Rightarrow> d
           | Ended None \<Rightarrow> d
           | Ended (Some p) \<Rightarrow> value_of p d
           | At p \<Rightarrow> value_of p d)
      | _ \<Rightarrow> d)"

text \<open>The line that \<open>confparser_setstr\<close> takes for the line of the key.\<close>

definition set_hits :: "string \<Rightarrow> string \<Rightarrow> bool" where
  "set_hits key p =
     (case strstr p key of
        None \<Rightarrow> False
      | Some i \<Rightarrow> (case drop (i + length key) p of [] \<Rightarrow> False | c # _ \<Rightarrow> c = EQUALS \<or> c = BLANK))"

definition confparser_setstr ::
    "confdict option \<Rightarrow> string option \<Rightarrow> string option \<Rightarrow> (int \<times> confdict option) option" where
  "confparser_setstr dict key val =
     (case (dict, key) of
        (Some cd, Some k) \<Rightarrow>
          (case val of
             None \<Rightarrow> None
           | Some v \<Rightarrow>
               (let row = k @ EQUALS # v in
                if MAX_CHAR_LINE \<le> length row then None
                else (case first_at (set_hits k) (take (cd_lines cd) (filebuf cd)) of
                        Some i \<Rightarrow> Some (0, Some (cd\<lparr>filebuf := (filebuf cd)[i := row]\<rparr>))
                      | None \<Rightarrow>
                          (let num = cd_lines cd in
                           if CONF_MAXLINE \<le> num then None
                           else Some (0, Some (cd\<lparr>cd_lines := num + 1, filebuf := take num (filebuf cd) @ [row]\<rparr>))))))
      | _ \<Rightarrow> Some (-1, dict))"

text \<open>\<open>CONF_INVALID_KEY\<close> is a pointer that no string has; \<open>None\<close> stands for it. The outer \<open>None\<close>: the number does not fit.\<close>

definition confparser_getint :: "confdict option \<Rightarrow> string option \<Rightarrow> int \<Rightarrow> int option" where
  "confparser_getint dict key notfound =
     (if dict = None \<or> key = None then Some notfound
      else (case confparser_getstring dict key None of None \<Rightarrow> Some notfound | Some str \<Rightarrow> atoi str))"

definition dump_rows :: "string list \<Rightarrow> string" where
  "dump_rows rows = concat (map (\<lambda>r. if r = [] then [] else r @ [LF]) rows)"

text \<open>\<open>f\<close>: the stream is not null; \<open>reopen\<close>: \<open>freopen\<close>, which empties the file, succeeds.\<close>

definition confparser_dump_conf :: "files \<Rightarrow> bool \<Rightarrow> bool \<Rightarrow> string option \<Rightarrow> confdict option \<Rightarrow> files" where
  "confparser_dump_conf fs f reopen fname dict =
     (case (fname, dict) of
        (Some n, Some cd) \<Rightarrow>
          if \<not> f \<or> \<not> reopen then fs
          else fs(n \<mapsto> dump_rows (take (cd_lines cd) (filebuf cd)))
      | _ \<Rightarrow> fs)"

section \<open>Lines\<close>

lemma filter_first:
  assumes "strchr s c = Some i"
  shows "filter (\<lambda>x. x \<noteq> c) (take i s @ drop (i + 1) s) = filter (\<lambda>x. x \<noteq> c) s"
proof -
  have "s = take i s @ c # drop (i + 1) s" using strchr_less [OF assms] by (metis Suc_eq_plus1 id_take_nth_drop)
  from arg_cong [OF this, of "filter (\<lambda>x. x \<noteq> c)"] show ?thesis by simp
qed

lemma strip_loop_filter: "strip_loop c s = filter (\<lambda>x. x \<noteq> c) s"
proof (induction c s rule: strip_loop.induct)
  case (1 c s)
  show ?case
  proof (cases "strchr s c")
    case None
    then have "filter (\<lambda>x. x \<noteq> c) s = s" by (intro filter_True) (auto simp: strchr_none)
    then show ?thesis using None by (subst strip_loop.simps) simp
  next
    case (Some i)
    then show ?thesis using 1 [OF Some] filter_first [OF Some] by (subst strip_loop.simps) simp
  qed
qed

text \<open>What is left of a line.\<close>

definition strip_char :: "char \<Rightarrow> bool" where
  "strip_char c = (c = QUOTE \<or> c = BLANK \<or> c = TAB \<or> c = LF)"

definition clean :: "string \<Rightarrow> string" where
  "clean s = filter (\<lambda>c. \<not> strip_char c) (takeWhile (\<lambda>c. c \<noteq> HASH) s)"

lemma takeWhile_strchr: "takeWhile (\<lambda>c. c \<noteq> x) s = (case strchr s x of None \<Rightarrow> s | Some i \<Rightarrow> take i s)"
  by (induction s) (auto split: option.splits)

lemma process_line_clean: "process_line s = clean s"
proof -
  have "strip_loop LF (strip_loop TAB (strip_loop BLANK (strip_loop QUOTE b))) = filter (\<lambda>c. \<not> strip_char c) b" for b
    by (simp add: strip_loop_filter strip_char_def conj_ac)
  then show ?thesis
    by (auto simp: process_line_def clean_def takeWhile_strchr split: option.splits nat.splits)
qed

section \<open>Keys and rows\<close>

text \<open>
  A row that the interface writes: blank, or a key, the first \<open>=\<close>, and a value. The characters that
  loading removes, the \<open>=\<close> and the end of a string occur in neither key nor value.
\<close>

definition conf_text :: "string \<Rightarrow> bool" where
  "conf_text s = (s \<noteq> [] \<and> list_all (\<lambda>c. \<not> strip_char c \<and> c \<noteq> EQUALS \<and> c \<noteq> HASH \<and> c \<noteq> NUL) s)"

definition row_key :: "string \<Rightarrow> string" where
  "row_key r = takeWhile (\<lambda>c. c \<noteq> EQUALS) r"

definition row_val :: "string \<Rightarrow> string" where
  "row_val r = drop (length (row_key r) + 1) r"

text \<open>No key is the beginning or the end of another, and each leaves room for a value.\<close>

definition keys_ok :: "string list \<Rightarrow> bool" where
  "keys_ok K = (list_all (\<lambda>k. conf_text k \<and> length k + 3 < MAX_CHAR_LINE) K \<and>
     list_all (\<lambda>k. list_all (\<lambda>k'. k = k' \<or> \<not> prefix k k' \<and> \<not> suffix k k') K) K)"

definition row_ok :: "string list \<Rightarrow> string \<Rightarrow> bool" where
  "row_ok K r = (r = [] \<or>
     row_key r \<in> set K \<and> conf_text (row_val r) \<and> EQUALS \<in> set r \<and> length r + 1 < MAX_CHAR_LINE)"

definition conf_inv :: "string list \<Rightarrow> confdict \<Rightarrow> bool" where
  "conf_inv K cd = (keys_ok K \<and> cd_lines cd = length (filebuf cd) \<and> cd_lines cd \<le> CONF_MAXLINE \<and>
     list_all (row_ok K) (filebuf cd))"

definition conf_ok :: "string list \<Rightarrow> string \<Rightarrow> string \<Rightarrow> bool" where
  "conf_ok K k v = (k \<in> set K \<and> conf_text v \<and> length k + length v + 2 < MAX_CHAR_LINE)"

definition conf_put :: "confdict \<Rightarrow> string \<Rightarrow> string \<Rightarrow> confdict option" where
  "conf_put cd k v =
     (case confparser_setstr (Some cd) (Some k) (Some v) of Some (_, cd') \<Rightarrow> cd' | None \<Rightarrow> None)"

definition conf_get :: "confdict \<Rightarrow> string \<Rightarrow> string option" where
  "conf_get cd k = confparser_getstring (Some cd) (Some k) None"

lemma conf_text_chars: "conf_text s \<Longrightarrow> c \<in> set s \<Longrightarrow> c \<noteq> EQUALS \<and> c \<noteq> BLANK \<and> c \<noteq> LF \<and> c \<noteq> HASH \<and> c \<noteq> NUL \<and> \<not> strip_char c"
  by (auto simp: conf_text_def list_all_iff strip_char_def)

lemma keys_text: "keys_ok K \<Longrightarrow> k \<in> set K \<Longrightarrow> conf_text k"
  by (auto simp: keys_ok_def list_all_iff)

lemma keys_apart: "keys_ok K \<Longrightarrow> k \<in> set K \<Longrightarrow> k' \<in> set K \<Longrightarrow> prefix k k' \<or> suffix k k' \<Longrightarrow> k = k'"
  by (auto simp: keys_ok_def list_all_iff)

lemma row_parts:
  assumes "conf_text k"
  shows "row_key (k @ EQUALS # v) = k" "row_val (k @ EQUALS # v) = v"
proof -
  show 1: "row_key (k @ EQUALS # v) = k" using conf_text_chars [OF assms] by (simp add: row_key_def)
  show "row_val (k @ EQUALS # v) = v" by (simp add: row_val_def 1)
qed

lemma row_split:
  assumes "EQUALS \<in> set r"
  shows "r = row_key r @ EQUALS # row_val r"
proof -
  obtain xs ys where r: "r = xs @ EQUALS # ys" "EQUALS \<notin> set xs" using split_list_first [OF assms] by blast
  then have "row_key r = xs" by (auto simp: row_key_def takeWhile_append)
  then show ?thesis using r by (simp add: row_val_def)
qed

lemma row_okE:
  assumes "keys_ok K" "row_ok K r" "r \<noteq> []"
  obtains k v where "r = k @ EQUALS # v" "k \<in> set K" "conf_text k" "conf_text v"
  using assms row_split [of r] keys_text by (auto simp: row_ok_def)

lemma strstr_prefix: "key \<noteq> [] \<Longrightarrow> strstr p key = Some 0 \<longleftrightarrow> strncmp_eq p key"
  by (cases p) (auto simp: strncmp_eq_def)

lemma strstr_at: "strstr p key = Some i \<Longrightarrow> take (length key) (drop i p) = key \<and> i + length key \<le> length p"
proof (induction p arbitrary: i)
  case (Cons c p)
  then show ?case by (cases "strncmp_eq (c # p) key") (auto simp: strncmp_eq_def dest: arg_cong [of _ _ length])
qed (auto split: if_splits)

text \<open>A search finds a key at the beginning of a row, or before the \<open>=\<close> of a row, only where it is the key of the row.\<close>

lemma row_starts:
  assumes "keys_ok K" "k \<in> set K" "row_ok K r"
  shows "strstr r k = Some 0 \<longleftrightarrow> r \<noteq> [] \<and> row_key r = k"
proof (cases "r = []")
  case True
  then show ?thesis using keys_text [OF assms(1,2)] by (auto simp: conf_text_def)
next
  case False
  obtain k1 v where r: "r = k1 @ EQUALS # v" "k1 \<in> set K" "conf_text k1" "conf_text v"
    using row_okE [OF assms(1,3) False] .
  have pk: "conf_text k" by (rule keys_text [OF assms(1,2)])
  have "strstr r k = Some 0 \<longleftrightarrow> prefix k r"
    using strstr_prefix [of k r] pk by (auto simp: conf_text_def strncmp_eq_prefix prefix_def)
  also have "\<dots> \<longleftrightarrow> k1 = k"
  proof
    assume "prefix k r"
    then have "prefix k k1" using conf_text_chars [OF pk, of EQUALS] by (auto simp: r(1) prefix_append prefix_Cons)
    then show "k1 = k" using keys_apart [OF assms(1,2) r(2)] by blast
  qed (simp add: r(1))
  finally show ?thesis using False row_parts(1) [OF r(3), of v] r(1) by simp
qed

lemma row_hits:
  assumes "keys_ok K" "k \<in> set K" "row_ok K r"
  shows "set_hits k r \<longleftrightarrow> r \<noteq> [] \<and> row_key r = k"
proof (cases "r = []")
  case True
  then show ?thesis by (simp add: set_hits_def)
next
  case False
  obtain k1 v where r: "r = k1 @ EQUALS # v" "k1 \<in> set K" "conf_text k1" "conf_text v"
    using row_okE [OF assms(1,3) False] .
  have "set_hits k r \<longleftrightarrow> k1 = k"
  proof
    assume "set_hits k r"
    then obtain i c w where i: "strstr r k = Some i" "drop (i + length k) r = c # w" "c = EQUALS \<or> c = BLANK"
      by (auto simp: set_hits_def split: option.splits list.splits)
    have "i + length k < length r" "r ! (i + length k) = c"
      using i(2) by (metis drop_all linorder_not_le list.discI, metis hd_drop_conv_nth drop_all linorder_not_le list.discI list.sel(1))
    then have "i + length k = length k1"
      using i(3) conf_text_chars [OF r(3)] conf_text_chars [OF r(4)] unfolding r(1)
      by (auto simp: nth_append nth_Cons split: if_splits nat.splits dest: nth_mem)
    then have "k = drop i k1" using strstr_at [OF i(1)] by (simp add: r(1))
    then show "k1 = k" using keys_apart [OF assms(1,2) r(2)] by (simp add: suffix_drop)
  next
    assume "k1 = k"
    then have "strstr r k = Some 0" using row_starts [OF assms] row_parts(1) [OF r(3), of v] r(1) False by simp
    then show "set_hits k r" using \<open>k1 = k\<close> by (simp add: set_hits_def r(1))
  qed
  then show ?thesis using False row_parts(1) [OF r(3), of v] r(1) by simp
qed

section \<open>The dictionary as a store\<close>

definition has_key :: "string \<Rightarrow> string \<Rightarrow> bool" where
  "has_key k r = (r \<noteq> [] \<and> row_key r = k)"

lemma first_at_cong: "(\<And>x. x \<in> set xs \<Longrightarrow> P x = Q x) \<Longrightarrow> first_at P xs = first_at Q xs"
  by (induction xs) auto

lemma getstring_loop_eq:
  assumes "keys_ok K" "k \<in> set K" "list_all (row_ok K) rows"
  shows "getstring_loop rows k name =
    (case first_at (has_key k) rows of Some j \<Rightarrow> At (rows ! j) | None \<Rightarrow> Ended (if rows = [] then name else None))"
  using assms(3)
proof (induction rows arbitrary: name)
  case (Cons r rows)
  have ok: "row_ok K r" using Cons.prems by simp
  show ?case
  proof (cases "has_key k r")
    case True
    then have r: "r \<noteq> []" "row_key r = k" by (simp_all add: has_key_def)
    obtain k1 v where p: "r = k1 @ EQUALS # v" "k1 \<in> set K" "conf_text k1" "conf_text v"
      using row_okE [OF assms(1) ok r(1)] .
    then have "k1 = k" using r(2) row_parts(1) [OF p(3)] by simp
    moreover have "strstr r k = Some 0" using row_starts [OF assms(1,2) ok] r by simp
    ultimately show ?thesis using True p(1,4) by (simp add: conf_text_def)
  next
    case False
    then have "strstr r k \<noteq> Some 0" using row_starts [OF assms(1,2) ok] by (auto simp: has_key_def)
    then show ?thesis using False Cons by (auto split: option.splits)
  qed
qed simp

text \<open>Reading and writing a well-formed dictionary by key.\<close>

lemma getstring_eq:
  assumes "conf_inv K cd" "k \<in> set K"
  shows "confparser_getstring (Some cd) (Some k) d =
    (case first_at (has_key k) (filebuf cd) of Some j \<Rightarrow> Some (row_val (filebuf cd ! j)) | None \<Rightarrow> d)"
proof (cases "first_at (has_key k) (filebuf cd)")
  case None
  then show ?thesis using assms getstring_loop_eq [of K k "filebuf cd" None]
    by (simp add: confparser_getstring_def conf_inv_def)
next
  case (Some j)
  let ?r = "filebuf cd ! j"
  have "row_ok K ?r" "?r \<noteq> []"
    using assms(1) first_at_SomeD [OF Some] by (auto simp: conf_inv_def list_all_iff has_key_def)
  then obtain k1 v where r: "?r = k1 @ EQUALS # v" "conf_text k1"
    using assms(1) by (auto simp: conf_inv_def elim: row_okE)
  have "EQUALS \<notin> set k1" using conf_text_chars [OF r(2)] by blast
  then have "value_of ?r d = Some (row_val ?r)"
    by (simp add: value_of_def r(1) strchr_first row_parts(2) [OF r(2)])
  then show ?thesis using assms Some getstring_loop_eq [of K k "filebuf cd" None]
    by (simp add: confparser_getstring_def conf_inv_def)
qed

lemma conf_get_eq:
  "conf_inv K cd \<Longrightarrow> k \<in> set K \<Longrightarrow>
    conf_get cd k = map_option (\<lambda>j. row_val (filebuf cd ! j)) (first_at (has_key k) (filebuf cd))"
  by (simp add: conf_get_def getstring_eq split: option.splits)

lemma conf_put_eq:
  assumes "conf_inv K cd" "conf_ok K k v"
  shows "conf_put cd k v =
    (case first_at (has_key k) (filebuf cd) of
       Some i \<Rightarrow> Some (cd\<lparr>filebuf := (filebuf cd)[i := k @ EQUALS # v]\<rparr>)
     | None \<Rightarrow> if length (filebuf cd) < CONF_MAXLINE
               then Some (cd\<lparr>cd_lines := length (filebuf cd) + 1, filebuf := filebuf cd @ [k @ EQUALS # v]\<rparr>) else None)"
proof -
  have "first_at (set_hits k) (filebuf cd) = first_at (has_key k) (filebuf cd)"
    using assms by (intro first_at_cong) (auto simp: conf_inv_def conf_ok_def list_all_iff has_key_def row_hits)
  then show ?thesis using assms
    by (auto simp: conf_put_def confparser_setstr_def conf_inv_def conf_ok_def Let_def split: option.splits)
qed

lemma new_row:
  assumes "conf_inv K cd" "conf_ok K k v"
  shows "row_ok K (k @ EQUALS # v)" "has_key k' (k @ EQUALS # v) \<longleftrightarrow> k' = k" "row_val (k @ EQUALS # v) = v"
proof -
  have p: "conf_text k" using assms keys_text by (auto simp: conf_inv_def conf_ok_def)
  note parts = row_parts [OF p, of v]
  show "row_ok K (k @ EQUALS # v)" using assms(2) by (simp add: row_ok_def parts conf_ok_def)
  show "has_key k' (k @ EQUALS # v) \<longleftrightarrow> k' = k" by (auto simp: has_key_def parts)
  show "row_val (k @ EQUALS # v) = v" by (rule parts)
qed

lemma conf_put_cases:
  assumes "conf_inv K cd" "conf_ok K k v" "conf_put cd k v = Some cd'"
  obtains (replaced) i where "first_at (has_key k) (filebuf cd) = Some i"
      "cd' = cd\<lparr>filebuf := (filebuf cd)[i := k @ EQUALS # v]\<rparr>"
  | (appended) "first_at (has_key k) (filebuf cd) = None" "length (filebuf cd) < CONF_MAXLINE"
      "cd' = cd\<lparr>cd_lines := length (filebuf cd) + 1, filebuf := filebuf cd @ [k @ EQUALS # v]\<rparr>"
  using assms(3) unfolding conf_put_eq [OF assms(1,2)] by (auto split: option.splits if_splits)

lemma conf_put_inv:
  assumes "conf_inv K cd" "conf_ok K k v" "conf_put cd k v = Some cd'"
  shows "conf_inv K cd'"
  using assms
proof (cases rule: conf_put_cases)
  case (replaced i)
  then show ?thesis using assms(1) new_row(1) [OF assms(1,2)] first_at_SomeD [OF replaced(1)]
    by (auto simp: conf_inv_def list_all_iff dest!: set_update_subset_insert [THEN subsetD])
next
  case appended
  then show ?thesis using assms(1) new_row(1) [OF assms(1,2)] by (auto simp: conf_inv_def)
qed

lemma conf_get_put:
  assumes "conf_inv K cd" "conf_ok K k v" "conf_put cd k v = Some cd'" "k' \<in> set K"
  shows "conf_get cd' k' = (if k' = k then Some v else conf_get cd k')"
proof -
  note row = new_row [OF assms(1,2)]
  have g: "conf_get cd' k' = map_option (\<lambda>j. row_val (filebuf cd' ! j)) (first_at (has_key k') (filebuf cd'))"
    by (rule conf_get_eq [OF conf_put_inv [OF assms(1-3)] assms(4)])
  show ?thesis using assms(1-3)
  proof (cases rule: conf_put_cases)
    case (replaced i)
    note i = first_at_SomeD [OF replaced(1)]
    show ?thesis
    proof (cases "k' = k")
      case True
      then show ?thesis using g replaced i row first_at_update_same [OF replaced(1), of "k @ EQUALS # v"] by simp
    next
      case False
      then have "\<not> has_key k' (filebuf cd ! i)" using i by (simp add: has_key_def)
      then have f: "first_at (has_key k') (filebuf cd') = first_at (has_key k') (filebuf cd)"
        using replaced(2) i row False by (simp add: first_at_update_other)
      moreover have "filebuf cd' ! j = filebuf cd ! j" if "first_at (has_key k') (filebuf cd) = Some j" for j
        using first_at_SomeD [OF that] \<open>\<not> has_key k' (filebuf cd ! i)\<close> replaced(2) by (cases "i = j") auto
      ultimately show ?thesis using g False conf_get_eq [OF assms(1,4)]
        by (cases "first_at (has_key k') (filebuf cd)") auto
    qed
  next
    case appended
    then show ?thesis using g conf_get_eq [OF assms(1,4)] row
      by (auto simp: first_at_snoc nth_append dest!: first_at_SomeD split: option.splits)
  qed
qed

interpretation confkv: kv_bounded "conf_inv K" "conf_ok K" conf_put conf_get "\<lambda>cd. length (filebuf cd)" CONF_MAXLINE
  for K
proof
  fix cd k v cd' k' v'
  assume i: "conf_inv K cd" and o: "conf_ok K k v"
  have kK: "k \<in> set K" using o by (simp add: conf_ok_def)
  show "\<exists>cd'. conf_put cd k v = Some cd'" if "conf_get cd k \<noteq> None \<or> length (filebuf cd) < CONF_MAXLINE"
    using that conf_get_eq [OF i kK] by (auto simp: conf_put_eq [OF i o] split: option.splits)
  assume p: "conf_put cd k v = Some cd'"
  show "conf_inv K cd'" by (rule conf_put_inv [OF i o p])
  show "conf_get cd' k = Some v" using conf_get_put [OF i o p kK] by simp
  show "conf_get cd' k' = conf_get cd k'" if "conf_ok K k' v'" "k' \<noteq> k"
    using conf_get_put [OF i o p, of k'] that by (simp add: conf_ok_def)
  show "length (filebuf cd') = length (filebuf cd) + (if conf_get cd k = None then 1 else 0)"
    using i o p by (cases rule: conf_put_cases) (simp_all add: conf_get_eq [OF i kK])
qed

end
