(* ===== verification/Conf_Props.thy ===== *)
theory Conf_Props
  imports Conf_Parser
begin

text \<open>
  The properties of the configuration files: what loading makes of any text, the dictionary as a map
  from keys to values, and writing a file and loading it again. The last section shows where the
  interface does not keep that contract: keys that begin or end alike.
\<close>

section \<open>Loading and dumping\<close>

text \<open>
  The lines of a text as a buffer of \<open>sz\<close> bytes takes them: each ends with the first line end in it,
  or fills the buffer, or ends the text.
\<close>

fun cut_lines :: "nat \<Rightarrow> string list \<Rightarrow> string \<Rightarrow> bool" where
  "cut_lines sz [] rest = True"
| "cut_lines sz (l # ls) rest =
     (l \<noteq> [] \<and> LF \<notin> set (butlast l) \<and> length l < sz \<and>
      (last l = LF \<or> length l + 1 = sz \<or> ls = [] \<and> rest = []) \<and> cut_lines sz ls rest)"

lemma fgets_cut:
  assumes "fgets sz s = Some (l, r)" "1 < sz"
  shows "s = l @ r \<and> l \<noteq> [] \<and> LF \<notin> set (butlast l) \<and> length l < sz \<and> (last l = LF \<or> length l + 1 = sz \<or> r = [])"
proof -
  let ?t = "take (sz - 1) s"
  have s: "s \<noteq> []" using assms(1) by (auto simp: fgets_def)
  show ?thesis
  proof (cases "strchr ?t LF")
    case None
    have "LF \<notin> set ?t" using None strchr_none by metis
    moreover have "l = ?t" "r = drop (sz - 1) s" using assms(1) s None by (auto simp: fgets_def Let_def min_def)
    ultimately show ?thesis using s assms(2) by (auto dest: in_set_butlastD)
  next
    case (Some i)
    have lt: "i < length s" "i < sz - 1" using strchr_less [OF Some] by simp_all
    then have i: "i < length s" "i < sz - 1" "s ! i = LF" "LF \<notin> set (take i s)"
      using strchr_less [OF Some] by (simp_all add: min_def)
    have "l = take (i + 1) s" "r = drop (i + 1) s" using assms(1) s Some by (auto simp: fgets_def Let_def)
    moreover have "take (i + 1) s = take i s @ [LF]" using i by (simp add: take_Suc_conv_app_nth)
    moreover have "s = take i s @ LF # drop (i + 1) s" using id_take_nth_drop [OF i(1)] i(3) by simp
    ultimately show ?thesis using i by (simp add: min_def)
  qed
qed

lemma cut_lines_Nil: "cut_lines sz ls rest \<Longrightarrow> concat ls @ rest = [] \<Longrightarrow> ls = [] \<and> rest = []"
  by (cases ls) auto

lemma load_loop_lines:
  "\<exists>ls rest. conf = concat ls @ rest \<and> load_loop n conf = map (\<lambda>l. clean (as_cstr l)) ls \<and> length ls \<le> n \<and>
     cut_lines MAX_CHAR_LINE ls rest \<and> (rest \<noteq> [] \<longrightarrow> length ls = n)"
proof (induction n arbitrary: conf)
  case (Suc n)
  show ?case
  proof (cases "fgets MAX_CHAR_LINE conf")
    case None
    then have "conf = []" by (auto simp: fgets_def Let_def split: if_splits)
    then show ?thesis using None by (intro exI [of _ "[]"]) simp
  next
    case (Some p)
    then obtain l r where lr: "fgets MAX_CHAR_LINE conf = Some (l, r)" by (cases p) auto
    have cut: "conf = l @ r \<and> l \<noteq> [] \<and> LF \<notin> set (butlast l) \<and> length l < MAX_CHAR_LINE \<and>
        (last l = LF \<or> length l + 1 = MAX_CHAR_LINE \<or> r = [])"
      by (rule fgets_cut [OF lr]) (simp add: MAX_CHAR_LINE_def)
    obtain ls rest where ls: "r = concat ls @ rest" "load_loop n r = map (\<lambda>l. clean (as_cstr l)) ls" "length ls \<le> n"
        "cut_lines MAX_CHAR_LINE ls rest" "rest \<noteq> [] \<longrightarrow> length ls = n"
      using Suc.IH [of r] by blast
    have "cut_lines MAX_CHAR_LINE (l # ls) rest" using cut ls(1,4) cut_lines_Nil [OF ls(4)] by auto
    then show ?thesis using lr cut ls
      by (intro exI [of _ "l # ls"] exI [of _ rest]) (simp add: process_line_clean)
  qed
next
  case 0
  show ?case by (intro exI [of _ "[]"] exI [of _ conf]) simp
qed

lemma cut_lines_length: "cut_lines sz ls rest \<Longrightarrow> l \<in> set ls \<Longrightarrow> length l < sz"
  by (induction ls) auto

lemma clean_chars: "c \<in> set (clean (as_cstr l)) \<Longrightarrow> \<not> strip_char c \<and> c \<noteq> HASH \<and> c \<noteq> NUL"
  by (auto simp: clean_def as_cstr_def dest: set_takeWhileD)

lemma clean_length: "length (clean (as_cstr l)) \<le> length l"
proof -
  have "length (clean (as_cstr l)) \<le> length (takeWhile (\<lambda>c. c \<noteq> HASH) (as_cstr l))" by (simp add: clean_def)
  also have "\<dots> \<le> length (as_cstr l)" by (rule length_takeWhile_le)
  also have "\<dots> \<le> length l" unfolding as_cstr_def by (rule length_takeWhile_le)
  finally show ?thesis .
qed







section \<open>Properties\<close>

text \<open>
  C34. The dictionary is a map: after any list of \<open>confparser_setstr\<close> calls whose new keys find room
  in the 200 rows, no call leaves the array, and \<open>confparser_getstring\<close> of a key returns the last
  value set, or what it returned before for a key that was not set. This is for a fixed set of keys of
  which none begins or ends with another, and for keys and values, in the dictionary and in the
  calls, that are not empty, contain no \<open>=\<close>, \<open>#\<close>, double quote, blank, tab or line end and fit a
  row; \<open>conf_setstr_takes_other_line\<close> and \<open>conf_getstring_takes_longer_key\<close> show what happens to
  other keys.
\<close>

theorem conf_keys_are_a_map:
  assumes "conf_inv K cd" "\<forall>(k, v) \<in> set kvs. conf_ok K k v" "k \<in> set K"
    and "length (filebuf cd) + card (fst ` set kvs) \<le> CONF_MAXLINE"
  shows "\<exists>cd'. puts conf_put cd kvs = Some cd' \<and> conf_inv K cd' \<and>
    confparser_getstring (Some cd') (Some k) d =
      (case map_of (rev kvs) k of Some v \<Rightarrow> Some v | None \<Rightarrow> confparser_getstring (Some cd) (Some k) d)"
proof -
  have "card {k' \<in> fst ` set kvs. conf_get cd k' = None} \<le> card (fst ` set kvs)" by (intro card_mono) auto
  then obtain cd' where cd': "puts conf_put cd kvs = Some cd'"
    using confkv.puts_succeed [OF assms(1,2)] assms(4) by auto
  have inv: "conf_inv K cd'" by (rule confkv.puts_inv [OF assms(1,2) cd'])
  have "conf_text ''x''" by (simp add: conf_text_def strip_char_def)
  moreover have "length k + 3 < MAX_CHAR_LINE"
    using assms(1,3) unfolding conf_inv_def keys_ok_def list_all_iff by blast
  ultimately have "conf_ok K k ''x''" using assms(3) by (simp add: conf_ok_def)
  then have g: "conf_get cd' k = (case map_of (rev kvs) k of None \<Rightarrow> conf_get cd k | Some v \<Rightarrow> Some v)"
    by (rule confkv.get_puts [OF assms(1,2) cd'])
  have "confparser_getstring (Some c) (Some k) d = (case conf_get c k of None \<Rightarrow> d | Some v \<Rightarrow> Some v)"
    if "conf_inv K c" for c
    using that assms(3) by (simp add: conf_get_def getstring_eq split: option.splits)
  then show ?thesis using cd' inv g assms(1) by (auto split: option.splits)
qed

theorem conf_keys_are_a_map_witness:
  "\<exists>cd'. puts conf_put \<lparr>cd_lines = 1, filebuf = [''IP=a'']\<rparr> [(''MASK'', ''b''), (''IP'', ''c'')] = Some cd' \<and>
     conf_inv [''IP'', ''MASK''] cd' \<and> confparser_getstring (Some cd') (Some ''IP'') None = Some ''c''"
  using conf_keys_are_a_map [of "[''IP'', ''MASK'']" "\<lparr>cd_lines = 1, filebuf = [''IP=a'']\<rparr>"
      "[(''MASK'', ''b''), (''IP'', ''c'')]" "''IP''" None]
  by (simp add: conf_inv_def keys_ok_def row_ok_def row_key_def row_val_def conf_text_def strip_char_def conf_ok_def
      MAX_CHAR_LINE_def CONF_MAXLINE_def suffix_to_prefix)



text \<open>
  C36. Loading any file: the rows are the lines of the text as \<open>fgets\<close> cuts them, each without its
  comment, quotes, blanks, tabs and line end, at most 200 of at most 255 characters; the rest of a
  longer text is left out only when all 200 rows are taken.
\<close>

theorem conf_load_rows:
  assumes "confparser_load fs mem (Some n) = Some cd"
  shows "\<exists>conf ls rest. fs n = Some conf \<and> conf = concat ls @ rest \<and> cut_lines MAX_CHAR_LINE ls rest \<and>
    filebuf cd = map (\<lambda>l. filter (\<lambda>c. \<not> strip_char c) (takeWhile (\<lambda>c. c \<noteq> HASH) (as_cstr l))) ls \<and>
    cd_lines cd = length (filebuf cd) \<and> length (filebuf cd) \<le> CONF_MAXLINE \<and>
    (rest \<noteq> [] \<longrightarrow> length (filebuf cd) = CONF_MAXLINE) \<and>
    list_all (\<lambda>r. length r < MAX_CHAR_LINE \<and> list_all (\<lambda>c. \<not> strip_char c \<and> c \<noteq> HASH \<and> c \<noteq> NUL) r) (filebuf cd)"
proof -
  obtain conf where c: "fs n = Some conf" "filebuf cd = load_loop CONF_MAXLINE conf" "cd_lines cd = length (filebuf cd)"
    using assms by (auto simp: confparser_load_def Let_def split: option.splits if_splits)
  obtain ls rest where l: "conf = concat ls @ rest" "filebuf cd = map (\<lambda>l. clean (as_cstr l)) ls"
      "length ls \<le> CONF_MAXLINE" "cut_lines MAX_CHAR_LINE ls rest" "rest \<noteq> [] \<longrightarrow> length ls = CONF_MAXLINE"
    using load_loop_lines [of conf CONF_MAXLINE] c(2) by auto
  have "length (clean (as_cstr x)) < MAX_CHAR_LINE" if "x \<in> set ls" for x
    using clean_length [of x] cut_lines_length [OF l(4) that] by simp
  then have "list_all (\<lambda>r. length r < MAX_CHAR_LINE \<and> list_all (\<lambda>c. \<not> strip_char c \<and> c \<noteq> HASH \<and> c \<noteq> NUL) r) (filebuf cd)"
    using clean_chars unfolding l(2) list_all_iff by auto
  moreover have "length (filebuf cd) = length ls" by (simp add: l(2))
  ultimately show ?thesis using c(1,3) l unfolding clean_def by metis
qed

theorem conf_load_rows_witness:
  "\<exists>cd. confparser_load [''f'' \<mapsto> ''A = 1 # x''] True (Some ''f'') = Some cd \<and>
     cd_lines cd = length (filebuf cd) \<and> length (filebuf cd) \<le> CONF_MAXLINE"
proof -
  obtain cd where cd: "confparser_load [''f'' \<mapsto> ''A = 1 # x''] True (Some ''f'') = Some cd"
    by (simp add: confparser_load_def Let_def)
  show ?thesis using conf_load_rows [OF cd] cd by auto
qed

section \<open>Keys that begin or end alike\<close>

text \<open>A call to \<open>confparser_setstr\<close> leaves the array exactly when the line is too long, or there is no row for it.\<close>

lemma conf_setstr_undefined_iff:
  "confparser_setstr (Some cd) (Some k) (Some v) = None \<longleftrightarrow>
     MAX_CHAR_LINE \<le> length k + length v + 1 \<or>
     (first_at (set_hits k) (take (cd_lines cd) (filebuf cd)) = None \<and> CONF_MAXLINE \<le> cd_lines cd)"
  by (auto simp: confparser_setstr_def Let_def split: option.splits)

text \<open>Setting a key that is the end of another one replaces the line of the other.\<close>

lemma conf_setstr_takes_other_line:
  "confparser_setstr (Some \<lparr>cd_lines = 1, filebuf = [''HTTP_PORT=80'']\<rparr>) (Some ''PORT'') (Some ''21'') =
     Some (0, Some \<lparr>cd_lines = 1, filebuf = [''PORT=21'']\<rparr>)"
  by (simp add: confparser_setstr_def set_hits_def strncmp_eq_def MAX_CHAR_LINE_def Let_def)

text \<open>Reading a key that is missing gives the value of the last line when that begins with the key.\<close>

lemma conf_getstring_takes_longer_key:
  "confparser_getstring (Some \<lparr>cd_lines = 1, filebuf = [''DNS2=8.8.8.8'']\<rparr>) (Some ''DNS'') None = Some ''8.8.8.8''"
  by (simp add: confparser_getstring_def value_of_def strncmp_eq_def)

end
