(* ===== verification/Audio_Tables.thy ===== *)
theory Audio_Tables
  imports C_String
begin

text \<open>
  The companding tables of \<open>libsrc/audiofmt/ulaw16.h\<close> and the arithmetic of the A-law coder. The
  table \<open>dsp16_ulaw\<close> has 65536 entries in 255 runs of equal values; it is given by its runs, and
  \<open>run_nth\<close> looks an entry up without expanding them. The other tables are given as they are.
\<close>

section \<open>Tables\<close>

definition dsp16_ulaw_runs :: "(byte \<times> nat) list" where
  "dsp16_ulaw_runs =
  [(255, 4), (254, 8), (253, 8), (252, 8), (251, 8), (250, 8), (249, 8), (248, 8), (247, 8),
   (246, 8), (245, 8), (244, 8), (243, 8), (242, 8), (241, 8), (240, 8), (239, 16), (238, 16),
   (237, 16), (236, 16), (235, 16), (234, 16), (233, 16), (232, 16), (231, 16), (230, 16), (229, 16),
   (228, 16), (227, 16), (226, 16), (225, 16), (224, 16), (223, 32), (222, 32), (221, 32), (220, 32),
   (219, 32), (218, 32), (217, 32), (216, 32), (215, 32), (214, 32), (213, 32), (212, 32), (211, 32),
   (210, 32), (209, 32), (208, 32), (207, 64), (206, 64), (205, 64), (204, 64), (203, 64), (202, 64),
   (201, 64), (200, 64), (199, 64), (198, 64), (197, 64), (196, 64), (195, 64), (194, 64), (193, 64),
   (192, 64), (191, 128), (190, 128), (189, 128), (188, 128), (187, 128), (186, 128), (185, 128), (184, 128),
   (183, 128), (182, 128), (181, 128), (180, 128), (179, 128), (178, 128), (177, 128), (176, 128), (175, 256),
   (174, 256), (173, 256), (172, 256), (171, 256), (170, 256), (169, 256), (168, 256), (167, 256), (166, 256),
   (165, 256), (164, 256), (163, 256), (162, 256), (161, 256), (160, 256), (159, 512), (158, 512), (157, 512),
   (156, 512), (155, 512), (154, 512), (153, 512), (152, 512), (151, 512), (150, 512), (149, 512), (148, 512),
   (147, 512), (146, 512), (145, 512), (144, 512), (143, 1024), (142, 1024), (141, 1024), (140, 1024), (139, 1024),
   (138, 1024), (137, 1024), (136, 1024), (135, 1024), (134, 1024), (133, 1024), (132, 1024), (131, 1024), (130, 1024),
   (129, 1024), (128, 1156), (0, 1160), (1, 1024), (2, 1024), (3, 1024), (4, 1024), (5, 1024), (6, 1024),
   (7, 1024), (8, 1024), (9, 1024), (10, 1024), (11, 1024), (12, 1024), (13, 1024), (14, 1024), (15, 1024),
   (16, 512), (17, 512), (18, 512), (19, 512), (20, 512), (21, 512), (22, 512), (23, 512), (24, 512),
   (25, 512), (26, 512), (27, 512), (28, 512), (29, 512), (30, 512), (31, 512), (32, 256), (33, 256),
   (34, 256), (35, 256), (36, 256), (37, 256), (38, 256), (39, 256), (40, 256), (41, 256), (42, 256),
   (43, 256), (44, 256), (45, 256), (46, 256), (47, 256), (48, 128), (49, 128), (50, 128), (51, 128),
   (52, 128), (53, 128), (54, 128), (55, 128), (56, 128), (57, 128), (58, 128), (59, 128), (60, 128),
   (61, 128), (62, 128), (63, 128), (64, 64), (65, 64), (66, 64), (67, 64), (68, 64), (69, 64),
   (70, 64), (71, 64), (72, 64), (73, 64), (74, 64), (75, 64), (76, 64), (77, 64), (78, 64),
   (79, 64), (80, 32), (81, 32), (82, 32), (83, 32), (84, 32), (85, 32), (86, 32), (87, 32),
   (88, 32), (89, 32), (90, 32), (91, 32), (92, 32), (93, 32), (94, 32), (95, 32), (96, 16),
   (97, 16), (98, 16), (99, 16), (100, 16), (101, 16), (102, 16), (103, 16), (104, 16), (105, 16),
   (106, 16), (107, 16), (108, 16), (109, 16), (110, 16), (111, 16), (112, 8), (113, 8), (114, 8),
   (115, 8), (116, 8), (117, 8), (118, 8), (119, 8), (120, 8), (121, 8), (122, 8), (123, 8),
   (124, 8), (125, 8), (126, 8)]"

definition dsp16_ulaw :: "byte list" where
  "dsp16_ulaw = concat (map (\<lambda>(v, n). replicate n v) dsp16_ulaw_runs)"

definition ulaw_dsp16 :: "u16 list" where
  "ulaw_dsp16 =
  [0x8284, 0x8684, 0x8a84, 0x8e84, 0x9284, 0x9684, 0x9a84, 0x9e84, 0xa284, 0xa684, 0xaa84, 0xae84,
   0xb284, 0xb684, 0xba84, 0xbe84, 0xc184, 0xc384, 0xc584, 0xc784, 0xc984, 0xcb84, 0xcd84, 0xcf84,
   0xd184, 0xd384, 0xd584, 0xd784, 0xd984, 0xdb84, 0xdd84, 0xdf84, 0xe104, 0xe204, 0xe304, 0xe404,
   0xe504, 0xe604, 0xe704, 0xe804, 0xe904, 0xea04, 0xeb04, 0xec04, 0xed04, 0xee04, 0xef04, 0xf004,
   0xf0c4, 0xf144, 0xf1c4, 0xf244, 0xf2c4, 0xf344, 0xf3c4, 0xf444, 0xf4c4, 0xf544, 0xf5c4, 0xf644,
   0xf6c4, 0xf744, 0xf7c4, 0xf844, 0xf8a4, 0xf8e4, 0xf924, 0xf964, 0xf9a4, 0xf9e4, 0xfa24, 0xfa64,
   0xfaa4, 0xfae4, 0xfb24, 0xfb64, 0xfba4, 0xfbe4, 0xfc24, 0xfc64, 0xfc94, 0xfcb4, 0xfcd4, 0xfcf4,
   0xfd14, 0xfd34, 0xfd54, 0xfd74, 0xfd94, 0xfdb4, 0xfdd4, 0xfdf4, 0xfe14, 0xfe34, 0xfe54, 0xfe74,
   0xfe8c, 0xfe9c, 0xfeac, 0xfebc, 0xfecc, 0xfedc, 0xfeec, 0xfefc, 0xff0c, 0xff1c, 0xff2c, 0xff3c,
   0xff4c, 0xff5c, 0xff6c, 0xff7c, 0xff88, 0xff90, 0xff98, 0xffa0, 0xffa8, 0xffb0, 0xffb8, 0xffc0,
   0xffc8, 0xffd0, 0xffd8, 0xffe0, 0xffe8, 0xfff0, 0xfff8, 0x0000, 0x7d7c, 0x797c, 0x757c, 0x717c,
   0x6d7c, 0x697c, 0x657c, 0x617c, 0x5d7c, 0x597c, 0x557c, 0x517c, 0x4d7c, 0x497c, 0x457c, 0x417c,
   0x3e7c, 0x3c7c, 0x3a7c, 0x387c, 0x367c, 0x347c, 0x327c, 0x307c, 0x2e7c, 0x2c7c, 0x2a7c, 0x287c,
   0x267c, 0x247c, 0x227c, 0x207c, 0x1efc, 0x1dfc, 0x1cfc, 0x1bfc, 0x1afc, 0x19fc, 0x18fc, 0x17fc,
   0x16fc, 0x15fc, 0x14fc, 0x13fc, 0x12fc, 0x11fc, 0x10fc, 0x0ffc, 0x0f3c, 0x0ebc, 0x0e3c, 0x0dbc,
   0x0d3c, 0x0cbc, 0x0c3c, 0x0bbc, 0x0b3c, 0x0abc, 0x0a3c, 0x09bc, 0x093c, 0x08bc, 0x083c, 0x07bc,
   0x075c, 0x071c, 0x06dc, 0x069c, 0x065c, 0x061c, 0x05dc, 0x059c, 0x055c, 0x051c, 0x04dc, 0x049c,
   0x045c, 0x041c, 0x03dc, 0x039c, 0x036c, 0x034c, 0x032c, 0x030c, 0x02ec, 0x02cc, 0x02ac, 0x028c,
   0x026c, 0x024c, 0x022c, 0x020c, 0x01ec, 0x01cc, 0x01ac, 0x018c, 0x0174, 0x0164, 0x0154, 0x0144,
   0x0134, 0x0124, 0x0114, 0x0104, 0x00f4, 0x00e4, 0x00d4, 0x00c4, 0x00b4, 0x00a4, 0x0094, 0x0084,
   0x0078, 0x0070, 0x0068, 0x0060, 0x0058, 0x0050, 0x0048, 0x0040, 0x0038, 0x0030, 0x0028, 0x0020,
   0x0018, 0x0010, 0x0008, 0x0000]"

definition dsp16_alaw :: "byte list" where
  "dsp16_alaw =
  [1, 1, 2, 2, 3, 3, 3, 3, 4, 4, 4, 4, 4, 4, 4, 4, 5, 5, 5, 5, 5, 5, 5, 5, 5, 5, 5, 5, 5, 5, 5, 5,
   6, 6, 6, 6, 6, 6, 6, 6, 6, 6, 6, 6, 6, 6, 6, 6, 6, 6, 6, 6, 6, 6, 6, 6, 6, 6, 6, 6, 6, 6, 6, 6,
   7, 7, 7, 7, 7, 7, 7, 7, 7, 7, 7, 7, 7, 7, 7, 7, 7, 7, 7, 7, 7, 7, 7, 7, 7, 7, 7, 7, 7, 7, 7, 7,
   7, 7, 7, 7, 7, 7, 7, 7, 7, 7, 7, 7, 7, 7, 7, 7, 7, 7, 7, 7, 7, 7, 7, 7, 7, 7, 7, 7, 7, 7, 7, 7]"

definition alaw_dsp16 :: "u16 list" where
  "alaw_dsp16 =
  [0xEA80, 0xEB80, 0xE880, 0xE980, 0xEE80, 0xEF80, 0xEC80, 0xED80, 0xE280, 0xE380, 0xE080, 0xE180,
   0xE680, 0xE780, 0xE480, 0xE580, 0xF540, 0xF5C0, 0xF440, 0xF4C0, 0xF740, 0xF7C0, 0xF640, 0xF6C0,
   0xF140, 0xF1C0, 0xF040, 0xF0C0, 0xF340, 0xF3C0, 0xF240, 0xF2C0, 0xAA00, 0xAE00, 0xA200, 0xA600,
   0xBA00, 0xBE00, 0xB200, 0xB600, 0x8A00, 0x8E00, 0x8200, 0x8600, 0x9A00, 0x9E00, 0x9200, 0x9600,
   0xD500, 0xD700, 0xD100, 0xD300, 0xDD00, 0xDF00, 0xD900, 0xDB00, 0xC500, 0xC700, 0xC100, 0xC300,
   0xCD00, 0xCF00, 0xC900, 0xCB00, 0xFEA8, 0xFEB8, 0xFE88, 0xFE98, 0xFEE8, 0xFEF8, 0xFEC8, 0xFED8,
   0xFE28, 0xFE38, 0xFE08, 0xFE18, 0xFE68, 0xFE78, 0xFE48, 0xFE58, 0xFFA8, 0xFFB8, 0xFF88, 0xFF98,
   0xFFE8, 0xFFF8, 0xFFC8, 0xFFD8, 0xFF28, 0xFF38, 0xFF08, 0xFF18, 0xFF68, 0xFF78, 0xFF48, 0xFF58,
   0xFAA0, 0xFAE0, 0xFA20, 0xFA60, 0xFBA0, 0xFBE0, 0xFB20, 0xFB60, 0xF8A0, 0xF8E0, 0xF820, 0xF860,
   0xF9A0, 0xF9E0, 0xF920, 0xF960, 0xFD50, 0xFD70, 0xFD10, 0xFD30, 0xFDD0, 0xFDF0, 0xFD90, 0xFDB0,
   0xFC50, 0xFC70, 0xFC10, 0xFC30, 0xFCD0, 0xFCF0, 0xFC90, 0xFCB0, 0x1580, 0x1480, 0x1780, 0x1680,
   0x1180, 0x1080, 0x1380, 0x1280, 0x1D80, 0x1C80, 0x1F80, 0x1E80, 0x1980, 0x1880, 0x1B80, 0x1A80,
   0x0AC0, 0x0A40, 0x0BC0, 0x0B40, 0x08C0, 0x0840, 0x09C0, 0x0940, 0x0EC0, 0x0E40, 0x0FC0, 0x0F40,
   0x0CC0, 0x0C40, 0x0DC0, 0x0D40, 0x5600, 0x5200, 0x5E00, 0x5A00, 0x4600, 0x4200, 0x4E00, 0x4A00,
   0x7600, 0x7200, 0x7E00, 0x7A00, 0x6600, 0x6200, 0x6E00, 0x6A00, 0x2B00, 0x2900, 0x2F00, 0x2D00,
   0x2300, 0x2100, 0x2700, 0x2500, 0x3B00, 0x3900, 0x3F00, 0x3D00, 0x3300, 0x3100, 0x3700, 0x3500,
   0x0158, 0x0148, 0x0178, 0x0168, 0x0118, 0x0108, 0x0138, 0x0128, 0x01D8, 0x01C8, 0x01F8, 0x01E8,
   0x0198, 0x0188, 0x01B8, 0x01A8, 0x0058, 0x0048, 0x0078, 0x0068, 0x0018, 0x0008, 0x0038, 0x0028,
   0x00D8, 0x00C8, 0x00F8, 0x00E8, 0x0098, 0x0088, 0x00B8, 0x00A8, 0x0560, 0x0520, 0x05E0, 0x05A0,
   0x0460, 0x0420, 0x04E0, 0x04A0, 0x0760, 0x0720, 0x07E0, 0x07A0, 0x0660, 0x0620, 0x06E0, 0x06A0,
   0x02B0, 0x0290, 0x02F0, 0x02D0, 0x0230, 0x0210, 0x0270, 0x0250, 0x03B0, 0x0390, 0x03F0, 0x03D0,
   0x0330, 0x0310, 0x0370, 0x0350]"

fun run_nth :: "('a \<times> nat) list \<Rightarrow> nat \<Rightarrow> 'a option" where
  "run_nth [] i = None"
| "run_nth ((v, n) # rs) i = (if i < n then Some v else run_nth rs (i - n))"

definition linear2ulaw :: "u16 \<Rightarrow> byte" where
  "linear2ulaw pcm_val = the (run_nth dsp16_ulaw_runs (unat pcm_val))"

definition ulaw2linear :: "byte \<Rightarrow> u16" where
  "ulaw2linear u_val = ulaw_dsp16 ! unat u_val"

definition alaw2linear :: "byte \<Rightarrow> u16" where
  "alaw2linear u_val = alaw_dsp16 ! unat u_val"

text \<open>
  One round of \<open>conv_raw2alaw\<close>: the value left in the source sample, which the code negates and
  clips in place, and the code written to the target.
\<close>

definition alaw_sample :: "u16 \<Rightarrow> u16 \<times> byte" where
  "alaw_sample s =
     (let sign = drop_bit 8 (NOT (ucast s :: u32)) AND 0x80;
          s1 = (if sign = 0 then - s else s);
          s2 = (if s1 > 0x7F7B then 0x7F7B else s1);
          t = (if s2 \<ge> 0x100
               then (let exponent = (ucast (dsp16_alaw ! unat (drop_bit 8 s2 AND 0x7F)) :: u32);
                         mantissa = (ucast (drop_bit (unat exponent + 3) s2) :: u32) AND 0x0F
                     in (ucast (push_bit 4 exponent OR mantissa) :: byte))
               else (ucast (drop_bit 4 s2) :: byte))
      in (s2, t XOR ucast (sign XOR 0x55)))"

section \<open>The run-length form\<close>

lemma run_nth_concat:
  "run_nth rs i =
     (if i < sum_list (map snd rs) then Some (concat (map (\<lambda>(v, n). replicate n v) rs) ! i) else None)"
  by (induction rs arbitrary: i) (auto simp: nth_append)

lemma run_nth_append:
  "run_nth (as @ bs) i =
     (if i < sum_list (map snd as) then run_nth as i else run_nth bs (i - sum_list (map snd as)))"
  by (induction as arbitrary: i) (auto simp: less_diff_conv2 not_less diff_diff_left)

lemma run_nth_member: "run_nth rs i = Some v \<Longrightarrow> v \<in> fst ` set rs"
proof (induction rs arbitrary: i)
  case (Cons p rs)
  then show ?case by (cases p) (auto split: if_splits)
qed simp

lemma run_nth_hits:
  assumes "v \<notin> fst ` set as" "v \<notin> fst ` set bs"
  shows "run_nth (as @ (v, n) # bs) i = Some v \<longleftrightarrow>
    sum_list (map snd as) \<le> i \<and> i < sum_list (map snd as) + n"
  using assms run_nth_member [of as _ v] run_nth_member [of bs _ v] by (auto simp: run_nth_append)

lemma dsp16_ulaw_runs_total: "sum_list (map snd dsp16_ulaw_runs) = 2 ^ 16"
  by (simp add: dsp16_ulaw_runs_def)

lemma length_dsp16_ulaw: "length dsp16_ulaw = 2 ^ 16"
proof -
  have "length (concat (map (\<lambda>(v, n). replicate n v) rs)) = sum_list (map snd rs)" for rs :: "(byte \<times> nat) list"
    by (induction rs) auto
  then show ?thesis by (simp only: dsp16_ulaw_def dsp16_ulaw_runs_total)
qed

lemma unat_u16: "unat (w :: u16) < 2 ^ 16"
  using unsigned_less [of w, where ?'a = nat] by simp

lemma linear2ulaw_table: "linear2ulaw w = dsp16_ulaw ! unat w"
  using unat_u16 [of w]
  by (simp only: linear2ulaw_def run_nth_concat dsp16_ulaw_runs_total dsp16_ulaw_def if_True option.sel)

lemma linear2ulaw_eq: "run_nth dsp16_ulaw_runs (unat w) = Some (linear2ulaw w)"
  using unat_u16 [of w]
  by (simp only: linear2ulaw_def run_nth_concat dsp16_ulaw_runs_total if_True option.sel)

text \<open>Code 0 stands for the 1160 most negative samples.\<close>

lemma linear2ulaw_0: "linear2ulaw w = 0 \<longleftrightarrow> 0x8000 \<le> unat w \<and> unat w < 0x8488"
proof -
  let ?as = "take 128 dsp16_ulaw_runs" and ?bs = "drop 129 dsp16_ulaw_runs"
  have split: "dsp16_ulaw_runs = ?as @ (0, 1160) # ?bs" by (simp add: dsp16_ulaw_runs_def)
  have "list_all (\<lambda>p. fst p \<noteq> 0) ?as" "list_all (\<lambda>p. fst p \<noteq> 0) ?bs"
    by (simp_all add: dsp16_ulaw_runs_def)
  then have n: "0 \<notin> fst ` set ?as" "0 \<notin> fst ` set ?bs" unfolding list_all_iff by fastforce+
  have s: "sum_list (map snd ?as) = 0x8000" by (simp add: dsp16_ulaw_runs_def)
  have "run_nth dsp16_ulaw_runs (unat w) = Some 0 \<longleftrightarrow> 0x8000 \<le> unat w \<and> unat w < 0x8000 + 1160"
    using run_nth_hits [OF n, of 1160 "unat w"] unfolding s split [symmetric] .
  then show ?thesis by (simp add: linear2ulaw_eq)
qed

section \<open>Decoding and encoding again\<close>

lemma byte_less_256: "unat (b :: byte) < 256"
  using unsigned_less [of b, where ?'a = nat] by simp

text \<open>An A-law code is the code of the sample it stands for; evaluated a quarter of the table at a time.\<close>

lemma alaw_codes_0: "map (\<lambda>w. snd (alaw_sample w)) (take 64 (drop 0 alaw_dsp16)) = map word_of_nat [0..<0 + 64]"
  by code_simp

lemma alaw_codes_64: "map (\<lambda>w. snd (alaw_sample w)) (take 64 (drop 64 alaw_dsp16)) = map word_of_nat [64..<64 + 64]"
  by code_simp

lemma alaw_codes_128: "map (\<lambda>w. snd (alaw_sample w)) (take 64 (drop 128 alaw_dsp16)) = map word_of_nat [128..<128 + 64]"
  by code_simp

lemma alaw_codes_192: "map (\<lambda>w. snd (alaw_sample w)) (take 64 (drop 192 alaw_dsp16)) = map word_of_nat [192..<192 + 64]"
  by code_simp

lemma part_nth:
  assumes "map g (take l (drop k xs)) = map h [k..<k + l]" "k \<le> n" "n < k + l"
  shows "g (xs ! n) = h n"
proof -
  have len: "length (take l (drop k xs)) = l" using assms(1) by (metis add_diff_cancel_left' length_map length_upt)
  then have "map g (take l (drop k xs)) ! (n - k) = g (xs ! n)" using assms(2,3) by (subst nth_map) auto
  then show ?thesis unfolding assms(1) using assms(2,3) by simp
qed

lemma alaw_decode_encode: "snd (alaw_sample (alaw2linear b)) = b"
proof -
  consider "unat b < 0 + 64" | "64 \<le> unat b" "unat b < 64 + 64" | "128 \<le> unat b" "unat b < 128 + 64"
    | "192 \<le> unat b" "unat b < 192 + 64" using byte_less_256 [of b] by linarith
  then have "snd (alaw_sample (alaw_dsp16 ! unat b)) = word_of_nat (unat b)"
    by cases (blast intro: part_nth [OF alaw_codes_0 le0] part_nth [OF alaw_codes_64]
        part_nth [OF alaw_codes_128] part_nth [OF alaw_codes_192])+
  then show ?thesis by (simp add: alaw2linear_def)
qed

text \<open>
  The runs of the u-law table in order, each holding the sample that its code stands for. The one
  code without a run is 127, a second zero.
\<close>

fun runs_hit :: "nat \<Rightarrow> ('a \<times> nat) list \<Rightarrow> (nat \<times> 'a) list \<Rightarrow> bool" where
  "runs_hit off [] [] = True"
| "runs_hit off ((v, n) # rs) ((d, w) # ds) = (v = w \<and> off \<le> d \<and> d < off + n \<and> runs_hit (off + n) rs ds)"
| "runs_hit off _ _ = False"

lemma runs_hit_nth: "runs_hit off rs ds \<Longrightarrow> (d, w) \<in> set ds \<Longrightarrow> run_nth rs (d - off) = Some w \<and> off \<le> d"
proof (induction off rs ds rule: runs_hit.induct)
  case (2 off v n rs d' w' ds)
  show ?case
  proof (cases "(d, w) = (d', w')")
    case False
    then show ?thesis using 2 by (auto simp: diff_diff_left)
  qed (use 2 in auto)
qed auto

definition ulaw_samples :: "(nat \<times> byte) list" where
  "ulaw_samples =
     map (\<lambda>c. (unat (ulaw_dsp16 ! c), word_of_nat c)) (rev [128..<256] @ [0..<127])"

lemma map_nth_take: "j \<le> length xs \<Longrightarrow> map (\<lambda>c. xs ! c) [0..<j] = take j xs"
  by (rule nth_equalityI) auto

lemma map_nth_drop: "map (\<lambda>c. xs ! c) [i..<length xs] = drop i xs"
  by (rule nth_equalityI) auto

lemma length_ulaw_dsp16: "length ulaw_dsp16 = 256"
  by (simp add: ulaw_dsp16_def)

lemma map_pair_zip:
  "map (\<lambda>c. (f (xs ! c), g c)) (rev as @ bs) =
     zip (map f (rev (map (\<lambda>c. xs ! c) as) @ map (\<lambda>c. xs ! c) bs)) (map g (rev as @ bs))"
proof -
  have "map (\<lambda>c. (f (xs ! c), g c)) cs = zip (map f (map (\<lambda>c. xs ! c) cs)) (map g cs)" for cs
    by (induction cs) auto
  from this [of "rev as @ bs"] show ?thesis by (simp only: map_append rev_map)
qed

lemma ulaw_samples_hit: "runs_hit 0 dsp16_ulaw_runs ulaw_samples"
proof -
  have lo: "map (\<lambda>c. ulaw_dsp16 ! c) [0..<127] = take 127 ulaw_dsp16"
    by (rule map_nth_take) (simp add: length_ulaw_dsp16)
  have hi: "map (\<lambda>c. ulaw_dsp16 ! c) [128..<256] = drop 128 ulaw_dsp16"
    using map_nth_drop [of ulaw_dsp16 128] unfolding length_ulaw_dsp16 .
  have z: "[0..<127] = 0 # 1 # [2..<127]"
    using upt_conv_Cons [of 0 127] upt_conv_Cons [of 1 127] by (simp only: One_nat_def numeral_2_eq_2 zero_less_numeral simp_thms)
  show ?thesis
    unfolding ulaw_samples_def map_pair_zip lo hi unfolding z by (simp add: dsp16_ulaw_runs_def ulaw_dsp16_def)
qed

lemma ulaw_decode_encode: "linear2ulaw (ulaw2linear b) = (if b = 0x7F then 0xFF else b)"
proof (cases "b = 0x7F")
  case True
  then show ?thesis by (simp add: linear2ulaw_def ulaw2linear_def ulaw_dsp16_def dsp16_ulaw_runs_def)
next
  case False
  then have "unat b \<noteq> unat (0x7F :: byte)" using word_unat_eq_iff [of b "0x7F"] by blast
  then have "unat b \<noteq> 127" by simp
  then have "unat b \<in> set (rev [128..<256] @ [0..<127])"
    using byte_less_256 [of b] unfolding set_append set_rev set_upt by auto
  then have "(unat (ulaw2linear b), b) \<in> set ulaw_samples"
    unfolding ulaw_samples_def ulaw2linear_def set_map by (intro image_eqI [of _ _ "unat b"]) simp_all
  then have "run_nth dsp16_ulaw_runs (unat (ulaw2linear b)) = Some b"
    using runs_hit_nth [OF ulaw_samples_hit] by simp
  then show ?thesis using False by (simp add: linear2ulaw_eq)
qed

end
