(* ===== verification/Audio_Fmt.thy ===== *)
theory Audio_Fmt
  imports Audio_Tables
begin

text \<open>
  The audio conversions of \<open>libsrc/audiofmt/audiofmt.c\<close>. Source and target are addresses in one
  byte memory, so that the conversions in place that the programs use are the same definitions as
  those between two buffers. A sample is a little-endian 16-bit word at an address of the memory.
  \<open>None\<close> is undefined behaviour: an access outside the memory or an \<open>int\<close> that overflows. The
  ascending loops share one contract, the locale \<open>ascending\<close>.
\<close>

section \<open>Model\<close>

text \<open>The result of a conversion: the \<open>int\<close> returned and the memory.\<close>

definition c_ret :: "int \<Rightarrow> byte list option \<Rightarrow> (int \<times> byte list) option" where
  "c_ret r m = (if int_ok r then map_option (Pair r) m else None)"

fun raw2ulaw_loop :: "nat \<Rightarrow> byte list \<Rightarrow> nat \<Rightarrow> nat \<Rightarrow> byte list option" where
  "raw2ulaw_loop 0 m t s = Some m"
| "raw2ulaw_loop (Suc n) m t s =
     (case mem_get m (int s) 2 of None \<Rightarrow> None | Some x \<Rightarrow>
      case mem_put m (int t) [linear2ulaw (of_le16 x)] of None \<Rightarrow> None | Some m1 \<Rightarrow>
        raw2ulaw_loop n m1 (t + 1) (s + 2))"

definition conv_raw2ulaw :: "byte list \<Rightarrow> nat \<Rightarrow> nat \<Rightarrow> int \<Rightarrow> (int \<times> byte list) option" where
  "conv_raw2ulaw m target source len =
     (let l = len sdiv 2 in c_ret l (raw2ulaw_loop (nat l) m target source))"

fun ulaw2raw_loop :: "nat \<Rightarrow> byte list \<Rightarrow> nat \<Rightarrow> nat \<Rightarrow> byte list option" where
  "ulaw2raw_loop 0 m t s = Some m"
| "ulaw2raw_loop (Suc n) m t s =
     (case mem_get m (int s) 1 of None \<Rightarrow> None | Some x \<Rightarrow>
      case mem_put m (int t) (le16 (ulaw2linear (hd x))) of None \<Rightarrow> None | Some m1 \<Rightarrow>
        ulaw2raw_loop n m1 (t + 2) (s + 1))"

definition conv_ulaw2raw :: "byte list \<Rightarrow> nat \<Rightarrow> nat \<Rightarrow> int \<Rightarrow> (int \<times> byte list) option" where
  "conv_ulaw2raw m target source len = c_ret (len * 2) (ulaw2raw_loop (nat len) m target source)"

text \<open>
  The pointers of \<open>conv_mono2stereo\<close> run from the end: with \<open>n + 1\<close> rounds left, \<open>ps\<close> is sample
  \<open>n\<close> of the source and \<open>pt\<close> the right sample \<open>2 n + 1\<close> of the target.
\<close>

fun mono2stereo_loop :: "nat \<Rightarrow> byte list \<Rightarrow> nat \<Rightarrow> nat \<Rightarrow> byte list option" where
  "mono2stereo_loop 0 m s t = Some m"
| "mono2stereo_loop (Suc n) m s t =
     (case mem_get m (int (s + 2 * n)) 2 of None \<Rightarrow> None | Some x \<Rightarrow>
      case mem_put m (int (t + 4 * n + 2)) x of None \<Rightarrow> None | Some m1 \<Rightarrow>
      case mem_get m1 (int (s + 2 * n)) 2 of None \<Rightarrow> None | Some y \<Rightarrow>
      case mem_put m1 (int (t + 4 * n)) y of None \<Rightarrow> None | Some m2 \<Rightarrow>
        mono2stereo_loop n m2 s t)"

definition conv_mono2stereo ::
    "byte list \<Rightarrow> nat option \<Rightarrow> nat option \<Rightarrow> int \<Rightarrow> (int \<times> byte list) option" where
  "conv_mono2stereo m src target srclen =
     (case (src, target) of
        (Some s, Some t) \<Rightarrow>
          let n = nat (srclen sdiv 2) in c_ret (int n * 4) (mono2stereo_loop n m s t)
      | _ \<Rightarrow> Some (- EINVAL, m))"

fun stereo2mono_loop :: "nat \<Rightarrow> byte list \<Rightarrow> nat \<Rightarrow> nat \<Rightarrow> byte list option" where
  "stereo2mono_loop 0 m t s = Some m"
| "stereo2mono_loop (Suc n) m t s =
     (case mem_get m (int s) 2 of None \<Rightarrow> None | Some x \<Rightarrow>
      case mem_put m (int t) x of None \<Rightarrow> None | Some m1 \<Rightarrow>
        stereo2mono_loop n m1 (t + 2) (s + 4))"

definition conv_stereo2left ::
    "byte list \<Rightarrow> nat option \<Rightarrow> nat option \<Rightarrow> int \<Rightarrow> (int \<times> byte list) option" where
  "conv_stereo2left m src target srclen =
     (case (src, target) of
        (Some s, Some t) \<Rightarrow>
          let n = nat (srclen sdiv 4) in c_ret (int n * 2) (stereo2mono_loop n m t s)
      | _ \<Rightarrow> Some (- EINVAL, m))"

definition conv_stereo2right ::
    "byte list \<Rightarrow> nat option \<Rightarrow> nat option \<Rightarrow> int \<Rightarrow> (int \<times> byte list) option" where
  "conv_stereo2right m src target srclen =
     (case (src, target) of
        (Some s, Some t) \<Rightarrow>
          let n = nat (srclen sdiv 4) in c_ret (int n * 2) (stereo2mono_loop n m t (s + 2))
      | _ \<Rightarrow> Some (- EINVAL, m))"

fun raw2alaw_loop :: "nat \<Rightarrow> byte list \<Rightarrow> nat \<Rightarrow> nat \<Rightarrow> byte list option" where
  "raw2alaw_loop 0 m t s = Some m"
| "raw2alaw_loop (Suc n) m t s =
     (case mem_get m (int s) 2 of None \<Rightarrow> None | Some x \<Rightarrow>
      case mem_put m (int s) (le16 (fst (alaw_sample (of_le16 x)))) of None \<Rightarrow> None | Some m1 \<Rightarrow>
      case mem_put m1 (int t) [snd (alaw_sample (of_le16 x))] of None \<Rightarrow> None | Some m2 \<Rightarrow>
        raw2alaw_loop n m2 (t + 1) (s + 2))"

definition conv_raw2alaw :: "byte list \<Rightarrow> nat \<Rightarrow> nat \<Rightarrow> int \<Rightarrow> (int \<times> byte list) option" where
  "conv_raw2alaw m target source len =
     (let l = len sdiv 2 in c_ret l (raw2alaw_loop (nat l) m target source))"

fun alaw2raw_loop :: "nat \<Rightarrow> byte list \<Rightarrow> nat \<Rightarrow> nat \<Rightarrow> byte list option" where
  "alaw2raw_loop 0 m t s = Some m"
| "alaw2raw_loop (Suc n) m t s =
     (case mem_get m (int s) 1 of None \<Rightarrow> None | Some x \<Rightarrow>
      case mem_put m (int t) (le16 (alaw2linear (hd x))) of None \<Rightarrow> None | Some m1 \<Rightarrow>
        alaw2raw_loop n m1 (t + 2) (s + 1))"

definition conv_alaw2raw :: "byte list \<Rightarrow> nat \<Rightarrow> nat \<Rightarrow> int \<Rightarrow> (int \<times> byte list) option" where
  "conv_alaw2raw m target source len = c_ret (len * 2) (alaw2raw_loop (nat len) m target source)"

text \<open>
  One of the ten blocks that the sound check of \<open>rtimage/deaf/deafmute.c\<close> captures: \<open>got\<close> bytes in
  \<open>rec_buf\<close> are converted in place, and the zero codes among the result are counted.
\<close>

definition deaf_block :: "byte list \<Rightarrow> int \<Rightarrow> nat \<Rightarrow> (nat \<times> byte list) option" where
  "deaf_block rec_buf got bad_cnt =
     (case conv_stereo2right rec_buf (Some 0) (Some 0) got of None \<Rightarrow> None | Some (ret, m1) \<Rightarrow>
      case conv_raw2ulaw m1 0 0 ret of None \<Rightarrow> None | Some (ret2, m2) \<Rightarrow>
        Some (bad_cnt + length (filter (\<lambda>b. b = 0) (take (nat ret2) m2)), m2))"

section \<open>Ascending loops\<close>

text \<open>Unit \<open>k\<close> of a region of \<open>r\<close>-byte units that start \<open>d\<close> bytes apart.\<close>

definition unit_at :: "'a list \<Rightarrow> nat \<Rightarrow> nat \<Rightarrow> nat \<Rightarrow> nat \<Rightarrow> 'a list" where
  "unit_at m s d r k = take r (drop (s + k * d) m)"

text \<open>
  Reads of \<open>rs\<close> bytes every \<open>ds\<close> bytes from \<open>s\<close>, writes of \<open>dt\<close> bytes from \<open>t\<close> on: no write reaches a
  unit that is still to be read when the regions are apart or the writes never overtake the reads.
\<close>

definition no_overtake :: "nat \<Rightarrow> nat \<Rightarrow> nat \<Rightarrow> nat \<Rightarrow> nat \<Rightarrow> nat \<Rightarrow> bool" where
  "no_overtake n rs ds dt t s =
     (t + n * dt \<le> s \<or> s + n * ds + rs \<le> t + ds \<or> (dt \<le> ds \<and> t + dt \<le> s + ds))"

definition mem_subst :: "'a list \<Rightarrow> nat \<Rightarrow> 'a list \<Rightarrow> 'a list" where
  "mem_subst m t bs = take t m @ bs @ drop (t + length bs) m"

lemma mem_put_subst: "t + length bs \<le> length m \<Longrightarrow> mem_put m (int t) bs = Some (mem_subst m t bs)"
  by (simp add: mem_put_def mem_subst_def)

lemma mem_get_unit: "s + r \<le> length m \<Longrightarrow> mem_get m (int s) (int r) = Some (take r (drop s m))"
  by (simp add: mem_get_def)

lemma length_mem_subst [simp]: "t + length bs \<le> length m \<Longrightarrow> length (mem_subst m t bs) = length m"
  by (simp add: mem_subst_def)

lemma unit_mem_subst:
  assumes "t + length bs \<le> length m" "t + length bs \<le> a \<or> a + r \<le> t"
  shows "take r (drop a (mem_subst m t bs)) = take r (drop a m)"
  using assms(2)
proof
  assume "t + length bs \<le> a"
  then show ?thesis using assms(1) by (simp add: mem_subst_def min_def)
next
  assume a: "a + r \<le> t"
  then have "take r (drop a (mem_subst m t bs)) = take r (drop a (take t m))"
    using assms(1) by (simp add: mem_subst_def)
  also have "\<dots> = take r (drop a m)" using a by (simp add: drop_take min_def)
  finally show ?thesis .
qed

lemma mem_subst_nth: "t < length m \<Longrightarrow> mem_subst m t [c] ! t = c"
  by (simp add: mem_subst_def nth_append)

lemma mem_subst_append:
  assumes "t + length bs + length cs \<le> length m"
  shows "mem_subst (mem_subst m t bs) (t + length bs) cs = mem_subst m t (bs @ cs)"
proof -
  have "t \<le> length m" using assms by simp
  then show ?thesis by (simp add: mem_subst_def ac_simps)
qed

locale ascending =
  fixes loop :: "nat \<Rightarrow> byte list \<Rightarrow> nat \<Rightarrow> nat \<Rightarrow> byte list option"
    and rs ds dt :: nat
    and f :: "byte list \<Rightarrow> byte list"
  assumes loop_0: "loop 0 m t s = Some m"
    and loop_Suc: "loop (Suc n) m t s =
      (case mem_get m (int s) (int rs) of None \<Rightarrow> None | Some x \<Rightarrow>
       case mem_put m (int t) (f x) of None \<Rightarrow> None | Some m1 \<Rightarrow> loop n m1 (t + dt) (s + ds))"
    and length_f: "length x = rs \<Longrightarrow> length (f x) = dt"
    and rs_le: "rs \<le> ds"
begin

definition image :: "nat \<Rightarrow> byte list \<Rightarrow> nat \<Rightarrow> byte list" where
  "image n m s = concat (map (\<lambda>k. f (unit_at m s ds rs k)) [0..<n])"

lemma unit_length: "k < n \<Longrightarrow> s + n * ds + rs \<le> length m + ds \<Longrightarrow> length (unit_at m s ds rs k) = rs"
proof -
  assume a: "k < n" "s + n * ds + rs \<le> length m + ds"
  have "Suc k * ds \<le> n * ds" using a(1) by (intro mult_le_mono1) simp
  then show ?thesis using a(2) by (simp add: unit_at_def)
qed

lemma image_length:
  "s + n * ds + rs \<le> length m + ds \<Longrightarrow> length (image n m s) = n * dt"
proof (induction n)
  case (Suc n)
  have "length (f (unit_at m s ds rs n)) = dt" using Suc.prems by (intro length_f unit_length [of _ "Suc n"]) simp_all
  then show ?case using Suc by (simp add: image_def)
qed (simp add: image_def)

lemma image_Suc: "image (Suc n) m s = f (unit_at m s ds rs 0) @ image n m (s + ds)"
proof -
  have "[0..<Suc n] = 0 # map Suc [0..<n]" by (simp add: map_Suc_upt upt_conv_Cons)
  then show ?thesis by (simp add: image_def unit_at_def o_def add.assoc)
qed

lemma image_untouched:
  assumes "t + dt \<le> length m" "length bs = dt" "no_overtake (Suc n) rs ds dt t s"
  shows "image n (mem_subst m t bs) (s + ds) = image n m (s + ds)"
proof -
  have "unit_at (mem_subst m t bs) (s + ds) ds rs k = unit_at m (s + ds) ds rs k" if "k < n" for k
  proof -
    have "Suc k * ds \<le> n * ds" using that by (intro mult_le_mono1) simp
    moreover have "0 \<le> n * dt" "k * ds \<ge> 0" by simp_all
    ultimately have "t + length bs \<le> s + ds + k * ds \<or> s + ds + k * ds + rs \<le> t"
      using assms(2,3) by (auto simp: no_overtake_def)
    then show ?thesis unfolding unit_at_def using assms(1,2) by (intro unit_mem_subst) auto
  qed
  then show ?thesis unfolding image_def by (intro arg_cong [of _ _ concat] map_cong) simp_all
qed

lemma no_overtake_Suc: "no_overtake (Suc n) rs ds dt t s \<Longrightarrow> no_overtake n rs ds dt (t + dt) (s + ds)"
  by (auto simp: no_overtake_def)

lemma result:
  assumes "t + n * dt \<le> length m" "s + n * ds + rs \<le> length m + ds" "no_overtake n rs ds dt t s"
  shows "loop n m t s = Some (mem_subst m t (image n m s))"
  using assms
proof (induction n arbitrary: m t s)
  case 0
  then show ?case by (simp add: loop_0 image_def mem_subst_def)
next
  case (Suc n)
  let ?b = "f (unit_at m s ds rs 0)" and ?m1 = "mem_subst m t (f (unit_at m s ds rs 0))"
  have lb: "length ?b = dt" using Suc.prems(2) by (intro length_f unit_length [of 0 "Suc n"]) simp_all
  have fit: "t + length ?b \<le> length m" using Suc.prems(1) lb by simp
  have "mem_get m (int s) (int rs) = Some (unit_at m s ds rs 0)"
    using Suc.prems(2) by (simp add: unit_at_def mem_get_unit)
  then have "loop (Suc n) m t s = loop n ?m1 (t + dt) (s + ds)"
    using mem_put_subst [OF fit] by (simp add: loop_Suc)
  also have "\<dots> = Some (mem_subst ?m1 (t + dt) (image n ?m1 (s + ds)))"
    using Suc.prems length_mem_subst [OF fit] by (intro Suc.IH no_overtake_Suc) simp_all
  also have "image n ?m1 (s + ds) = image n m (s + ds)"
    using fit lb Suc.prems(3) by (intro image_untouched) simp_all
  also have "mem_subst ?m1 (t + dt) (image n m (s + ds)) = mem_subst m t (image (Suc n) m s)"
    using mem_subst_append [of t ?b "image n m (s + ds)" m] image_length [of "s + ds" n m] Suc.prems lb
    by (simp add: image_Suc)
  finally show ?case .
qed

end

interpretation ulaw_enc: ascending raw2ulaw_loop 2 2 1 "\<lambda>x. [linear2ulaw (of_le16 x)]"
  by unfold_locales simp_all

interpretation one_channel: ascending stereo2mono_loop 2 4 2 "\<lambda>x. x"
  by unfold_locales simp_all

section \<open>The two other loops\<close>

text \<open>
  \<open>conv_mono2stereo\<close> goes through the samples from the last to the first, so that it works in place:
  the unread samples lie below everything written.
\<close>

definition doubled :: "nat \<Rightarrow> byte list \<Rightarrow> nat \<Rightarrow> byte list" where
  "doubled n m s = concat (map (\<lambda>k. unit_at m s 2 2 k @ unit_at m s 2 2 k) [0..<n])"

lemma doubled_length: "s + 2 * n \<le> length m \<Longrightarrow> length (doubled n m s) = 4 * n"
  by (induction n) (simp_all add: doubled_def unit_at_def)

lemma doubled_untouched:
  assumes "t + length bs \<le> length m" "t + length bs \<le> s \<or> s + 2 * n \<le> t"
  shows "doubled n (mem_subst m t bs) s = doubled n m s"
proof -
  have "unit_at (mem_subst m t bs) s 2 2 k = unit_at m s 2 2 k" if "k < n" for k
    unfolding unit_at_def using that assms by (intro unit_mem_subst) auto
  then show ?thesis unfolding doubled_def by (intro arg_cong [of _ _ concat] map_cong) simp_all
qed

lemma mem_subst_below:
  assumes "t + length bs + length cs \<le> length m"
  shows "mem_subst (mem_subst m (t + length bs) cs) t bs = mem_subst m t (bs @ cs)"
proof -
  have "t + length bs \<le> length m" "t \<le> t + length bs" using assms by simp_all
  then show ?thesis by (simp add: mem_subst_def min_def ac_simps)
qed

lemma mono2stereo_round:
  assumes "t + 4 * n + 4 \<le> length m" "s + 2 * n + 2 \<le> length m" "s \<le> t \<or> t + 4 * n + 4 \<le> s"
  shows "mono2stereo_loop (Suc n) m s t =
    mono2stereo_loop n (mem_subst m (t + 4 * n) (unit_at m s 2 2 n @ unit_at m s 2 2 n)) s t"
proof -
  let ?x = "unit_at m s 2 2 n" and ?m1 = "mem_subst m (t + 4 * n + 2) (unit_at m s 2 2 n)"
  have lx: "length ?x = 2" using assms(2) by (simp add: unit_at_def)
  have g: "mem_get m (int (s + 2 * n)) (int 2) = Some ?x"
    using assms(2) by (subst mem_get_unit) (simp_all add: unit_at_def mult.commute)
  have p: "mem_put m (int (t + 4 * n + 2)) ?x = Some ?m1"
    using assms(1) lx by (intro mem_put_subst) simp
  have l1: "length ?m1 = length m" using assms(1) lx by simp
  have "take 2 (drop (s + 2 * n) ?m1) = take 2 (drop (s + 2 * n) m)"
    using assms lx by (intro unit_mem_subst) auto
  then have g1: "mem_get ?m1 (int (s + 2 * n)) (int 2) = Some ?x"
    using assms(2) l1 by (subst mem_get_unit) (simp_all add: unit_at_def mult.commute)
  have p1: "mem_put ?m1 (int (t + 4 * n)) ?x = Some (mem_subst ?m1 (t + 4 * n) ?x)"
    using assms(1) lx l1 by (intro mem_put_subst) simp
  have "mem_subst ?m1 (t + 4 * n) ?x = mem_subst m (t + 4 * n) (?x @ ?x)"
    using mem_subst_below [of "t + 4 * n" ?x ?x m] assms(1) lx by simp
  then show ?thesis using g p g1 p1 by simp
qed

lemma mono2stereo_result:
  assumes "t + 4 * n \<le> length m" "s + 2 * n \<le> length m" "s \<le> t \<or> t + 4 * n \<le> s"
  shows "mono2stereo_loop n m s t = Some (mem_subst m t (doubled n m s))"
  using assms
proof (induction n arbitrary: m)
  case 0
  then show ?case by (simp add: doubled_def mem_subst_def)
next
  case (Suc n)
  let ?x = "unit_at m s 2 2 n" and ?m1 = "mem_subst m (t + 4 * n) (unit_at m s 2 2 n @ unit_at m s 2 2 n)"
  have lx: "length ?x = 2" using Suc.prems(2) by (simp add: unit_at_def)
  have l1: "length ?m1 = length m" using Suc.prems(1) lx by simp
  have "mono2stereo_loop (Suc n) m s t = mono2stereo_loop n ?m1 s t"
    using Suc.prems by (intro mono2stereo_round) auto
  also have "\<dots> = Some (mem_subst ?m1 t (doubled n ?m1 s))"
    using Suc.prems l1 by (intro Suc.IH) auto
  also have "doubled n ?m1 s = doubled n m s"
    using Suc.prems lx by (intro doubled_untouched) auto
  also have "mem_subst ?m1 t (doubled n m s) = mem_subst m t (doubled (Suc n) m s)"
    using mem_subst_below [of t "doubled n m s" "?x @ ?x" m] doubled_length [of s n m] Suc.prems lx
    by (simp add: doubled_def)
  finally show ?case .
qed

text \<open>
  \<open>conv_raw2alaw\<close> also writes to its source. The codes come out right when the target is apart from
  the source or starts at most one byte above it.
\<close>

definition alaw_image :: "nat \<Rightarrow> byte list \<Rightarrow> nat \<Rightarrow> byte list" where
  "alaw_image n m s = map (\<lambda>k. snd (alaw_sample (of_le16 (unit_at m s 2 2 k)))) [0..<n]"

lemma length_alaw_image [simp]: "length (alaw_image n m s) = n"
  by (simp add: alaw_image_def)

lemma alaw_image_Suc:
  "alaw_image (Suc n) m s = snd (alaw_sample (of_le16 (unit_at m s 2 2 0))) # alaw_image n m (s + 2)"
proof -
  have "[0..<Suc n] = 0 # map Suc [0..<n]" by (simp add: map_Suc_upt upt_conv_Cons)
  then show ?thesis by (simp add: alaw_image_def unit_at_def o_def)
qed

lemma alaw_image_untouched:
  assumes "t + length bs \<le> length m" "t + length bs \<le> s \<or> s + 2 * n \<le> t"
  shows "alaw_image n (mem_subst m t bs) s = alaw_image n m s"
proof -
  have "unit_at (mem_subst m t bs) s 2 2 k = unit_at m s 2 2 k" if "k < n" for k
    unfolding unit_at_def using that assms by (intro unit_mem_subst) auto
  then show ?thesis by (simp add: alaw_image_def)
qed

definition alaw_places :: "nat \<Rightarrow> nat \<Rightarrow> nat \<Rightarrow> bool" where
  "alaw_places n t s = (t + n \<le> s \<or> s + 2 * n \<le> t \<or> t \<le> s + 1)"

text \<open>The bytes of the target that are written already stay.\<close>

lemma raw2alaw_keeps:
  assumes "raw2alaw_loop n m t s = Some m'" "a < t" "a < s \<or> s + 2 * n \<le> a"
  shows "m' ! a = m ! a \<and> length m' = length m"
  using assms
proof (induction n arbitrary: m t s)
  case (Suc n)
  obtain x m1 m2 where st: "mem_put m (int s) (le16 (fst (alaw_sample (of_le16 x)))) = Some m1"
      "mem_put m1 (int t) [snd (alaw_sample (of_le16 x))] = Some m2" "raw2alaw_loop n m2 (t + 1) (s + 2) = Some m'"
    using Suc.prems(1) by (auto split: option.splits)
  have l: "length m1 = length m" "length m2 = length m" using st mem_put_length by metis+
  have "m2 ! a = m ! a"
    using mem_put_nth [OF st(1), of a] mem_put_nth [OF st(2), of a] Suc.prems(2,3) l st(1,2)
    by (cases "a < length m") (auto simp: mem_put_Some)
  moreover have "m' ! a = m2 ! a \<and> length m' = length m2"
    using Suc.prems(2,3) by (intro Suc.IH [OF st(3)]) auto
  ultimately show ?case using l by simp
qed simp

lemma raw2alaw_result:
  assumes "t + n \<le> length m" "s + 2 * n \<le> length m" "alaw_places n t s"
  shows "\<exists>m'. raw2alaw_loop n m t s = Some m' \<and> length m' = length m \<and>
    take n (drop t m') = alaw_image n m s"
  using assms
proof (induction n arbitrary: m t s)
  case 0
  then show ?case by (simp add: alaw_image_def)
next
  case (Suc n)
  let ?x = "unit_at m s 2 2 0"
  let ?a = "le16 (fst (alaw_sample (of_le16 ?x)))" and ?c = "snd (alaw_sample (of_le16 ?x))"
  let ?m1 = "mem_subst m s ?a" and ?m2 = "mem_subst (mem_subst m s ?a) t [?c]"
  have l: "length ?m1 = length m" "length ?m2 = length m" using Suc.prems by simp_all
  have g: "mem_get m (int s) (int 2) = Some ?x"
    using Suc.prems(2) by (subst mem_get_unit) (simp_all add: unit_at_def)
  have step: "raw2alaw_loop (Suc n) m t s = raw2alaw_loop n ?m2 (t + 1) (s + 2)"
    using g mem_put_subst [of s ?a m] mem_put_subst [of t "[?c]" ?m1] Suc.prems l by simp
  obtain m' where m': "raw2alaw_loop n ?m2 (t + 1) (s + 2) = Some m'" "length m' = length m"
      "take n (drop (t + 1) m') = alaw_image n ?m2 (s + 2)"
    using Suc.IH [of "t + 1" ?m2 "s + 2"] Suc.prems l by (auto simp: alaw_places_def)
  have "alaw_image n ?m2 (s + 2) = alaw_image n ?m1 (s + 2)"
    using Suc.prems l by (intro alaw_image_untouched) (auto simp: alaw_places_def)
  also have "\<dots> = alaw_image n m (s + 2)"
    using Suc.prems by (intro alaw_image_untouched) auto
  finally have rest: "alaw_image n ?m2 (s + 2) = alaw_image n m (s + 2)" .
  have "m' ! t = ?m2 ! t"
    using raw2alaw_keeps [OF m'(1), of t] Suc.prems(3) by (auto simp: alaw_places_def)
  also have "?m2 ! t = ?c" using Suc.prems(1) l(1) by (intro mem_subst_nth) simp
  finally have "take (Suc n) (drop t m') = ?c # take n (drop (t + 1) m')"
    using Suc.prems(1) m'(2) by (simp add: Cons_nth_drop_Suc [symmetric])
  then show ?case using step m' rest by (simp add: alaw_image_Suc)
qed

end
