(* ===== verification/Audio_Props.thy ===== *)
theory Audio_Props
  imports Audio_Fmt
begin

text \<open>
  What the audio conversions compute on whole buffers, in place or from one buffer to another, and
  how they compose: channels split and doubled, codes decoded and encoded, and the sound check.
\<close>

section \<open>Regions\<close>

lemma nat_sdiv: "0 < k \<Longrightarrow> nat (x sdiv int k) = nat x div k"
proof (cases "0 \<le> x")
  case False
  moreover assume "0 < k"
  moreover have "0 \<le> - x div int k" using False by (simp add: pos_imp_zdiv_nonneg_iff \<open>0 < k\<close>)
  ultimately show ?thesis by (simp add: signed_divide_int_def sgn_if)
qed (simp add: sdiv_nonneg nat_div_distrib)

lemma concat_chunk_length: "(\<And>k. k < n \<Longrightarrow> length (g k) = d) \<Longrightarrow> length (concat (map g [0..<n])) = n * d"
  by (induction n) auto

lemma concat_chunk:
  assumes "\<And>k. k < n \<Longrightarrow> length (g k) = d" "k < n"
  shows "take d (drop (k * d) (concat (map g [0..<n]))) = g k"
  using assms
proof (induction n)
  case (Suc n)
  have l: "length (concat (map g [0..<n])) = n * d" using Suc.prems(1) by (intro concat_chunk_length) simp
  show ?case
  proof (cases "k = n")
    case True
    then show ?thesis using l Suc.prems(1) by simp
  next
    case False
    then have "Suc k * d \<le> n * d" using Suc.prems(2) by (intro mult_le_mono1) simp
    then show ?thesis using Suc False l by simp
  qed
qed simp

lemma unit_subst:
  assumes "t + length bs \<le> length m" "a + r \<le> length bs"
  shows "take r (drop (t + a) (mem_subst m t bs)) = take r (drop a bs)"
proof -
  have "t \<le> length m" "a \<le> length bs" "r \<le> length bs - a" using assms by simp_all
  then show ?thesis by (simp add: mem_subst_def min_def)
qed

lemma region_subst: "t + length bs \<le> length m \<Longrightarrow> take (length bs) (drop t (mem_subst m t bs)) = bs"
  using unit_subst [of t bs m 0 "length bs"] by simp

lemma units_concat: "s + n * d \<le> length m \<Longrightarrow> concat (map (unit_at m s d d) [0..<n]) = take (n * d) (drop s m)"
proof (induction n)
  case (Suc n)
  then show ?case using take_add [of "n * d" d "drop s m"] by (simp add: unit_at_def ac_simps)
qed simp

section \<open>Whole conversions\<close>

lemma raw2ulaw_codes:
  assumes "t + n \<le> length m" "s + 2 * n \<le> length m" "no_overtake n 2 2 1 t s"
  shows "\<exists>m'. raw2ulaw_loop n m t s = Some m' \<and> length m' = length m \<and>
    take n (drop t m') = map (\<lambda>k. linear2ulaw (of_le16 (unit_at m s 2 2 k))) [0..<n]"
proof -
  let ?i = "ulaw_enc.image n m s"
  have i: "?i = map (\<lambda>k. linear2ulaw (of_le16 (unit_at m s 2 2 k))) [0..<n]"
    unfolding ulaw_enc.image_def by (induction n) simp_all
  then have l: "length ?i = n" by simp
  have "raw2ulaw_loop n m t s = Some (mem_subst m t ?i)"
    using assms by (intro ulaw_enc.result) simp_all
  then show ?thesis using region_subst [of t ?i m] assms(1) l i by simp
qed

lemma one_channel_samples:
  assumes "t + 2 * n \<le> length m" "s + 4 * n \<le> length m + 2" "no_overtake n 2 4 2 t s"
  shows "\<exists>m'. stereo2mono_loop n m t s = Some m' \<and> length m' = length m \<and>
    take (2 * n) (drop t m') = concat (map (unit_at m s 4 2) [0..<n])"
proof -
  let ?i = "one_channel.image n m s"
  have i: "?i = concat (map (unit_at m s 4 2) [0..<n])" by (simp add: one_channel.image_def)
  have l: "length ?i = 2 * n" using one_channel.image_length [of s n m] assms(2) by simp
  have "stereo2mono_loop n m t s = Some (mem_subst m t ?i)"
    using assms by (intro one_channel.result) simp_all
  then show ?thesis using region_subst [of t ?i m] assms(1) l i by simp
qed

text \<open>Sample \<open>k\<close> of a region that was written unit by unit.\<close>

lemma written_unit:
  assumes "take (n * d) (drop t m) = concat (map g [0..<n])" "\<And>k. k < n \<Longrightarrow> length (g k) = d" "k < n"
    and "a + r \<le> d"
  shows "unit_at m (t + a) d r k = take r (drop a (g k))"
proof -
  have "Suc k * d \<le> n * d" using assms(3) by (intro mult_le_mono1) simp
  then have le: "d \<le> n * d - k * d" "k * d \<le> n * d" unfolding mult_Suc by linarith+
  have "take d (drop (k * d) (take (n * d) (drop t m))) = g k"
    unfolding assms(1) by (rule concat_chunk [OF assms(2,3)])
  then have "g k = take d (drop (t + k * d) m)" using le by (simp add: drop_take min_def ac_simps)
  then show ?thesis using assms(4) by (simp add: unit_at_def drop_take min_def ac_simps)
qed

text \<open>Decoding \<open>n\<close> codes writes the samples they stand for, one after the other.\<close>

locale code_decoder = ascending loop 1 1 2 "\<lambda>x. le16 (dec (hd x))"
  for loop :: "nat \<Rightarrow> byte list \<Rightarrow> nat \<Rightarrow> nat \<Rightarrow> byte list option" and dec :: "byte \<Rightarrow> u16"
begin

lemma decoded:
  assumes "s + n \<le> length m" "t + 2 * n \<le> length m" "no_overtake n 1 1 2 t s"
  shows "\<exists>m'. loop n m t s = Some m' \<and> length m' = length m \<and>
    (\<forall>k < n. of_le16 (unit_at m' t 2 2 k) = dec (m ! (s + k)))"
proof -
  let ?i = "image n m s"
  have l: "length ?i = 2 * n" using image_length [of s n m] assms(1) by simp
  have r: "loop n m t s = Some (mem_subst m t ?i)" using assms by (intro result) simp_all
  have "take (n * 2) (drop t (mem_subst m t ?i)) = ?i"
    using region_subst [of t ?i m] assms(2) l by (simp add: mult.commute)
  note reg = this [unfolded image_def]
  have "of_le16 (unit_at (mem_subst m t ?i) t 2 2 k) = dec (m ! (s + k))" if "k < n" for k
    unfolding image_def using written_unit [OF reg _ that, of 0 2] that assms(1)
    by (simp add: unit_at_def take_Suc hd_drop_conv_nth)
  then show ?thesis using r l assms(2) by (intro exI [of _ "mem_subst m t ?i"]) simp
qed

end

interpretation ulaw_dec: code_decoder ulaw2raw_loop ulaw2linear
  by unfold_locales simp_all

interpretation alaw_dec: code_decoder alaw2raw_loop alaw2linear
  by unfold_locales simp_all

text \<open>One code after another through decoder and encoder.\<close>

lemma map_codes: "s + n \<le> length m \<Longrightarrow> map (\<lambda>k. g (m ! (s + k))) [0..<n] = map g (take n (drop s m))"
  by (intro nth_equalityI) simp_all

lemma half_length: "int n * 2 sdiv 2 = int n" "int n * 4 sdiv 4 = int n"
  by (simp_all add: sdiv_nonneg)

lemma int_ok_half: "int_ok (int n * 2) \<Longrightarrow> int_ok (int n)" "int_ok (int n * 4) \<Longrightarrow> int_ok (int n * 2)"
  by (auto simp: int_ok_def)

lemma alaw_round_trip:
  assumes "s + n \<le> length m" "t + 2 * n \<le> length m" "u + n \<le> length m" "int_ok (int n * 2)"
    and "no_overtake n 1 1 2 t s" "no_overtake n 2 2 1 u t"
  shows "\<exists>m1 m2. conv_alaw2raw m t s (int n) = Some (int n * 2, m1) \<and>
      conv_raw2alaw m1 u t (int n * 2) = Some (int n, m2) \<and> take n (drop u m2) = take n (drop s m)"
proof -
  obtain m1 where m1: "alaw2raw_loop n m t s = Some m1" "length m1 = length m"
      "\<forall>k < n. of_le16 (unit_at m1 t 2 2 k) = alaw2linear (m ! (s + k))"
    using alaw_dec.decoded [OF assms(1,2,5)] by blast
  obtain m2 where m2: "raw2alaw_loop n m1 u t = Some m2" "take n (drop u m2) = alaw_image n m1 t"
    using raw2alaw_result [of u n m1 t] assms(2,3,6) m1(2) by (auto simp: alaw_places_def no_overtake_def)
  have "alaw_image n m1 t = map (\<lambda>k. m ! (s + k)) [0..<n]"
    using m1(3) by (simp add: alaw_image_def alaw_decode_encode)
  then have "take n (drop u m2) = take n (drop s m)" using m2(2) map_codes [OF assms(1), of "\<lambda>b. b"] by simp
  then show ?thesis
    using m1(1) m2(1) half_length(1) int_ok_half(1) [OF assms(4)] assms(4)
    by (simp add: conv_alaw2raw_def conv_raw2alaw_def c_ret_def Let_def)
qed

lemma ulaw_round_trip:
  assumes "s + n \<le> length m" "t + 2 * n \<le> length m" "u + n \<le> length m" "int_ok (int n * 2)"
    and "no_overtake n 1 1 2 t s" "no_overtake n 2 2 1 u t"
  shows "\<exists>m1 m2. conv_ulaw2raw m t s (int n) = Some (int n * 2, m1) \<and>
      conv_raw2ulaw m1 u t (int n * 2) = Some (int n, m2) \<and>
      take n (drop u m2) = map (\<lambda>b. if b = 0x7F then 0xFF else b) (take n (drop s m))"
proof -
  obtain m1 where m1: "ulaw2raw_loop n m t s = Some m1" "length m1 = length m"
      "\<forall>k < n. of_le16 (unit_at m1 t 2 2 k) = ulaw2linear (m ! (s + k))"
    using ulaw_dec.decoded [OF assms(1,2,5)] by blast
  obtain m2 where m2: "raw2ulaw_loop n m1 u t = Some m2"
      "take n (drop u m2) = map (\<lambda>k. linear2ulaw (of_le16 (unit_at m1 t 2 2 k))) [0..<n]"
    using raw2ulaw_codes [of u n m1 t] assms(2,3,6) m1(2) by auto
  have "map (\<lambda>k. linear2ulaw (of_le16 (unit_at m1 t 2 2 k))) [0..<n] =
      map (\<lambda>k. linear2ulaw (ulaw2linear (m ! (s + k)))) [0..<n]"
    using m1(3) by (intro map_cong) simp_all
  then have "take n (drop u m2) = map (\<lambda>b. if b = 0x7F then 0xFF else b) (take n (drop s m))"
    using m2(2) map_codes [OF assms(1), of "\<lambda>b. linear2ulaw (ulaw2linear b)"] by (simp only: ulaw_decode_encode)
  then show ?thesis
    using m1(1) m2(1) half_length(1) int_ok_half(1) [OF assms(4)] assms(4)
    by (simp add: conv_ulaw2raw_def conv_raw2ulaw_def c_ret_def Let_def)
qed

text \<open>Both channels of a doubled signal are the signal.\<close>

lemma doubled_channel:
  assumes "s + 2 * n \<le> length m" "t + 4 * n \<le> length m" "a = 0 \<or> a = 2"
  shows "concat (map (unit_at (mem_subst m t (doubled n m s)) (t + a) 4 2) [0..<n]) = take (2 * n) (drop s m)"
proof -
  let ?g = "\<lambda>k. unit_at m s 2 2 k @ unit_at m s 2 2 k" and ?m1 = "mem_subst m t (doubled n m s)"
  have reg: "take (n * 4) (drop t ?m1) = concat (map ?g [0..<n])"
    using region_subst [of t "doubled n m s" m] doubled_length [OF assms(1)] assms(2)
    by (simp add: doubled_def mult.commute)
  have "unit_at ?m1 (t + a) 4 2 k = unit_at m s 2 2 k" if k: "k < n" for k
  proof -
    have len: "length (unit_at m s 2 2 j) = 2" if "j < n" for j using that assms(1) by (simp add: unit_at_def)
    have "unit_at ?m1 (t + a) 4 2 k = take 2 (drop a (?g k))"
      using assms(3) len by (intro written_unit [OF reg _ k]) auto
    then show ?thesis using assms(3) len [OF k] by auto
  qed
  then have "map (unit_at ?m1 (t + a) 4 2) [0..<n] = map (unit_at m s 2 2) [0..<n]" by simp
  then show ?thesis using units_concat [of s n 2 m] assms(1) by (simp only: mult.commute)
qed

text \<open>A null pointer gives \<open>-EINVAL\<close> and no change.\<close>

lemma conv_null_pointer:
  "src = None \<or> target = None \<Longrightarrow> conv_mono2stereo m src target l = Some (- EINVAL, m) \<and>
     conv_stereo2left m src target l = Some (- EINVAL, m) \<and> conv_stereo2right m src target l = Some (- EINVAL, m)"
  by (auto simp: conv_mono2stereo_def conv_stereo2left_def conv_stereo2right_def split: option.splits)

section \<open>Properties\<close>

text \<open>
  C37. The sound check of the device: a captured block of stereo samples is turned in place into
  the u-law codes of its right channel, without leaving the buffer, and the count goes up by the
  number of right samples at negative full scale (\<open>0x8000\<close> to \<open>0x8487\<close>), the only ones with code 0.
  A failed capture (\<open>got\<close> negative) counts nothing.
\<close>

theorem deaf_block_counts_clipped:
  assumes "got \<le> int (length rec_buf)" "int_ok got"
    and "rs = map (\<lambda>k. of_le16 (unit_at rec_buf 2 4 2 k)) [0..<nat got div 4]"
  shows "\<exists>m. deaf_block rec_buf got bad_cnt =
      Some (bad_cnt + length (filter (\<lambda>w. 0x8000 \<le> unat w \<and> unat w \<le> 0x8487) rs), m) \<and>
    length m = length rec_buf \<and> take (length rs) m = map linear2ulaw rs"
proof -
  let ?n = "nat got div 4"
  have n: "4 * ?n \<le> length rec_buf" "nat (got sdiv 4) = ?n"
    using assms(1) nat_sdiv [of 4 got] by (simp_all add: nat_le_iff)
  obtain m1 where m1: "stereo2mono_loop ?n rec_buf 0 2 = Some m1" "length m1 = length rec_buf"
      "take (2 * ?n) (drop 0 m1) = concat (map (unit_at rec_buf 2 4 2) [0..<?n])"
    using one_channel_samples [of 0 ?n rec_buf 2] n by (auto simp: no_overtake_def)
  have ok: "int_ok (int ?n * 2)" "int_ok (int ?n)" using assms(2) by (auto simp: int_ok_def)
  have right: "unit_at m1 0 2 2 k = unit_at rec_buf 2 4 2 k" if "k < ?n" for k
    using written_unit [of ?n 2 0 m1 "unit_at rec_buf 2 4 2" k 0 2] m1(3) that n(1)
      one_channel.unit_length [of _ ?n 2 rec_buf] by (simp add: mult.commute)
  obtain m2 where m2: "raw2ulaw_loop ?n m1 0 0 = Some m2" "length m2 = length m1"
      "take ?n (drop 0 m2) = map (\<lambda>k. linear2ulaw (of_le16 (unit_at m1 0 2 2 k))) [0..<?n]"
    using raw2ulaw_codes [of 0 ?n m1 0] n(1) m1(2) by (auto simp: no_overtake_def)
  have codes: "take ?n m2 = map linear2ulaw rs" using m2(3) right by (simp add: assms(3))
  have "int ?n * 2 sdiv 2 = int ?n" by (subst sdiv_nonneg) simp_all
  then have "deaf_block rec_buf got bad_cnt =
      Some (bad_cnt + length (filter (\<lambda>b. b = 0) (map linear2ulaw rs)), m2)"
    using m1(1) m2(1) ok n(2) codes
    by (simp add: deaf_block_def conv_stereo2right_def conv_raw2ulaw_def c_ret_def Let_def numeral_2_eq_2)
  moreover have "length (filter (\<lambda>b. b = 0) (map linear2ulaw rs)) =
      length (filter (\<lambda>w. 0x8000 \<le> unat w \<and> unat w \<le> 0x8487) rs)"
    by (simp add: filter_map o_def linear2ulaw_0 less_Suc_eq_le [symmetric])
  ultimately show ?thesis using m1(2) m2(2) codes assms(3) by simp
qed

theorem deaf_block_counts_clipped_witness:
  "\<exists>m. deaf_block [1, 0, 0, 0x80, 3, 0, 0xFF, 0x7F, 9] 9 4 = Some (5, m) \<and> length m = 9 \<and> take 2 m = [0, 0x80]"
proof -
  let ?b = "[1, 0, 0, 0x80, 3, 0, 0xFF, 0x7F, 9] :: byte list"
  have r: "map (\<lambda>k. of_le16 (unit_at ?b 2 4 2 k)) [0..<nat 9 div 4] = [0x8000, 0x7FFF]"
    by (simp add: unit_at_def upt_rec)
  have c: "length (filter (\<lambda>w :: u16. 0x8000 \<le> unat w \<and> unat w \<le> 0x8487) [0x8000, 0x7FFF]) = 1" by simp
  have "map linear2ulaw [0x8000, 0x7FFF] = [0, 0x80]" by (simp add: linear2ulaw_def dsp16_ulaw_runs_def)
  then show ?thesis
    using deaf_block_counts_clipped [of 9 ?b, OF _ _ r [symmetric], of 4, unfolded c] by (simp add: int_ok_def eval_nat_numeral)
qed

text \<open>
  C38. Decoding and encoding again: \<open>n\<close> A-law codes turned into samples by \<open>conv_alaw2raw\<close> and back
  by \<open>conv_raw2alaw\<close>, into the same buffer or another, are the same codes; with \<open>conv_ulaw2raw\<close> and
  \<open>conv_raw2ulaw\<close> so are u-law codes, but that the negative zero \<open>0x7F\<close> becomes \<open>0xFF\<close>. No call
  leaves the memory, and each returns the number of bytes it wrote.
\<close>

theorem companding_round_trip:
  assumes "s + n \<le> length m" "t + 2 * n \<le> length m" "u + n \<le> length m" "int_ok (int n * 2)"
    and "no_overtake n 1 1 2 t s" "no_overtake n 2 2 1 u t"
  shows "(\<exists>m1 m2. conv_alaw2raw m t s (int n) = Some (int n * 2, m1) \<and>
      conv_raw2alaw m1 u t (int n * 2) = Some (int n, m2) \<and> take n (drop u m2) = take n (drop s m)) \<and>
    (\<exists>m1 m2. conv_ulaw2raw m t s (int n) = Some (int n * 2, m1) \<and>
      conv_raw2ulaw m1 u t (int n * 2) = Some (int n, m2) \<and>
      take n (drop u m2) = map (\<lambda>b. if b = 0x7F then 0xFF else b) (take n (drop s m)))"
  using alaw_round_trip [OF assms] ulaw_round_trip [OF assms] by blast

theorem companding_round_trip_witness:
  "(\<exists>m1 m2. conv_alaw2raw [0x7F, 0x55, 0, 0, 0, 0] 2 0 2 = Some (4, m1) \<and>
      conv_raw2alaw m1 2 2 4 = Some (2, m2) \<and> take 2 (drop 2 m2) = [0x7F, 0x55]) \<and>
    (\<exists>m1 m2. conv_ulaw2raw [0x7F, 0x55, 0, 0, 0, 0] 2 0 2 = Some (4, m1) \<and>
      conv_raw2ulaw m1 2 2 4 = Some (2, m2) \<and> take 2 (drop 2 m2) = [0xFF, 0x55])"
  using companding_round_trip [of 0 2 "[0x7F, 0x55, 0, 0, 0, 0]" 2 2]
  by (simp add: int_ok_def no_overtake_def)

text \<open>
  Doubling a mono signal and taking one of the two channels: \<open>conv_mono2stereo\<close>, in place or
  to a place apart from the source, puts every sample twice, and both \<open>conv_stereo2left\<close> and
  \<open>conv_stereo2right\<close> of the result, in place or elsewhere, give the mono samples back. No call leaves
  the memory.
\<close>

lemma stereo_mono_round_trip:
  assumes "s + 2 * n \<le> length m" "t + 4 * n \<le> length m" "u + 2 * n \<le> length m" "int_ok (int n * 4)"
    and "s \<le> t \<or> t + 4 * n \<le> s" "u \<le> t \<or> t + 4 * n \<le> u"
  shows "\<exists>m1 m2 m3. conv_mono2stereo m (Some s) (Some t) (int n * 2) = Some (int n * 4, m1) \<and>
      take (4 * n) (drop t m1) = concat (map (\<lambda>k. unit_at m s 2 2 k @ unit_at m s 2 2 k) [0..<n]) \<and>
      conv_stereo2left m1 (Some t) (Some u) (int n * 4) = Some (int n * 2, m2) \<and>
      take (2 * n) (drop u m2) = take (2 * n) (drop s m) \<and>
      conv_stereo2right m1 (Some t) (Some u) (int n * 4) = Some (int n * 2, m3) \<and>
      take (2 * n) (drop u m3) = take (2 * n) (drop s m)"
proof -
  let ?m1 = "mem_subst m t (doubled n m s)"
  have st: "mono2stereo_loop n m s t = Some ?m1" by (rule mono2stereo_result [OF assms(2,1,5)])
  have ld: "length (doubled n m s) = 4 * n" by (rule doubled_length [OF assms(1)])
  then have l1: "length ?m1 = length m" using assms(2) by simp
  have reg: "take (4 * n) (drop t ?m1) = concat (map (\<lambda>k. unit_at m s 2 2 k @ unit_at m s 2 2 k) [0..<n])"
    using region_subst [of t "doubled n m s" m] ld assms(2) by (simp add: doubled_def)
  obtain m2 where m2: "stereo2mono_loop n ?m1 u t = Some m2" "take (2 * n) (drop u m2) = take (2 * n) (drop s m)"
    using one_channel_samples [of u n ?m1 t] doubled_channel [OF assms(1,2), of 0] assms(2,3,6) l1
    by (auto simp: no_overtake_def)
  obtain m3 where m3: "stereo2mono_loop n ?m1 u (t + 2) = Some m3" "take (2 * n) (drop u m3) = take (2 * n) (drop s m)"
    using one_channel_samples [of u n ?m1 "t + 2"] doubled_channel [OF assms(1,2), of 2] assms(2,3,6) l1
    by (auto simp: no_overtake_def)
  show ?thesis
    using st m2 m3 reg half_length [of n] int_ok_half(2) [OF assms(4)] assms(4)
    by (intro exI [of _ ?m1] exI [of _ m2] exI [of _ m3])
       (simp add: conv_mono2stereo_def conv_stereo2left_def conv_stereo2right_def c_ret_def Let_def)
qed

end
