(* ===== verification/C_Time.thy ===== *)
theory C_Time
  imports C_String
begin

text \<open>
  Calendar time as the C library has it: \<open>struct tm\<close>, \<open>localtime\<close> and \<open>mktime\<close>, for a time zone that
  is a fixed number of seconds \<open>tz\<close> east of Greenwich, without daylight saving time. \<open>mktime\<close> accepts
  fields that are out of range, as the C function does, and gives -1 for a time that does not fit
  the 32 bits of \<open>time_t\<close>.
\<close>

section \<open>The Gregorian calendar\<close>

record tm =
  tm_sec :: int
  tm_min :: int
  tm_hour :: int
  tm_mday :: int
  tm_mon :: int
  tm_year :: int

definition leap_year :: "int \<Rightarrow> bool" where
  "leap_year y = (y mod 4 = 0 \<and> (y mod 100 \<noteq> 0 \<or> y mod 400 = 0))"

definition year_days :: "int \<Rightarrow> int" where
  "year_days y = (if leap_year y then 366 else 365)"

definition month_lens :: "int \<Rightarrow> int list" where
  "month_lens y = [31, if leap_year y then 29 else 28, 31, 30, 31, 30, 31, 31, 30, 31, 30, 31]"

text \<open>Days from the first of January 1970 to the first of January of a year.\<close>

definition days_to_year :: "int \<Rightarrow> int" where
  "days_to_year y = 365 * (y - 1970) + (y - 1969) div 4 - (y - 1901) div 100 + (y - 1601) div 400"

function find_year :: "int \<Rightarrow> int \<Rightarrow> int \<times> int" where
  "find_year y d =
     (if d < 0 then find_year (y - 1) (d + year_days (y - 1))
      else if d < year_days y then (y, d)
      else find_year (y + 1) (d - year_days y))"
  by pat_completeness auto
termination
  by (relation "measure (\<lambda>(y, d). if d < 0 then nat (- d) + 1000 else nat d)") (auto simp: year_days_def split: if_splits)

declare find_year.simps [simp del]

fun find_month :: "int list \<Rightarrow> int \<Rightarrow> nat \<times> int" where
  "find_month [] d = (0, d)"
| "find_month (l # ls) d = (if d < l then (0, d) else (case find_month ls (d - l) of (m, r) \<Rightarrow> (m + 1, r)))"

section \<open>Conversions\<close>

definition mktime :: "int \<Rightarrow> tm \<Rightarrow> int" where
  "mktime tz t =
     (let y = tm_year t + 1900 + tm_mon t div 12;
          days = days_to_year y + sum_list (take (nat (tm_mon t mod 12)) (month_lens y)) + tm_mday t - 1;
          v = ((days * 24 + tm_hour t) * 60 + tm_min t) * 60 + tm_sec t - tz
      in if int_ok v then v else -1)"

definition localtime :: "int \<Rightarrow> int \<Rightarrow> tm" where
  "localtime tz t =
     (let s = t + tz; days = s div 86400; r = s mod 86400;
          (y, yd) = find_year 1970 days;
          (m, md) = find_month (month_lens y) yd
      in \<lparr>tm_sec = r mod 60, tm_min = r div 60 mod 60, tm_hour = r div 3600, tm_mday = md + 1,
          tm_mon = int m, tm_year = y - 1900\<rparr>)"

lemma int_div_succ: "0 < n \<Longrightarrow> (x + 1) div n = x div n + (if (x + 1) mod n = 0 then 1 else 0)" for x n :: int
proof -
  assume n: "0 < n"
  have e: "x = n * (x div n) + x mod n" "0 \<le> x mod n" "x mod n < n" using n by simp_all
  show ?thesis
  proof (cases "x mod n + 1 = n")
    case True
    then have "x + 1 = n * (x div n) + n" using e(1) by linarith
    then have "x + 1 = n * (x div n + 1)" by (simp add: algebra_simps)
    then have "(x + 1) div n = x div n + 1" "(x + 1) mod n = 0" using n by (simp_all only: nonzero_mult_div_cancel_left mod_mult_self1_is_0)
    then show ?thesis by simp
  next
    case False
    then have "x + 1 = n * (x div n) + (x mod n + 1)" "0 \<le> x mod n + 1" "x mod n + 1 < n" using e by linarith+
    then have "(x + 1) div n = x div n" "(x + 1) mod n = x mod n + 1" by (fact int_div_pos_eq, fact int_mod_pos_eq)
    then show ?thesis using e(2) by simp
  qed
qed

lemma mod_shift: "(y - n * k) mod n = y mod n" for y n k :: int
  using mod_mult_self2 [of y n "- k"] by simp

lemma days_to_year_Suc: "days_to_year (y + 1) = days_to_year y + year_days y"
proof -
  have 4: "(y - 1968) div 4 = (y - 1969) div 4 + (if y mod 4 = 0 then 1 else 0)"
    using int_div_succ [of 4 "y - 1969"] mod_shift [of y 4 492] by simp
  have 100: "(y - 1900) div 100 = (y - 1901) div 100 + (if y mod 100 = 0 then 1 else 0)"
    using int_div_succ [of 100 "y - 1901"] mod_shift [of y 100 19] by simp
  have 400: "(y - 1600) div 400 = (y - 1601) div 400 + (if y mod 400 = 0 then 1 else 0)"
    using int_div_succ [of 400 "y - 1601"] mod_shift [of y 400 4] by simp
  have "y mod 400 = 0 \<Longrightarrow> y mod 100 = 0" "y mod 100 = 0 \<Longrightarrow> y mod 4 = 0"
    using dvd_trans [of 100 400 y] dvd_trans [of 4 100 y] by (simp_all add: mod_eq_0_iff_dvd)
  note im = this
  define a b c where "a = (y - 1969) div 4" and "b = (y - 1901) div 100" and "c = (y - 1601) div 400"
  have now: "days_to_year y = 365 * (y - 1970) + a - b + c" by (simp add: days_to_year_def a_def b_def c_def)
  have "days_to_year (y + 1) = 365 * (y - 1969) + (y - 1968) div 4 - (y - 1900) div 100 + (y - 1600) div 400"
    by (simp add: days_to_year_def)
  also have "\<dots> = 365 * (y - 1969) + (a + (if y mod 4 = 0 then 1 else 0)) - (b + (if y mod 100 = 0 then 1 else 0)) +
      (c + (if y mod 400 = 0 then 1 else 0))"
    by (simp only: 4 100 400 a_def b_def c_def)
  finally show ?thesis
    unfolding now year_days_def leap_year_def using im
    by (cases "y mod 4 = 0"; cases "y mod 100 = 0"; cases "y mod 400 = 0") simp_all
qed

lemma find_year_spec:
  "find_year y d = (y', d') \<Longrightarrow> days_to_year y + d = days_to_year y' + d' \<and> 0 \<le> d' \<and> d' < year_days y'"
proof (induction y d rule: find_year.induct)
  case (1 y d)
  have "days_to_year y = days_to_year (y - 1) + year_days (y - 1)" using days_to_year_Suc [of "y - 1"] by simp
  then show ?case
    using 1 days_to_year_Suc [of y] by (subst (asm) (3) find_year.simps) (auto split: if_splits)
qed

lemma find_month_spec:
  "find_month ls d = (m, r) \<Longrightarrow> 0 \<le> d \<Longrightarrow> d < sum_list ls \<Longrightarrow>
     sum_list (take m ls) + r = d \<and> 0 \<le> r \<and> m < length ls \<and> r < ls ! m"
proof (induction ls arbitrary: d m r)
  case (Cons l ls)
  show ?case
  proof (cases "d < l")
    case False
    then obtain m' r' where "find_month ls (d - l) = (m', r')" "m = m' + 1" "r = r'"
      using Cons.prems(1) by (auto split: prod.splits)
    then show ?thesis using Cons.IH [of "d - l" m' r'] Cons.prems False by auto
  qed (use Cons.prems in auto)
qed simp

lemma year_days_months: "sum_list (month_lens y) = year_days y"
  by (simp add: month_lens_def year_days_def)

lemma length_month_lens: "length (month_lens y) = 12"
  by (simp add: month_lens_def)

lemma month_lens_le: "m < 12 \<Longrightarrow> month_lens y ! m \<le> 31"
proof -
  assume "m < 12"
  then have "month_lens y ! m \<in> set (month_lens y)" by (intro nth_mem) (simp add: month_lens_def)
  then show ?thesis by (auto simp: month_lens_def split: if_splits)
qed

lemma clock_parts: "r div 3600 * 3600 + r div 60 mod 60 * 60 + r mod 60 = r" for r :: int
proof -
  have "r div 3600 = r div 60 div 60" using zdiv_zmult2_eq [of 60 r 60] by simp
  then show ?thesis using div_mult_mod_eq [of r 60] div_mult_mod_eq [of "r div 60" 60] by linarith
qed

text \<open>The parts of a local time, and that they make up the time.\<close>

lemma localtime_parts:
  assumes "localtime tz t = x"
  shows "0 \<le> tm_sec x \<and> tm_sec x < 60 \<and> 0 \<le> tm_min x \<and> tm_min x < 60 \<and> 0 \<le> tm_hour x \<and> tm_hour x < 24 \<and>
    1 \<le> tm_mday x \<and> tm_mday x \<le> 31 \<and> 0 \<le> tm_mon x \<and> tm_mon x < 12 \<and>
    (days_to_year (tm_year x + 1900) + sum_list (take (nat (tm_mon x)) (month_lens (tm_year x + 1900))) + tm_mday x - 1) * 86400 +
      tm_hour x * 3600 + tm_min x * 60 + tm_sec x = t + tz"
proof -
  let ?s = "t + tz"
  obtain y yd where y: "find_year 1970 (?s div 86400) = (y, yd)" by fastforce
  obtain m md where m: "find_month (month_lens y) yd = (m, md)" by fastforce
  note ys = find_year_spec [OF y]
  have ms: "sum_list (take m (month_lens y)) + md = yd" "0 \<le> md" "m < 12" "md < month_lens y ! m"
    using find_month_spec [OF m] ys by (simp_all add: year_days_months length_month_lens)
  have md: "md < 31" using month_lens_le [OF ms(3), of y] ms(4) by linarith
  have x: "x = \<lparr>tm_sec = ?s mod 86400 mod 60, tm_min = ?s mod 86400 div 60 mod 60, tm_hour = ?s mod 86400 div 3600,
      tm_mday = md + 1, tm_mon = int m, tm_year = y - 1900\<rparr>"
    using assms y m by (simp add: localtime_def Let_def)
  have r: "0 \<le> ?s mod 86400" "?s mod 86400 < 86400" by simp_all
  have "days_to_year y + yd = ?s div 86400" using ys by (simp add: days_to_year_def)
  then have d: "days_to_year y + sum_list (take m (month_lens y)) + md = ?s div 86400" using ms(1) by simp
  note q = clock_parts [of "?s mod 86400"]
  have sel: "tm_year x + 1900 = y" "nat (tm_mon x) = m" "tm_mday x = md + 1" "tm_hour x = ?s mod 86400 div 3600"
    "tm_min x = ?s mod 86400 div 60 mod 60" "tm_sec x = ?s mod 86400 mod 60" by (simp_all add: x)
  have t: "?s div 86400 * 86400 + ?s mod 86400 = ?s" by simp
  have h: "0 \<le> ?s mod 86400 div 3600" "?s mod 86400 div 3600 < 24" using r by (simp_all add: div_less_iff_less_mult)
  have eq: "(days_to_year y + sum_list (take m (month_lens y)) + md) * 86400 + ?s mod 86400 = ?s" unfolding d by (rule t)
  have "(days_to_year y + sum_list (take m (month_lens y)) + md) * 86400 +
      ?s mod 86400 div 3600 * 3600 + ?s mod 86400 div 60 mod 60 * 60 + ?s mod 86400 mod 60 = ?s"
    using eq q by linarith
  then have "(days_to_year (tm_year x + 1900) + sum_list (take (nat (tm_mon x)) (month_lens (tm_year x + 1900))) + tm_mday x - 1) * 86400 +
      tm_hour x * 3600 + tm_min x * 60 + tm_sec x = t + tz"
    unfolding sel add_diff_cancel_right' add.assoc [of _ md 1, symmetric] by assumption
  moreover have "0 \<le> tm_sec x" "tm_sec x < 60" "0 \<le> tm_min x" "tm_min x < 60" "0 \<le> tm_hour x" "tm_hour x < 24"
    "1 \<le> tm_mday x" "tm_mday x \<le> 31" "0 \<le> tm_mon x" "tm_mon x < 12"
    using h ms(2,3) md unfolding sel by (simp_all add: x)
  ultimately show ?thesis by blast
qed

lemma mktime_localtime:
  assumes "int_ok t"
  shows "mktime tz (localtime tz t) = t"
proof -
  note p = localtime_parts [OF refl, of tz t]
  then have "tm_mon (localtime tz t) div 12 = 0" "tm_mon (localtime tz t) mod 12 = tm_mon (localtime tz t)" by auto
  then show ?thesis using p assms by (auto simp: mktime_def Let_def algebra_simps)
qed

lemma days_to_year_mono: "y \<le> y' \<Longrightarrow> days_to_year y \<le> days_to_year y'"
proof (induction y' rule: int_ge_induct)
  case (step y')
  then show ?case using days_to_year_Suc [of y'] by (simp add: year_days_def split: if_splits)
qed simp

lemma localtime_year:
  assumes "0 \<le> t + tz" "t + tz < 2 ^ 31 + 86400"
  shows "1970 \<le> tm_year (localtime tz t) + 1900 \<and> tm_year (localtime tz t) + 1900 < 2039"
proof -
  let ?s = "t + tz"
  obtain y yd where y: "find_year 1970 (?s div 86400) = (y, yd)" by fastforce
  have ty: "tm_year (localtime tz t) = y - 1900" using y by (simp add: localtime_def Let_def split: prod.splits)
  have d: "days_to_year y + yd = ?s div 86400" "0 \<le> yd" "yd < year_days y"
    using find_year_spec [OF y] by (simp_all add: days_to_year_def)
  have "0 \<le> ?s div 86400" "?s div 86400 < 24858" using assms by simp_all
  moreover have "days_to_year 1970 = 0" "days_to_year 2039 = 25202" by (simp_all add: days_to_year_def)
  ultimately have "days_to_year y < days_to_year 2039" "days_to_year 1970 < days_to_year (y + 1)"
    using d days_to_year_Suc [of y] by linarith+
  then have "\<not> 2039 \<le> y" "\<not> y + 1 \<le> 1970" using days_to_year_mono by fastforce+
  then show ?thesis using ty by simp
qed

end
