(* ===== verification/Rec_Name.thy ===== *)
theory Rec_Name
  imports C_Time
begin

text \<open>
  The names of recording files, \<open>src/libsrc/hdutil/hdutil.c\<close> and \<open>src/src/mp_hdmodule_m/hdmod.c\<close>. A name holds
  everything the recorder knows of a file,
  \<open>/hqdata/sda1/2005/10/24/12/HQ_C00_D20051024125934_L30_T00.AVI\<close>: partition, start time (twice: as the
  directory and as field D), channel, length in seconds and trigger bits, then the marks \<open>#\<close> (recorded by hand)
  and \<open>@\<close> (locked) and the extension, which is \<open>.ING\<close> while the file is written.

  A function that writes a name returns it; \<open>None\<close> stands for what the C standard leaves undefined: a number
  that \<open>atoi\<close> cannot hold, a read past the end of a buffer, a partition name that does not fit its array or
  that has a percent sign where it is used as a format. \<open>tz\<close> is the offset of the local time zone.
\<close>

section \<open>Conversions of printf\<close>

definition pad0 :: "nat \<Rightarrow> string \<Rightarrow> string" where
  "pad0 w s = replicate (w - length s) (CHR ''0'') @ s"

definition printf_0d :: "nat \<Rightarrow> int \<Rightarrow> string" where
  "printf_0d w i = (if i < 0 then CHR ''-'' # pad0 (w - 1) (show_nat (nat (- i))) else pad0 w (show_nat (nat i)))"

definition hex_char :: "nat \<Rightarrow> char" where
  "hex_char d = (if d < 10 then char_of (48 + d) else char_of (55 + d))"

fun show_hex :: "nat \<Rightarrow> string" where
  "show_hex n = (if n < 16 then [hex_char n] else show_hex (n div 16) @ [hex_char (n mod 16)])"

declare show_hex.simps [simp del]

definition printf_0X :: "nat \<Rightarrow> int \<Rightarrow> string" where
  "printf_0X w i = pad0 w (show_hex (nat (i mod 2 ^ 32)))"

definition is_upper :: "char \<Rightarrow> bool" where
  "is_upper c = (65 \<le> (of_char c :: nat) \<and> (of_char c :: nat) \<le> 90)"

definition is_lower :: "char \<Rightarrow> bool" where
  "is_lower c = (97 \<le> (of_char c :: nat) \<and> (of_char c :: nat) \<le> 122)"

definition isalnum :: "char \<Rightarrow> bool" where
  "isalnum c = (is_digit c \<or> is_upper c \<or> is_lower c)"

definition toupper :: "char \<Rightarrow> nat" where
  "toupper c = (if is_lower c then of_char c - 32 else of_char c)"

section \<open>The file record\<close>

record file_info =
  stime :: int
  fi_channel :: int
  fi_type :: int
  fi_len :: int
  fi_trig :: int
  fi_remote :: int
  fi_lock :: int
  ing_flag :: int
  fi_partition :: string

abbreviation (input) LOCK_FILE_FLAG :: char where "LOCK_FILE_FLAG \<equiv> CHR ''@''"
abbreviation (input) REMOTE_TRIG_FLAG :: char where "REMOTE_TRIG_FLAG \<equiv> CHR ''#''"
abbreviation (input) IMG_FILE_EXT :: string where "IMG_FILE_EXT \<equiv> ''.AVI''"
abbreviation (input) RECORDING_FILE_EXT :: string where "RECORDING_FILE_EXT \<equiv> ''.ING''"

text \<open>The part of the three formats of \<open>finfo2filename\<close> before the marks.\<close>

definition name_stem :: "int \<Rightarrow> file_info \<Rightarrow> string" where
  "name_stem tz info =
     (let p = localtime tz (stime info);
          y = printf_0d 4 (1900 + tm_year p); mo = printf_0d 2 (tm_mon p + 1); d = printf_0d 2 (tm_mday p);
          h = printf_0d 2 (tm_hour p); mi = printf_0d 2 (tm_min p); s = printf_0d 2 (tm_sec p)
      in as_cstr (fi_partition info) @ ''/'' @ y @ ''/'' @ mo @ ''/'' @ d @ ''/'' @ h @ ''/HQ_C'' @
         printf_0d 2 (fi_channel info) @ ''_D'' @ y @ mo @ d @ h @ mi @ s @ ''_L'' @ printf_0d 2 (fi_len info) @
         ''_T'' @ printf_0X 2 (fi_trig info))"

definition finfo2filename :: "int \<Rightarrow> file_info \<Rightarrow> string" where
  "finfo2filename tz info =
     (if fi_remote info = 1 then name_stem tz info @ [REMOTE_TRIG_FLAG, LOCK_FILE_FLAG] @ IMG_FILE_EXT
      else if fi_trig info \<noteq> 0 then name_stem tz info @ [LOCK_FILE_FLAG] @ IMG_FILE_EXT
      else name_stem tz info @ IMG_FILE_EXT)"

section \<open>Marks\<close>

definition hdutil_lock_filename :: "string \<Rightarrow> string" where
  "hdutil_lock_filename n =
     (case strchr n LOCK_FILE_FLAG of Some i \<Rightarrow> n
      | None \<Rightarrow> (case strstr n IMG_FILE_EXT of None \<Rightarrow> n
                 | Some e \<Rightarrow> (case strchr n REMOTE_TRIG_FLAG of
                     Some j \<Rightarrow> take j n @ [REMOTE_TRIG_FLAG, LOCK_FILE_FLAG] @ IMG_FILE_EXT
                   | None \<Rightarrow> take e n @ [LOCK_FILE_FLAG] @ IMG_FILE_EXT)))"

definition hdutil_unlock_filename :: "string \<Rightarrow> string" where
  "hdutil_unlock_filename n =
     (case strchr n LOCK_FILE_FLAG of None \<Rightarrow> n
      | Some i \<Rightarrow> if strstr n RECORDING_FILE_EXT \<noteq> None then n else take i n @ IMG_FILE_EXT)"

definition rtflag_filename :: "string \<Rightarrow> string" where
  "rtflag_filename n =
     (case strchr n REMOTE_TRIG_FLAG of Some i \<Rightarrow> n
      | None \<Rightarrow> (case strchr n LOCK_FILE_FLAG of
          Some j \<Rightarrow> take j n @ [REMOTE_TRIG_FLAG, LOCK_FILE_FLAG] @ IMG_FILE_EXT
        | None \<Rightarrow> (case strstr n IMG_FILE_EXT of None \<Rightarrow> n
                   | Some e \<Rightarrow> take e n @ [REMOTE_TRIG_FLAG] @ IMG_FILE_EXT)))"

section \<open>Reading a name\<close>

text \<open>\<open>hex2ascii\<close> looks at the character before its conversion to upper case.\<close>

definition hex2ascii :: "char \<Rightarrow> int" where
  "hex2ascii s =
     (if s = CHR ''F'' then 63 else if s = CHR ''E'' then 62 else if s = CHR ''D'' then 61
      else if s = CHR ''C'' then 60 else if s = CHR ''B'' then 59 else if s = CHR ''A'' then 58
      else int (toupper s))"

text \<open>The number of characters before the one \<open>get_strtail\<close> points to.\<close>

definition get_strtail :: "string \<Rightarrow> nat option" where
  "get_strtail s = (if length s > 100 then None else Some (length (takeWhile isalnum s)))"

text \<open>
  \<open>memcpy(temp, p, n); temp[n] = 0; p += n; atoi(temp)\<close> on the bytes from \<open>p\<close> to the end of the string in
  its array: \<open>None\<close> where the copy reads behind it.
\<close>

definition take_num :: "nat \<Rightarrow> string \<Rightarrow> (int \<times> string) option" where
  "take_num n b =
     (if length b < n then None else case atoi (as_cstr (take n b)) of None \<Rightarrow> None | Some v \<Rightarrow> Some (v, drop n b))"

definition date_field :: "int \<Rightarrow> string \<Rightarrow> int option" where
  "date_field tz b =
     (case take_num 4 b of None \<Rightarrow> None | Some (y, b) \<Rightarrow>
      case take_num 2 b of None \<Rightarrow> None | Some (mo, b) \<Rightarrow>
      case take_num 2 b of None \<Rightarrow> None | Some (d, b) \<Rightarrow>
      case take_num 2 b of None \<Rightarrow> None | Some (h, b) \<Rightarrow>
      case take_num 2 b of None \<Rightarrow> None | Some (mi, b) \<Rightarrow>
      case take_num 2 b of None \<Rightarrow> None | Some (s, b) \<Rightarrow>
        Some (mktime tz \<lparr>tm_sec = s, tm_min = mi, tm_hour = h, tm_mday = d, tm_mon = mo - 1, tm_year = y - 1900\<rparr>))"

definition trig_field :: "string \<Rightarrow> int" where
  "trig_field f = foldl (\<lambda>trig c. trig * 16 + hex2ascii c - 48) 0 (drop (length f - 4) f)"

text \<open>One field \<open>f\<close> after an underscore, \<open>r\<close> the rest of the name behind it, which begins where the code puts a
  temporary terminator.\<close>

definition name_field :: "int \<Rightarrow> string \<Rightarrow> string \<Rightarrow> file_info \<Rightarrow> file_info option" where
  "name_field tz f r info =
     (case f of [] \<Rightarrow> Some info
      | c # f' \<Rightarrow>
          if c = CHR ''c'' \<or> c = CHR ''C'' then map_option (\<lambda>v. info\<lparr>fi_channel := v\<rparr>) (atoi f')
          else if c = CHR ''d'' \<or> c = CHR ''D'' then
            map_option (\<lambda>v. info\<lparr>stime := v\<rparr>) (date_field tz (f' @ NUL # (if r = [] then [] else tl r @ [NUL])))
          else if c = CHR ''l'' \<or> c = CHR ''L'' then map_option (\<lambda>v. info\<lparr>fi_len := v\<rparr>) (atoi f')
          else if c = CHR ''t'' \<or> c = CHR ''T'' then Some (info\<lparr>fi_trig := trig_field f'\<rparr>)
          else Some info)"

function name_fields :: "int \<Rightarrow> bool \<Rightarrow> string \<Rightarrow> file_info \<Rightarrow> (int \<times> file_info) option" where
  "name_fields tz state p info =
     (if p = [] \<or> hd p = LF then Some (0, info)
      else if \<not> state then name_fields tz (hd p = CHR ''_'') (tl p) info
      else case get_strtail p of None \<Rightarrow> Some (-1, info)
           | Some t \<Rightarrow> (case name_field tz (take t p) (drop t p) info of None \<Rightarrow> None
                        | Some info' \<Rightarrow> name_fields tz False (drop t p) info'))"
  by pat_completeness auto
termination
proof (relation "measure (\<lambda>(tz, st, p, info). 2 * length p + (if st then 1 else 0))")
  fix tz :: int and state :: bool and p :: string and info :: file_info
  assume "\<not> (p = [] \<or> hd p = LF)" "\<not> state"
  then show "((tz, hd p = CHR ''_'', tl p, info), (tz, state, p, info))
      \<in> measure (\<lambda>(tz, st, p, info). 2 * length p + (if st then 1 else 0))"
    by (cases p) auto
qed auto

declare name_fields.simps [simp del]

text \<open>The array \<open>partition[16]\<close> after \<open>strncpy(partition, filename, n)\<close> and \<open>partition[12] = 0\<close>.\<close>

definition copy_partition :: "string \<Rightarrow> nat \<Rightarrow> string \<Rightarrow> string" where
  "copy_partition f n old = ((take n (f @ replicate n NUL)) @ drop n old)[12 := NUL]"

definition hdutil_filename2finfo :: "int \<Rightarrow> string \<Rightarrow> file_info \<Rightarrow> (int \<times> file_info) option" where
  "hdutil_filename2finfo tz f info =
     (if length f > 100 then Some (-1, info)
      else let n = (case strstr f ''sd'' of Some i \<Rightarrow> i + 4 | None \<Rightarrow> 0);
               part = (if strstr f ''sd'' = None then copy_partition ''/hqdata/sda1'' 13 (fi_partition info)
                       else copy_partition f n (fi_partition info))
           in if n > 16 then None
              else name_fields tz False f
                (info\<lparr>fi_partition := part, fi_remote := (if strchr f REMOTE_TRIG_FLAG = None then 0 else 1),
                  fi_lock := (if strchr f LOCK_FILE_FLAG = None then 0 else 1),
                  ing_flag := (if strstr f RECORDING_FILE_EXT = None then 0 else 1)\<rparr>))"

definition get_fname_time :: "int \<Rightarrow> string \<Rightarrow> int option" where
  "get_fname_time tz f =
     (case strstr f ''_D'' of None \<Rightarrow> Some (-1)
      | Some i \<Rightarrow> if length (drop (i + 2) f) < 14 then None else date_field tz (drop (i + 2) f))"

text \<open>\<open>part_name\<close> has 20 bytes and is filled with \<open>sprintf\<close>, the partition's name as its format; \<open>path\<close> has 200.\<close>

definition hdutil_filename2dirs :: "string \<Rightarrow> string \<Rightarrow> (int \<times> string) option" where
  "hdutil_filename2dirs pt f =
     (case strstr pt ''/sd'' of None \<Rightarrow> Some (-1, [])
      | Some i \<Rightarrow>
          let part_name = drop (i + 1) pt in
          if length part_name > 19 \<or> CHR ''%'' \<in> set part_name then None
          else case strstr f ''_D'' of None \<Rightarrow> Some (-1, [])
          | Some j \<Rightarrow>
              let p = drop (j + 2) f;
                  path = ''/hqdata/'' @ part_name @ ''/'' @ take 4 p @ ''/'' @ take 2 (drop 4 p) @ ''/'' @
                    take 2 (drop 6 p) @ ''/'' @ take 2 (drop 8 p) @ ''/'' @ f
              in if length p < 8 \<or> length path > 199 then None else Some (0, path))"

section \<open>Printed numbers read back\<close>

lemma set_pad0: "c \<in> set (pad0 w s) \<Longrightarrow> c = CHR ''0'' \<or> c \<in> set s"
  by (auto simp: pad0_def)

lemma length_pad0: "length (pad0 w s) = max w (length s)"
  by (simp add: pad0_def)

lemma dec_value_pad0: "dec_value (pad0 w s) = dec_value s"
proof -
  have "foldl (\<lambda>acc c. acc * 10 + (of_char c - 48)) (0 :: nat) (replicate n (CHR ''0'')) = 0" for n
    by (induction n) simp_all
  then show ?thesis by (simp add: dec_value_def pad0_def)
qed

definition dec_field :: "nat \<Rightarrow> nat \<Rightarrow> string" where
  "dec_field w n = pad0 w (show_nat n)"

lemma printf_0d_dec_field: "0 \<le> i \<Longrightarrow> printf_0d w i = dec_field w (nat i)"
  by (simp add: printf_0d_def dec_field_def)

lemma dec_field_digits: "c \<in> set (dec_field w n) \<Longrightarrow> is_digit c"
proof -
  assume "c \<in> set (dec_field w n)"
  then have "c = CHR ''0'' \<or> c \<in> set (show_nat n)" unfolding dec_field_def by (rule set_pad0)
  then show ?thesis using show_nat_digits [of n] by (auto simp: list_all_iff is_digit_def)
qed

lemma dec_field_length: "n < 10 ^ Suc k \<Longrightarrow> k < w \<Longrightarrow> length (dec_field w n) = w"
  using show_nat_length [of n k] by (simp add: dec_field_def length_pad0)

lemma dec_field_length_le: "n < 10 ^ Suc k \<Longrightarrow> length (dec_field w n) \<le> max w (Suc k)"
  using show_nat_length [of n k] by (simp add: dec_field_def length_pad0 max.coboundedI2)

lemma dec_field_nonempty: "dec_field w n \<noteq> []"
  using show_nat_digits [of n] by (simp add: dec_field_def pad0_def)

lemma atoi_dec_field: "int_ok (int n) \<Longrightarrow> atoi (dec_field w n) = Some (int n)"
proof -
  assume ok: "int_ok (int n)"
  obtain c cs where c: "dec_field w n = c # cs" using dec_field_nonempty by (cases "dec_field w n") auto
  have all: "\<And>x. x \<in> set (c # cs) \<Longrightarrow> is_digit x" using dec_field_digits [of _ w n] c by simp
  then have t: "takeWhile is_digit (c # cs) = c # cs" by (simp only: takeWhile_eq_all_conv) blast
  have v: "dec_value (c # cs) = n" using dec_value_pad0 [of w "show_nat n"] dec_value_show_nat [of n] c
    by (simp add: dec_field_def)
  note ns = digit_not_sign [OF all [OF list.set_intros(1)]]
  have d: "dec_value (takeWhile is_digit (c # cs)) = n" unfolding t by (fact v)
  show ?thesis using ok ns d unfolding c by (simp add: atoi_def Let_def del: takeWhile.simps)
qed

lemma digit_alnum: "is_digit c \<Longrightarrow> isalnum c"
  by (simp add: isalnum_def)

lemma digit_char_codes: "is_digit c \<Longrightarrow> 48 \<le> (of_char c :: nat) \<and> (of_char c :: nat) \<le> 57"
  by (simp add: is_digit_def)

lemma take_num_dec_field:
  assumes "length (dec_field w n) = w" "int_ok (int n)"
  shows "take_num w (dec_field w n @ b) = Some (int n, b)"
proof -
  have "\<And>c. c \<in> set (dec_field w n) \<Longrightarrow> c \<noteq> NUL" using dec_field_digits by (force simp: is_digit_def)
  then have "as_cstr (dec_field w n) = dec_field w n" by (simp add: as_cstr_def takeWhile_eq_all_conv)
  then show ?thesis using assms atoi_dec_field by (simp add: take_num_def)
qed

text \<open>Hexadecimal trigger bits.\<close>

lemma hex_char_codes: "d < 16 \<Longrightarrow> (of_char (hex_char d) :: nat) = (if d < 10 then 48 + d else 55 + d)"
  by (simp add: hex_char_def)

lemma hex_letters:
  "hex_char 10 = CHR ''A''" "hex_char 11 = CHR ''B''" "hex_char 12 = CHR ''C''" "hex_char 13 = CHR ''D''"
  "hex_char 14 = CHR ''E''" "hex_char 15 = CHR ''F''"
  by code_simp+

lemma hex2ascii_hex_char: "d < 16 \<Longrightarrow> hex2ascii (hex_char d) = 48 + int d"
proof -
  assume "d < 16"
  then consider "d < 10" | "d = 10" | "d = 11" | "d = 12" | "d = 13" | "d = 14" | "d = 15" by linarith
  then show ?thesis
  proof cases
    case 1
    have "hex_char d \<noteq> c" if "57 < (of_char c :: nat)" for c using hex_char_codes [of d] 1 that by auto
    then show ?thesis using hex_char_codes [of d] 1 by (simp add: hex2ascii_def toupper_def is_lower_def)
  qed (simp_all add: hex2ascii_def hex_letters)
qed

lemma hex_char_alnum: "d < 16 \<Longrightarrow> isalnum (hex_char d)"
  using hex_char_codes [of d] by (auto simp: isalnum_def is_digit_def is_upper_def is_lower_def split: if_splits)

lemma show_hex_alnum: "c \<in> set (show_hex n) \<Longrightarrow> isalnum c"
proof (induction n rule: show_hex.induct)
  case (1 n)
  then show ?case by (subst (asm) (2) show_hex.simps) (auto split: if_splits intro: hex_char_alnum)
qed

definition hex_value :: "string \<Rightarrow> int" where
  "hex_value f = foldl (\<lambda>trig c. trig * 16 + hex2ascii c - 48) 0 f"

lemma hex_value_show_hex: "hex_value (show_hex n) = int n"
proof (induction n rule: show_hex.induct)
  case (1 n)
  then show ?case
    by (subst show_hex.simps) (auto simp: hex_value_def hex2ascii_hex_char zdiv_int zmod_int)
qed

lemma show_hex_length: "n < 16 ^ Suc k \<Longrightarrow> length (show_hex n) \<le> Suc k"
proof (induction k arbitrary: n)
  case (Suc k)
  then have "n div 16 < 16 ^ Suc k" by (simp add: less_mult_imp_div_less)
  then show ?case using Suc.IH [of "n div 16"] by (subst show_hex.simps) auto
qed (simp add: show_hex.simps)

lemma hex_value_pad0: "hex_value (pad0 w s) = hex_value s"
proof -
  have "foldl (\<lambda>trig c. trig * 16 + hex2ascii c - 48) 0 (replicate n (CHR ''0'')) = 0" for n
    by (induction n) (simp_all add: hex2ascii_def toupper_def is_lower_def)
  then show ?thesis by (simp add: hex_value_def pad0_def)
qed

lemma printf_0X_alnum: "c \<in> set (printf_0X w i) \<Longrightarrow> isalnum c"
  unfolding printf_0X_def using set_pad0 show_hex_alnum by (fastforce simp: isalnum_def is_digit_def)

lemma trig_field_printf:
  assumes "0 \<le> i" "i < 2 ^ 16"
  shows "trig_field (printf_0X 2 i) = i"
proof -
  have i: "nat (i mod 2 ^ 32) = nat i" using assms by (subst mod_pos_pos_trivial) auto
  have "nat i < 16 ^ Suc 3" using assms by (subst nat_less_iff) auto
  then have "length (show_hex (nat i)) \<le> 4" using show_hex_length [of "nat i" 3] by simp
  then have "length (printf_0X 2 i) \<le> 4" by (simp only: printf_0X_def i length_pad0)
  then have "trig_field (printf_0X 2 i) = hex_value (printf_0X 2 i)" by (simp add: trig_field_def hex_value_def)
  then show ?thesis using assms(1) by (simp only: printf_0X_def i hex_value_pad0 hex_value_show_hex int_nat_eq if_True)
qed

end
