(* ===== verification/Rec_Name_Props.thy ===== *)
theory Rec_Name_Props
  imports Rec_Name
begin

text \<open>
  What a recording file's name says: reading the name the recorder gave a file returns the information it was made from,
  and the marks are set and removed without touching the rest of the name.
\<close>

section \<open>Names in parts\<close>

lemma strstr_fits: "strstr a n = Some i \<Longrightarrow> i + length n \<le> length a"
proof (induction a arbitrary: i)
  case (Cons c a)
  show ?case
  proof (cases "strncmp_eq (c # a) n")
    case True
    then have "length n \<le> length (c # a)" by (metis strncmp_eq_def length_take min.cobounded1)
    then show ?thesis using Cons.prems True by simp
  next
    case False
    then show ?thesis using Cons by auto
  qed
qed (auto split: if_splits)

lemma strstr_append: "strstr a n = Some i \<Longrightarrow> strstr (a @ b) n = Some i"
proof (induction a arbitrary: i)
  case Nil
  then show ?case by (cases b) (auto simp: strncmp_eq_def split: if_splits)
next
  case (Cons c a)
  show ?case
  proof (cases "strncmp_eq (c # a) n")
    case True
    then have "strncmp_eq (c # a @ b) n" by (metis append_Cons append_assoc strncmp_eq_prefix)
    then show ?thesis using Cons.prems True by simp
  next
    case False
    then obtain j where j: "strstr a n = Some j" "i = Suc j" using Cons.prems by auto
    have "length n \<le> length (c # a)" using strstr_fits [OF j(1)] by simp
    then have "take (length n) ((c # a) @ b) = take (length n) (c # a)" by (simp only: take_append) simp
    then have "\<not> strncmp_eq (c # a @ b) n" using False by (simp add: strncmp_eq_def)
    then show ?thesis using Cons.IH [OF j(1)] j(2) by simp
  qed
qed

lemma strchr_append: "x \<notin> set a \<Longrightarrow> strchr (a @ b) x = map_option (\<lambda>i. length a + i) (strchr b x)"
  by (induction a) (auto simp: map_option_case split: option.splits)

definition plain_char :: "char \<Rightarrow> bool" where
  "plain_char c = (c \<notin> {CHR ''_'', REMOTE_TRIG_FLAG, LOCK_FILE_FLAG, CHR ''.'', CHR ''%'', LF, NUL})"

text \<open>A partition is mounted at a path such as \<open>/hqdata/sda1\<close>.\<close>

definition partition_ok :: "string \<Rightarrow> bool" where
  "partition_ok pt = (length pt = 12 \<and> take 10 pt = ''/hqdata/sd'' \<and> list_all plain_char pt)"

lemma partition_split: "partition_ok pt \<Longrightarrow> pt = ''/hqdata/sd'' @ drop 10 pt"
  by (metis append_take_drop_id partition_ok_def)

lemma partition_sd: "partition_ok pt \<Longrightarrow> strstr (pt @ b) ''sd'' = Some 8"
proof -
  assume "partition_ok pt"
  then have "pt @ b = ''/hqdata/'' @ ''sd'' @ (drop 10 pt @ b)" using partition_split [of pt] by simp
  then show ?thesis by (simp only:) (subst strstr_first, simp_all)
qed

lemma alnum_plain: "isalnum c \<Longrightarrow> plain_char c"
  by (auto simp: plain_char_def isalnum_def is_digit_def is_upper_def is_lower_def)

lemma name_fields_skip:
  assumes "\<And>c. c \<in> set pre \<Longrightarrow> c \<noteq> CHR ''_'' \<and> c \<noteq> LF"
  shows "name_fields tz False (pre @ s) info = name_fields tz False s info"
  using assms
proof (induction pre)
  case (Cons c pre)
  then show ?case by (subst name_fields.simps) simp
qed simp

lemma name_fields_end: "(\<And>c. c \<in> set s \<Longrightarrow> c \<noteq> CHR ''_'' \<and> c \<noteq> LF) \<Longrightarrow> name_fields tz False s info = Some (0, info)"
proof -
  assume "\<And>c. c \<in> set s \<Longrightarrow> c \<noteq> CHR ''_'' \<and> c \<noteq> LF"
  then have "name_fields tz False (s @ []) info = name_fields tz False [] info" by (rule name_fields_skip)
  then show ?thesis using name_fields.simps [of tz False "[]" info] by simp
qed

lemma name_fields_field:
  assumes "f \<noteq> []" "\<And>c. c \<in> set f \<Longrightarrow> isalnum c" "r = [] \<or> \<not> isalnum (hd r)" "length (f @ r) \<le> 100"
    and "name_field tz f r info = Some info'"
  shows "name_fields tz False (CHR ''_'' # f @ r) info = name_fields tz False r info'"
proof -
  have "hd f \<noteq> LF" using assms(2) [OF hd_in_set [OF assms(1)]] by (auto simp: isalnum_def is_digit_def is_upper_def is_lower_def)
  moreover have "takeWhile isalnum (f @ r) = f" using assms(2,3) by (cases r) (auto simp: takeWhile_tail)
  then have "get_strtail (f @ r) = Some (length f)" using assms(4) by (simp add: get_strtail_def)
  ultimately show ?thesis using assms(1,5)
    by (subst name_fields.simps, simp) (subst name_fields.simps, simp)
qed

section \<open>Which files have a well-formed name\<close>

definition finfo_ok :: "int \<Rightarrow> file_info \<Rightarrow> bool" where
  "finfo_ok tz info =
     (partition_ok (as_cstr (fi_partition info)) \<and> length (fi_partition info) = 16 \<and>
      0 \<le> fi_channel info \<and> int_ok (fi_channel info) \<and> 0 \<le> fi_len info \<and> int_ok (fi_len info) \<and>
      0 \<le> fi_trig info \<and> fi_trig info < 2 ^ 16 \<and> fi_remote info \<in> {0, 1} \<and>
      int_ok (stime info) \<and> 0 \<le> stime info + tz \<and> stime info + tz < 2 ^ 31 + 86400)"

definition date_str :: "int \<Rightarrow> file_info \<Rightarrow> string" where
  "date_str tz info =
     (let p = localtime tz (stime info)
      in dec_field 4 (nat (1900 + tm_year p)) @ dec_field 2 (nat (tm_mon p + 1)) @ dec_field 2 (nat (tm_mday p)) @
         dec_field 2 (nat (tm_hour p)) @ dec_field 2 (nat (tm_min p)) @ dec_field 2 (nat (tm_sec p)))"

definition dir_str :: "int \<Rightarrow> file_info \<Rightarrow> string" where
  "dir_str tz info =
     (let p = localtime tz (stime info)
      in ''/'' @ dec_field 4 (nat (1900 + tm_year p)) @ ''/'' @ dec_field 2 (nat (tm_mon p + 1)) @ ''/'' @
         dec_field 2 (nat (tm_mday p)) @ ''/'' @ dec_field 2 (nat (tm_hour p)) @ ''/'')"

lemma time_ranges:
  assumes "finfo_ok tz info" and p: "p = localtime tz (stime info)"
  shows "1970 \<le> 1900 + tm_year p" "1900 + tm_year p < 2039" "1 \<le> tm_mon p + 1" "tm_mon p + 1 \<le> 12"
    "1 \<le> tm_mday p" "tm_mday p \<le> 31" "0 \<le> tm_hour p" "tm_hour p < 24" "0 \<le> tm_min p" "tm_min p < 60"
    "0 \<le> tm_sec p" "tm_sec p < 60"
  using localtime_parts [OF refl, of tz "stime info"] localtime_year [of "stime info" tz] assms
  by (simp_all add: finfo_ok_def)

lemma dec2: "0 \<le> i \<Longrightarrow> i < 100 \<Longrightarrow> length (dec_field 2 (nat i)) = 2 \<and> int_ok (int (nat i))"
  using dec_field_length [of "nat i" 1 2] by (simp add: int_ok_def nat_less_iff)

lemma dec4: "0 \<le> i \<Longrightarrow> i < 10000 \<Longrightarrow> length (dec_field 4 (nat i)) = 4 \<and> int_ok (int (nat i))"
  using dec_field_length [of "nat i" 3 4] by (simp add: int_ok_def nat_less_iff)

lemma date_field_date_str:
  assumes "finfo_ok tz info"
  shows "date_field tz (date_str tz info @ b) = Some (stime info)"
proof -
  define p where "p = localtime tz (stime info)"
  note r = time_ranges [OF assms p_def]
  have n4: "take_num 4 (dec_field 4 (nat (1900 + tm_year p)) @ c) = Some (1900 + tm_year p, c)" for c
    using take_num_dec_field [of 4 "nat (1900 + tm_year p)" c] dec4 [of "1900 + tm_year p"] r by simp
  have n2: "take_num 2 (dec_field 2 (nat i) @ c) = Some (i, c)" if "0 \<le> i" "i < 100" for i c
    using take_num_dec_field [of 2 "nat i" c] dec2 that by simp
  have e: "\<lparr>tm_sec = tm_sec p, tm_min = tm_min p, tm_hour = tm_hour p, tm_mday = tm_mday p, tm_mon = tm_mon p,
      tm_year = tm_year p\<rparr> = p" by (cases p) simp
  have "date_field tz (date_str tz info @ b) = Some (mktime tz p)"
    unfolding date_field_def date_str_def Let_def p_def [symmetric] append_assoc
    using r by (simp add: n4 n2 e)
  then show ?thesis using assms mktime_localtime by (simp add: p_def finfo_ok_def)
qed

lemma date_str_digits: "c \<in> set (date_str tz info) \<Longrightarrow> is_digit c"
  by (auto simp: date_str_def Let_def dest: dec_field_digits)

lemma date_str_length: "finfo_ok tz info \<Longrightarrow> length (date_str tz info) = 14"
  using time_ranges [OF _ refl, of tz info] by (simp add: date_str_def Let_def dec2 dec4)

lemma dir_str_length: "finfo_ok tz info \<Longrightarrow> length (dir_str tz info) = 15"
  using time_ranges [OF _ refl, of tz info] by (simp add: dir_str_def Let_def dec2 dec4)

lemma dir_str_chars: "c \<in> set (dir_str tz info) \<Longrightarrow> is_digit c \<or> c = CHR ''/''"
  by (auto simp: dir_str_def Let_def dest: dec_field_digits)

lemma name_stem_parts:
  assumes "finfo_ok tz info"
  shows "name_stem tz info = (as_cstr (fi_partition info) @ dir_str tz info @ ''HQ'') @
    CHR ''_'' # (CHR ''C'' # dec_field 2 (nat (fi_channel info))) @
    CHR ''_'' # (CHR ''D'' # date_str tz info) @
    CHR ''_'' # (CHR ''L'' # dec_field 2 (nat (fi_len info))) @
    CHR ''_'' # (CHR ''T'' # printf_0X 2 (fi_trig info))"
  using time_ranges [OF assms refl] assms
  by (simp add: name_stem_def Let_def dir_str_def date_str_def finfo_ok_def printf_0d_dec_field)

lemma int_ok_dec_field: "0 \<le> i \<Longrightarrow> int_ok i \<Longrightarrow> length (dec_field 2 (nat i)) \<le> 10"
proof -
  assume "0 \<le> i" "int_ok i"
  then have "nat i < 10 ^ Suc 9" by (subst nat_less_iff) (auto simp: int_ok_def)
  then show ?thesis using dec_field_length_le [of "nat i" 9 2] by simp
qed

lemma trig_length: "0 \<le> i \<Longrightarrow> i < 2 ^ 16 \<Longrightarrow> length (printf_0X 2 i) \<le> 4"
proof -
  assume i: "0 \<le> i" "i < 2 ^ 16"
  then have m: "nat (i mod 2 ^ 32) = nat i" by (subst mod_pos_pos_trivial) auto
  have "nat i < 16 ^ Suc 3" using i by (subst nat_less_iff) auto
  then have "length (show_hex (nat i)) \<le> 4" using show_hex_length [of "nat i" 3] by simp
  then show ?thesis by (simp only: printf_0X_def m length_pad0)
qed

lemma name_stem_length: "finfo_ok tz info \<Longrightarrow> length (name_stem tz info) \<le> 75"
  using int_ok_dec_field [of "fi_channel info"] int_ok_dec_field [of "fi_len info"] trig_length [of "fi_trig info"]
  by (simp add: name_stem_parts date_str_length dir_str_length) (simp add: finfo_ok_def partition_ok_def)

section \<open>Reading a name back\<close>

lemma name_dir_plain:
  assumes "finfo_ok tz info" "c \<in> set (as_cstr (fi_partition info) @ dir_str tz info @ ''HQ'')"
  shows "plain_char c"
proof -
  consider "c \<in> set (as_cstr (fi_partition info))" | "c \<in> set (dir_str tz info)" | "c \<in> set ''HQ''"
    using assms(2) unfolding set_append by blast
  then show ?thesis
  proof cases
    case 1
    then show ?thesis using assms(1) by (simp add: finfo_ok_def partition_ok_def list_all_iff)
  next
    case 2
    then show ?thesis using dir_str_chars [OF 2] alnum_plain digit_alnum by (auto simp: plain_char_def)
  qed (auto simp: plain_char_def)
qed

definition mark_tail :: "string \<Rightarrow> bool" where
  "mark_tail e = (e \<noteq> [] \<and> \<not> isalnum (hd e) \<and> list_all (\<lambda>c. c \<noteq> CHR ''_'' \<and> c \<noteq> LF) e \<and> length e \<le> 6)"

lemma name_fields_name:
  assumes ok: "finfo_ok tz info" and e: "mark_tail e"
  shows "name_fields tz False (name_stem tz info @ e) i0 =
    Some (0, i0\<lparr>fi_channel := fi_channel info, stime := stime info, fi_len := fi_len info, fi_trig := fi_trig info\<rparr>)"
proof -
  let ?C = "CHR ''C'' # dec_field 2 (nat (fi_channel info))" and ?D = "CHR ''D'' # date_str tz info"
    and ?L = "CHR ''L'' # dec_field 2 (nat (fi_len info))" and ?T = "CHR ''T'' # printf_0X 2 (fi_trig info)"
  define d l t where "d = CHR ''_'' # ?D @ CHR ''_'' # ?L @ CHR ''_'' # ?T @ e" and "l = CHR ''_'' # ?L @ CHR ''_'' # ?T @ e"
    and "t = CHR ''_'' # ?T @ e"
  have nu: "\<not> isalnum (CHR ''_'')" by (simp add: isalnum_def is_digit_def is_upper_def is_lower_def)
  have AN: "isalnum (CHR ''C'')" "isalnum (CHR ''D'')" "isalnum (CHR ''L'')" "isalnum (CHR ''T'')"
    by (simp_all add: isalnum_def is_digit_def is_upper_def is_lower_def)
  have n: "name_stem tz info @ e = (as_cstr (fi_partition info) @ dir_str tz info @ ''HQ'') @ CHR ''_'' # ?C @ d"
    by (simp add: name_stem_parts [OF ok] d_def)
  have len: "length (?C @ d) \<le> 100" "length (?D @ l) \<le> 100" "length (?L @ t) \<le> 100" "length (?T @ e) \<le> 100"
    using name_stem_length [OF ok] e unfolding name_stem_parts [OF ok]
    by (simp_all add: d_def l_def t_def mark_tail_def)
  have skip: "c \<noteq> CHR ''_'' \<and> c \<noteq> LF" if "c \<in> set (as_cstr (fi_partition info) @ dir_str tz info @ ''HQ'')" for c
    using name_dir_plain [OF ok that] by (simp add: plain_char_def)
  have v: "atoi (dec_field 2 (nat (fi_channel info))) = Some (fi_channel info)"
    "atoi (dec_field 2 (nat (fi_len info))) = Some (fi_len info)"
    using ok atoi_dec_field [of "nat (fi_channel info)" 2] atoi_dec_field [of "nat (fi_len info)" 2]
    by (simp_all add: finfo_ok_def)
  have date: "date_field tz (date_str tz info @ x) = Some (stime info)" for x by (rule date_field_date_str [OF ok])
  have tr: "trig_field (printf_0X 2 (fi_trig info)) = fi_trig info"
    using ok trig_field_printf [of "fi_trig info"] by (simp add: finfo_ok_def)
  have "name_fields tz False (name_stem tz info @ e) i0 = name_fields tz False (CHR ''_'' # ?C @ d) i0"
    unfolding n by (rule name_fields_skip) (rule skip)
  also have "\<dots> = name_fields tz False d (i0\<lparr>fi_channel := fi_channel info\<rparr>)"
    using AN len(1) v nu dec_field_digits digit_alnum by (intro name_fields_field) (auto simp: name_field_def d_def)
  also have "\<dots> = name_fields tz False l (i0\<lparr>fi_channel := fi_channel info, stime := stime info\<rparr>)"
    unfolding d_def l_def [symmetric] using AN len(2) date nu date_str_digits digit_alnum
    by (intro name_fields_field) (auto simp: name_field_def l_def)
  also have "\<dots> = name_fields tz False t (i0\<lparr>fi_channel := fi_channel info, stime := stime info, fi_len := fi_len info\<rparr>)"
    unfolding l_def t_def [symmetric] using AN len(3) v nu dec_field_digits digit_alnum
    by (intro name_fields_field) (auto simp: name_field_def t_def)
  also have "\<dots> = name_fields tz False e (i0\<lparr>fi_channel := fi_channel info, stime := stime info, fi_len := fi_len info,
      fi_trig := fi_trig info\<rparr>)"
    unfolding t_def using AN len(4) tr e printf_0X_alnum
    by (intro name_fields_field) (auto simp: name_field_def mark_tail_def)
  finally show ?thesis using name_fields_end [of e] e by (auto simp: mark_tail_def list_all_iff)
qed

lemma name_stem_chars:
  assumes "finfo_ok tz info" "c \<in> set (name_stem tz info)"
  shows "plain_char c \<or> c = CHR ''_''"
proof -
  have "c \<in> set (as_cstr (fi_partition info) @ dir_str tz info @ ''HQ'') \<or> c = CHR ''_'' \<or> c \<in> set ''CDLT'' \<or>
      c \<in> set (dec_field 2 (nat (fi_channel info))) \<or> c \<in> set (date_str tz info) \<or>
      c \<in> set (dec_field 2 (nat (fi_len info))) \<or> c \<in> set (printf_0X 2 (fi_trig info))"
    using assms(2) unfolding name_stem_parts [OF assms(1)] set_append set_simps(2) by blast
  moreover have "c \<in> set ''CDLT'' \<Longrightarrow> isalnum c" by (auto simp: isalnum_def is_upper_def)
  ultimately show ?thesis
    using name_dir_plain [OF assms(1)] alnum_plain digit_alnum dec_field_digits date_str_digits printf_0X_alnum by blast
qed

text \<open>The stem of a name has neither mark nor extension in it.\<close>

definition unmarked :: "string \<Rightarrow> bool" where
  "unmarked s = list_all (\<lambda>c. c \<noteq> REMOTE_TRIG_FLAG \<and> c \<noteq> LOCK_FILE_FLAG \<and> c \<noteq> CHR ''.'') s"

lemma name_stem_unmarked: "finfo_ok tz info \<Longrightarrow> unmarked (name_stem tz info)"
  using name_stem_chars [of tz info] by (auto simp: unmarked_def list_all_iff plain_char_def)

lemma strstr_ext: "unmarked s \<Longrightarrow> CHR ''.'' \<notin> set m \<Longrightarrow> strstr (s @ m @ CHR ''.'' # x) (CHR ''.'' # x) = Some (length s + length m)"
  using strstr_first [of "CHR ''.'' # x" "s @ m" "[]"] by (auto simp: unmarked_def list_all_iff)

lemma strstr_other_ext:
  assumes "unmarked s" "CHR ''.'' \<notin> set m" "CHR ''.'' \<notin> set x" "\<not> strncmp_eq (CHR ''.'' # x) (CHR ''.'' # y)"
  shows "strstr (s @ m @ CHR ''.'' # x) (CHR ''.'' # y) = None"
proof -
  have base: "strstr (CHR ''.'' # x) (CHR ''.'' # y) = None"
    using assms(3,4) strstr_none [of "CHR ''.'' # y" x] by simp
  have "CHR ''.'' \<notin> set a \<Longrightarrow> strstr (a @ CHR ''.'' # x) (CHR ''.'' # y) = None" for a
  proof (induction a)
    case (Cons c a)
    then show ?case by (auto simp: strncmp_eq_def)
  qed (simp only: append_Nil base)
  from this [of "s @ m"] show ?thesis using assms(1,2) by (auto simp: unmarked_def list_all_iff)
qed

definition marks :: "bool \<Rightarrow> bool \<Rightarrow> string" where
  "marks r l = (if r then [REMOTE_TRIG_FLAG] else []) @ (if l then [LOCK_FILE_FLAG] else [])"

lemma mark_search:
  assumes "unmarked s" "e = IMG_FILE_EXT \<or> e = RECORDING_FILE_EXT"
  shows "strchr (s @ marks r l @ e) LOCK_FILE_FLAG = (if l then Some (length s + (if r then 1 else 0)) else None)"
    "strchr (s @ marks r l @ e) REMOTE_TRIG_FLAG = (if r then Some (length s) else None)"
    "strstr (s @ marks r l @ IMG_FILE_EXT) IMG_FILE_EXT = Some (length s + length (marks r l))"
    "strstr (s @ marks r l @ RECORDING_FILE_EXT) IMG_FILE_EXT = None"
    "strstr (s @ marks r l @ IMG_FILE_EXT) RECORDING_FILE_EXT = None"
    "strstr (s @ marks r l @ RECORDING_FILE_EXT) RECORDING_FILE_EXT \<noteq> None"
proof -
  have n: "LOCK_FILE_FLAG \<notin> set s" "REMOTE_TRIG_FLAG \<notin> set s" using assms(1) by (auto simp: unmarked_def list_all_iff)
  have m: "CHR ''.'' \<notin> set (marks r l)" by (auto simp: marks_def)
  show "strchr (s @ marks r l @ e) LOCK_FILE_FLAG = (if l then Some (length s + (if r then 1 else 0)) else None)"
    using assms(2) by (auto simp: strchr_append [OF n(1)] marks_def)
  show "strchr (s @ marks r l @ e) REMOTE_TRIG_FLAG = (if r then Some (length s) else None)"
    using assms(2) by (auto simp: strchr_append [OF n(2)] marks_def)
  show "strstr (s @ marks r l @ IMG_FILE_EXT) IMG_FILE_EXT = Some (length s + length (marks r l))"
    "strstr (s @ marks r l @ RECORDING_FILE_EXT) RECORDING_FILE_EXT \<noteq> None"
    using strstr_ext [OF assms(1) m] by simp_all
  show "strstr (s @ marks r l @ RECORDING_FILE_EXT) IMG_FILE_EXT = None"
    "strstr (s @ marks r l @ IMG_FILE_EXT) RECORDING_FILE_EXT = None"
    by (rule strstr_other_ext [OF assms(1) m], simp_all add: strncmp_eq_def)+
qed

text \<open>Locking, unlocking and marking a finished file set just their mark.\<close>

lemma marks_algebra:
  assumes "unmarked s"
  shows "hdutil_lock_filename (s @ marks r l @ IMG_FILE_EXT) = s @ marks r True @ IMG_FILE_EXT"
    and "hdutil_unlock_filename (s @ marks r l @ IMG_FILE_EXT) = s @ marks r False @ IMG_FILE_EXT"
    and "rtflag_filename (s @ marks r l @ IMG_FILE_EXT) = s @ marks True l @ IMG_FILE_EXT"
    and "hdutil_lock_filename (s @ marks r l @ RECORDING_FILE_EXT) = s @ marks r l @ RECORDING_FILE_EXT"
    and "hdutil_unlock_filename (s @ marks r l @ RECORDING_FILE_EXT) = s @ marks r l @ RECORDING_FILE_EXT"
proof -
  note A = mark_search [OF assms disjI1 [OF refl], of r l] and I = mark_search [OF assms disjI2 [OF refl], of r l]
  show "hdutil_lock_filename (s @ marks r l @ IMG_FILE_EXT) = s @ marks r True @ IMG_FILE_EXT"
    unfolding hdutil_lock_filename_def A by (cases r; cases l) (simp_all add: marks_def)
  show "hdutil_unlock_filename (s @ marks r l @ IMG_FILE_EXT) = s @ marks r False @ IMG_FILE_EXT"
    unfolding hdutil_unlock_filename_def A by (cases r; cases l) (simp_all add: marks_def)
  show "rtflag_filename (s @ marks r l @ IMG_FILE_EXT) = s @ marks True l @ IMG_FILE_EXT"
    unfolding rtflag_filename_def A by (cases r; cases l) (simp_all add: marks_def)
  show "hdutil_lock_filename (s @ marks r l @ RECORDING_FILE_EXT) = s @ marks r l @ RECORDING_FILE_EXT"
    unfolding hdutil_lock_filename_def I by (cases l) simp_all
  show "hdutil_unlock_filename (s @ marks r l @ RECORDING_FILE_EXT) = s @ marks r l @ RECORDING_FILE_EXT"
    unfolding hdutil_unlock_filename_def I(1) using I(6) by (cases l) simp_all
qed

lemma finfo2filename_marks:
  "fi_remote info \<in> {0, 1} \<Longrightarrow>
   finfo2filename tz info = name_stem tz info @ marks (fi_remote info = 1) (fi_remote info = 1 \<or> fi_trig info \<noteq> 0) @ IMG_FILE_EXT"
  by (auto simp: finfo2filename_def marks_def)

lemma mark_tail_marks: "mark_tail (marks r l @ IMG_FILE_EXT)" "mark_tail (marks r l @ RECORDING_FILE_EXT)"
  by (auto simp: mark_tail_def marks_def isalnum_def is_digit_def is_upper_def is_lower_def)

lemma copy_partition_cstr:
  assumes "length pt = 12" "NUL \<notin> set pt" "length old = 16"
  shows "as_cstr (copy_partition (pt @ b) 12 old) = pt \<and> length (copy_partition (pt @ b) 12 old) = 16"
proof -
  have "(pt @ drop 12 old)[12 := NUL] = pt @ (drop 12 old)[0 := NUL]" using assms(1) by (simp add: list_update_append)
  moreover obtain x xs where "drop 12 old = x # xs" using assms(3) by (cases "drop 12 old") auto
  moreover from this have "length xs = 3" using assms(3) length_drop [of 12 old] by simp
  ultimately have "copy_partition (pt @ b) 12 old = pt @ NUL # xs" "length xs = 3"
    using assms(1) by (simp_all add: copy_partition_def)
  moreover have "takeWhile (\<lambda>c. c \<noteq> NUL) (pt @ NUL # xs) = pt" using assms(2) by (subst takeWhile_append2) auto
  ultimately show ?thesis using assms(1) by (simp add: as_cstr_def)
qed

text \<open>Reading any name made from a file record, whatever its marks and extension.\<close>

lemma filename2finfo_name:
  assumes ok: "finfo_ok tz info" and e: "e = IMG_FILE_EXT \<or> e = RECORDING_FILE_EXT" and old: "length (fi_partition i0) = 16"
  shows "\<exists>pt. as_cstr pt = as_cstr (fi_partition info) \<and> length pt = 16 \<and>
    hdutil_filename2finfo tz (name_stem tz info @ marks r l @ e) i0 =
      Some (0, i0\<lparr>stime := stime info, fi_channel := fi_channel info, fi_len := fi_len info, fi_trig := fi_trig info,
        fi_remote := (if r then 1 else 0), fi_lock := (if l then 1 else 0),
        ing_flag := (if e = RECORDING_FILE_EXT then 1 else 0), fi_partition := pt\<rparr>)"
proof -
  let ?n = "name_stem tz info @ marks r l @ e" and ?p = "as_cstr (fi_partition info)"
  obtain b where b: "?n = ?p @ b" using name_stem_parts [OF ok] by simp
  have P: "partition_ok ?p" using ok by (simp add: finfo_ok_def)
  then have sd: "strstr ?n ''sd'' = Some 8" unfolding b by (rule partition_sd)
  have pt: "as_cstr (copy_partition ?n 12 (fi_partition i0)) = ?p" "length (copy_partition ?n 12 (fi_partition i0)) = 16"
    using copy_partition_cstr [OF _ _ old, of ?p b] P unfolding b
    by (auto simp: partition_ok_def list_all_iff plain_char_def)
  have len: "\<not> 100 < length ?n" using name_stem_length [OF ok] e by (auto simp: marks_def)
  have tl: "mark_tail (marks r l @ e)" using e mark_tail_marks by metis
  note s = mark_search [OF name_stem_unmarked [OF ok] e, of r l]
    and x = mark_search(5,6) [OF name_stem_unmarked [OF ok] e, of r l]
  have ing: "strstr ?n RECORDING_FILE_EXT = None \<longleftrightarrow> e \<noteq> RECORDING_FILE_EXT" using e x by auto
  show ?thesis
    unfolding hdutil_filename2finfo_def using len pt
    by (intro exI [of _ "copy_partition ?n 12 (fi_partition i0)"])
      (simp add: sd s(1,2) ing name_fields_name [OF ok tl] Let_def)
qed

lemma strstr_skip:
  "n \<noteq> [] \<Longrightarrow> hd n \<notin> set a \<Longrightarrow> strstr (a @ s) n = map_option (\<lambda>i. length a + i) (strstr s n)"
proof (induction a)
  case (Cons c a)
  then have "\<not> strncmp_eq (c # a @ s) n" using strncmp_eq_hd [of "c # a @ s" n] by fastforce
  then show ?case using Cons by (simp add: option.map_comp comp_def)
qed (cases "strstr s n", simp_all)

lemma find_date:
  assumes ok: "finfo_ok tz info"
  shows "\<exists>a b. name_stem tz info = as_cstr (fi_partition info) @ dir_str tz info @ a @ ''_D'' @ date_str tz info @ b \<and>
    CHR ''/'' \<notin> set a \<and> CHR ''/'' \<notin> set b \<and> length a \<le> 14 \<and> length b \<le> 18 \<and>
    (\<forall>x y. CHR ''_'' \<notin> set x \<longrightarrow> strstr (x @ a @ ''_D'' @ y) ''_D'' = Some (length x + length a))"
proof -
  let ?c = "dec_field 2 (nat (fi_channel info))"
  let ?a = "''HQ_C'' @ ?c" and ?b = "''_L'' @ dec_field 2 (nat (fi_len info)) @ ''_T'' @ printf_0X 2 (fi_trig info)"
  have slash: "\<not> isalnum (CHR ''/'')" by (simp add: isalnum_def is_digit_def is_upper_def is_lower_def)
  have c: "CHR ''_'' \<notin> set ?c" "CHR ''/'' \<notin> set ?c" using dec_field_digits by (force simp: is_digit_def)+
  have "strstr (x @ ?a @ ''_D'' @ y) ''_D'' = Some (length x + length ?a)" if "CHR ''_'' \<notin> set x" for x y
  proof -
    have "strstr (''C'' @ ?c @ ''_D'' @ y) ''_D'' = Some (length (''C'' @ ?c))"
      using strstr_first [of "''_D''" "''C'' @ ?c" y] c by simp
    then have "strstr (''_C'' @ ?c @ ''_D'' @ y) ''_D'' = Some (2 + length ?c)" by (simp add: strncmp_eq_def)
    then show ?thesis using strstr_skip [of "''_D''" "x @ ''HQ''" "''_C'' @ ?c @ ''_D'' @ y"] that by simp
  qed
  moreover have "CHR ''/'' \<notin> set ?b" using slash digit_alnum dec_field_digits printf_0X_alnum by fastforce
  ultimately show ?thesis
    using c name_stem_parts [OF ok] ok int_ok_dec_field [of "fi_channel info"] int_ok_dec_field [of "fi_len info"]
      trig_length [of "fi_trig info"]
    by (intro exI [of _ ?a] exI [of _ ?b]) (auto simp: finfo_ok_def)
qed

section \<open>Properties\<close>

text \<open>
  C13. A file's name determines what the recorder knows of it: for a file on a mounted partition, with a start time of 1970 to
  2038 and trigger bits of 16 bits, the name \<open>finfo2filename\<close> makes fits the recorder's arrays of 100 characters, and
  \<open>hdutil_filename2finfo\<close> reads start time, channel, length, triggers, the mark of a manual recording and the
  partition back from it, says that the file is locked exactly when it was recorded by hand or on an alarm, and that
  it is finished. \<open>get_fname_time\<close> reads the same start time.
\<close>

theorem file_name_round_trip:
  assumes ok: "finfo_ok tz info" and old: "length (fi_partition i0) = 16"
  shows "length (finfo2filename tz info) < 100 \<and>
    (\<exists>pt. as_cstr pt = as_cstr (fi_partition info) \<and>
      hdutil_filename2finfo tz (finfo2filename tz info) i0 =
        Some (0, i0\<lparr>stime := stime info, fi_channel := fi_channel info, fi_len := fi_len info, fi_trig := fi_trig info,
          fi_remote := fi_remote info, fi_lock := (if fi_remote info = 1 \<or> fi_trig info \<noteq> 0 then 1 else 0),
          ing_flag := 0, fi_partition := pt\<rparr>)) \<and>
    get_fname_time tz (finfo2filename tz info) = Some (stime info)"
proof -
  have r: "fi_remote info \<in> {0, 1}" using ok by (simp add: finfo_ok_def)
  let ?m = "marks (fi_remote info = 1) (fi_remote info = 1 \<or> fi_trig info \<noteq> 0) @ IMG_FILE_EXT"
  note n = finfo2filename_marks [OF r, of tz]
  obtain pt where pt: "as_cstr pt = as_cstr (fi_partition info)" "hdutil_filename2finfo tz (finfo2filename tz info) i0 =
        Some (0, i0\<lparr>stime := stime info, fi_channel := fi_channel info, fi_len := fi_len info, fi_trig := fi_trig info,
          fi_remote := (if fi_remote info = 1 then 1 else 0), fi_lock := (if fi_remote info = 1 \<or> fi_trig info \<noteq> 0 then 1 else 0),
          ing_flag := 0, fi_partition := pt\<rparr>)"
    using filename2finfo_name [OF ok disjI1 [OF refl] old] unfolding n by fastforce
  obtain a b where ab: "name_stem tz info = as_cstr (fi_partition info) @ dir_str tz info @ a @ ''_D'' @ date_str tz info @ b"
    and f: "\<And>x y. CHR ''_'' \<notin> set x \<Longrightarrow> strstr (x @ a @ ''_D'' @ y) ''_D'' = Some (length x + length a)"
    using find_date [OF ok] by blast
  let ?x = "as_cstr (fi_partition info) @ dir_str tz info"
  have x: "CHR ''_'' \<notin> set ?x"
  proof
    assume "CHR ''_'' \<in> set ?x"
    then have "plain_char (CHR ''_'')" by (intro name_dir_plain [OF ok]) simp
    then show False by (simp add: plain_char_def)
  qed
  have nm: "finfo2filename tz info = ?x @ a @ ''_D'' @ date_str tz info @ b @ ?m" unfolding n ab by simp
  have "get_fname_time tz (finfo2filename tz info) = date_field tz (date_str tz info @ b @ ?m)"
    unfolding get_fname_time_def nm f [OF x] using date_str_length [OF ok] by (simp del: append_assoc)
  moreover have "length (finfo2filename tz info) < 100"
    using name_stem_length [OF ok] unfolding n by (simp add: marks_def)
  moreover have e: "(if fi_remote info = 1 then 1 else 0) = fi_remote info" using r by auto
  note pt' = pt(2) [unfolded e]
  ultimately show ?thesis using pt(1) pt' date_field_date_str [OF ok] by metis
qed

text \<open>
  Example: twelve seconds of channel 3, recorded by hand on \<open>/hqdata/sda1\<close> from 8:00:00 on the 2nd of January 1970
  in the zone UTC+8 (second 86400), with trigger bits 0x1A.
\<close>

definition sample_finfo :: file_info where
  "sample_finfo = \<lparr>stime = 86400, fi_channel = 3, fi_type = 2, fi_len = 12, fi_trig = 26, fi_remote = 1, fi_lock = 0,
     ing_flag = 0, fi_partition = ''/hqdata/sda1'' @ [NUL, NUL, NUL, NUL]\<rparr>"

lemma sample_partition:
  "as_cstr (''/hqdata/sda1'' @ [NUL, NUL, NUL, NUL]) = ''/hqdata/sda1''" "partition_ok ''/hqdata/sda1''"
  by (simp_all add: as_cstr_def partition_ok_def plain_char_def)

lemma sample_finfo_ok: "finfo_ok 28800 sample_finfo \<and> length (fi_partition sample_finfo) = 16"
  unfolding finfo_ok_def sample_finfo_def file_info.simps sample_partition(1)
  by (simp add: int_ok_def sample_partition(2))

lemma sample_time: "localtime 28800 86400 = \<lparr>tm_sec = 0, tm_min = 0, tm_hour = 8, tm_mday = 2, tm_mon = 0, tm_year = 70\<rparr>"
  by (simp add: localtime_def find_year.simps year_days_def leap_year_def month_lens_def)

lemma digit_chars:
  "digit_char 0 = CHR ''0''" "digit_char (Suc 0) = CHR ''1''" "digit_char 2 = CHR ''2''" "digit_char 3 = CHR ''3''" "digit_char 7 = CHR ''7''"
  "digit_char 8 = CHR ''8''" "digit_char 9 = CHR ''9''"
  by code_simp+

lemma hex_char_1: "hex_char (Suc 0) = CHR ''1''"
  by code_simp

lemma sample_name: "finfo2filename 28800 sample_finfo = ''/hqdata/sda1/1970/01/02/08/HQ_C03_D19700102080000_L12_T1A#@.AVI''"
  unfolding finfo2filename_def name_stem_def sample_finfo_def file_info.simps sample_partition(1) sample_time Let_def tm.simps
  by (simp add: printf_0d_def printf_0X_def pad0_def show_nat.simps show_hex.simps digit_chars hex_char_1 hex_letters)

lemma sample_start: "stime sample_finfo = 86400"
  by (simp add: sample_finfo_def)

theorem file_name_round_trip_witness:
  "finfo_ok 28800 sample_finfo \<and> get_fname_time 28800 (finfo2filename 28800 sample_finfo) = Some 86400 \<and>
   finfo2filename 28800 sample_finfo = ''/hqdata/sda1/1970/01/02/08/HQ_C03_D19700102080000_L12_T1A#@.AVI''"
  using file_name_round_trip [of 28800 sample_finfo sample_finfo] sample_finfo_ok sample_name sample_start by metis

text \<open>
  A file lies where its name says: from the partition and the part of a name after its directories,
  \<open>hdutil_filename2dirs\<close> rebuilds the whole name that \<open>finfo2filename\<close> made.
\<close>

lemma file_name_place:
  assumes ok: "finfo_ok tz info"
  shows "\<exists>d b. finfo2filename tz info = d @ b \<and> CHR ''/'' \<notin> set b \<and>
    hdutil_filename2dirs (as_cstr (fi_partition info)) b = Some (0, finfo2filename tz info)"
proof -
  let ?pt = "as_cstr (fi_partition info)"
  let ?m = "marks (fi_remote info = 1) (fi_remote info = 1 \<or> fi_trig info \<noteq> 0) @ IMG_FILE_EXT"
  define p where "p = localtime tz (stime info)"
  note r = time_ranges [OF ok p_def]
  have P: "partition_ok ?pt" using ok by (simp add: finfo_ok_def)
  obtain a b where ab: "name_stem tz info = ?pt @ dir_str tz info @ a @ ''_D'' @ date_str tz info @ b"
    and ns: "CHR ''/'' \<notin> set a" "CHR ''/'' \<notin> set b" and len: "length a \<le> 14" "length b \<le> 18"
    and f: "\<And>x y. CHR ''_'' \<notin> set x \<Longrightarrow> strstr (x @ a @ ''_D'' @ y) ''_D'' = Some (length x + length a)"
    using find_date [OF ok] by blast
  let ?base = "a @ ''_D'' @ date_str tz info @ b @ ?m" and ?q = "date_str tz info @ b @ ?m"
  have "fi_remote info \<in> {0, 1}" using ok by (simp add: finfo_ok_def)
  then have n: "finfo2filename tz info = (?pt @ dir_str tz info) @ ?base" using ab finfo2filename_marks [of info tz] by simp
  obtain u where u: "?pt = ''/hqdata'' @ ''/sd'' @ u" "length u = 2" "CHR ''%'' \<notin> set u"
    using partition_split [OF P] P by (force simp: partition_ok_def list_all_iff plain_char_def dest: in_set_dropD)
  have sd: "strstr ?pt ''/sd'' = Some 7"
    unfolding u(1) by (simp add: strncmp_eq_def)
  have D: "strstr ?base ''_D'' = Some (length a)" using f [of "[]"] by simp
  have q: "?q = dec_field 4 (nat (1900 + tm_year p)) @ dec_field 2 (nat (tm_mon p + 1)) @ dec_field 2 (nat (tm_mday p)) @
      dec_field 2 (nat (tm_hour p)) @ (dec_field 2 (nat (tm_min p)) @ dec_field 2 (nat (tm_sec p)) @ b @ ?m)"
    by (simp add: date_str_def Let_def p_def)
  have parts: "take 4 ?q = dec_field 4 (nat (1900 + tm_year p))" "take 2 (drop 4 ?q) = dec_field 2 (nat (tm_mon p + 1))"
    "take 2 (drop 6 ?q) = dec_field 2 (nat (tm_mday p))" "take 2 (drop 8 ?q) = dec_field 2 (nat (tm_hour p))"
    unfolding q using r by (simp_all add: dec2 dec4)
  have path: "''/hqdata/'' @ (''sd'' @ u) @ ''/'' @ take 4 ?q @ ''/'' @ take 2 (drop 4 ?q) @ ''/'' @ take 2 (drop 6 ?q) @ ''/'' @
      take 2 (drop 8 ?q) @ ''/'' @ ?base = finfo2filename tz info"
    unfolding n u(1) parts by (simp add: dir_str_def Let_def p_def)
  have lens: "length (finfo2filename tz info) < 100" "\<not> length ?q < 8"
    using name_stem_length [OF ok] date_str_length [OF ok] finfo2filename_marks [of info tz] ok
    by (auto simp: finfo_ok_def marks_def)
  have dp: "drop (7 + 1) ?pt = ''sd'' @ u" "drop (length a + 2) ?base = ?q" unfolding u(1) by simp_all
  have "hdutil_filename2dirs ?pt ?base = Some (0, finfo2filename tz info)"
    unfolding hdutil_filename2dirs_def sd option.case D Let_def dp path using lens u(2,3) by simp
  moreover have "CHR ''/'' \<notin> set (date_str tz info)" "CHR ''/'' \<notin> set ?m"
    using date_str_digits [of "CHR ''/''" tz info] by (auto simp: is_digit_def marks_def)
  then have "CHR ''/'' \<notin> set ?base" using ns unfolding set_append by simp
  ultimately show ?thesis using n by blast
qed

text \<open>
  The marks of a finished file are two independent bits of its name: on any name of an unmarked stem,
  locking and unlocking set and clear the lock and \<open>rtflag_filename\<close> sets the mark of a manual recording, each leaving the
  other mark and the stem as they were; a file that is still being written keeps its name under locking and unlocking.
\<close>

lemma file_marks:
  assumes "unmarked s"
  shows "hdutil_lock_filename (s @ marks r l @ ''.AVI'') = s @ marks r True @ ''.AVI'' \<and>
    hdutil_unlock_filename (s @ marks r l @ ''.AVI'') = s @ marks r False @ ''.AVI'' \<and>
    rtflag_filename (s @ marks r l @ ''.AVI'') = s @ marks True l @ ''.AVI'' \<and>
    hdutil_lock_filename (s @ marks r l @ ''.ING'') = s @ marks r l @ ''.ING'' \<and>
    hdutil_unlock_filename (s @ marks r l @ ''.ING'') = s @ marks r l @ ''.ING''"
  using marks_algebra [OF assms] by simp

text \<open>\<open>rtflag_filename\<close> does not leave a locked file that is being written alone: it gives it the extension of a finished one.\<close>

lemma rtflag_finishes_locked_file:
  "unmarked s \<Longrightarrow> rtflag_filename (s @ marks False True @ ''.ING'') = s @ ''#@.AVI''"
  using mark_search(1,2) [of s "''.ING''" False True] by (simp add: rtflag_filename_def marks_def)

text \<open>Lower-case hexadecimal digits are read as 17 to 22.\<close>

lemma lower_case_trigger: "trig_field ''1a'' = 33 \<and> trig_field ''1A'' = 26"
  by code_simp

end
