(* ===== verification/Rec_File.thy ===== *)
theory Rec_File
  imports Rec_Name_Props
begin

text \<open>
  The recorder's file operations, \<open>src/src/mp_hdmodule_m/hdmod.c\<close>: the state of a recording channel
  (\<open>struct hd_enc_struct\<close>, the table \<open>g_hdenc\<close> of four of them is a list), and how a file is opened under a name
  with the extension \<open>.ING\<close> and closed under its final name.

  A file that is being written is known by the descriptor in \<open>aviinfo\<close>, \<open>None\<close> where the C pointer is null. What the
  operations do to the disk is the list of their effects, \<open>rec_op\<close>. The file index (\<open>ren\<close>, the result of
  \<open>fileindex_rename_in_partition\<close>), the creation of directories and the opening of an AVI file are parameters.
  \<open>i0\<close> is what an uninitialised \<open>struct file_info_struct\<close> holds.
\<close>

section \<open>The state of a channel\<close>

record hd_enc =
  hd_channel :: int
  hd_audiochannel :: int
  hd_thread_id :: int
  hd_audio_thread_id :: int
  hd_rec_type :: int
  hd_pre_rec :: int
  hd_dly_rec :: int
  hd_max_len :: int
  hd_del_typ :: int
  hd_bitrate :: int
  hd_state :: int
  hd_filename :: string
  hd_aviinfo :: "int option"
  hd_recordlen :: int
  hd_filelen :: int
  hd_trig :: int
  hd_cutflag :: int
  hd_watchcnt :: int
  hd_audio_cnt :: int
  hd_readenc_flag :: int
  hd_queryflag :: int
  hd_remote_trig_time :: int
  hd_remote_trigged :: int
  hd_partition :: string
  hd_enable :: int
  hd_threadexit :: int
  hd_pre_connect :: int

definition MAX_RECORD_CHANNEL_M :: nat where
  "MAX_RECORD_CHANNEL_M = 4"

definition get_hdch :: "hd_enc list \<Rightarrow> int \<Rightarrow> hd_enc option" where
  "get_hdch hds ch = (if ch < int MAX_RECORD_CHANNEL_M \<and> 0 \<le> ch then Some (hds ! nat ch) else None)"

datatype rec_op = Avi_open string | Avi_write nat bool | Avi_close string | Renamed string string | Locked string string

section \<open>Opening a file\<close>

text \<open>The partition's name is a format of \<open>sprintf\<close>, written to an array of 16 bytes.\<close>

definition make_file_name :: "int \<Rightarrow> int \<Rightarrow> file_info \<Rightarrow> hd_enc \<Rightarrow> string option" where
  "make_file_name tz now i0 h =
     (if CHR ''%'' \<in> set (hd_partition h) \<or> length (hd_partition h) > 15 then None
      else let name = finfo2filename tz (i0\<lparr>stime := now, fi_channel := hd_channel h, fi_type := hd_state h, fi_len := 0,
             fi_trig := hd_trig h, fi_remote := hd_remote_trigged h,
             fi_partition := hd_partition h @ replicate (16 - length (hd_partition h)) NUL\<rparr>)
           in if length name > 99 then None else Some name)"

text \<open>
  \<open>vattr\<close> says whether the encoder's attributes are there: a file that was opened without them ends in the dereference of a
  null pointer.
\<close>

definition create_record_file ::
  "int \<Rightarrow> int \<Rightarrow> file_info \<Rightarrow> (string \<Rightarrow> int) \<Rightarrow> bool \<Rightarrow> (string \<Rightarrow> int option) \<Rightarrow> hd_enc \<Rightarrow> (int option \<times> hd_enc \<times> rec_op list) option" where
  "create_record_file tz now i0 mkdirs vattr avi_open h =
     (case make_file_name tz now i0 h of None \<Rightarrow> None
      | Some name \<Rightarrow>
          let name1 = (case strstr name IMG_FILE_EXT of Some p \<Rightarrow> take p name @ RECORDING_FILE_EXT | None \<Rightarrow> name);
              hd1 = h\<lparr>hd_filename := name1\<rparr>
          in if mkdirs name1 < 0 then Some (None, hd1, [])
             else case avi_open name1 of None \<Rightarrow> Some (None, hd1, [])
                  | Some fd \<Rightarrow> if vattr then Some (Some fd, hd1, [Avi_open name1]) else None)"

section \<open>Closing a file\<close>

text \<open>
  The length in a name becomes the cut length of the channel: \<open>atoi\<close> is applied to a string that begins with \<open>_C\<close>, so the
  channel is always channel 0. Source and destination of the last \<open>sprintf\<close> are the same array in the only call; it
  is modelled as if they were not. \<open>name\<close> has 100 bytes, 30 are copied from it.
\<close>

definition modify_queried_filename :: "hd_enc list \<Rightarrow> string \<Rightarrow> (int \<times> string) option" where
  "modify_queried_filename hds name =
     (case strstr name ''_C'' of None \<Rightarrow> Some (-2, name)
      | Some lm \<Rightarrow>
          (case atoi (drop lm name) of None \<Rightarrow> None
           | Some ch \<Rightarrow>
               (case get_hdch hds ch of None \<Rightarrow> Some (-1, name)
                | Some h \<Rightarrow>
                    (case strstr name ''_L'' of None \<Rightarrow> Some (-1, name)
                     | Some l \<Rightarrow>
                         (case strchr (drop (l + 2) name) (CHR ''_'') of None \<Rightarrow> None
                          | Some k \<Rightarrow>
                              let lk = l + 2 + k; buf = drop lk name;
                                  new = take (l + 2) name @ printf_0d 2 (hd_max_len h) @ buf
                              in if lk + 30 > 100 \<or> length buf > 29 \<or> length new > 99 then None else Some (0, new))))))"

definition closed :: "hd_enc \<Rightarrow> hd_enc" where
  "closed h = h\<lparr>hd_filename := [], hd_cutflag := 0, hd_filelen := 0, hd_aviinfo := None\<rparr>"

definition new_name :: "int \<Rightarrow> hd_enc list \<Rightarrow> hd_enc \<Rightarrow> file_info \<Rightarrow> string option" where
  "new_name tz hds h finfo =
     (let name = finfo2filename tz (finfo\<lparr>fi_len := hd_filelen h\<rparr>);
          name1 = (if hd_state h = 2 \<or> fi_trig finfo \<noteq> 0 \<or> fi_remote finfo = 1 then hdutil_lock_filename name else name)
      in if length name > 99 \<or> length name1 > 99 then None
         else if hd_queryflag h = 1 then map_option snd (modify_queried_filename hds name1) else Some name1)"

definition close_record_file ::
  "int \<Rightarrow> (string \<Rightarrow> string \<Rightarrow> string \<Rightarrow> int) \<Rightarrow> file_info \<Rightarrow> hd_enc list \<Rightarrow> int \<Rightarrow> (int \<times> hd_enc list \<times> rec_op list) option" where
  "close_record_file tz ren i0 hds ch =
     (case get_hdch hds ch of None \<Rightarrow> Some (-1, hds, [])
      | Some h \<Rightarrow>
          if hd_filename h = [] then Some (0, hds, [])
          else case hd_aviinfo h of None \<Rightarrow> Some (0, hds, [])
          | Some fdes \<Rightarrow>
              let f = hd_filename h; hd1 = h\<lparr>hd_aviinfo := None\<rparr> in
              if \<not> 0 < fdes then Some (0, hds[nat ch := closed h], [])
              else case hdutil_filename2finfo tz f i0 of None \<Rightarrow> None
              | Some (r, finfo) \<Rightarrow>
                  if r < 0 then Some (0, hds[nat ch := closed hd1], [Avi_close f])
                  else case new_name tz hds hd1 finfo of None \<Rightarrow> None
                  | Some new \<Rightarrow>
                      let hd2 = (if hd_queryflag h = 1 then hd1\<lparr>hd_queryflag := 0\<rparr> else hd1) in
                      if ren (hd_partition h) f new < 0 then Some (-1, hds[nat ch := hd2], [Avi_close f])
                      else Some (0, hds[nat ch := closed hd2], [Avi_close f, Renamed f new]))"

section \<open>From opening to closing\<close>

text \<open>A channel whose next file has a well-formed name.\<close>

definition hd_name_ok :: "int \<Rightarrow> int \<Rightarrow> hd_enc \<Rightarrow> bool" where
  "hd_name_ok tz now h =
     (partition_ok (hd_partition h) \<and> 0 \<le> hd_channel h \<and> int_ok (hd_channel h) \<and> 0 \<le> hd_trig h \<and> hd_trig h < 2 ^ 16 \<and>
      hd_remote_trigged h \<in> {0, 1} \<and> int_ok now \<and> 0 \<le> now + tz \<and> now + tz < 2 ^ 31 + 86400)"

definition file_of :: "int \<Rightarrow> hd_enc \<Rightarrow> file_info \<Rightarrow> file_info" where
  "file_of now h i0 = i0\<lparr>stime := now, fi_channel := hd_channel h, fi_type := hd_state h, fi_len := 0,
     fi_trig := hd_trig h, fi_remote := hd_remote_trigged h, fi_partition := hd_partition h @ replicate (16 - length (hd_partition h)) NUL\<rparr>"

lemma cstr_pad: "partition_ok p \<Longrightarrow> as_cstr (p @ replicate n NUL) = p"
proof -
  assume "partition_ok p"
  then have "\<And>c. c \<in> set p \<Longrightarrow> c \<noteq> NUL" by (auto simp: partition_ok_def list_all_iff plain_char_def)
  then show ?thesis unfolding as_cstr_def by (subst takeWhile_append2) auto
qed

lemma file_of_ok: "hd_name_ok tz now h \<Longrightarrow> finfo_ok tz (file_of now h i0)"
  using cstr_pad [of "hd_partition h"] by (simp add: finfo_ok_def file_of_def hd_name_ok_def int_ok_def) (simp add: partition_ok_def)

lemma make_file_name_ok:
  assumes ok: "hd_name_ok tz now h"
  shows "make_file_name tz now i0 h = Some (name_stem tz (file_of now h i0) @
    marks (hd_remote_trigged h = 1) (hd_remote_trigged h = 1 \<or> hd_trig h \<noteq> 0) @ IMG_FILE_EXT)"
proof -
  have p: "\<not> (CHR ''%'' \<in> set (hd_partition h) \<or> length (hd_partition h) > 15)"
    using ok by (auto simp: hd_name_ok_def partition_ok_def list_all_iff plain_char_def)
  have n: "finfo2filename tz (file_of now h i0) = name_stem tz (file_of now h i0) @
      marks (hd_remote_trigged h = 1) (hd_remote_trigged h = 1 \<or> hd_trig h \<noteq> 0) @ IMG_FILE_EXT"
    using finfo2filename_marks [of "file_of now h i0" tz] ok by (simp add: file_of_def hd_name_ok_def)
  have "length (finfo2filename tz (file_of now h i0)) \<le> 99"
    unfolding n using name_stem_length [OF file_of_ok [OF ok, of i0]] by (simp add: marks_def)
  then show ?thesis unfolding make_file_name_def if_not_P [OF p] Let_def file_of_def [symmetric] using n by simp
qed

lemma create_record_file_name:
  assumes ok: "hd_name_ok tz now h"
    and c: "create_record_file tz now i0 mkdirs vattr avi_open h = Some (r, h', ops)"
  shows "h' = h\<lparr>hd_filename := name_stem tz (file_of now h i0) @
    marks (hd_remote_trigged h = 1) (hd_remote_trigged h = 1 \<or> hd_trig h \<noteq> 0) @ RECORDING_FILE_EXT\<rparr>"
proof -
  note m = mark_search(3) [OF name_stem_unmarked [OF file_of_ok [OF ok]] disjI1 [OF refl]]
  show ?thesis using c unfolding create_record_file_def make_file_name_ok [OF ok] option.case m Let_def
    by (auto split: if_splits option.splits)
qed

text \<open>The name depends only on the fields it shows.\<close>

lemma name_stem_cong:
  "stime a = stime b \<Longrightarrow> fi_channel a = fi_channel b \<Longrightarrow> fi_len a = fi_len b \<Longrightarrow> fi_trig a = fi_trig b \<Longrightarrow>
   as_cstr (fi_partition a) = as_cstr (fi_partition b) \<Longrightarrow> name_stem tz a = name_stem tz b"
  by (simp add: name_stem_def)

lemma finfo_ok_len: "finfo_ok tz info \<Longrightarrow> 0 \<le> n \<Longrightarrow> int_ok n \<Longrightarrow> finfo_ok tz (info\<lparr>fi_len := n\<rparr>)"
  by (simp add: finfo_ok_def)

text \<open>A name around its length field.\<close>

lemma find_length:
  assumes ok: "finfo_ok tz info"
  defines "x \<equiv> as_cstr (fi_partition info) @ dir_str tz info @ ''HQ''"
    and "y \<equiv> ''C'' @ dec_field 2 (nat (fi_channel info))" and "d \<equiv> ''D'' @ date_str tz info"
    and "t \<equiv> ''_T'' @ printf_0X 2 (fi_trig info)"
  shows "name_stem tz info = x @ ''_'' @ y @ ''_'' @ d @ ''_L'' @ dec_field 2 (nat (fi_len info)) @ t"
    and "strstr (name_stem tz info @ e) ''_C'' = Some (length x)"
    and "strstr (name_stem tz info @ e) ''_L'' = Some (length x + length y + length d + 2)"
    and "length x + length y + length d + 2 \<le> 57" and "length t \<le> 6"
proof -
  have n: "name_stem tz info = x @ ''_'' @ y @ ''_'' @ d @ ''_L'' @ dec_field 2 (nat (fi_len info)) @ t"
    by (simp add: name_stem_parts [OF ok] x_def y_def d_def t_def)
  have x: "CHR ''_'' \<notin> set x"
  proof
    assume "CHR ''_'' \<in> set x"
    then have "plain_char (CHR ''_'')" unfolding x_def by (rule name_dir_plain [OF ok])
    then show False by (simp add: plain_char_def)
  qed
  have yd: "CHR ''_'' \<notin> set y" "CHR ''_'' \<notin> set d"
    unfolding y_def d_def using dec_field_digits [of "CHR ''_''"] date_str_digits [of "CHR ''_''"] by (auto simp: is_digit_def)
  let ?z = "''_L'' @ dec_field 2 (nat (fi_len info)) @ t @ e"
  have ne: "name_stem tz info @ e = x @ ''_'' @ y @ ''_'' @ d @ ?z" unfolding n by simp
  have L1: "strstr (d @ ?z) ''_L'' = Some (length d)" by (rule strstr_first) (simp_all add: yd)
  have L2: "strstr (''_'' @ d @ ?z) ''_L'' = Some (Suc (length d))"
    using L1 by (simp add: strncmp_eq_def d_def)
  have L3: "strstr (y @ ''_'' @ d @ ?z) ''_L'' = Some (length y + Suc (length d))"
    using strstr_skip [of "''_L''" y "''_'' @ d @ ?z"] yd L2 by simp
  have L4: "strstr (''_'' @ y @ ''_'' @ d @ ?z) ''_L'' = Some (Suc (length y + Suc (length d)))"
    using L3 by (simp add: strncmp_eq_def y_def)
  show "strstr (name_stem tz info @ e) ''_L'' = Some (length x + length y + length d + 2)"
    unfolding ne using strstr_skip [of "''_L''" x "''_'' @ y @ ''_'' @ d @ ?z"] x L4 by simp
  have "strstr (''_'' @ y @ ''_'' @ d @ ?z) ''_C'' = Some 0" by (simp add: strncmp_eq_def y_def)
  then show "strstr (name_stem tz info @ e) ''_C'' = Some (length x)"
    unfolding ne using strstr_skip [of "''_C''" x "''_'' @ y @ ''_'' @ d @ ?z"] x by simp
  show "length x + length y + length d + 2 \<le> 57" "length t \<le> 6"
    using ok int_ok_dec_field [of "fi_channel info"] trig_length [of "fi_trig info"] dir_str_length [OF ok] date_str_length [OF ok]
    by (simp_all add: x_def y_def d_def t_def finfo_ok_def partition_ok_def)
qed (simp add: name_stem_parts [OF ok] x_def y_def d_def t_def)

lemma atoi_underscore: "atoi (CHR ''_'' # s) = Some 0"
  by (simp add: atoi_def is_space_def is_digit_def dec_value_def int_ok_def)

lemma drop_len: "drop (length a) (a @ b) = b"
  by simp

lemma drop_add_len: "drop n xs = a @ b \<Longrightarrow> drop (n + length a) xs = b"
  by (metis add.commute drop_drop drop_len)

lemma take_len: "take (length a) (a @ b) = a"
  by simp

lemma modify_queried_name:
  assumes ok: "finfo_ok tz info" and m: "0 \<le> hd_max_len (hds ! 0)" "int_ok (hd_max_len (hds ! 0))" and e: "mark_tail e"
  shows "modify_queried_filename hds (name_stem tz info @ e) =
    Some (0, name_stem tz (info\<lparr>fi_len := hd_max_len (hds ! 0)\<rparr>) @ e)"
proof -
  let ?x = "as_cstr (fi_partition info) @ dir_str tz info @ ''HQ''" and ?y = "''C'' @ dec_field 2 (nat (fi_channel info))"
    and ?d = "''D'' @ date_str tz info" and ?t = "''_T'' @ printf_0X 2 (fi_trig info)"
  let ?a = "?x @ ''_'' @ ?y @ ''_'' @ ?d @ ''_L''" and ?l = "dec_field 2 (nat (fi_len info))"
  let ?p = "length ?x + length ?y + length ?d + 2" and ?m = "hd_max_len (hds ! 0)"
  note f = find_length [OF ok]
  have n: "name_stem tz info @ e = ?a @ ?l @ ?t @ e" by (subst f(1)) simp
  have n': "name_stem tz (info\<lparr>fi_len := ?m\<rparr>) @ e = ?a @ printf_0d 2 ?m @ ?t @ e"
    by (subst find_length(1) [OF finfo_ok_len [OF ok m]]) (simp add: printf_0d_dec_field [OF m(1)] dir_str_def date_str_def)
  have la: "length ?a = ?p + 2" by simp
  have s1: "strchr (?l @ ?t @ e) (CHR ''_'') = Some (length ?l)"
    using strchr_first [of "CHR ''_''" ?l "''T'' @ printf_0X 2 (fi_trig info) @ e"] dec_field_digits [of "CHR ''_''"]
    by (auto simp: is_digit_def)
  have "drop (length ?x) (name_stem tz info @ e) = CHR ''_'' # (?y @ ''_'' @ ?d @ ''_L'' @ ?l @ ?t @ e)"
    unfolding n by simp
  then have c: "atoi (drop (length ?x) (name_stem tz info @ e)) = Some 0" using atoi_underscore by (simp only:)
  have g: "get_hdch hds 0 = Some (hds ! 0)" by (simp add: get_hdch_def MAX_RECORD_CHANNEL_M_def)
  have dr: "drop (?p + 2) (name_stem tz info @ e) = ?l @ ?t @ e" "take (?p + 2) (name_stem tz info @ e) = ?a"
    unfolding n by (subst la [symmetric], rule drop_len, subst la [symmetric], rule take_len)
  have dk: "drop (?p + 2 + length ?l) (name_stem tz info @ e) = ?t @ e"
    by (rule drop_add_len [OF dr(1)])
  have ll: "length ?l \<le> 10" using ok int_ok_dec_field [of "fi_len info"] by (simp add: finfo_ok_def)
  have lm: "length (printf_0d 2 ?m) \<le> 10" using m int_ok_dec_field [of ?m] by (simp add: printf_0d_dec_field)
  have le: "length e \<le> 6" using e by (simp add: mark_tail_def)
  have fit: "\<not> (?p + 2 + length ?l + 30 > 100 \<or> length (?t @ e) > 29 \<or> length (?a @ printf_0d 2 ?m @ ?t @ e) > 99)"
    using f(4,5) ll lm le la by simp
  show ?thesis
    unfolding modify_queried_filename_def f(2,3) option.case c g dr s1 dk Let_def n' using fit by simp
qed

text \<open>Closing a file whose name was made from the record \<open>i\<close>.\<close>

lemma close_named:
  assumes iok: "finfo_ok tz i" and l: "l = (r \<or> fi_trig i \<noteq> 0)"
    and g: "get_hdch hds ch = Some h2" and f: "hd_filename h2 = name_stem tz i @ marks r l @ ''.ING''"
    and fd: "hd_aviinfo h2 = Some fd" "0 < fd" and old: "length (fi_partition i0) = 16"
    and lens: "0 \<le> hd_filelen h2" "int_ok (hd_filelen h2)" "0 \<le> hd_max_len (hds ! 0)" "int_ok (hd_max_len (hds ! 0))"
    and len: "len = (if hd_queryflag h2 = 1 then hd_max_len (hds ! 0) else hd_filelen h2)"
    and new: "new = name_stem tz (i\<lparr>fi_len := len\<rparr>) @ marks r (r \<or> fi_trig i \<noteq> 0 \<or> hd_state h2 = 2) @ ''.AVI''"
    and h3: "h3 = h2\<lparr>hd_aviinfo := None, hd_queryflag := (if hd_queryflag h2 = 1 then 0 else hd_queryflag h2)\<rparr>"
  shows "close_record_file tz ren i0 hds ch =
    (if ren (hd_partition h2) (hd_filename h2) new < 0 then Some (-1, hds[nat ch := h3], [Avi_close (hd_filename h2)])
     else Some (0, hds[nat ch := closed h3], [Avi_close (hd_filename h2), Renamed (hd_filename h2) new]))"
proof -
  let ?lk = "r \<or> fi_trig i \<noteq> 0 \<or> hd_state h2 = 2"
  obtain pt where pt: "as_cstr pt = as_cstr (fi_partition i)" "length pt = 16" "hdutil_filename2finfo tz (hd_filename h2) i0 =
      Some (0, i0\<lparr>stime := stime i, fi_channel := fi_channel i, fi_len := fi_len i, fi_trig := fi_trig i,
        fi_remote := (if r then 1 else 0), fi_lock := (if l then 1 else 0), ing_flag := 1, fi_partition := pt\<rparr>)"
    using filename2finfo_name [OF iok disjI2 [OF refl] old, of r l] unfolding f by auto
  define fi where "fi = i0\<lparr>stime := stime i, fi_channel := fi_channel i, fi_len := fi_len i, fi_trig := fi_trig i,
        fi_remote := (if r then 1 else 0), fi_lock := (if l then 1 else 0), ing_flag := 1, fi_partition := pt\<rparr>"
  have fv: "fi_trig fi = fi_trig i" "fi_remote fi = 1 \<longleftrightarrow> r" "fi_remote fi \<in> {0, 1}" by (auto simp: fi_def)
  let ?fl = "fi\<lparr>fi_len := hd_filelen h2\<rparr>"
  have fok: "finfo_ok tz ?fl" using iok pt(1,2) lens(1,2) by (simp add: finfo_ok_def fi_def)
  have nm: "finfo2filename tz ?fl = name_stem tz ?fl @ marks r l @ ''.AVI''"
    using finfo2filename_marks [of ?fl tz] fv by (simp add: l)
  have lk: "hdutil_lock_filename (name_stem tz ?fl @ marks r l @ ''.AVI'') = name_stem tz ?fl @ marks r True @ ''.AVI''"
    by (rule marks_algebra(1) [OF name_stem_unmarked [OF fok]])
  have sz: "length (name_stem tz ?fl @ marks a b @ ''.AVI'') \<le> 99" for a b
    using name_stem_length [OF fok] by (simp add: marks_def)
  have mod: "modify_queried_filename hds (name_stem tz ?fl @ marks r ?lk @ ''.AVI'') =
      Some (0, name_stem tz (?fl\<lparr>fi_len := hd_max_len (hds ! 0)\<rparr>) @ marks r ?lk @ ''.AVI'')"
    by (rule modify_queried_name [OF fok lens(3,4) mark_tail_marks(1)])
  have st: "name_stem tz (fi\<lparr>fi_len := len\<rparr>) = name_stem tz (i\<lparr>fi_len := len\<rparr>)"
    using pt(1) by (intro name_stem_cong) (simp_all add: fi_def)
  have n1: "(if hd_state h2 = 2 \<or> fi_trig fi \<noteq> 0 \<or> fi_remote fi = 1 then hdutil_lock_filename (name_stem tz ?fl @ marks r l @ ''.AVI'')
      else name_stem tz ?fl @ marks r l @ ''.AVI'') = name_stem tz ?fl @ marks r ?lk @ ''.AVI''"
    unfolding lk using fv(1,2) by (auto simp: l)
  have up: "hd_filelen (h2\<lparr>hd_aviinfo := None\<rparr>) = hd_filelen h2" "hd_state (h2\<lparr>hd_aviinfo := None\<rparr>) = hd_state h2"
    "hd_queryflag (h2\<lparr>hd_aviinfo := None\<rparr>) = hd_queryflag h2" by simp_all
  have nn: "new_name tz hds (h2\<lparr>hd_aviinfo := None\<rparr>) fi = Some new"
    unfolding new st [symmetric] unfolding len new_name_def up nm Let_def n1 using sz mod
    by (simp add: not_less del: length_append)
  have "hd_filename h2 \<noteq> []" using f by simp
  then show ?thesis
    unfolding close_record_file_def g option.case using fd pt(3) nn
    by (simp add: fi_def [symmetric] h3 Let_def)
qed

section \<open>Properties\<close>

text \<open>
  C12. The life of a recording file. A channel opens a file: its name has the start time, the channel, its trigger bits
  and marks of that moment, length 00 and the extension \<open>.ING\<close>. When the channel later closes it, the file gets the same name
  with \<open>.AVI\<close> and its length, and the lock when it was opened on an alarm or by hand or
  is closed in an alarm; the length is the number of seconds the file was open, or, when the file has been queried
  meanwhile, the cut length of channel 0, whatever the file's channel. The channel then has no open file, no request to cut
  and length 0.
\<close>

theorem recording_file_life:
  assumes open_ok: "hd_name_ok tz now h" "length (fi_partition i0) = 16"
    and created: "create_record_file tz now i1 mkdirs vattr avi_open h = Some (Some fd, h1, ops)"
    and later: "0 \<le> ch" "ch < 4" "ch < int (length hds)" "hd_filename (hds ! nat ch) = hd_filename h1"
      "hd_aviinfo (hds ! nat ch) = Some fd'" "0 < fd'"
    and lens: "0 \<le> hd_filelen (hds ! nat ch)" "int_ok (hd_filelen (hds ! nat ch))" "0 \<le> hd_max_len (hds ! 0)" "int_ok (hd_max_len (hds ! 0))"
    and renames: "\<And>a b c. 0 \<le> ren a b c"
  defines "h2 \<equiv> hds ! nat ch"
  defines "len \<equiv> (if hd_queryflag h2 = 1 then hd_max_len (hds ! 0) else hd_filelen h2)"
  defines "info \<equiv> \<lparr>stime = now, fi_channel = hd_channel h, fi_type = 0, fi_len = len, fi_trig = hd_trig h,
    fi_remote = hd_remote_trigged h, fi_lock = 0, ing_flag = 0, fi_partition = hd_partition h\<rparr>"
  defines "locked \<equiv> hd_remote_trigged h = 1 \<or> hd_trig h \<noteq> 0 \<or> hd_state h2 = 2"
  shows "close_record_file tz ren i0 hds ch =
    Some (0, hds[nat ch := h2\<lparr>hd_queryflag := (if hd_queryflag h2 = 1 then 0 else hd_queryflag h2),
        hd_filename := [], hd_cutflag := 0, hd_filelen := 0, hd_aviinfo := None\<rparr>],
      [Avi_close (hd_filename h1), Renamed (hd_filename h1) (name_stem tz info @ marks (hd_remote_trigged h = 1) locked @ ''.AVI'')])"
proof -
  let ?r = "hd_remote_trigged h = 1" and ?i = "file_of now h i1"
  let ?l = "?r \<or> fi_trig ?i \<noteq> 0"
  have f: "hd_filename h2 = name_stem tz ?i @ marks ?r ?l @ ''.ING''" "hd_filename h2 = hd_filename h1"
    using create_record_file_name [OF open_ok(1) created] later(4) by (simp_all add: h2_def file_of_def)
  have st: "name_stem tz (?i\<lparr>fi_len := len\<rparr>) = name_stem tz info" "fi_trig ?i = hd_trig h"
    using cstr_pad [of "hd_partition h"] cstr_pad [of "hd_partition h" 0] open_ok(1)
    by (auto intro!: name_stem_cong simp: info_def file_of_def hd_name_ok_def)
  have g: "get_hdch hds ch = Some h2" using later by (simp add: get_hdch_def MAX_RECORD_CHANNEL_M_def h2_def)
  have rn: "\<not> ren a b c < 0" for a b c using renames [of a b c] by simp
  from close_named [OF file_of_ok [OF open_ok(1)] refl g f(1) later(5) [folded h2_def] later(6) open_ok(2) lens(1,2) [folded h2_def] lens(3,4)
      len_def [THEN meta_eq_to_obj_eq] refl refl, of ren]
  show ?thesis unfolding st locked_def f(2) if_not_P [OF rn] by (simp add: closed_def)
qed

text \<open>Example: the file of the previous section, twelve seconds long, then queried.\<close>

definition sample_hd :: hd_enc where
  "sample_hd = \<lparr>hd_channel = 3, hd_audiochannel = 3, hd_thread_id = 1, hd_audio_thread_id = 1, hd_rec_type = 0, hd_pre_rec = 600,
     hd_dly_rec = 300, hd_max_len = 90, hd_del_typ = 0, hd_bitrate = 1024, hd_state = 2, hd_filename = [], hd_aviinfo = None, hd_recordlen = 20,
     hd_filelen = 0, hd_trig = 26, hd_cutflag = 0, hd_watchcnt = 0, hd_audio_cnt = 0, hd_readenc_flag = 0, hd_queryflag = 0,
     hd_remote_trig_time = 0, hd_remote_trigged = 0, hd_partition = ''/hqdata/sda1'', hd_enable = 1, hd_threadexit = 0, hd_pre_connect = 0\<rparr>"

definition sample_open :: hd_enc where
  "sample_open = sample_hd\<lparr>hd_filename := name_stem 28800 (file_of 86400 sample_hd sample_finfo) @ ''@.ING'',
     hd_aviinfo := Some 5, hd_filelen := 12\<rparr>"

lemma sample_hd_ok: "hd_name_ok 28800 86400 sample_hd"
  by (simp add: hd_name_ok_def sample_hd_def sample_partition int_ok_def)

lemma sample_created:
  "create_record_file 28800 86400 sample_finfo (\<lambda>_. 0) True (\<lambda>_. Some 5) sample_hd =
     Some (Some 5, sample_hd\<lparr>hd_filename := hd_filename sample_open\<rparr>, [Avi_open (hd_filename sample_open)])"
  unfolding create_record_file_def make_file_name_ok [OF sample_hd_ok] option.case
    mark_search(3) [OF name_stem_unmarked [OF file_of_ok [OF sample_hd_ok]] disjI1 [OF refl]] Let_def
  by (simp add: sample_open_def sample_hd_def marks_def)

theorem recording_file_life_witness:
  "\<exists>new. close_record_file 28800 (\<lambda>_ _ _. 0) sample_finfo [sample_open\<lparr>hd_queryflag := 1\<rparr>] 0 =
     Some (0, [sample_open\<lparr>hd_queryflag := 0, hd_filename := [], hd_cutflag := 0, hd_filelen := 0, hd_aviinfo := None\<rparr>],
       [Avi_close (hd_filename sample_open), Renamed (hd_filename sample_open) new])"
  using recording_file_life [of 28800 86400 sample_hd sample_finfo sample_finfo "\<lambda>_. 0" True "\<lambda>_. Some 5" 5 "sample_hd\<lparr>hd_filename := hd_filename sample_open\<rparr>"
    "[Avi_open (hd_filename sample_open)]" 0 "[sample_open\<lparr>hd_queryflag := 1\<rparr>]" 5 "\<lambda>_ _ _. 0"]
    sample_hd_ok sample_created sample_finfo_ok
  by (simp add: sample_open_def sample_hd_def int_ok_def)

text \<open>
  When the index does not take the new name, the channel keeps the request to cut and the length of the file it has
  closed, so that the next file is cut at its first frame.
\<close>

lemma rename_failure_keeps_cut:
  assumes "close_record_file tz ren i0 hds ch = Some (-1, hds', ops)" "get_hdch hds ch = Some h" "nat ch < length hds"
  shows "hd_cutflag (hds' ! nat ch) = hd_cutflag h \<and> hd_filelen (hds' ! nat ch) = hd_filelen h \<and>
    hd_filename (hds' ! nat ch) = hd_filename h \<and> hd_aviinfo (hds' ! nat ch) = None"
  using assms by (auto simp: close_record_file_def Let_def split: option.splits if_splits prod.splits)

end
