(* ===== verification/Rec_State.thy ===== *)
theory Rec_State
  imports Rec_File "HOL-Library.Word"
begin

text \<open>
  When a channel records, \<open>src/src/mp_hdmodule_m/hdmod.c\<close> and \<open>process_modcmd.c\<close>: alarms, commands of a remote user, and the
  clock that runs once a second change the state of a channel, 0 idle, 1 recording, 2 recording
  an alarm or by hand. \<open>recordlen\<close> is the number of seconds an alarm (or motion) still has to be recorded,
  \<open>remote_trig_time\<close> the number for the remote user. Commands come from other processes with 32-bit fields, which the handlers
  convert to \<open>int\<close>. \<open>None\<close> is a null pointer that is followed, or undefined behaviour of \<open>close_record_file\<close>.
\<close>

unbundle bit_operations_syntax

section \<open>Events\<close>

definition MOTION_DLY_REC :: int where
  "MOTION_DLY_REC = 10"

definition trig_record_event :: "hd_enc option \<Rightarrow> 16 word \<Rightarrow> int \<Rightarrow> int \<times> hd_enc option" where
  "trig_record_event p trig reclen =
     (case p of None \<Rightarrow> (-1, None)
      | Some h \<Rightarrow>
          if trig = 0 \<and> hd_rec_type h = 0 then (0, Some h)
          else if hd_enable h = 0 then (-1, Some h)
          else if trig = 0 then
            let h1 = (if hd_recordlen h < MOTION_DLY_REC + reclen then h\<lparr>hd_recordlen := MOTION_DLY_REC + reclen\<rparr> else h)
            in (0, Some (if hd_state h1 = 0 then h1\<lparr>hd_state := 1\<rparr> else h1))
          else
            let h1 = (if hd_state h = 2 \<and> hd_trig h \<noteq> uint trig then h\<lparr>hd_cutflag := 1\<rparr> else h\<lparr>hd_state := 2\<rparr>);
                h2 = h1\<lparr>hd_trig := hd_trig h1 OR uint trig\<rparr>;
                len = reclen + hd_dly_rec h
            in (0, Some (if hd_recordlen h2 < len then h2\<lparr>hd_recordlen := len\<rparr> else h2)))"

definition remote_start_record :: "hd_enc option \<Rightarrow> int \<Rightarrow> int \<times> hd_enc option" where
  "remote_start_record p reclen0 =
     (case p of None \<Rightarrow> (-1, None)
      | Some h \<Rightarrow>
          let reclen = (if reclen0 = 0 then 65535 else reclen0);
              h1 = h\<lparr>hd_remote_trig_time := reclen\<rparr>;
              h2 = (if hd_remote_trigged h1 \<noteq> 1 \<and> hd_state h1 \<noteq> 0 then h1\<lparr>hd_cutflag := 1\<rparr> else h1)
          in (0, Some (h2\<lparr>hd_remote_trigged := 1, hd_state := 2\<rparr>)))"

definition remote_stop_record :: "hd_enc option \<Rightarrow> int \<times> hd_enc option" where
  "remote_stop_record p =
     (case p of None \<Rightarrow> (-1, None)
      | Some h \<Rightarrow>
          let h1 = (if hd_remote_trigged h = 1 then h\<lparr>hd_cutflag := 1\<rparr> else h);
              h2 = h1\<lparr>hd_remote_trigged := 0\<rparr>;
              h3 = (if hd_trig h2 = 0
                    then h2\<lparr>hd_state := (if hd_pre_rec h2 = 0 \<or> hd_rec_type h2 = 1 then 0 else 1), hd_recordlen := 0\<rparr> else h2)
          in (0, Some (h3\<lparr>hd_remote_trig_time := 0\<rparr>)))"

definition clear_hdmod_trig_flag :: "hd_enc option \<Rightarrow> hd_enc option" where
  "clear_hdmod_trig_flag p =
     (case p of None \<Rightarrow> None
      | Some h \<Rightarrow>
          let h1 = h\<lparr>hd_trig := 0, hd_recordlen := 0\<rparr>
          in Some (if hd_remote_trigged h1 = 0
                   then h1\<lparr>hd_state := (if hd_rec_type h1 = 0 \<and> hd_pre_rec h1 \<noteq> 0 then 1 else 0)\<rparr>
                   else h1\<lparr>hd_cutflag := 1\<rparr>))"

section \<open>The clock\<close>

text \<open>The last part of \<open>hd_second_proc\<close>: one second of a channel.\<close>

definition remote_tick :: "hd_enc \<Rightarrow> hd_enc" where
  "remote_tick h =
     (if 0 < hd_remote_trig_time h then
        let h1 = h\<lparr>hd_remote_trig_time := hd_remote_trig_time h - 1\<rparr>
        in if hd_remote_trig_time h1 = 0 then
             (if hd_recordlen h1 = 0
              then h1\<lparr>hd_state := (if hd_rec_type h1 = 0 \<and> hd_pre_rec h1 \<noteq> 0 then 1 else 0)\<rparr>
              else h1\<lparr>hd_cutflag := 1\<rparr>)\<lparr>hd_remote_trigged := 0\<rparr>
           else h1
      else h)"

definition alarm_tick :: "hd_enc \<Rightarrow> hd_enc" where
  "alarm_tick h =
     (if 0 < hd_recordlen h then
        let h1 = h\<lparr>hd_recordlen := hd_recordlen h - 1\<rparr>
        in if hd_recordlen h1 = 0 then
             (if hd_remote_trigged h1 = 0
              then h1\<lparr>hd_state := (if 0 < hd_pre_rec h1 \<and> hd_rec_type h1 = 0 then 1 else 0)\<rparr>
              else h1\<lparr>hd_cutflag := 1\<rparr>)\<lparr>hd_trig := 0\<rparr>
           else h1
      else h)"

definition file_tick :: "hd_enc \<Rightarrow> hd_enc" where
  "file_tick h =
     (if hd_aviinfo h \<noteq> None then
        let h1 = h\<lparr>hd_filelen := hd_filelen h + 1\<rparr>
        in if hd_filelen h1 \<ge> hd_max_len h1 then h1\<lparr>hd_cutflag := 1\<rparr> else h1
      else h)"

definition state_tick :: "hd_enc \<Rightarrow> hd_enc" where
  "state_tick h = (if hd_state h \<noteq> 0 then alarm_tick (remote_tick (file_tick h)) else h)"

text \<open>
  The effects of the clock carry the channel they belong to. The audio watch comes first: \<open>aattr\<close> and \<open>vattr\<close> say of a channel whether \<open>get_aenc_rec_attrib\<close> and \<open>get_venc_attrib_record\<close>
  return a pointer, that is, whether an encoder is connected; every tenth second without data it is activated again.
\<close>

definition audio_watch :: "(int \<Rightarrow> bool) \<Rightarrow> hd_enc \<Rightarrow> hd_enc" where
  "audio_watch aattr h =
     (if 0 < hd_audio_thread_id h then
        (if aattr (hd_audiochannel h) then
           (if hd_audio_cnt h + 1 < 10 then h\<lparr>hd_audio_cnt := hd_audio_cnt h + 1\<rparr> else h\<lparr>hd_audio_cnt := 0\<rparr>)
         else h)
      else h\<lparr>hd_audio_cnt := 0\<rparr>)"

definition video_watch ::
  "int \<Rightarrow> (string \<Rightarrow> string \<Rightarrow> string \<Rightarrow> int) \<Rightarrow> file_info \<Rightarrow> (int \<Rightarrow> bool) \<Rightarrow> hd_enc list \<Rightarrow> nat \<Rightarrow> (hd_enc list \<times> rec_op list) option" where
  "video_watch tz ren i0 vattr hds i =
     (let h = hds ! i in
      if 0 < hd_thread_id h then
        (if vattr (hd_channel h) then
           let h1 = h\<lparr>hd_watchcnt := hd_watchcnt h + 1\<rparr>; hds1 = hds[i := h1] in
           if hd_watchcnt h1 \<ge> 10 \<and> hd_watchcnt h1 mod 10 = 0 \<and> hd_aviinfo h1 \<noteq> None
           then map_option (\<lambda>(r, hds2, ops). (hds2, ops)) (close_record_file tz ren i0 hds1 (int i))
           else Some (hds1, [])
         else Some (hds, []))
      else Some (hds[i := h\<lparr>hd_watchcnt := 0\<rparr>], []))"

definition second_ch ::
  "int \<Rightarrow> (string \<Rightarrow> string \<Rightarrow> string \<Rightarrow> int) \<Rightarrow> file_info \<Rightarrow> (int \<Rightarrow> bool) \<Rightarrow> hd_enc list \<Rightarrow> nat \<Rightarrow> (hd_enc list \<times> rec_op list) option" where
  "second_ch tz ren i0 vattr hds i =
     map_option (\<lambda>(hds1, ops). (hds1[i := state_tick (hds1 ! i)], ops)) (video_watch tz ren i0 vattr hds i)"

fun second_from ::
  "int \<Rightarrow> (string \<Rightarrow> string \<Rightarrow> string \<Rightarrow> int) \<Rightarrow> file_info \<Rightarrow> (int \<Rightarrow> bool) \<Rightarrow> nat list \<Rightarrow> hd_enc list \<Rightarrow> (hd_enc list \<times> (nat \<times> rec_op) list) option" where
  "second_from tz ren i0 vattr [] hds = Some (hds, [])"
| "second_from tz ren i0 vattr (i # is) hds =
     (case second_ch tz ren i0 vattr hds i of None \<Rightarrow> None
      | Some (hds1, ops1) \<Rightarrow> map_option (\<lambda>(hds2, ops2). (hds2, map (Pair i) ops1 @ ops2)) (second_from tz ren i0 vattr is hds1))"

definition hd_second_proc ::
  "int \<Rightarrow> (string \<Rightarrow> string \<Rightarrow> string \<Rightarrow> int) \<Rightarrow> file_info \<Rightarrow> (int \<Rightarrow> bool) \<Rightarrow> (int \<Rightarrow> bool) \<Rightarrow> hd_enc list \<Rightarrow> (hd_enc list \<times> (nat \<times> rec_op) list) option" where
  "hd_second_proc tz ren i0 aattr vattr hds =
     second_from tz ren i0 vattr [0..<MAX_RECORD_CHANNEL_M] (map (audio_watch aattr) hds)"

section \<open>Configuration\<close>

text \<open>\<open>ini\<close> is \<open>iniparser_getint\<close> on the loaded file, a key and a default; \<open>None\<close> when the file cannot be loaded.\<close>

definition read_hqsave_para_file :: "(string \<Rightarrow> int \<Rightarrow> int) option \<Rightarrow> string \<Rightarrow> int \<Rightarrow> hd_enc option \<Rightarrow> int \<times> hd_enc option" where
  "read_hqsave_para_file ini section ch p =
     (case p of None \<Rightarrow> (-1, None)
      | Some h \<Rightarrow>
          if length section > 30 then (-1, Some h)
          else case ini of None \<Rightarrow> (-1, Some h)
          | Some get \<Rightarrow>
              let key = (\<lambda>k. section @ '':'' @ k);
                  pre = get (key ''pre_rec'') 600;
                  cut = get (key ''cut_len'') 30;
                  cut1 = (if cut < 90 then 90 else cut);
                  rt = get (key ''rec_type'') 0;
                  en = get (''video'' @ printf_d ch @ '':enable'') 1
              in (0, Some (h\<lparr>hd_pre_rec := (if pre > 3600 then 3600 else pre), hd_dly_rec := get (key ''dly_rec'') 30,
                    hd_max_len := (if cut1 > 1800 then 1800 else cut1), hd_del_typ := get (key ''del_typ'') 0,
                    hd_rec_type := (if en = 0 then rt else if rt = 1 then 1 else 0), hd_enable := en\<rparr>)))"

definition init_hqpara_default_val :: "hd_enc \<Rightarrow> hd_enc" where
  "init_hqpara_default_val h = h\<lparr>hd_pre_rec := 600, hd_dly_rec := 300, hd_max_len := 30, hd_del_typ := 0, hd_bitrate := 1024, hd_queryflag := 0\<rparr>"

text \<open>The \<open>memset\<close> at its start clears a pointer's number of bytes, all in the mutex that is initialised next.\<close>

definition init_hdenc_ch :: "(string \<Rightarrow> int \<Rightarrow> int) option \<Rightarrow> int \<Rightarrow> hd_enc option \<Rightarrow> hd_enc option" where
  "init_hdenc_ch ini ch p =
     (case p of None \<Rightarrow> None
      | Some h0 \<Rightarrow>
          (case read_hqsave_para_file ini ''hqpara'' ch (Some (init_hqpara_default_val h0)) of
             (r, None) \<Rightarrow> None
           | (r, Some h) \<Rightarrow>
               let h1 = h\<lparr>hd_channel := ch, hd_audiochannel := ch, hd_partition := ''/hqdata/sda'' @ printf_d (ch + 1), hd_recordlen := 0,
                          hd_thread_id := -1\<rparr>;
                   h2 = (if hd_pre_rec h1 \<noteq> 0 \<and> hd_rec_type h1 = 0 then h1\<lparr>hd_state := 1\<rparr> else h1)
               in Some (h2\<lparr>hd_watchcnt := 0, hd_readenc_flag := 0, hd_remote_trig_time := 0, hd_remote_trigged := 0,
                    hd_threadexit := 0, hd_audio_thread_id := -1\<rparr>)))"

section \<open>Commands\<close>

datatype hd_cmd =
    TRIG_RECORD_EVENT "32 word" "32 word" "32 word"
  | REMOTE_TRIG_RECORD "32 word" "32 word" "32 word"
  | CLEAR_TRIG_FLAG "32 word"
  | USR_LOCAL_RECORDER_CONTROL "16 word" "16 word" "16 word"
  | MAIN_REFRESH_PARA

definition upd_ch :: "hd_enc list \<Rightarrow> int \<Rightarrow> hd_enc option \<Rightarrow> hd_enc list" where
  "upd_ch hds ch p = (case p of None \<Rightarrow> hds | Some h \<Rightarrow> hds[nat ch := h])"

text \<open>
  The commands of \<open>process_modsocket_cmd\<close> and \<open>process_gate_cmd\<close> that change the state of a channel.
  \<open>num\<close> is \<open>get_total_hqenc_num()\<close>.
\<close>

fun process_modsocket_cmd :: "(string \<Rightarrow> int \<Rightarrow> int) option \<Rightarrow> int \<Rightarrow> hd_cmd \<Rightarrow> hd_enc list \<Rightarrow> hd_enc list option" where
  "process_modsocket_cmd ini num (TRIG_RECORD_EVENT ch flag len) hds =
     Some (upd_ch hds (sint ch) (snd (trig_record_event (get_hdch hds (sint ch)) (ucast flag) (sint len))))"
| "process_modsocket_cmd ini num (REMOTE_TRIG_RECORD ch mode len) hds =
     Some (upd_ch hds (sint ch)
       (snd (if mode = 1 then remote_start_record (get_hdch hds (sint ch)) (sint len) else remote_stop_record (get_hdch hds (sint ch)))))"
| "process_modsocket_cmd ini num (CLEAR_TRIG_FLAG ch) hds =
     (case clear_hdmod_trig_flag (get_hdch hds (sint ch)) of None \<Rightarrow> None | Some h \<Rightarrow> Some (hds[nat (sint ch) := h]))"
| "process_modsocket_cmd ini num (USR_LOCAL_RECORDER_CONTROL mode ch len) hds =
     Some (upd_ch hds (uint ch)
       (snd (if mode = 1 then remote_start_record (get_hdch hds (uint ch)) (uint len) else remote_stop_record (get_hdch hds (uint ch)))))"
| "process_modsocket_cmd ini num MAIN_REFRESH_PARA hds =
     (let hds1 = upd_ch hds 0 (snd (read_hqsave_para_file ini ''hqpara'' 0 (get_hdch hds 0)))
      in Some (if num = 2 then upd_ch hds1 1 (snd (read_hqsave_para_file ini ''hqpara1'' 1 (get_hdch hds1 1))) else hds1))"

end
