(* ===== verification/Rec_State_Props.thy ===== *)
theory Rec_State_Props
  imports Rec_State
begin

text \<open>
  What a channel's state means, and that recordings end: the invariant that ties the state to the two counters holds
  after every command and second, and after enough seconds without a command every channel is idle again.
\<close>

section \<open>The invariant of a channel\<close>

definition params_ok :: "hd_enc \<Rightarrow> bool" where
  "params_ok h = (hd_rec_type h \<in> {0, 1} \<and> 0 \<le> hd_pre_rec h \<and> 0 < hd_dly_rec h)"

definition idle_state :: "hd_enc \<Rightarrow> int" where
  "idle_state h = (if hd_rec_type h = 0 \<and> hd_pre_rec h \<noteq> 0 then 1 else 0)"

definition rec_inv :: "hd_enc \<Rightarrow> bool" where
  "rec_inv h =
     (0 \<le> hd_recordlen h \<and> 0 \<le> hd_remote_trig_time h \<and> 0 \<le> hd_state h \<and> hd_state h \<le> 2 \<and>
      hd_remote_trigged h = (if 0 < hd_remote_trig_time h then 1 else 0) \<and>
      (hd_trig h \<noteq> 0 \<longrightarrow> 0 < hd_recordlen h \<and> hd_state h = 2) \<and>
      (hd_remote_trigged h = 1 \<longrightarrow> hd_state h = 2) \<and>
      (if hd_recordlen h = 0 \<and> hd_remote_trig_time h = 0 then hd_state h = idle_state h else hd_state h \<noteq> 0))"

named_theorems rec_defs \<open>the state machine of a channel\<close>

lemmas [rec_defs] = rec_inv_def params_ok_def idle_state_def Let_def MOTION_DLY_REC_def

lemma uint_nonzero: "trig \<noteq> 0 \<Longrightarrow> 0 < uint trig" for trig :: "16 word"
  by (metis order_le_less uint_0_iff unsigned_greater_eq)

lemma trig_record_event_inv:
  assumes "rec_inv h" "params_ok h" "0 \<le> reclen"
  shows "\<exists>h'. snd (trig_record_event (Some h) trig reclen) = Some h' \<and> rec_inv h' \<and> params_ok h'"
  using assms by (cases "trig = 0"; cases "hd_enable h = 0"; cases "hd_rec_type h = 0"; cases "hd_state h = 2")
    (simp_all add: trig_record_event_def rec_defs split: if_splits)

lemma remote_start_record_inv:
  assumes "rec_inv h" "params_ok h" "0 \<le> reclen"
  shows "\<exists>h'. snd (remote_start_record (Some h) reclen) = Some h' \<and> rec_inv h' \<and> params_ok h'"
  using assms by (auto simp: remote_start_record_def rec_defs split: if_splits)

lemma remote_stop_record_inv:
  assumes "rec_inv h" "params_ok h"
  shows "\<exists>h'. snd (remote_stop_record (Some h)) = Some h' \<and> rec_inv h' \<and> params_ok h'"
  using assms by (auto simp: remote_stop_record_def rec_defs split: if_splits)

lemma clear_hdmod_trig_flag_inv:
  assumes "rec_inv h" "params_ok h"
  shows "\<exists>h'. clear_hdmod_trig_flag (Some h) = Some h' \<and> rec_inv h' \<and> params_ok h'"
  using assms by (auto simp: clear_hdmod_trig_flag_def rec_defs split: if_splits)

section \<open>One second\<close>

text \<open>What a second does to the counters and the state, from \<open>h\<close> to \<open>h'\<close>.\<close>

definition second_spec :: "int \<Rightarrow> hd_enc \<Rightarrow> hd_enc \<Rightarrow> bool" where
  "second_spec k h h' =
     (hd_recordlen h' = max 0 (hd_recordlen h - k) \<and> hd_remote_trig_time h' = max 0 (hd_remote_trig_time h - k) \<and>
      hd_trig h' = (if hd_recordlen h' = 0 then 0 else hd_trig h) \<and>
      hd_state h' = (if hd_recordlen h' = 0 \<and> hd_remote_trig_time h' = 0 then idle_state h else hd_state h) \<and>
      hd_rec_type h' = hd_rec_type h \<and> hd_pre_rec h' = hd_pre_rec h \<and> hd_dly_rec h' = hd_dly_rec h \<and> hd_enable h' = hd_enable h \<and>
      hd_max_len h' = hd_max_len h)"

lemma file_tick_keeps:
  "hd_recordlen (file_tick h) = hd_recordlen h" "hd_remote_trig_time (file_tick h) = hd_remote_trig_time h"
  "hd_trig (file_tick h) = hd_trig h" "hd_state (file_tick h) = hd_state h" "hd_rec_type (file_tick h) = hd_rec_type h"
  "hd_pre_rec (file_tick h) = hd_pre_rec h" "hd_dly_rec (file_tick h) = hd_dly_rec h" "hd_enable (file_tick h) = hd_enable h"
  "hd_remote_trigged (file_tick h) = hd_remote_trigged h" "hd_max_len (file_tick h) = hd_max_len h"
  "hd_filename (file_tick h) = hd_filename h" "hd_aviinfo (file_tick h) = hd_aviinfo h"
  "hd_filelen h \<le> hd_filelen (file_tick h)" "hd_filelen (file_tick h) \<le> hd_filelen h + 1"
  by (simp_all add: file_tick_def Let_def)

lemma remote_tick_keeps:
  "hd_filename (remote_tick h) = hd_filename h" "hd_aviinfo (remote_tick h) = hd_aviinfo h" "hd_filelen (remote_tick h) = hd_filelen h"
  "hd_max_len (remote_tick h) = hd_max_len h"
  by (simp_all add: remote_tick_def Let_def)

lemma alarm_tick_keeps:
  "hd_filename (alarm_tick h) = hd_filename h" "hd_aviinfo (alarm_tick h) = hd_aviinfo h" "hd_filelen (alarm_tick h) = hd_filelen h"
  "hd_max_len (alarm_tick h) = hd_max_len h"
  by (simp_all add: alarm_tick_def Let_def)

lemma state_tick_keeps:
  "hd_filename (state_tick h) = hd_filename h" "hd_aviinfo (state_tick h) = hd_aviinfo h" "hd_max_len (state_tick h) = hd_max_len h"
  "hd_filelen h \<le> hd_filelen (state_tick h)" "hd_filelen (state_tick h) \<le> hd_filelen h + 1"
  by (simp_all add: state_tick_def alarm_tick_keeps remote_tick_keeps file_tick_keeps)

lemma tick_parts:
  assumes "rec_inv h" "params_ok h"
  shows "second_spec 1 h (alarm_tick (remote_tick h)) \<and> rec_inv (alarm_tick (remote_tick h))"
proof (cases "hd_remote_trig_time h = 0"; cases "hd_recordlen h = 0"; cases "hd_remote_trig_time h = 1"; cases "hd_recordlen h = 1")
qed (use assms in \<open>simp_all add: remote_tick_def alarm_tick_def second_spec_def rec_defs max_def split: if_splits\<close>)

lemma state_tick_spec:
  assumes "rec_inv h" "params_ok h"
  shows "second_spec 1 h (state_tick h) \<and> rec_inv (state_tick h) \<and> params_ok (state_tick h)"
proof (cases "hd_state h = 0")
  case True
  then show ?thesis using assms by (auto simp: state_tick_def second_spec_def rec_defs split: if_splits)
next
  case False
  let ?f = "file_tick h"
  have f: "rec_inv ?f" "params_ok ?f" using assms by (simp_all add: rec_inv_def params_ok_def idle_state_def file_tick_keeps)
  note t = tick_parts [OF f]
  have "second_spec 1 h (state_tick h)"
    using t False by (simp add: state_tick_def second_spec_def idle_state_def file_tick_keeps)
  moreover from this have "params_ok (state_tick h)" using assms(2) by (simp add: second_spec_def params_ok_def)
  ultimately show ?thesis using t False by (simp add: state_tick_def)
qed

lemma second_spec_trans:
  assumes "second_spec k a b" "second_spec 1 b c" "0 \<le> k" "rec_inv a"
  shows "second_spec (k + 1) a c"
  using assms by (simp add: second_spec_def idle_state_def max_def rec_inv_def)

section \<open>The table of channels\<close>

definition file_ok :: "int \<Rightarrow> hd_enc \<Rightarrow> bool" where
  "file_ok tz h =
     (hd_aviinfo h = None \<or> hd_filename h = [] \<or>
      (\<exists>i r. finfo_ok tz i \<and> hd_filename h = name_stem tz i @ marks r (r \<or> fi_trig i \<noteq> 0) @ ''.ING''))"

definition lens_ok :: "int \<Rightarrow> hd_enc \<Rightarrow> bool" where
  "lens_ok m h = (0 \<le> hd_filelen h \<and> hd_filelen h \<le> m \<and> 0 \<le> hd_max_len h \<and> int_ok (hd_max_len h))"

text \<open>The fields a channel's control depends on, which closing a file keeps.\<close>

definition same_ctl :: "hd_enc \<Rightarrow> hd_enc \<Rightarrow> bool" where
  "same_ctl a b =
     (hd_recordlen a = hd_recordlen b \<and> hd_remote_trig_time a = hd_remote_trig_time b \<and> hd_trig a = hd_trig b \<and>
      hd_state a = hd_state b \<and> hd_remote_trigged a = hd_remote_trigged b \<and> hd_rec_type a = hd_rec_type b \<and>
      hd_pre_rec a = hd_pre_rec b \<and> hd_dly_rec a = hd_dly_rec b \<and> hd_enable a = hd_enable b \<and> hd_max_len a = hd_max_len b)"

lemma same_ctl_inv: "same_ctl a b \<Longrightarrow> rec_inv a = rec_inv b \<and> params_ok a = params_ok b \<and> idle_state a = idle_state b"
  by (simp add: same_ctl_def rec_inv_def params_ok_def idle_state_def)

lemma same_ctl_spec: "same_ctl a b \<Longrightarrow> second_spec k b c \<Longrightarrow> second_spec k a c"
  by (simp add: same_ctl_def second_spec_def idle_state_def)

text \<open>Closing a file of a channel with a well-formed name is defined and changes the file fields of that channel only.\<close>

lemma close_defined:
  assumes i: "i < 4" "length hds = 4" and f: "file_ok tz (hds ! i)" and l: "lens_ok m (hds ! i)" "lens_ok m' (hds ! 0)" "m < 2 ^ 31"
    and old: "length (fi_partition i0) = 16"
  shows "\<exists>r h' ops. close_record_file tz ren i0 hds (int i) = Some (r, hds[i := h'], ops) \<and> same_ctl (hds ! i) h' \<and> file_ok tz h' \<and> lens_ok m h'"
proof -
  let ?h = "hds ! i"
  have g: "get_hdch hds (int i) = Some ?h" using i by (simp add: get_hdch_def MAX_RECORD_CHANNEL_M_def)
  have sk: "same_ctl ?h ?h" "hds[i := ?h] = hds" by (simp_all add: same_ctl_def)
  consider "hd_filename ?h = [] \<or> hd_aviinfo ?h = None" | fd where "hd_filename ?h \<noteq> []" "hd_aviinfo ?h = Some fd" "\<not> 0 < fd"
    | fd where "hd_filename ?h \<noteq> []" "hd_aviinfo ?h = Some fd" "0 < fd" by blast
  then show ?thesis
  proof cases
    case 1
    then have "close_record_file tz ren i0 hds (int i) = Some (0, hds[i := ?h], [])"
      by (auto simp: close_record_file_def g sk split: option.splits)
    then show ?thesis using sk f l by blast
  next
    case 2
    then have "close_record_file tz ren i0 hds (int i) = Some (0, hds[i := closed ?h], [])"
      by (simp add: close_record_file_def g)
    moreover have "same_ctl ?h (closed ?h)" "file_ok tz (closed ?h)" "lens_ok m (closed ?h)"
      using l by (auto simp: closed_def same_ctl_def file_ok_def lens_ok_def)
    ultimately show ?thesis by blast
  next
    case 3
    then obtain j r where j: "finfo_ok tz j" "hd_filename ?h = name_stem tz j @ marks r (r \<or> fi_trig j \<noteq> 0) @ ''.ING''"
      using f by (auto simp: file_ok_def)
    let ?h3 = "?h\<lparr>hd_aviinfo := None, hd_queryflag := (if hd_queryflag ?h = 1 then 0 else hd_queryflag ?h)\<rparr>"
    have L: "0 \<le> hd_filelen ?h" "int_ok (hd_filelen ?h)" "0 \<le> hd_max_len (hds ! 0)" "int_ok (hd_max_len (hds ! 0))"
      using l by (auto simp: lens_ok_def int_ok_def)
    note c = close_named [OF j(1) refl g j(2) 3(2,3) old L refl refl refl, of ren]
    have "same_ctl ?h ?h3" "file_ok tz ?h3" "lens_ok m ?h3" "same_ctl ?h (closed ?h3)" "file_ok tz (closed ?h3)" "lens_ok m (closed ?h3)"
      using l by (auto simp: closed_def same_ctl_def file_ok_def lens_ok_def)
    then show ?thesis using c by (simp split: if_splits) blast+
  qed
qed

definition chan_ok :: "int \<Rightarrow> int \<Rightarrow> hd_enc \<Rightarrow> bool" where
  "chan_ok tz m h = (rec_inv h \<and> params_ok h \<and> file_ok tz h \<and> lens_ok m h)"

lemma chan_ok_mono: "chan_ok tz m h \<Longrightarrow> m \<le> m' \<Longrightarrow> chan_ok tz m' h"
  by (auto simp: chan_ok_def lens_ok_def)

lemma chan_ok_ctl: "same_ctl a b \<Longrightarrow> chan_ok tz m a \<Longrightarrow> file_ok tz b \<Longrightarrow> lens_ok m b \<Longrightarrow> chan_ok tz m b"
  using same_ctl_inv [of a b] by (simp add: chan_ok_def)

lemma state_tick_chan:
  assumes "chan_ok tz m h"
  shows "chan_ok tz (m + 1) (state_tick h) \<and> second_spec 1 h (state_tick h)"
  using assms state_tick_spec [of h] state_tick_keeps [of h] by (auto simp: chan_ok_def file_ok_def lens_ok_def)

lemma audio_watch_chan: "chan_ok tz m h \<Longrightarrow> chan_ok tz m (audio_watch aattr h) \<and> same_ctl h (audio_watch aattr h)"
proof -
  assume c: "chan_ok tz m h"
  have "same_ctl h (audio_watch aattr h)" by (simp add: same_ctl_def audio_watch_def)
  moreover have "file_ok tz (audio_watch aattr h)" "lens_ok m (audio_watch aattr h)"
    using c by (simp_all add: audio_watch_def chan_ok_def file_ok_def lens_ok_def)
  ultimately show ?thesis using chan_ok_ctl [OF _ c] by blast
qed

lemma second_ch_chan:
  assumes i: "i < 4" "length hds = 4" and c: "chan_ok tz m (hds ! i)" "chan_ok tz m' (hds ! 0)" and m: "m < 2 ^ 31"
    and old: "length (fi_partition i0) = 16"
  shows "\<exists>h' ops. second_ch tz ren i0 vattr hds i = Some (hds[i := h'], ops) \<and> chan_ok tz (m + 1) h' \<and> second_spec 1 (hds ! i) h'"
proof -
  have upd: "same_ctl (hds ! i) ((hds ! i)\<lparr>hd_watchcnt := w\<rparr>)" "chan_ok tz m ((hds ! i)\<lparr>hd_watchcnt := w\<rparr>)" for w
    using chan_ok_ctl [OF _ c(1), of "(hds ! i)\<lparr>hd_watchcnt := w\<rparr>"] c(1)
    by (simp_all add: same_ctl_def chan_ok_def file_ok_def lens_ok_def)
  have "\<exists>h ops. video_watch tz ren i0 vattr hds i = Some (hds[i := h], ops) \<and> same_ctl (hds ! i) h \<and> chan_ok tz m h"
  proof -
    let ?h1 = "(hds ! i)\<lparr>hd_watchcnt := hd_watchcnt (hds ! i) + 1\<rparr>"
    let ?hds1 = "hds[i := ?h1]"
    have z: "lens_ok (if i = 0 then m else m') (?hds1 ! 0)" using c upd(2) by (cases "i = 0") (simp_all add: chan_ok_def i)
    obtain r h' ops where cl: "close_record_file tz ren i0 ?hds1 (int i) = Some (r, ?hds1[i := h'], ops)" "same_ctl ?h1 h'" "file_ok tz h'" "lens_ok m h'"
      using close_defined [OF i(1) _ _ _ z m old, of tz ren] upd(2) i by (auto simp: chan_ok_def)
    have h': "same_ctl (hds ! i) h'" using cl(2) by (simp add: same_ctl_def)
    then have "chan_ok tz m h'" using chan_ok_ctl c(1) cl(3,4) by blast
    then show ?thesis using cl(1) h' upd c(1) unfolding video_watch_def
      by (cases "0 < hd_thread_id (hds ! i)"; cases "vattr (hd_channel (hds ! i))") (auto simp: Let_def same_ctl_def intro: exI [of _ "hds ! i"])
  qed
  then obtain h ops where h: "video_watch tz ren i0 vattr hds i = Some (hds[i := h], ops)" "same_ctl (hds ! i) h" "chan_ok tz m h" by blast
  have "second_ch tz ren i0 vattr hds i = Some (hds[i := state_tick h], ops)" using h(1) i by (simp add: second_ch_def)
  then show ?thesis using state_tick_chan [OF h(3)] same_ctl_spec [OF h(2)] by blast
qed

lemma second_from_chan:
  assumes "length hds = 4" "distinct is" "\<forall>i \<in> set is. i < 4" "m < 2 ^ 31" "length (fi_partition i0) = 16"
    and "\<forall>i < 4. chan_ok tz (if i \<in> set is then m else m + 1) (hds ! i)"
  shows "\<exists>hds' ops. second_from tz ren i0 vattr is hds = Some (hds', ops) \<and> length hds' = 4 \<and>
    (\<forall>i < 4. chan_ok tz (m + 1) (hds' ! i)) \<and>
    (\<forall>i < 4. if i \<in> set is then second_spec 1 (hds ! i) (hds' ! i) else hds' ! i = hds ! i)"
  using assms
proof (induction "is" arbitrary: hds)
  case Nil
  then show ?case by simp
next
  case (Cons i "is")
  have i: "i < 4" "i \<notin> set is" using Cons.prems by simp_all
  then have c: "chan_ok tz m (hds ! i)" using Cons.prems(6) [rule_format, of i] by simp
  have c0: "chan_ok tz (m + 1) (hds ! 0)" using Cons.prems(6) chan_ok_mono [of tz m _ "m + 1"] by (fastforce split: if_splits)
  obtain h' ops where h': "second_ch tz ren i0 vattr hds i = Some (hds[i := h'], ops)" "chan_ok tz (m + 1) h'" "second_spec 1 (hds ! i) h'"
    using second_ch_chan [OF i(1) Cons.prems(1) c c0 Cons.prems(4,5)] by blast
  let ?hds = "hds[i := h']"
  have "\<forall>j < 4. chan_ok tz (if j \<in> set is then m else m + 1) (?hds ! j)"
    using Cons.prems(1,6) h'(2) i by (auto simp: nth_list_update)
  then obtain hds' ops' where r: "second_from tz ren i0 vattr is ?hds = Some (hds', ops')" "length hds' = 4"
      "\<forall>j < 4. chan_ok tz (m + 1) (hds' ! j)" "\<forall>j < 4. if j \<in> set is then second_spec 1 (?hds ! j) (hds' ! j) else hds' ! j = ?hds ! j"
    using Cons.IH [of ?hds] Cons.prems by auto
  have "\<forall>j < 4. if j \<in> set (i # is) then second_spec 1 (hds ! j) (hds' ! j) else hds' ! j = hds ! j"
    using r(4) i h'(3) Cons.prems(1) by (auto simp: nth_list_update split: if_splits)
  then show ?case using h'(1) r(1-3) by simp
qed

lemma hd_second_proc_chan:
  assumes "length hds = 4" "\<forall>i < 4. chan_ok tz m (hds ! i)" "m < 2 ^ 31" "length (fi_partition i0) = 16"
  shows "\<exists>hds' ops. hd_second_proc tz ren i0 aattr vattr hds = Some (hds', ops) \<and> length hds' = 4 \<and>
    (\<forall>i < 4. chan_ok tz (m + 1) (hds' ! i) \<and> second_spec 1 (hds ! i) (hds' ! i))"
proof -
  let ?a = "map (audio_watch aattr) hds"
  have a: "\<forall>i < 4. chan_ok tz m (?a ! i) \<and> same_ctl (hds ! i) (?a ! i)" using assms(1,2) audio_watch_chan [of tz m _ aattr] by simp
  have "length ?a = 4" "distinct [0..<4::nat]" "\<forall>i \<in> set [0..<4]. i < (4::nat)" using assms(1) by simp_all
  moreover have "\<forall>i < 4. chan_ok tz (if i \<in> set [0..<4] then m else m + 1) (?a ! i)" using a by simp
  ultimately obtain hds' ops where r: "second_from tz ren i0 vattr [0..<4] ?a = Some (hds', ops)" "length hds' = 4"
      "\<forall>i < 4. chan_ok tz (m + 1) (hds' ! i)" "\<forall>i < 4. if i \<in> set [0..<4] then second_spec 1 (?a ! i) (hds' ! i) else hds' ! i = ?a ! i"
    using second_from_chan [OF _ _ _ assms(3,4)] by blast
  have "\<forall>i < 4. second_spec 1 (hds ! i) (hds' ! i)" using r(4) a same_ctl_spec by simp blast
  then show ?thesis using r(1-3) by (simp add: hd_second_proc_def MAX_RECORD_CHANNEL_M_def)
qed

section \<open>Seconds without a command\<close>

text \<open>What the clock meets in each second: the file index, the contents of an uninitialised record, the encoders.\<close>

record rec_env =
  e_ren :: "string \<Rightarrow> string \<Rightarrow> string \<Rightarrow> int"
  e_info :: file_info
  e_aattr :: "int \<Rightarrow> bool"
  e_vattr :: "int \<Rightarrow> bool"

fun seconds :: "int \<Rightarrow> (nat \<Rightarrow> rec_env) \<Rightarrow> nat \<Rightarrow> hd_enc list \<Rightarrow> hd_enc list option" where
  "seconds tz env 0 hds = Some hds"
| "seconds tz env (Suc k) hds =
     (case seconds tz env k hds of None \<Rightarrow> None
      | Some hds1 \<Rightarrow> map_option fst (hd_second_proc tz (e_ren (env k)) (e_info (env k)) (e_aattr (env k)) (e_vattr (env k)) hds1))"

lemma second_spec_refl: "rec_inv h \<Longrightarrow> second_spec 0 h h"
  by (auto simp: second_spec_def rec_inv_def split: if_splits)

lemma seconds_chan:
  assumes "length hds = 4" "\<forall>i < 4. chan_ok tz m (hds ! i)" "m + int k \<le> 2 ^ 31" "\<And>j. length (fi_partition (e_info (env j))) = 16"
  shows "\<exists>hds'. seconds tz env k hds = Some hds' \<and> length hds' = 4 \<and>
    (\<forall>i < 4. chan_ok tz (m + int k) (hds' ! i) \<and> second_spec (int k) (hds ! i) (hds' ! i))"
  using assms(3)
proof (induction k)
  case 0
  then show ?case using assms(1,2) second_spec_refl by (simp add: chan_ok_def)
next
  case (Suc k)
  then obtain hds1 where h: "seconds tz env k hds = Some hds1" "length hds1 = 4"
      "\<forall>i < 4. chan_ok tz (m + int k) (hds1 ! i) \<and> second_spec (int k) (hds ! i) (hds1 ! i)" by auto
  have "m + int k < 2 ^ 31" using Suc.prems by simp
  then obtain hds2 ops where s: "hd_second_proc tz (e_ren (env k)) (e_info (env k)) (e_aattr (env k)) (e_vattr (env k)) hds1 = Some (hds2, ops)"
      "length hds2 = 4" "\<forall>i < 4. chan_ok tz (m + int k + 1) (hds2 ! i) \<and> second_spec 1 (hds1 ! i) (hds2 ! i)"
    using hd_second_proc_chan [OF h(2), of tz "m + int k" "e_info (env k)"] h(3) assms(4) by blast
  have "second_spec (int (Suc k)) (hds ! i) (hds2 ! i)" if "i < 4" for i
    using second_spec_trans [of "int k" "hds ! i" "hds1 ! i" "hds2 ! i"] h(3) s(3) assms(2) that by (simp add: chan_ok_def add.commute)
  then show ?case using h(1) s by (simp add: add.assoc add.commute [of 1])
qed

section \<open>Commands\<close>

text \<open>
  Commands whose lengths are below 2^30 seconds, so that no sum of the handlers leaves the range of \<open>int\<close>, and whose
  channel, where the handler does not check it, exists. A change of the configuration is not among them: it can leave a
  channel in a state that does not fit the new parameters (below).
\<close>

fun cmd_ok :: "hd_cmd \<Rightarrow> bool" where
  "cmd_ok (TRIG_RECORD_EVENT ch flag len) = (len < 0x40000000)"
| "cmd_ok (REMOTE_TRIG_RECORD ch mode len) = (len < 0x40000000)"
| "cmd_ok (CLEAR_TRIG_FLAG ch) = (ch < 4)"
| "cmd_ok (USR_LOCAL_RECORDER_CONTROL mode ch len) = True"
| "cmd_ok MAIN_REFRESH_PARA = False"

lemma sint_below: "uint w < 2 ^ 31 \<Longrightarrow> sint w = uint w" for w :: "32 word"
proof -
  assume u: "uint w < 2 ^ 31"
  have n: "0 \<le> uint w" by simp
  have "signed_take_bit 31 (uint w) = uint w"
    by (rule signed_take_bit_int_eq_self) (use u n in linarith)+
  then show ?thesis by (simp add: sint_uint)
qed

lemma small_sint: "len < 0x40000000 \<Longrightarrow> 0 \<le> sint len" for len :: "32 word"
proof -
  assume "len < 0x40000000"
  then have "uint len < 2 ^ 31" by (simp add: word_less_def)
  then show ?thesis by (simp add: sint_below)
qed

definition table_inv :: "hd_enc list \<Rightarrow> bool" where
  "table_inv hds = (length hds = 4 \<and> list_all (\<lambda>h. rec_inv h \<and> params_ok h) hds)"

definition same_file :: "hd_enc list \<Rightarrow> hd_enc list \<Rightarrow> bool" where
  "same_file a b = (length b = length a \<and> (\<forall>i < length a. hd_aviinfo (b ! i) = hd_aviinfo (a ! i) \<and> hd_filename (b ! i) = hd_filename (a ! i) \<and>
     hd_thread_id (b ! i) = hd_thread_id (a ! i)))"

text \<open>
  The contracts of the events of a channel, given the pointer \<open>get_hdch\<close> returned: an event leaves the open file and its thread alone, and most
  events keep the invariant of the channel. What they do to the table follows for all of them.
\<close>

locale file_event =
  fixes ev :: "hd_enc option \<Rightarrow> hd_enc option"
  assumes ev_none: "ev None = None"
    and ev_file: "ev (Some h) = Some h' \<Longrightarrow> hd_aviinfo h' = hd_aviinfo h \<and> hd_filename h' = hd_filename h \<and> hd_thread_id h' = hd_thread_id h"
begin

lemma files_kept:
  assumes "length hds = 4"
  shows "same_file hds (upd_ch hds ch (ev (get_hdch hds ch)))"
proof (cases "ch < 4 \<and> 0 \<le> ch")
  case True
  then have "get_hdch hds ch = Some (hds ! nat ch)" "nat ch < 4" by (auto simp: get_hdch_def MAX_RECORD_CHANNEL_M_def)
  then show ?thesis using assms ev_file by (cases "ev (Some (hds ! nat ch))") (auto simp: same_file_def upd_ch_def nth_list_update)
next
  case False
  then have "get_hdch hds ch = None" by (auto simp: get_hdch_def MAX_RECORD_CHANNEL_M_def)
  then show ?thesis using ev_none by (simp add: same_file_def upd_ch_def)
qed

end

locale channel_event = file_event +
  assumes ev_inv: "rec_inv h \<Longrightarrow> params_ok h \<Longrightarrow> \<exists>h'. ev (Some h) = Some h' \<and> rec_inv h' \<and> params_ok h'"
begin

lemma table_kept:
  assumes "table_inv hds"
  shows "table_inv (upd_ch hds ch (ev (get_hdch hds ch)))"
proof (cases "get_hdch hds ch")
  case None
  then show ?thesis using assms ev_none by (simp add: upd_ch_def)
next
  case (Some h)
  then have "h \<in> set hds" using assms by (auto simp: get_hdch_def MAX_RECORD_CHANNEL_M_def table_inv_def split: if_splits)
  then obtain h' where "ev (Some h) = Some h'" "rec_inv h'" "params_ok h'" using assms ev_inv by (auto simp: table_inv_def list_all_iff)
  then show ?thesis using assms Some by (auto simp: upd_ch_def table_inv_def list_all_iff dest!: set_update_subset_insert [THEN subsetD])
qed

end

interpretation trig_file: file_event "\<lambda>p. snd (trig_record_event p t n)" for t n
  by unfold_locales (auto simp: trig_record_event_def Let_def split: if_splits)

interpretation trig_ev: channel_event "\<lambda>p. snd (trig_record_event p t (int n))" for t n
  by unfold_locales (rule trig_record_event_inv, simp_all)

interpretation start_file: file_event "\<lambda>p. snd (remote_start_record p n)" for n
  by unfold_locales (auto simp: remote_start_record_def Let_def split: if_splits)

interpretation start_ev: channel_event "\<lambda>p. snd (remote_start_record p (int n))" for n
  by unfold_locales (rule remote_start_record_inv, simp_all)

interpretation stop_ev: channel_event "\<lambda>p. snd (remote_stop_record p)"
  by unfold_locales (use remote_stop_record_inv in \<open>auto simp: remote_stop_record_def Let_def split: if_splits\<close>)

interpretation clear_ev: channel_event clear_hdmod_trig_flag
  by unfold_locales (use clear_hdmod_trig_flag_inv in \<open>auto simp: clear_hdmod_trig_flag_def Let_def split: if_splits\<close>)

interpretation para_file: file_event "\<lambda>p. snd (read_hqsave_para_file ini sec ch p)" for ini sec ch
  by unfold_locales (auto simp: read_hqsave_para_file_def Let_def split: if_splits option.splits)

lemma remote_table:
  assumes "table_inv hds" "0 \<le> n"
  shows "table_inv (upd_ch hds ch (snd (if b then remote_start_record (get_hdch hds ch) n else remote_stop_record (get_hdch hds ch))))"
  using start_ev.table_kept [OF assms(1), of ch "nat n"] stop_ev.table_kept [OF assms(1), of ch] assms(2) by (cases b) simp_all

lemma command_inv:
  assumes "table_inv hds" "cmd_ok c"
  shows "\<exists>hds'. process_modsocket_cmd ini num c hds = Some hds' \<and> table_inv hds'"
proof (cases c)
  case (TRIG_RECORD_EVENT ch flag len)
  then have "0 \<le> sint len" using assms(2) small_sint by simp
  then show ?thesis using TRIG_RECORD_EVENT trig_ev.table_kept [OF assms(1), of "sint ch" "ucast flag" "nat (sint len)"] by simp
next
  case (REMOTE_TRIG_RECORD ch mode len)
  then have "0 \<le> sint len" using assms(2) small_sint by simp
  then show ?thesis using REMOTE_TRIG_RECORD remote_table [OF assms(1)] by simp
next
  case (CLEAR_TRIG_FLAG ch)
  then have "uint ch < 4" using assms(2) by (simp add: word_less_def)
  then have s: "sint ch = uint ch" by (intro sint_below) simp
  then have g: "get_hdch hds (sint ch) = Some (hds ! nat (uint ch))" using \<open>uint ch < 4\<close> by (simp add: get_hdch_def MAX_RECORD_CHANNEL_M_def)
  obtain h' where "clear_hdmod_trig_flag (Some (hds ! nat (uint ch))) = Some h'" by (simp add: clear_hdmod_trig_flag_def Let_def)
  then show ?thesis using CLEAR_TRIG_FLAG g clear_ev.table_kept [OF assms(1), of "sint ch"] by (simp add: upd_ch_def)
next
  case (USR_LOCAL_RECORDER_CONTROL mode ch len)
  then show ?thesis using remote_table [OF assms(1), of "uint len" "uint ch"] by simp
next
  case MAIN_REFRESH_PARA
  then show ?thesis using assms(2) by simp
qed

lemma same_file_trans: "same_file a b \<Longrightarrow> same_file b c \<Longrightarrow> same_file a c"
  by (simp add: same_file_def)

lemma remote_same_file:
  assumes "length hds = 4"
  shows "same_file hds (upd_ch hds ch (snd (if b then remote_start_record (get_hdch hds ch) n else remote_stop_record (get_hdch hds ch))))"
  using start_file.files_kept [OF assms, of ch n] stop_ev.files_kept [OF assms, of ch] by (cases b) simp_all

text \<open>Commands do not touch the files.\<close>

lemma command_same_file:
  assumes l: "length hds = 4" and c: "process_modsocket_cmd ini num c hds = Some hds'"
  shows "same_file hds hds'"
proof (cases c)
  case (TRIG_RECORD_EVENT ch flag len)
  then show ?thesis using c trig_file.files_kept [OF l] by auto
next
  case (CLEAR_TRIG_FLAG ch)
  then have "hds' = upd_ch hds (sint ch) (clear_hdmod_trig_flag (get_hdch hds (sint ch)))"
    using c by (auto simp: upd_ch_def split: option.splits)
  then show ?thesis using clear_ev.files_kept [OF l] by simp
next
  case MAIN_REFRESH_PARA
  let ?p = "\<lambda>sec ch p. snd (read_hqsave_para_file ini sec ch p)"
  let ?h = "upd_ch hds 0 (?p ''hqpara'' 0 (get_hdch hds 0))"
  have 1: "same_file hds ?h" by (rule para_file.files_kept [OF l])
  then have "length ?h = 4" using l by (simp add: same_file_def)
  then have 2: "same_file ?h (upd_ch ?h 1 (?p ''hqpara1'' 1 (get_hdch ?h 1)))" by (rule para_file.files_kept)
  have "hds' = (if num = 2 then upd_ch ?h 1 (?p ''hqpara1'' 1 (get_hdch ?h 1)) else ?h)" using c MAIN_REFRESH_PARA by (simp add: Let_def)
  then show ?thesis using 1 same_file_trans [OF 1 2] by (simp split: if_splits)
qed (use c remote_same_file [OF l] in \<open>auto\<close>)

section \<open>Properties\<close>

lemma second_outcome:
  assumes "second_spec k h h'" "rec_inv h" "rec_inv h'"
  shows "hd_recordlen h' = max 0 (hd_recordlen h - k) \<and> hd_remote_trig_time h' = max 0 (hd_remote_trig_time h - k) \<and>
    (if hd_recordlen h \<le> k \<and> hd_remote_trig_time h \<le> k
     then hd_state h' = (if hd_rec_type h = 0 \<and> hd_pre_rec h \<noteq> 0 then 1 else 0) \<and> hd_trig h' = 0 \<and> hd_remote_trigged h' = 0
     else hd_state h' = hd_state h \<and> hd_state h' \<noteq> 0)"
proof (cases "hd_recordlen h \<le> k"; cases "hd_remote_trig_time h \<le> k")
qed (use assms in \<open>simp_all add: second_spec_def idle_state_def rec_inv_def\<close>)

text \<open>
  C11. Recordings end. When a table of four channels with positive alarm delays runs for any number of seconds without a
  command, \<open>hd_second_proc\<close> is defined in each of them whatever the file index and the encoders do; after
  \<open>k\<close> seconds the counter of alarm seconds and the counter of manual seconds of each channel are smaller by
  \<open>k\<close>, or 0; as long as one of them is not 0 the channel keeps its state, and from then on it is in its idle
  state, which is recording only for a channel that always records, with no trigger bits and no manual recording.
\<close>

theorem recording_ends:
  assumes "length hds = 4" "\<forall>i < 4. chan_ok tz m (hds ! i)" "m + int k \<le> 2 ^ 31" "\<And>j. length (fi_partition (e_info (env j))) = 16"
  shows "\<exists>hds'. seconds tz env k hds = Some hds' \<and>
    (\<forall>i < 4. hd_recordlen (hds' ! i) = max 0 (hd_recordlen (hds ! i) - int k) \<and>
      hd_remote_trig_time (hds' ! i) = max 0 (hd_remote_trig_time (hds ! i) - int k) \<and>
      (if hd_recordlen (hds ! i) \<le> int k \<and> hd_remote_trig_time (hds ! i) \<le> int k
       then hd_state (hds' ! i) = (if hd_rec_type (hds ! i) = 0 \<and> hd_pre_rec (hds ! i) \<noteq> 0 then 1 else 0) \<and>
         hd_trig (hds' ! i) = 0 \<and> hd_remote_trigged (hds' ! i) = 0
       else hd_state (hds' ! i) = hd_state (hds ! i) \<and> hd_state (hds' ! i) \<noteq> 0))"
proof -
  obtain hds' where h: "seconds tz env k hds = Some hds'"
      "\<forall>i < 4. chan_ok tz (m + int k) (hds' ! i) \<and> second_spec (int k) (hds ! i) (hds' ! i)"
    using seconds_chan [OF assms(1,2,3), of env] assms(4) by blast
  then show ?thesis using second_outcome [of "int k"] assms(2) unfolding chan_ok_def by blast
qed

text \<open>Example: an alarm of 20 seconds on one of four channels that always record.\<close>

definition sample_env :: "nat \<Rightarrow> rec_env" where
  "sample_env j = \<lparr>e_ren = \<lambda>_ _ _. 0, e_info = sample_finfo, e_aattr = \<lambda>_. True, e_vattr = \<lambda>_. True\<rparr>"

definition sample_table :: "hd_enc list" where
  "sample_table = [sample_hd\<lparr>hd_state := 1, hd_recordlen := 0, hd_trig := 0\<rparr>, sample_hd, sample_hd\<lparr>hd_state := 1, hd_recordlen := 0, hd_trig := 0\<rparr>,
     sample_hd\<lparr>hd_state := 1, hd_recordlen := 0, hd_trig := 0\<rparr>]"

lemma sample_table_ok: "\<forall>i < 4. chan_ok 28800 0 (sample_table ! i)"
proof (intro allI impI)
  fix i :: nat
  assume "i < 4"
  then consider "i = 0" | "i = 1" | "i = 2" | "i = 3" by linarith
  then show "chan_ok 28800 0 (sample_table ! i)"
    by cases (simp_all add: sample_table_def sample_hd_def chan_ok_def rec_inv_def params_ok_def idle_state_def file_ok_def lens_ok_def int_ok_def)
qed

lemma sample_table_inv: "table_inv sample_table"
proof -
  have "rec_inv (sample_table ! i) \<and> params_ok (sample_table ! i)" if "i < 4" for i
    using sample_table_ok that by (simp add: chan_ok_def)
  moreover have "length sample_table = 4" by (simp add: sample_table_def)
  ultimately show ?thesis by (auto simp: table_inv_def list_all_length)
qed

theorem recording_ends_witness:
  "\<exists>hds'. seconds 28800 sample_env 20 sample_table = Some hds' \<and> hd_state (hds' ! 1) = 1 \<and> hd_trig (hds' ! 1) = 0"
proof -
  have "hd_recordlen (sample_table ! 1) = 20" "hd_remote_trig_time (sample_table ! 1) = 0" "hd_rec_type (sample_table ! 1) = 0"
    "hd_pre_rec (sample_table ! 1) = 600" "length sample_table = 4"
    by (simp_all add: sample_table_def sample_hd_def)
  then show ?thesis using recording_ends [of sample_table 28800 0 20 sample_env] sample_table_ok sample_finfo_ok by (auto simp: sample_env_def)
qed

text \<open>
  With a delay of 0 seconds an alarm that comes without a length of its own starts a recording that no second ends.
\<close>

lemma zero_delay_alarm_is_endless:
  assumes "hd_dly_rec h = 0" "hd_enable h \<noteq> 0" "trig \<noteq> 0" "hd_recordlen h = 0" "hd_remote_trig_time h = 0" "hd_state h \<noteq> 2"
  defines "h' \<equiv> the (snd (trig_record_event (Some h) trig 0))"
  shows "hd_state ((state_tick ^^ k) h') = 2"
proof -
  have s: "hd_state h' = 2 \<and> hd_recordlen h' = 0 \<and> hd_remote_trig_time h' = 0"
    using assms by (simp add: trig_record_event_def Let_def)
  have "hd_state ((state_tick ^^ k) h') = 2 \<and> hd_recordlen ((state_tick ^^ k) h') = 0 \<and> hd_remote_trig_time ((state_tick ^^ k) h') = 0"
    by (induction k) (simp_all add: s state_tick_def alarm_tick_def remote_tick_def file_tick_keeps)
  then show ?thesis by simp
qed

text \<open>
  Reading the configuration again does not change the state: a channel that always recorded and is configured
  to record on motion only keeps recording, with both counters at 0.
\<close>

lemma refresh_keeps_state:
  assumes "read_hqsave_para_file ini sec ch (Some h) = (r, Some h')"
  shows "hd_state h' = hd_state h \<and> hd_recordlen h' = hd_recordlen h \<and> hd_remote_trig_time h' = hd_remote_trig_time h"
  using assms by (auto simp: read_hqsave_para_file_def Let_def split: if_splits option.splits)

lemma refresh_breaks_invariant:
  "\<exists>ini h'. rec_inv (sample_table ! 0) \<and> read_hqsave_para_file ini ''hqpara'' 0 (Some (sample_table ! 0)) = (0, Some h') \<and> \<not> rec_inv h'"
  by (rule exI [of _ "Some (\<lambda>k d. if k = ''hqpara:rec_type'' then 1 else d)"])
    (simp add: read_hqsave_para_file_def sample_table_def sample_hd_def rec_inv_def idle_state_def Let_def)

text \<open>The cut length of a configured channel is between 90 and 1800 seconds, its time before an alarm at most an hour.\<close>

lemma configured_limits:
  assumes "read_hqsave_para_file ini sec ch (Some h) = (0, Some h')"
  shows "90 \<le> hd_max_len h' \<and> hd_max_len h' \<le> 1800 \<and> hd_pre_rec h' \<le> 3600 \<and> (hd_enable h' \<noteq> 0 \<longrightarrow> hd_rec_type h' \<in> {0, 1})"
  using assms by (auto simp: read_hqsave_para_file_def Let_def split: if_splits option.splits)

end
