(* ===== verification/Rec_Thread.thy ===== *)
theory Rec_Thread
  imports Rec_State_Props
begin

text \<open>
  The thread that writes a channel's files, \<open>record_file_thread\<close> of \<open>src/src/mp_hdmodule_m/hdmod.c\<close>, in parts: the begin
  looks for a disk and a frame buffer; in the loop the top looks at the state of the channel and connects to the encoder, then frames are read until one
  can be used, then the frame is processed: the file is closed when a cut is due, a new one is opened at a key frame, and the
  frame is written. Commands, the clock and the threads of other channels run between the parts.
  A cancelled thread ends after any of its parts with its cleanup handler.

  What the thread gets from outside in a step is \<open>rec_input\<close>: the frame that is read (\<open>None\<close> when the read fails) with its sequence
  number, whether it is an I frame and whether \<open>is_keyframe\<close> holds of it, the time, the free space of the partition and the
  least space, whether the encoder is connected, and the parameters of the file operations.
\<close>

section \<open>The thread\<close>

datatype rec_pc = Pc_begin | Pc_top | Pc_read | Pc_process | Pc_done

record rec_thread =
  t_pc :: rec_pc
  t_state :: int
  t_newstate :: int
  t_first :: bool
  t_old_seq :: int
  t_new_seq :: int
  t_conn :: bool
  t_avi :: "int option"
  t_end_last :: int
  t_frame :: nat
  t_key :: bool
  t_cancel :: bool

record rec_input =
  i_frame :: "(int \<times> bool \<times> bool \<times> nat) option"
  i_now :: int
  i_free :: int
  i_minval :: int
  i_disknum :: int
  i_framebuf :: bool
  i_recent :: "string list"
  i_attrib :: bool
  i_tz :: int
  i_info :: file_info
  i_mkdirs :: "string \<Rightarrow> int"
  i_avi_open :: "string \<Rightarrow> int option"
  i_ren :: "string \<Rightarrow> string \<Rightarrow> string \<Rightarrow> int"

definition MOTION_PRE_REC :: int where
  "MOTION_PRE_REC = 10"

type_synonym rec_result = "(hd_enc list \<times> rec_thread \<times> rec_op list) option"

text \<open>
  Before the loop: without a disk the thread returns, its id stays in the channel; without a frame buffer the id becomes -1.
\<close>

definition record_begin :: "rec_input \<Rightarrow> hd_enc list \<Rightarrow> nat \<Rightarrow> rec_thread \<Rightarrow> rec_result" where
  "record_begin inp hds ch t =
     (if i_disknum inp = 0 then Some (hds, t\<lparr>t_pc := Pc_done\<rparr>, [])
      else if \<not> i_framebuf inp then Some (hds[ch := (hds ! ch)\<lparr>hd_thread_id := -1\<rparr>], t\<lparr>t_pc := Pc_done\<rparr>, [])
      else Some (hds, t\<lparr>t_pc := Pc_top\<rparr>, []))"

text \<open>
  \<open>recent\<close> are the names that the file index returns for the channel and the last \<open>pre_rec\<close> seconds and that can be renamed:
  each gets the lock.
\<close>

definition lock_recent_file :: "string list \<Rightarrow> rec_op list" where
  "lock_recent_file recent = map (\<lambda>f. Locked f (hdutil_lock_filename f)) recent"

text \<open>The loop's condition and the \<open>switch\<close> at its top; when the loop ends the file is closed.\<close>

definition record_top :: "rec_input \<Rightarrow> hd_enc list \<Rightarrow> nat \<Rightarrow> rec_thread \<Rightarrow> rec_result" where
  "record_top inp hds ch t =
     (let h = hds ! ch in
      if hd_threadexit h \<noteq> 0 then
        map_option (\<lambda>(r, hds', ops). (hds'[ch := (hds' ! ch)\<lparr>hd_thread_id := -1\<rparr>], t\<lparr>t_pc := Pc_done\<rparr>, ops))
          (close_record_file (i_tz inp) (i_ren inp) (i_info inp) hds (int ch))
      else
        let new = hd_state h; t1 = t\<lparr>t_newstate := new\<rparr> in
        if t_state t = 0 \<and> new \<noteq> 0 then
          let pre = (if hd_rec_type h = 0 then 0 else if i_now inp - t_end_last t \<ge> MOTION_PRE_REC then MOTION_PRE_REC
                     else i_now inp - t_end_last t)
          in Some (hds[ch := h\<lparr>hd_pre_connect := pre\<rparr>], t1\<lparr>t_state := new, t_conn := True, t_pc := Pc_read\<rparr>,
               if new = 2 then lock_recent_file (i_recent inp) else [])
        else Some (hds, t1\<lparr>t_pc := (if t_conn t then Pc_read else Pc_top)\<rparr>,
               if t_state t = 1 \<and> new = 2 then lock_recent_file (i_recent inp) else []))"

text \<open>
  One round of \<open>do ... while (first_flag && !threadexit)\<close>. The \<open>continue\<close> of a failed read goes to the loop's
  condition: with \<open>first_flag\<close> 0 the frame buffer of the previous round is processed again.
\<close>

definition record_read :: "rec_input \<Rightarrow> hd_enc list \<Rightarrow> nat \<Rightarrow> rec_thread \<Rightarrow> rec_result" where
  "record_read inp hds ch t =
     (let h = hds ! ch;
          again = (\<lambda>t'. t'\<lparr>t_pc := (if t_first t' \<and> hd_threadexit h = 0 then Pc_read else Pc_process)\<rparr>)
      in case i_frame inp of
           None \<Rightarrow> Some (hds[ch := h\<lparr>hd_readenc_flag := 1\<rparr>], again t, [])
         | Some (seq, iframe, key, fr) \<Rightarrow>
             let t1 = t\<lparr>t_new_seq := seq, t_frame := fr, t_key := key\<rparr>;
                 t2 = (if iframe then t1\<lparr>t_first := False, t_old_seq := seq\<rparr>
                       else if t_old_seq t1 + 1 \<noteq> seq then t1\<lparr>t_old_seq := seq, t_first := True\<rparr>
                       else t1\<lparr>t_old_seq := t_old_seq t1 + 1\<rparr>)
             in Some (hds[ch := h\<lparr>hd_readenc_flag := 0, hd_watchcnt := 0\<rparr>], again t2, []))"

text \<open>Closing before the frame: a cut was asked for, or the state has changed since the previous frame.\<close>

definition close_if_due :: "rec_input \<Rightarrow> hd_enc list \<Rightarrow> nat \<Rightarrow> rec_thread \<Rightarrow> (hd_enc list \<times> rec_op list) option" where
  "close_if_due inp hds ch t =
     (if (hd_cutflag (hds ! ch) \<noteq> 0 \<or> t_state t \<noteq> t_newstate t \<and> t_state t \<noteq> 0) \<and> hd_aviinfo (hds ! ch) \<noteq> None
      then map_option (\<lambda>(r, hds', ops). (hds', ops)) (close_record_file (i_tz inp) (i_ren inp) (i_info inp) hds (int ch))
      else Some (hds, []))"

text \<open>The end of the loop's body: other frames go to the file that is open.\<close>

definition write_open :: "hd_enc list \<Rightarrow> nat \<Rightarrow> rec_thread \<Rightarrow> rec_op list \<Rightarrow> rec_result" where
  "write_open hds ch t ops =
     Some (hds, t\<lparr>t_pc := Pc_top\<rparr>,
       ops @ (if t_state t \<noteq> 0 \<and> hd_threadexit (hds ! ch) = 0 \<and> hd_aviinfo (hds ! ch) \<noteq> None
              then [Avi_write (t_frame t) (t_key t)] else []))"

definition record_process :: "rec_input \<Rightarrow> hd_enc list \<Rightarrow> nat \<Rightarrow> rec_thread \<Rightarrow> rec_result" where
  "record_process inp hds0 ch t0 =
     (let hds1 = hds0[ch := (hds0 ! ch)\<lparr>hd_watchcnt := 0\<rparr>] in
      case close_if_due inp hds1 ch t0 of None \<Rightarrow> None
      | Some (hds, ops) \<Rightarrow>
          let t = t0\<lparr>t_state := t_newstate t0\<rparr>; h = hds ! ch in
          if t_key t \<and> hd_threadexit h = 0 then
            if t_newstate t \<noteq> 0 then
              if hd_aviinfo h = None then
                if i_free inp < i_minval inp
                then Some (hds[ch := h\<lparr>hd_threadexit := 1\<rparr>], t\<lparr>t_pc := Pc_top\<rparr>, ops)
                else (case create_record_file (i_tz inp) (i_now inp) (i_info inp) (i_mkdirs inp) (i_attrib inp) (i_avi_open inp) h of None \<Rightarrow> None
                      | Some (avi, h', ops1) \<Rightarrow>
                          let h2 = h'\<lparr>hd_aviinfo := avi\<rparr>; t1 = t\<lparr>t_avi := avi, t_pc := Pc_top\<rparr> in
                          if avi = None then Some (hds[ch := h2], t1\<lparr>t_state := 0\<rparr>, ops @ ops1)
                          else Some (hds[ch := h2], t1, ops @ ops1 @ [Avi_write (t_frame t) (t_key t)]))
              else Some (hds, t\<lparr>t_pc := Pc_top\<rparr>, ops @ [Avi_write (t_frame t) (t_key t)])
            else if i_attrib inp
                 then write_open hds ch (t\<lparr>t_conn := False, t_end_last := i_now inp, t_old_seq := -1, t_new_seq := -1\<rparr>) ops
                 else write_open hds ch t ops
          else write_open hds ch t ops)"

definition record_step :: "rec_input \<Rightarrow> hd_enc list \<Rightarrow> nat \<Rightarrow> rec_thread \<Rightarrow> rec_result" where
  "record_step inp hds ch t =
     (case t_pc t of
        Pc_begin \<Rightarrow> record_begin inp hds ch t
      | Pc_top \<Rightarrow> record_top inp hds ch t
      | Pc_read \<Rightarrow> record_read inp hds ch t
      | Pc_process \<Rightarrow> record_process inp hds ch t
      | Pc_done \<Rightarrow> Some (hds, t, []))"

text \<open>A new thread of a channel: the connection to the encoder is static and stays as the last thread has left it.\<close>

definition thread_start :: "bool \<Rightarrow> rec_thread" where
  "thread_start conn = \<lparr>t_pc = Pc_begin, t_state = 0, t_newstate = 0, t_first = True, t_old_seq = -1, t_new_seq = -1, t_conn = conn,
     t_avi = None, t_end_last = 0, t_frame = 0, t_key = False, t_cancel = False\<rparr>"

section \<open>Starting and stopping a thread\<close>

text \<open>
  \<open>tid\<close> is the id \<open>pthread_create\<close> gives the new thread, \<open>None\<close> when it fails; \<open>t\<close> is the thread that ran before.
\<close>

definition start_recordfilethread :: "int option \<Rightarrow> hd_enc \<Rightarrow> rec_thread \<Rightarrow> int \<times> hd_enc \<times> rec_thread" where
  "start_recordfilethread tid h t =
     (if hd_thread_id h > 0 then (0, h, t)
      else let h1 = h\<lparr>hd_threadexit := 0\<rparr>
           in case tid of Some i \<Rightarrow> (0, h1\<lparr>hd_thread_id := i\<rparr>, thread_start (t_conn t)) | None \<Rightarrow> (-1, h1, t))"

text \<open>
  \<open>stop_recordfilethread\<close> asks the thread to end, sleeps half a second and, when the thread still runs, closes its file and
  cancels it (\<open>cancelled\<close> is the success of \<open>pthread_cancel\<close>). The cancellation is deferred: the thread goes on to its next
  cancellation point, here the end of the part it is in, and then runs its cleanup handler.
\<close>

definition stop_begin :: "hd_enc \<Rightarrow> hd_enc" where
  "stop_begin h = (if hd_thread_id h \<le> 0 then h else h\<lparr>hd_threadexit := 1\<rparr>)"

definition stop_end ::
  "int \<Rightarrow> (string \<Rightarrow> string \<Rightarrow> string \<Rightarrow> int) \<Rightarrow> file_info \<Rightarrow> bool \<Rightarrow> hd_enc list \<Rightarrow> nat \<Rightarrow> rec_thread \<Rightarrow> rec_result" where
  "stop_end tz ren i0 cancelled hds ch t =
     (if hd_thread_id (hds ! ch) \<le> 0 then Some (hds, t, [])
      else map_option (\<lambda>(r, hds', ops).
             if cancelled then (hds'[ch := (hds' ! ch)\<lparr>hd_thread_id := -1\<rparr>], t\<lparr>t_cancel := True\<rparr>, ops) else (hds', t, ops))
           (close_record_file tz ren i0 hds (int ch)))"

definition record_file_thread_cleanup ::
  "int \<Rightarrow> (string \<Rightarrow> string \<Rightarrow> string \<Rightarrow> int) \<Rightarrow> file_info \<Rightarrow> hd_enc list \<Rightarrow> nat \<Rightarrow> rec_thread \<Rightarrow> rec_result" where
  "record_file_thread_cleanup tz ren i0 hds ch t =
     map_option (\<lambda>(r, hds', ops).
         (hds'[ch := (hds' ! ch)\<lparr>hd_watchcnt := 0, hd_thread_id := -1\<rparr>], t\<lparr>t_pc := Pc_done, t_cancel := False\<rparr>, ops))
       (close_record_file tz ren i0 hds (int ch))"

text \<open>
  The command \<open>HDRECORD_CTRL\<close>, in the parts between its sleeps: mode 0 stops the thread, mode 1 starts it, mode 2 does both. Each of these
  sequences is a list of parts; \<open>process_hdrecord_ctrl\<close> always takes channel 0. \<open>stopped\<close> says whether \<open>stop_recordfilethread\<close> has returned 0, that is,
  the thread had ended or was cancelled.
\<close>

datatype ctl_part = Stop_begin | Stop_end bool | Clear_exit | Start "int option"

definition ctl_step ::
  "int \<Rightarrow> (string \<Rightarrow> string \<Rightarrow> string \<Rightarrow> int) \<Rightarrow> file_info \<Rightarrow> ctl_part \<Rightarrow> hd_enc list \<Rightarrow> nat \<Rightarrow> rec_thread \<Rightarrow> rec_result" where
  "ctl_step tz ren i0 c hds ch t =
     (case c of
        Stop_begin \<Rightarrow> Some (hds[ch := stop_begin (hds ! ch)], t, [])
      | Stop_end cancelled \<Rightarrow> stop_end tz ren i0 cancelled hds ch t
      | Clear_exit \<Rightarrow> Some (hds[ch := (hds ! ch)\<lparr>hd_threadexit := 0\<rparr>], t, [])
      | Start tid \<Rightarrow> (case start_recordfilethread tid (hds ! ch) t of (r, h', t') \<Rightarrow> Some (hds[ch := h'], t', [])))"

definition process_hdrecord_ctrl :: "hd_enc list \<Rightarrow> int \<Rightarrow> bool \<Rightarrow> bool \<Rightarrow> int option \<Rightarrow> ctl_part list" where
  "process_hdrecord_ctrl hds mode cancelled stopped tid =
     (if hd_enable (hds ! 0) = 0 then []
      else if mode = 0 then [Stop_begin, Stop_end cancelled]
      else if mode = 1 then [Clear_exit, Start tid]
      else if mode = 2 then
        [Stop_begin, Stop_end cancelled] @ (if stopped then [Clear_exit, Start tid] else [])
      else [])"

section \<open>The recorder\<close>

record recorder =
  r_hds :: "hd_enc list"
  r_threads :: "nat \<Rightarrow> rec_thread"
  r_log :: "(nat \<times> rec_op) list"

text \<open>
  \<open>P\<close> says which commands are sent. The parts that start and stop threads may come in any order. The file index returns no name of
  a file that is being recorded. A thread is started only when the channel's last one has ended: the code waits half a second
  for a cancelled thread and does not look.
\<close>

inductive rec_step :: "(hd_cmd \<Rightarrow> bool) \<Rightarrow> recorder \<Rightarrow> recorder \<Rightarrow> bool" for P where
  command: "P c \<Longrightarrow> process_modsocket_cmd ini num c (r_hds s) = Some hds' \<Longrightarrow> rec_step P s (s\<lparr>r_hds := hds'\<rparr>)"
| second: "hd_second_proc tz ren i0 aattr vattr (r_hds s) = Some (hds', ops) \<Longrightarrow>
    rec_step P s (s\<lparr>r_hds := hds', r_log := r_log s @ ops\<rparr>)"
| thread: "ch < MAX_RECORD_CHANNEL_M \<Longrightarrow> (\<And>f fd. i_avi_open inp f = Some fd \<Longrightarrow> 0 < fd) \<Longrightarrow>
    \<forall>f \<in> set (i_recent inp). strstr f RECORDING_FILE_EXT = None \<Longrightarrow>
    record_step inp (r_hds s) ch (r_threads s ch) = Some (hds', t', ops) \<Longrightarrow>
    rec_step P s (s\<lparr>r_hds := hds', r_threads := (r_threads s)(ch := t'), r_log := r_log s @ map (Pair ch) ops\<rparr>)"
| cancelled: "ch < MAX_RECORD_CHANNEL_M \<Longrightarrow> t_cancel (r_threads s ch) \<Longrightarrow> t_pc (r_threads s ch) \<noteq> Pc_done \<Longrightarrow>
    record_file_thread_cleanup tz ren i0 (r_hds s) ch (r_threads s ch) = Some (hds', t', ops) \<Longrightarrow>
    rec_step P s (s\<lparr>r_hds := hds', r_threads := (r_threads s)(ch := t'), r_log := r_log s @ map (Pair ch) ops\<rparr>)"
| control: "ch < MAX_RECORD_CHANNEL_M \<Longrightarrow>
    (\<And>tid. c = Start tid \<Longrightarrow> hd_thread_id (r_hds s ! ch) \<le> 0 \<Longrightarrow> t_pc (r_threads s ch) = Pc_done) \<Longrightarrow>
    ctl_step tz ren i0 c (r_hds s) ch (r_threads s ch) = Some (hds', t', ops) \<Longrightarrow>
    rec_step P s (s\<lparr>r_hds := hds', r_threads := (r_threads s)(ch := t'), r_log := r_log s @ map (Pair ch) ops\<rparr>)"

inductive rec_reach :: "(hd_cmd \<Rightarrow> bool) \<Rightarrow> recorder \<Rightarrow> recorder \<Rightarrow> bool" for P where
  start: "rec_reach P s s"
| step: "rec_reach P s s' \<Longrightarrow> rec_step P s' s'' \<Longrightarrow> rec_reach P s s''"

inductive_cases rec_stepE: "rec_step P s s'"

end
