(* ===== verification/Rec_Thread_Props.thy ===== *)
theory Rec_Thread_Props
  imports Rec_Thread
begin

text \<open>
  What the recorder writes: in every state that commands, the clock and the threads can reach, the effects on the files of a channel
  form whole recordings, and a table that starts well-formed stays so.
\<close>

section \<open>Well-formed recordings\<close>

text \<open>
  The effects on the files of one channel, as an automaton: no file is open (the last one may wait for its new
  name), a file has been opened, a file has frames. Recent files may be locked at any time, but not the one that is open or waits.
\<close>

datatype file_state = F_closed "string option" | F_open string | F_recording string

fun current_file :: "file_state \<Rightarrow> string option" where
  "current_file (F_closed x) = x"
| "current_file (F_open f) = Some f"
| "current_file (F_recording f) = Some f"

fun log_step :: "file_state \<Rightarrow> rec_op \<Rightarrow> file_state option" where
  "log_step (F_closed x) (Avi_open f) = Some (F_open f)"
| "log_step (F_open f) (Avi_write fr key) = (if key then Some (F_recording f) else None)"
| "log_step (F_recording f) (Avi_write fr key) = Some (F_recording f)"
| "log_step (F_recording f) (Avi_close g) = (if f = g then Some (F_closed (Some f)) else None)"
| "log_step (F_closed x) (Renamed f g) = (if x = Some f then Some (F_closed None) else None)"
| "log_step s (Locked f g) = (if current_file s = Some f then None else Some s)"
| "log_step s op = None"

fun run_log :: "file_state \<Rightarrow> rec_op list \<Rightarrow> file_state option" where
  "run_log s [] = Some s"
| "run_log s (op # ops) = (case log_step s op of None \<Rightarrow> None | Some s' \<Rightarrow> run_log s' ops)"

definition chan_log :: "nat \<Rightarrow> (nat \<times> rec_op) list \<Rightarrow> rec_op list" where
  "chan_log i l = map snd (filter (\<lambda>p. fst p = i) l)"

lemma run_log_append: "run_log s (a @ b) = (case run_log s a of None \<Rightarrow> None | Some s' \<Rightarrow> run_log s' b)"
  by (induction a arbitrary: s) (auto split: option.splits)

lemma chan_log_append: "chan_log i (a @ b) = chan_log i a @ chan_log i b"
  by (simp add: chan_log_def)

lemma chan_log_tag: "chan_log i (map (Pair j) ops) = (if i = j then ops else [])"
  by (induction ops) (auto simp: chan_log_def)

definition is_recording_name :: "string \<Rightarrow> bool" where
  "is_recording_name f = (strstr f RECORDING_FILE_EXT \<noteq> None)"

definition chan_inv :: "hd_enc \<Rightarrow> rec_thread \<Rightarrow> rec_op list \<Rightarrow> bool" where
  "chan_inv h t l =
     (case hd_aviinfo h of
        None \<Rightarrow> (\<exists>x. run_log (F_closed None) l = Some (F_closed x) \<and> pred_option is_recording_name x)
      | Some fd \<Rightarrow> 0 < fd \<and> t_avi t = Some fd \<and> hd_filename h \<noteq> [] \<and> is_recording_name (hd_filename h) \<and> run_log (F_closed None) l = Some (F_recording (hd_filename h)))"

lemma chan_inv_cong:
  "hd_aviinfo h' = hd_aviinfo h \<Longrightarrow> hd_filename h' = hd_filename h \<Longrightarrow> t_avi t' = t_avi t \<Longrightarrow> chan_inv h' t' l = chan_inv h t l"
  by (simp add: chan_inv_def split: option.split)

lemma run_log_lock:
  assumes "\<forall>f \<in> set recent. current_file s \<noteq> Some f"
  shows "run_log s (lock_recent_file recent) = Some s"
  using assms by (induction recent) (auto simp: lock_recent_file_def)

lemma chan_inv_lock:
  assumes "chan_inv h t l" "\<forall>f \<in> set recent. strstr f RECORDING_FILE_EXT = None"
  shows "chan_inv h t (l @ lock_recent_file recent)"
proof -
  have "run_log s (lock_recent_file recent) = Some s" if "pred_option is_recording_name (current_file s)" for s
    using that assms(2) by (intro run_log_lock) (auto simp: is_recording_name_def)
  then show ?thesis using assms(1) by (auto simp: chan_inv_def run_log_append split: option.splits)
qed

lemma chan_inv_write: "chan_inv h t l \<Longrightarrow> hd_aviinfo h \<noteq> None \<Longrightarrow> chan_inv h t (l @ [Avi_write fr key])"
  by (auto simp: chan_inv_def run_log_append split: option.splits)

section \<open>File operations\<close>

lemma close_chan_inv:
  assumes i: "i < 4" "length hds = 4" and inv: "chan_inv (hds ! i) t l" and c: "close_record_file tz ren i0 hds (int i) = Some (r, hds', ops)"
  shows "\<exists>h'. hds' = hds[i := h'] \<and> chan_inv h' t (l @ ops) \<and> hd_aviinfo h' = None \<and>
    hd_channel h' = hd_channel (hds ! i) \<and> hd_threadexit h' = hd_threadexit (hds ! i)"
proof -
  let ?h = "hds ! i"
  have g: "get_hdch hds (int i) = Some ?h" using i by (simp add: get_hdch_def MAX_RECORD_CHANNEL_M_def)
  show ?thesis
  proof (cases "hd_aviinfo ?h")
    case None
    then have "hds' = hds \<and> ops = []" using c by (auto simp: close_record_file_def g split: if_splits)
    then show ?thesis using None inv by (intro exI [of _ ?h]) simp
  next
    case (Some fd)
    then have f: "hd_filename ?h \<noteq> []" "0 < fd" and l: "run_log (F_closed None) l = Some (F_recording (hd_filename ?h))"
      and rn: "is_recording_name (hd_filename ?h)"
      using inv by (simp_all add: chan_inv_def)
    obtain h' where "hds' = hds[i := h']" "hd_aviinfo h' = None" "hd_channel h' = hd_channel ?h" "hd_threadexit h' = hd_threadexit ?h"
        "ops = [Avi_close (hd_filename ?h)] \<or> (\<exists>g. ops = [Avi_close (hd_filename ?h), Renamed (hd_filename ?h) g])"
      using c Some f by (auto simp: close_record_file_def g Let_def closed_def split: option.splits if_splits prod.splits)
    moreover from this(5) have "\<exists>x. run_log (F_closed None) (l @ ops) = Some (F_closed x) \<and> pred_option is_recording_name x" using l rn by (auto simp: run_log_append)
    ultimately show ?thesis by (intro exI [of _ h']) (simp add: chan_inv_def)
  qed
qed

lemma strstr_suffix: "\<exists>p. strstr (a @ n) n = Some p"
proof (induction a)
  case Nil
  then show ?case by (cases n) (auto simp: strncmp_eq_def)
qed auto

lemma create_chan_inv:
  assumes c: "create_record_file tz now i0 mk va op h = Some (avi, h', ops)" and inv: "chan_inv h t l" "hd_aviinfo h = None"
    and pos: "\<And>f fd. op f = Some fd \<Longrightarrow> 0 < fd"
  shows "if avi = None then ops = [] \<and> chan_inv (h'\<lparr>hd_aviinfo := avi\<rparr>) (t\<lparr>t_avi := avi\<rparr>) l
    else chan_inv (h'\<lparr>hd_aviinfo := avi\<rparr>) (t\<lparr>t_avi := avi\<rparr>) (l @ ops @ [Avi_write fr True])"
proof -
  obtain name where m: "make_file_name tz now i0 h = Some name" using c by (cases "make_file_name tz now i0 h") (auto simp: create_record_file_def)
  have "name \<noteq> []" using m by (auto simp: make_file_name_def Let_def finfo2filename_def split: if_splits)
  define name1 where "name1 = (case strstr name IMG_FILE_EXT of Some p \<Rightarrow> take p name @ RECORDING_FILE_EXT | None \<Rightarrow> name)"
  obtain a where "name = a @ IMG_FILE_EXT"
    using m by (auto simp: make_file_name_def Let_def finfo2filename_def split: if_splits)
  then obtain p where "strstr name IMG_FILE_EXT = Some p" using strstr_suffix [of a IMG_FILE_EXT] by blast
  then have rn: "is_recording_name name1" using strstr_suffix [of "take p name" RECORDING_FILE_EXT]
    by (simp add: is_recording_name_def name1_def)
  have ne: "name1 \<noteq> []" using \<open>name \<noteq> []\<close> by (simp add: name1_def split: option.splits)
  have cases: "avi = None \<and> h' = h\<lparr>hd_filename := name1\<rparr> \<and> ops = [] \<or>
      (\<exists>fd. avi = Some fd \<and> 0 < fd \<and> h' = h\<lparr>hd_filename := name1\<rparr> \<and> ops = [Avi_open name1])"
    using c pos unfolding create_record_file_def m option.case name1_def [symmetric] Let_def
    by (auto split: if_splits option.splits)
  then show ?thesis using inv ne rn by (auto simp: chan_inv_def run_log_append)
qed

section \<open>The thread's parts\<close>

lemma record_top_inv:
  assumes i: "ch < 4" "length hds = 4" and inv: "chan_inv (hds ! ch) t l" and s: "record_top inp hds ch t = Some (hds', t', ops)"
    and recent: "\<forall>f \<in> set (i_recent inp). strstr f RECORDING_FILE_EXT = None"
  shows "\<exists>h'. hds' = hds[ch := h'] \<and> chan_inv h' t' (l @ ops)"
proof (cases "hd_threadexit (hds ! ch) = 0")
  case False
  then obtain r hds1 where c: "close_record_file (i_tz inp) (i_ren inp) (i_info inp) hds (int ch) = Some (r, hds1, ops)"
      and r: "hds' = hds1[ch := (hds1 ! ch)\<lparr>hd_thread_id := -1\<rparr>]" "t' = t\<lparr>t_pc := Pc_done\<rparr>"
    using s by (auto simp: record_top_def Let_def)
  obtain h1 where h1: "hds1 = hds[ch := h1]" "chan_inv h1 t (l @ ops)" using close_chan_inv [OF i inv c] by blast
  have "hds' = hds[ch := h1\<lparr>hd_thread_id := -1\<rparr>]" using r h1(1) i by simp
  moreover have "chan_inv (h1\<lparr>hd_thread_id := -1\<rparr>) t' (l @ ops)"
    using h1(2) chan_inv_cong [of "h1\<lparr>hd_thread_id := -1\<rparr>" h1 t' t] r(2) by simp
  ultimately show ?thesis by blast
next
  case True
  let ?h = "hds ! ch"
  consider (conn) pre where "hds' = hds[ch := ?h\<lparr>hd_pre_connect := pre\<rparr>]" "t_avi t' = t_avi t" "ops \<in> {[], lock_recent_file (i_recent inp)}"
    | (other) "hds' = hds" "t_avi t' = t_avi t" "ops \<in> {[], lock_recent_file (i_recent inp)}"
    using s True by (auto simp: record_top_def Let_def split: if_splits)
  then show ?thesis
  proof cases
    case conn
    then have "chan_inv (?h\<lparr>hd_pre_connect := pre\<rparr>) t' l" using inv chan_inv_cong [of "?h\<lparr>hd_pre_connect := pre\<rparr>" ?h t' t] by simp
    then show ?thesis using conn chan_inv_lock [OF _ recent] by auto
  next
    case other
    then have "chan_inv ?h t' l" "hds[ch := ?h] = hds" using inv chan_inv_cong [of ?h ?h t' t] by simp_all
    then show ?thesis using other chan_inv_lock [OF _ recent] by (metis append_Nil2 insertE singletonD)
  qed
qed

lemma record_read_inv:
  assumes inv: "chan_inv (hds ! ch) t l" and s: "record_read inp hds ch t = Some (hds', t', ops)"
  shows "\<exists>h'. hds' = hds[ch := h'] \<and> chan_inv h' t' (l @ ops)"
proof -
  obtain h' where "hds' = hds[ch := h']" "hd_aviinfo h' = hd_aviinfo (hds ! ch)" "hd_filename h' = hd_filename (hds ! ch)"
      "t_avi t' = t_avi t" "ops = []"
    using s by (auto simp: record_read_def Let_def split: option.splits if_splits prod.splits)
  then show ?thesis using inv chan_inv_cong [of h' "hds ! ch" t' t l] by auto
qed

lemma close_if_due_inv:
  assumes i: "ch < 4" "length hds = 4" and inv: "chan_inv (hds ! ch) t l" and s: "close_if_due inp hds ch t = Some (hds', ops)"
  shows "\<exists>h'. hds' = hds[ch := h'] \<and> chan_inv h' t (l @ ops)"
proof (cases "(hd_cutflag (hds ! ch) \<noteq> 0 \<or> t_state t \<noteq> t_newstate t \<and> t_state t \<noteq> 0) \<and> hd_aviinfo (hds ! ch) \<noteq> None")
  case True
  then obtain r where "close_record_file (i_tz inp) (i_ren inp) (i_info inp) hds (int ch) = Some (r, hds', ops)"
    using s by (auto simp: close_if_due_def)
  then show ?thesis using close_chan_inv [OF i inv] by blast
next
  case False
  then have "hds' = hds[ch := hds ! ch]" "ops = []" using s by (auto simp: close_if_due_def)
  then show ?thesis using inv by (intro exI [of _ "hds ! ch"]) simp
qed

lemma write_open_inv:
  assumes "chan_inv (hds ! ch) t l" "write_open hds ch t1 ops0 = Some (hds', t', ops)" "t_avi t1 = t_avi t" "l = l0 @ ops0"
  shows "hds' = hds \<and> chan_inv (hds ! ch) t' (l0 @ ops)"
proof -
  have t: "t' = t1\<lparr>t_pc := Pc_top\<rparr>" "hds' = hds" using assms(2) by (simp_all add: write_open_def)
  then have c: "chan_inv (hds ! ch) t' l" using assms(1,3) chan_inv_cong [of "hds ! ch" "hds ! ch" t' t l] by simp
  then show ?thesis using assms(2,4) chan_inv_write [OF c] t(2) by (auto simp: write_open_def split: if_splits)
qed

lemma record_process_inv:
  assumes i: "ch < 4" "length hds0 = 4" and inv: "chan_inv (hds0 ! ch) t0 l" and s: "record_process inp hds0 ch t0 = Some (hds', t', ops)"
    and pos: "\<And>f fd. i_avi_open inp f = Some fd \<Longrightarrow> 0 < fd"
  shows "\<exists>h'. hds' = hds0[ch := h'] \<and> chan_inv h' t' (l @ ops)"
proof -
  let ?w = "(hds0 ! ch)\<lparr>hd_watchcnt := 0\<rparr>"
  let ?hds1 = "hds0[ch := ?w]"
  have w: "chan_inv (?hds1 ! ch) t0 l" using inv i chan_inv_cong [of ?w "hds0 ! ch" t0 t0] by simp
  obtain hds ops0 where c: "close_if_due inp ?hds1 ch t0 = Some (hds, ops0)"
    using s by (cases "close_if_due inp ?hds1 ch t0") (auto simp: record_process_def Let_def)
  obtain h where h: "hds = hds0[ch := h]" "chan_inv h t0 (l @ ops0)" using close_if_due_inv [OF i(1) _ w c] i by auto
  have hc: "hds ! ch = h" using h(1) i by simp
  define t where "t = t0\<lparr>t_state := t_newstate t0\<rparr>"
  have T: "chan_inv h t1 (l @ ops0)" if "t_avi t1 = t_avi t0" for t1 using h(2) chan_inv_cong [of h h t1 t0] that by simp
  have wo: "\<exists>h'. hds' = hds0[ch := h'] \<and> chan_inv h' t' (l @ ops)" if "write_open hds ch t1 ops0 = Some (hds', t', ops)" "t_avi t1 = t_avi t0" for t1
    using write_open_inv [OF _ that(1), of t1 "l @ ops0" l] T [OF that(2)] hc h(1) by auto
  note S = s [unfolded record_process_def Let_def c option.case prod.case hc t_def [symmetric]]
  have ta: "t_avi t = t_avi t0" by (simp add: t_def)
  show ?thesis
  proof (cases "t_key t \<and> hd_threadexit h = 0 \<and> t_newstate t \<noteq> 0")
    case False
    then show ?thesis using S wo [of t] wo [of "t\<lparr>t_conn := False, t_end_last := i_now inp, t_old_seq := -1, t_new_seq := -1\<rparr>"] ta
      by (simp split: if_splits)
  next
    case K: True
    show ?thesis
    proof (cases "hd_aviinfo h")
      case (Some fd)
      then have "hds' = hds0[ch := h]" "t' = t\<lparr>t_pc := Pc_top\<rparr>" "ops = ops0 @ [Avi_write (t_frame t) (t_key t)]" using S K h(1) by auto
      then show ?thesis using chan_inv_write [OF T, of t' "t_frame t" "t_key t"] Some ta by auto
    next
      case None
      show ?thesis
      proof (cases "i_free inp < i_minval inp")
        case True
        then have "hds' = hds0[ch := h\<lparr>hd_threadexit := 1\<rparr>]" "t' = t\<lparr>t_pc := Pc_top\<rparr>" "ops = ops0" using S K None h(1) by auto
        then show ?thesis using T [of t'] chan_inv_cong [of "h\<lparr>hd_threadexit := 1\<rparr>" h t' t'] ta by auto
      next
        case False
        then obtain avi h' ops1 where cr: "create_record_file (i_tz inp) (i_now inp) (i_info inp) (i_mkdirs inp) (i_attrib inp) (i_avi_open inp) h = Some (avi, h', ops1)"
          using S K None by (auto split: option.splits)
        have "hds' = hds0[ch := h'\<lparr>hd_aviinfo := avi\<rparr>] \<and> t_avi t' = avi \<and> ops = ops0 @ ops1 @ (if avi = None then [] else [Avi_write (t_frame t) True])"
          using S K None False h(1) by (auto simp: cr split: if_splits)
        moreover have "if avi = None then ops1 = [] \<and> chan_inv (h'\<lparr>hd_aviinfo := avi\<rparr>) (t\<lparr>t_avi := avi\<rparr>) (l @ ops0)
            else chan_inv (h'\<lparr>hd_aviinfo := avi\<rparr>) (t\<lparr>t_avi := avi\<rparr>) ((l @ ops0) @ ops1 @ [Avi_write (t_frame t) True])"
          using pos by (intro create_chan_inv [OF cr T [OF ta] None]) blast
        ultimately show ?thesis
          using chan_inv_cong [of "h'\<lparr>hd_aviinfo := avi\<rparr>" "h'\<lparr>hd_aviinfo := avi\<rparr>" t' "t\<lparr>t_avi := avi\<rparr>"]
          by (auto split: if_splits)
      qed
    qed
  qed
qed

lemma record_begin_frame:
  assumes "record_begin inp hds ch t = Some (hds', t', ops)"
  shows "\<exists>h'. hds' = hds[ch := h'] \<and> (h' = hds ! ch \<or> h' = (hds ! ch)\<lparr>hd_thread_id := -1\<rparr>) \<and> t_avi t' = t_avi t \<and> ops = []"
proof (cases "i_disknum inp \<noteq> 0 \<and> \<not> i_framebuf inp")
  case True
  then show ?thesis using assms by (auto simp: record_begin_def)
next
  case False
  then show ?thesis using assms by (intro exI [of _ "hds ! ch"]) (auto simp: record_begin_def split: if_splits)
qed

lemma record_step_inv:
  assumes "ch < 4" "length hds = 4" "chan_inv (hds ! ch) t l" "record_step inp hds ch t = Some (hds', t', ops)"
    and "\<And>f fd. i_avi_open inp f = Some fd \<Longrightarrow> 0 < fd" "\<forall>f \<in> set (i_recent inp). strstr f RECORDING_FILE_EXT = None"
  shows "\<exists>h'. hds' = hds[ch := h'] \<and> chan_inv h' t' (l @ ops)"
proof (cases "t_pc t")
  case Pc_begin
  then obtain h' where "hds' = hds[ch := h']" "hd_aviinfo h' = hd_aviinfo (hds ! ch)" "hd_filename h' = hd_filename (hds ! ch)" "t_avi t' = t_avi t" "ops = []"
    using assms(4) record_begin_frame [of inp hds ch t hds' t' ops] by (auto simp: record_step_def)
  then show ?thesis using assms(3) chan_inv_cong [of h' "hds ! ch" t' t l] by auto
next
  case Pc_done
  then have "hds' = hds[ch := hds ! ch]" "t' = t" "ops = []" using assms(4) by (simp_all add: record_step_def)
  then show ?thesis using assms(3) by (intro exI [of _ "hds ! ch"]) simp
qed (use assms record_top_inv record_read_inv record_process_inv in \<open>auto simp: record_step_def\<close>)

section \<open>The whole recorder\<close>

text \<open>A channel whose thread has ended or has not begun has no open file.\<close>

definition thread_inv :: "hd_enc \<Rightarrow> rec_thread \<Rightarrow> bool" where
  "thread_inv h t = (t_pc t \<in> {Pc_begin, Pc_done} \<longrightarrow> hd_aviinfo h = None)"

definition closes :: "hd_enc \<Rightarrow> hd_enc \<Rightarrow> bool" where
  "closes h h' = (hd_aviinfo h' = hd_aviinfo h \<or> hd_aviinfo h' = None)"

lemma closes_refl: "closes h h"
  by (simp add: closes_def)

lemma closes_trans: "closes a b \<Longrightarrow> closes b c \<Longrightarrow> closes a c"
  by (auto simp: closes_def)

lemma thread_inv_closes: "thread_inv h t \<Longrightarrow> closes h h' \<Longrightarrow> thread_inv h' t"
  by (auto simp: thread_inv_def closes_def)

lemma close_closes:
  assumes "i < 4" "length hds = 4" "close_record_file tz ren i0 hds (int i) = Some (r, hds', ops)"
  shows "\<exists>h'. hds' = hds[i := h'] \<and> closes (hds ! i) h'"
proof -
  have g: "get_hdch hds (int i) = Some (hds ! i)" using assms(1,2) by (simp add: get_hdch_def MAX_RECORD_CHANNEL_M_def)
  have id: "\<exists>h'. hds = hds[i := h'] \<and> closes (hds ! i) h'" by (intro exI [of _ "hds ! i"]) (simp add: closes_refl)
  show ?thesis using assms(3) id
    by (auto simp: close_record_file_def g Let_def closed_def closes_def split: option.splits if_splits prod.splits)
qed

definition recorder_inv :: "recorder \<Rightarrow> bool" where
  "recorder_inv s = (length (r_hds s) = 4 \<and>
     (\<forall>i < 4. chan_inv (r_hds s ! i) (r_threads s i) (chan_log i (r_log s)) \<and> thread_inv (r_hds s ! i) (r_threads s i)))"

text \<open>The clock closes files.\<close>

lemma state_tick_inv: "chan_inv h t l \<Longrightarrow> chan_inv (state_tick h) t l"
  using chan_inv_cong [of "state_tick h" h t t l] state_tick_keeps [of h] by simp

lemma second_ch_inv:
  assumes i: "i < 4" "length hds = 4" and inv: "chan_inv (hds ! i) t l" and s: "second_ch tz ren i0 vattr hds i = Some (hds', ops)"
  shows "\<exists>h'. hds' = hds[i := h'] \<and> chan_inv h' t (l @ ops)"
proof -
  obtain hds1 where v: "video_watch tz ren i0 vattr hds i = Some (hds1, ops)" "hds' = hds1[i := state_tick (hds1 ! i)]"
    using s by (auto simp: second_ch_def)
  have w: "chan_inv ((hds ! i)\<lparr>hd_watchcnt := w\<rparr>) t l" for w
    using inv chan_inv_cong [of "(hds ! i)\<lparr>hd_watchcnt := w\<rparr>" "hds ! i" t t] by simp
  let ?h1 = "(hds ! i)\<lparr>hd_watchcnt := hd_watchcnt (hds ! i) + 1\<rparr>"
  consider (fin) r where "close_record_file tz ren i0 (hds[i := ?h1]) (int i) = Some (r, hds1, ops)" | (keep) h where "hds1 = hds[i := h]" "ops = []"
      "chan_inv h t l"
    | (same) "hds1 = hds" "ops = []"
    using v(1) w inv by (auto simp: video_watch_def Let_def split: if_splits)
  then obtain h where "hds1 = hds[i := h]" "chan_inv h t (l @ ops)"
  proof cases
    case fin
    then show ?thesis using close_chan_inv [of i "hds[i := ?h1]" t l] i w that by fastforce
  next
    case keep
    then show ?thesis using that by simp
  next
    case same
    then show ?thesis using that [of "hds ! i"] inv by simp
  qed
  then show ?thesis using v(2) i state_tick_inv by (intro exI [of _ "state_tick h"]) simp
qed

lemma second_from_inv:
  assumes "length hds = 4" "\<forall>i \<in> set is. i < 4" "\<forall>i < 4. chan_inv (hds ! i) (ts i) (l i)" "second_from tz ren i0 vattr is hds = Some (hds', ops)"
  shows "length hds' = 4 \<and> (\<forall>i < 4. chan_inv (hds' ! i) (ts i) (l i @ chan_log i ops))"
  using assms
proof (induction "is" arbitrary: hds l ops)
  case Nil
  then show ?case by (simp add: chan_log_def)
next
  case (Cons j "is")
  obtain hds1 ops1 where 1: "second_ch tz ren i0 vattr hds j = Some (hds1, ops1)"
    using Cons.prems(4) by (auto split: option.splits)
  obtain h where h: "hds1 = hds[j := h]" "chan_inv h (ts j) (l j @ ops1)" using second_ch_inv [OF _ Cons.prems(1) _ 1] Cons.prems(2,3) by fastforce
  obtain ops2 where 2: "second_from tz ren i0 vattr is hds1 = Some (hds', ops2)" "ops = map (Pair j) ops1 @ ops2"
    using Cons.prems(4) 1 by auto
  let ?l = "l(j := l j @ ops1)"
  have "\<forall>i < 4. chan_inv (hds1 ! i) (ts i) (?l i)" using h Cons.prems(1,3) by (auto simp: nth_list_update)
  then have "length hds' = 4 \<and> (\<forall>i < 4. chan_inv (hds' ! i) (ts i) (?l i @ chan_log i ops2))"
    using Cons.IH [of hds1 ?l ops2] Cons.prems(1,2) h(1) 2(1) by simp
  moreover have "?l i @ chan_log i ops2 = l i @ chan_log i ops" for i by (simp add: 2(2) chan_log_append chan_log_tag)
  ultimately show ?case by simp
qed

lemma state_tick_closes: "closes h (state_tick h)"
  by (simp add: closes_def state_tick_def alarm_tick_def remote_tick_def file_tick_def Let_def)

lemma second_ch_closes:
  assumes i: "i < 4" "length hds = 4" and s: "second_ch tz ren i0 vattr hds i = Some (hds', ops)"
  shows "\<exists>h'. hds' = hds[i := h'] \<and> closes (hds ! i) h'"
proof -
  obtain hds1 where v: "video_watch tz ren i0 vattr hds i = Some (hds1, ops)" "hds' = hds1[i := state_tick (hds1 ! i)]"
    using s by (auto simp: second_ch_def)
  let ?h1 = "(hds ! i)\<lparr>hd_watchcnt := hd_watchcnt (hds ! i) + 1\<rparr>"
  have w: "closes (hds ! i) ((hds ! i)\<lparr>hd_watchcnt := n\<rparr>)" for n by (simp add: closes_def)
  consider (fin) r where "close_record_file tz ren i0 (hds[i := ?h1]) (int i) = Some (r, hds1, ops)" | (keep) h where "hds1 = hds[i := h]" "closes (hds ! i) h"
    | (same) "hds1 = hds"
    using v(1) w by (auto simp: video_watch_def Let_def split: if_splits)
  then obtain h where "hds1 = hds[i := h]" "closes (hds ! i) h"
  proof cases
    case fin
    then obtain h' where "hds1 = (hds[i := ?h1])[i := h']" "closes ?h1 h'" using close_closes [OF i(1) _ fin] i(2) i(1) by auto
    then show ?thesis using that [of h'] closes_trans [OF w] by simp
  qed (use that [of "hds ! i"] that closes_refl in auto)
  then show ?thesis using v(2) i closes_trans [OF _ state_tick_closes] by (intro exI [of _ "state_tick h"]) simp
qed

lemma second_from_closes:
  "length hds = 4 \<Longrightarrow> \<forall>i \<in> set is. i < 4 \<Longrightarrow> second_from tz ren i0 vattr is hds = Some (hds', ops) \<Longrightarrow> \<forall>i < 4. closes (hds ! i) (hds' ! i)"
proof (induction "is" arbitrary: hds ops)
  case (Cons j "is")
  obtain hds1 ops1 where 1: "second_ch tz ren i0 vattr hds j = Some (hds1, ops1)" using Cons.prems(3) by (auto split: option.splits)
  then obtain ops2 where 2: "second_from tz ren i0 vattr is hds1 = Some (hds', ops2)" using Cons.prems(3) by auto
  obtain h where h: "hds1 = hds[j := h]" "closes (hds ! j) h" using second_ch_closes [OF _ Cons.prems(1) 1] Cons.prems(2) by auto
  have "\<forall>i < 4. closes (hds1 ! i) (hds' ! i)" using Cons.IH [OF _ _ 2] Cons.prems h(1) by simp
  moreover have "closes (hds ! i) (hds1 ! i)" if "i < 4" for i using h that Cons.prems(1) closes_refl by (cases "i = j") simp_all
  ultimately show ?case using closes_trans by blast
qed (simp add: closes_refl)

text \<open>The thread and its control.\<close>

lemma process_top: "record_process inp hds ch t = Some (hds', t', ops) \<Longrightarrow> t_pc t' = Pc_top"
  by (auto simp: record_process_def write_open_def Let_def split: if_splits option.splits prod.splits)

lemma record_step_thread:
  assumes i: "ch < 4" "length hds = 4" and inv: "thread_inv (hds ! ch) t" and ci: "chan_inv (hds ! ch) t l"
    and s: "record_step inp hds ch t = Some (hds', t', ops)"
  shows "thread_inv (hds' ! ch) t'"
proof (cases "t_pc t")
  case Pc_begin
  then show ?thesis using s inv i by (auto simp: record_step_def record_begin_def thread_inv_def split: if_splits)
next
  case Pc_top
  show ?thesis
  proof (cases "hd_threadexit (hds ! ch) = 0")
    case True
    then show ?thesis using s Pc_top i by (auto simp: record_step_def record_top_def Let_def thread_inv_def split: if_splits)
  next
    case False
    then obtain r hds1 where c: "close_record_file (i_tz inp) (i_ren inp) (i_info inp) hds (int ch) = Some (r, hds1, ops)"
        "hds' = hds1[ch := (hds1 ! ch)\<lparr>hd_thread_id := -1\<rparr>]" "t' = t\<lparr>t_pc := Pc_done\<rparr>"
      using s Pc_top by (auto simp: record_step_def record_top_def Let_def)
    then show ?thesis using close_chan_inv [OF i ci c(1)] i by (auto simp: thread_inv_def)
  qed
next
  case Pc_read
  then show ?thesis using s inv i by (auto simp: record_step_def record_read_def Let_def thread_inv_def split: option.splits prod.splits if_splits)
next
  case Pc_process
  then show ?thesis using process_top s by (simp add: record_step_def thread_inv_def)
next
  case Pc_done
  then show ?thesis using s inv by (simp add: record_step_def)
qed

lemma cleanup_inv:
  assumes i: "ch < 4" "length hds = 4" and ci: "chan_inv (hds ! ch) t l"
    and s: "record_file_thread_cleanup tz ren i0 hds ch t = Some (hds', t', ops)"
  shows "\<exists>h'. hds' = hds[ch := h'] \<and> chan_inv h' t' (l @ ops) \<and> thread_inv h' t' \<and> hd_thread_id h' = -1 \<and> hd_aviinfo h' = None"
proof -
  obtain r hds1 where c: "close_record_file tz ren i0 hds (int ch) = Some (r, hds1, ops)"
      "hds' = hds1[ch := (hds1 ! ch)\<lparr>hd_watchcnt := 0, hd_thread_id := -1\<rparr>]" "t' = t\<lparr>t_pc := Pc_done, t_cancel := False\<rparr>"
    using s by (auto simp: record_file_thread_cleanup_def)
  obtain h1 where h1: "hds1 = hds[ch := h1]" "chan_inv h1 t (l @ ops)" "hd_aviinfo h1 = None" using close_chan_inv [OF i ci c(1)] by blast
  let ?h2 = "h1\<lparr>hd_watchcnt := 0, hd_thread_id := -1\<rparr>"
  have "hds' = hds[ch := ?h2]" using c(2) h1(1) i by simp
  moreover have "chan_inv ?h2 t' (l @ ops)" using h1(2) chan_inv_cong [of ?h2 h1 t' t] c(3) by simp
  ultimately show ?thesis using h1(3) by (intro exI [of _ ?h2]) (simp add: thread_inv_def)
qed

lemma ctl_step_inv:
  assumes i: "ch < 4" "length hds = 4" and ci: "chan_inv (hds ! ch) t l" and inv: "thread_inv (hds ! ch) t"
    and ended: "\<And>tid. c = Start tid \<Longrightarrow> hd_thread_id (hds ! ch) \<le> 0 \<Longrightarrow> t_pc t = Pc_done"
    and s: "ctl_step tz ren i0 c hds ch t = Some (hds', t', ops)"
  shows "\<exists>h'. hds' = hds[ch := h'] \<and> chan_inv h' t' (l @ ops) \<and> thread_inv h' t'"
proof (cases c)
  case Stop_begin
  then show ?thesis using s ci inv chan_inv_cong [of "stop_begin (hds ! ch)" "hds ! ch" t t l]
    by (auto simp: ctl_step_def stop_begin_def thread_inv_def)
next
  case (Stop_end cancelled)
  show ?thesis
  proof (cases "hd_thread_id (hds ! ch) \<le> 0")
    case True
    then show ?thesis using s Stop_end ci inv by (intro exI [of _ "hds ! ch"]) (simp add: ctl_step_def stop_end_def)
  next
    case False
    then obtain r hds1 where c: "close_record_file tz ren i0 hds (int ch) = Some (r, hds1, ops)"
        "(hds', t') = (if cancelled then (hds1[ch := (hds1 ! ch)\<lparr>hd_thread_id := -1\<rparr>], t\<lparr>t_cancel := True\<rparr>) else (hds1, t))"
      using s Stop_end by (auto simp: ctl_step_def stop_end_def split: if_splits)
    obtain h1 where h1: "hds1 = hds[ch := h1]" "chan_inv h1 t (l @ ops)" "hd_aviinfo h1 = None" using close_chan_inv [OF i ci c(1)] by blast
    let ?h2 = "if cancelled then h1\<lparr>hd_thread_id := -1\<rparr> else h1"
    have "hds' = hds[ch := ?h2]" "t_avi t' = t_avi t" using c(2) h1(1) i by (auto split: if_splits)
    moreover from this have "chan_inv ?h2 t' (l @ ops)" using h1(2) chan_inv_cong [of ?h2 h1 t' t] by simp
    ultimately show ?thesis using h1(3) by (intro exI [of _ ?h2]) (simp add: thread_inv_def)
  qed
next
  case Clear_exit
  then show ?thesis using s ci inv chan_inv_cong [of "(hds ! ch)\<lparr>hd_threadexit := 0\<rparr>" "hds ! ch" t t l]
    by (auto simp: ctl_step_def thread_inv_def)
next
  case (Start tid)
  show ?thesis
  proof (cases "hd_thread_id (hds ! ch) > 0")
    case True
    then show ?thesis using s Start ci inv by (intro exI [of _ "hds ! ch"]) (simp add: ctl_step_def start_recordfilethread_def)
  next
    case False
    then have n: "hd_aviinfo (hds ! ch) = None" "t_pc t = Pc_done" using inv ended [OF Start] by (simp_all add: thread_inv_def)
    then show ?thesis using s Start False ci
      by (cases tid) (auto simp: ctl_step_def start_recordfilethread_def Let_def chan_inv_def thread_inv_def thread_start_def)
  qed
qed

lemma rec_step_inv: "rec_step P s s' \<Longrightarrow> recorder_inv s \<Longrightarrow> recorder_inv s'"
proof (induction rule: rec_step.induct)
  case (command c ini num s hds')
  then have f: "same_file (r_hds s) hds'" using command_same_file by (simp add: recorder_inv_def)
  have "chan_inv (hds' ! i) (r_threads s i) (chan_log i (r_log s)) \<and> thread_inv (hds' ! i) (r_threads s i)" if "i < 4" for i
  proof -
    have "chan_inv (hds' ! i) (r_threads s i) (chan_log i (r_log s)) = chan_inv (r_hds s ! i) (r_threads s i) (chan_log i (r_log s))"
      by (rule chan_inv_cong) (use f command.prems that in \<open>simp_all add: recorder_inv_def same_file_def\<close>)
    moreover have "closes (r_hds s ! i) (hds' ! i)" using f command.prems that by (simp add: recorder_inv_def same_file_def closes_def)
    ultimately show ?thesis using command.prems that thread_inv_closes by (auto simp: recorder_inv_def)
  qed
  then show ?case using command.prems f by (simp add: recorder_inv_def same_file_def)
next
  case (second tz ren i0 aattr vattr s hds' ops)
  let ?a = "map (audio_watch aattr) (r_hds s)"
  have "chan_inv (audio_watch aattr h) t l = chan_inv h t l" for h t l by (rule chan_inv_cong) (simp_all add: audio_watch_def)
  then have "\<forall>i < 4. chan_inv (?a ! i) (r_threads s i) (chan_log i (r_log s))" and l: "length ?a = 4"
    using second.prems by (simp_all add: recorder_inv_def)
  moreover have f: "second_from tz ren i0 vattr [0..<4] ?a = Some (hds', ops)"
    using second.hyps by (simp add: hd_second_proc_def MAX_RECORD_CHANNEL_M_def)
  ultimately have c: "length hds' = 4 \<and> (\<forall>i < 4. chan_inv (hds' ! i) (r_threads s i) (chan_log i (r_log s) @ chan_log i ops))"
    using second_from_inv [of ?a "[0..<4]" "r_threads s" "\<lambda>i. chan_log i (r_log s)"] by simp
  have "thread_inv (hds' ! i) (r_threads s i)" if "i < 4" for i
  proof -
    have "closes (r_hds s ! i) (?a ! i)" using l that by (simp add: closes_def audio_watch_def)
    then have "closes (r_hds s ! i) (hds' ! i)" using second_from_closes [OF l _ f] that closes_trans by auto
    then show ?thesis using second.prems that thread_inv_closes by (auto simp: recorder_inv_def)
  qed
  then show ?case using c by (simp add: recorder_inv_def chan_log_append)
next
  case (thread ch inp s hds' t' ops)
  then have c: "ch < 4" "length (r_hds s) = 4" "chan_inv (r_hds s ! ch) (r_threads s ch) (chan_log ch (r_log s))"
    and t: "thread_inv (r_hds s ! ch) (r_threads s ch)"
    by (simp_all add: recorder_inv_def MAX_RECORD_CHANNEL_M_def)
  obtain h' where h: "hds' = (r_hds s)[ch := h']" "chan_inv h' t' (chan_log ch (r_log s) @ ops)"
    using record_step_inv [OF c thread.hyps(4)] thread.hyps(2,3) by blast
  moreover have "thread_inv h' t'" using record_step_thread [OF c(1,2) t c(3) thread.hyps(4)] h(1) c by simp
  ultimately show ?case using thread.prems c by (auto simp: recorder_inv_def chan_log_append chan_log_tag nth_list_update)
next
  case (cancelled ch s tz ren i0 hds' t' ops)
  then have k: "ch < 4" "length (r_hds s) = 4" "chan_inv (r_hds s ! ch) (r_threads s ch) (chan_log ch (r_log s))"
    by (simp_all add: recorder_inv_def MAX_RECORD_CHANNEL_M_def)
  obtain h' where "hds' = (r_hds s)[ch := h']" "chan_inv h' t' (chan_log ch (r_log s) @ ops)" "thread_inv h' t'"
    using cleanup_inv [OF k cancelled.hyps(4)] by blast
  then show ?case using cancelled.prems k by (auto simp: recorder_inv_def chan_log_append chan_log_tag nth_list_update)
next
  case (control ch c s tz ren i0 hds' t' ops)
  then have k: "ch < 4" "length (r_hds s) = 4" "chan_inv (r_hds s ! ch) (r_threads s ch) (chan_log ch (r_log s))"
    "thread_inv (r_hds s ! ch) (r_threads s ch)"
    by (simp_all add: recorder_inv_def MAX_RECORD_CHANNEL_M_def)
  obtain h' where "hds' = (r_hds s)[ch := h']" "chan_inv h' t' (chan_log ch (r_log s) @ ops)" "thread_inv h' t'"
    using ctl_step_inv [OF k _ control.hyps(3)] control.hyps(2) by blast
  then show ?case using control.prems k by (auto simp: recorder_inv_def chan_log_append chan_log_tag nth_list_update)
qed

lemma rec_reach_inv: "rec_reach P s s' \<Longrightarrow> recorder_inv s \<Longrightarrow> recorder_inv s'"
  by (induction rule: rec_reach.induct) (simp_all add: rec_step_inv)

section \<open>The control of the channels\<close>

lemma close_same_ctl:
  assumes "i < 4" "length hds = 4" "close_record_file tz ren i0 hds (int i) = Some (r, hds', ops)"
  shows "\<exists>h'. hds' = hds[i := h'] \<and> same_ctl (hds ! i) h'"
proof -
  have g: "get_hdch hds (int i) = Some (hds ! i)" using assms(1,2) by (simp add: get_hdch_def MAX_RECORD_CHANNEL_M_def)
  have id: "\<exists>h'. hds = hds[i := h'] \<and> same_ctl (hds ! i) h'" by (intro exI [of _ "hds ! i"]) (simp add: same_ctl_def)
  show ?thesis using assms(3) id
    by (auto simp: close_record_file_def g Let_def closed_def same_ctl_def split: option.splits if_splits prod.splits)
qed

lemma table_inv_ctl:
  assumes "table_inv hds" "i < 4" "same_ctl (hds ! i) h'"
  shows "table_inv (hds[i := h'])"
proof -
  have "rec_inv (hds ! i) \<and> params_ok (hds ! i)" using assms(1,2) by (simp add: table_inv_def list_all_iff)
  then have "rec_inv h' \<and> params_ok h'" using same_ctl_inv [OF assms(3)] by simp
  then show ?thesis using assms(1) by (auto simp: table_inv_def list_all_iff dest!: set_update_subset_insert [THEN subsetD])
qed

lemma second_ch_table:
  assumes t: "table_inv hds" and i: "i < 4" and s: "second_ch tz ren i0 vattr hds i = Some (hds', ops)"
  shows "table_inv hds'"
proof -
  have l: "length hds = 4" using t by (simp add: table_inv_def)
  obtain hds1 where v: "video_watch tz ren i0 vattr hds i = Some (hds1, ops)" "hds' = hds1[i := state_tick (hds1 ! i)]"
    using s by (auto simp: second_ch_def)
  let ?h1 = "(hds ! i)\<lparr>hd_watchcnt := hd_watchcnt (hds ! i) + 1\<rparr>"
  have w: "table_inv (hds[i := (hds ! i)\<lparr>hd_watchcnt := n\<rparr>])" for n
    by (rule table_inv_ctl [OF t i]) (simp add: same_ctl_def)
  consider (fin) r where "close_record_file tz ren i0 (hds[i := ?h1]) (int i) = Some (r, hds1, ops)" | (keep) "table_inv hds1"
    using v(1) w t by (auto simp: video_watch_def Let_def split: if_splits)
  then have t1: "table_inv hds1"
  proof cases
    case fin
    then obtain h' where "hds1 = (hds[i := ?h1])[i := h']" "same_ctl (hds[i := ?h1] ! i) h'" using close_same_ctl [OF i _ fin] l by auto
    then show ?thesis using table_inv_ctl [OF w i] by blast
  qed
  then have "rec_inv (hds1 ! i)" "params_ok (hds1 ! i)" using i by (simp_all add: table_inv_def list_all_iff)
  then have "rec_inv (state_tick (hds1 ! i)) \<and> params_ok (state_tick (hds1 ! i))" using state_tick_spec by blast
  then show ?thesis using t1 v(2) by (auto simp: table_inv_def list_all_iff dest!: set_update_subset_insert [THEN subsetD])
qed

lemma second_from_table:
  "table_inv hds \<Longrightarrow> \<forall>i \<in> set is. i < 4 \<Longrightarrow> second_from tz ren i0 vattr is hds = Some (hds', ops) \<Longrightarrow> table_inv hds'"
proof (induction "is" arbitrary: hds ops)
  case (Cons j "is")
  obtain hds1 ops1 where 1: "second_ch tz ren i0 vattr hds j = Some (hds1, ops1)" using Cons.prems(3) by (auto split: option.splits)
  then obtain ops2 where 2: "second_from tz ren i0 vattr is hds1 = Some (hds', ops2)" using Cons.prems(3) by auto
  have "table_inv hds1" using second_ch_table [OF Cons.prems(1) _ 1] Cons.prems(2) by simp
  then show ?case using Cons.IH [OF _ _ 2] Cons.prems(2) by simp
qed simp

lemma hd_second_proc_table:
  assumes "table_inv hds" "hd_second_proc tz ren i0 aattr vattr hds = Some (hds', ops)"
  shows "table_inv hds'"
proof -
  have "rec_inv (audio_watch aattr h) = rec_inv h \<and> params_ok (audio_watch aattr h) = params_ok h" for h
    using same_ctl_inv [of h "audio_watch aattr h"] by (simp add: same_ctl_def audio_watch_def)
  then have "table_inv (map (audio_watch aattr) hds)" using assms(1) by (simp add: table_inv_def list_all_iff)
  then show ?thesis using second_from_table [of "map (audio_watch aattr) hds" "[0..<4]"] assms(2)
    by (simp add: hd_second_proc_def MAX_RECORD_CHANNEL_M_def)
qed

lemma record_step_ctl:
  assumes i: "ch < 4" "length hds = 4" and s: "record_step inp hds ch t = Some (hds', t', ops)"
  shows "\<exists>h'. hds' = hds[ch := h'] \<and> same_ctl (hds ! ch) h'"
proof (cases "t_pc t")
  case Pc_begin
  then show ?thesis using s record_begin_frame [of inp hds ch t hds' t' ops] by (auto simp: record_step_def same_ctl_def)
next
  case Pc_top
  have id: "\<exists>h'. hds = hds[ch := h'] \<and> same_ctl (hds ! ch) h'" by (intro exI [of _ "hds ! ch"]) (simp add: same_ctl_def)
  show ?thesis
  proof (cases "hd_threadexit (hds ! ch) = 0")
    case True
    then show ?thesis using s Pc_top id by (auto simp: record_step_def record_top_def Let_def same_ctl_def split: if_splits)
  next
    case False
    then obtain r hds1 where c: "close_record_file (i_tz inp) (i_ren inp) (i_info inp) hds (int ch) = Some (r, hds1, ops)"
        "hds' = hds1[ch := (hds1 ! ch)\<lparr>hd_thread_id := -1\<rparr>]"
      using s Pc_top by (auto simp: record_step_def record_top_def Let_def)
    obtain h' where "hds1 = hds[ch := h']" "same_ctl (hds ! ch) h'" using close_same_ctl [OF i c(1)] by blast
    then show ?thesis using c(2) i by (intro exI [of _ "h'\<lparr>hd_thread_id := -1\<rparr>"]) (simp add: same_ctl_def)
  qed
next
  case Pc_read
  then show ?thesis using s by (auto simp: record_step_def record_read_def Let_def same_ctl_def split: option.splits prod.splits)
next
  case Pc_process
  let ?hds1 = "hds[ch := (hds ! ch)\<lparr>hd_watchcnt := 0\<rparr>]"
  have S: "record_process inp hds ch t = Some (hds', t', ops)" using s Pc_process by (simp add: record_step_def)
  obtain hds2 ops0 where c: "close_if_due inp ?hds1 ch t = Some (hds2, ops0)"
    using S by (cases "close_if_due inp ?hds1 ch t") (auto simp: record_process_def Let_def)
  obtain h where h: "hds2 = hds[ch := h]" "same_ctl (hds ! ch) h"
  proof (cases "hds2 = ?hds1")
    case True
    then show ?thesis using that [of "(hds ! ch)\<lparr>hd_watchcnt := 0\<rparr>"] by (simp add: same_ctl_def)
  next
    case False
    then obtain r where r: "close_record_file (i_tz inp) (i_ren inp) (i_info inp) ?hds1 (int ch) = Some (r, hds2, ops0)"
      using c by (auto simp: close_if_due_def split: if_splits)
    obtain h' where "hds2 = ?hds1[ch := h']" "same_ctl (?hds1 ! ch) h'" using close_same_ctl [OF i(1) _ r] i(2) by auto
    then show ?thesis using that [of h'] i by (simp add: same_ctl_def)
  qed
  have hc: "hds2 ! ch = h" using h(1) i by simp
  have cr: "same_ctl h (h'\<lparr>hd_aviinfo := a\<rparr>)" if "create_record_file tz now i0 mk va op h = Some (avi, h', ops1)" for tz now i0 mk va op avi h' ops1 a
    using that by (auto simp: create_record_file_def Let_def same_ctl_def split: option.splits if_splits)
  have tr: "same_ctl h h' \<Longrightarrow> same_ctl (hds ! ch) h'" for h' using h(2) by (simp add: same_ctl_def)
  have "\<exists>h'. hds' = hds[ch := h'] \<and> same_ctl h h'"
    using S h(1) cr unfolding record_process_def Let_def c option.case prod.case hc write_open_def
    by (auto simp: same_ctl_def split: if_splits option.splits prod.splits)
  then show ?thesis using tr by blast
next
  case Pc_done
  then show ?thesis using s by (intro exI [of _ "hds ! ch"]) (simp add: record_step_def same_ctl_def)
qed

lemma cleanup_ctl:
  assumes i: "ch < 4" "length hds = 4" and s: "record_file_thread_cleanup tz ren i0 hds ch t = Some (hds', t', ops)"
  shows "\<exists>h'. hds' = hds[ch := h'] \<and> same_ctl (hds ! ch) h'"
proof -
  obtain r hds1 where c: "close_record_file tz ren i0 hds (int ch) = Some (r, hds1, ops)"
      "hds' = hds1[ch := (hds1 ! ch)\<lparr>hd_watchcnt := 0, hd_thread_id := -1\<rparr>]"
    using s by (auto simp: record_file_thread_cleanup_def)
  obtain h' where "hds1 = hds[ch := h']" "same_ctl (hds ! ch) h'" using close_same_ctl [OF i c(1)] by blast
  then show ?thesis using c(2) i by (intro exI [of _ "h'\<lparr>hd_watchcnt := 0, hd_thread_id := -1\<rparr>"]) (simp add: same_ctl_def)
qed

lemma ctl_step_ctl:
  assumes i: "ch < 4" "length hds = 4" and s: "ctl_step tz ren i0 c hds ch t = Some (hds', t', ops)"
  shows "\<exists>h'. hds' = hds[ch := h'] \<and> same_ctl (hds ! ch) h'"
proof (cases c)
  case (Stop_end cancelled)
  show ?thesis
  proof (cases "hd_thread_id (hds ! ch) \<le> 0")
    case True
    then show ?thesis using s Stop_end by (intro exI [of _ "hds ! ch"]) (simp add: ctl_step_def stop_end_def same_ctl_def)
  next
    case False
    then obtain r hds1 where c: "close_record_file tz ren i0 hds (int ch) = Some (r, hds1, ops)"
        "hds' = (if cancelled then hds1[ch := (hds1 ! ch)\<lparr>hd_thread_id := -1\<rparr>] else hds1)"
      using s Stop_end by (cases cancelled) (auto simp: ctl_step_def stop_end_def)
    obtain h' where h: "hds1 = hds[ch := h']" "same_ctl (hds ! ch) h'" using close_same_ctl [OF i c(1)] by blast
    have "hds' = hds[ch := if cancelled then h'\<lparr>hd_thread_id := -1\<rparr> else h']" using c(2) h(1) i by simp
    then show ?thesis using h(2) by (auto simp: same_ctl_def)
  qed
next
  case Stop_begin
  then show ?thesis using s by (intro exI [of _ "stop_begin (hds ! ch)"]) (auto simp: ctl_step_def stop_begin_def same_ctl_def)
next
  case Clear_exit
  then show ?thesis using s by (auto simp: ctl_step_def same_ctl_def)
next
  case (Start tid)
  then show ?thesis using s
    by (intro exI [of _ "fst (snd (start_recordfilethread tid (hds ! ch) t))"])
      (auto simp: ctl_step_def start_recordfilethread_def same_ctl_def Let_def split: option.splits if_splits)
qed

lemma rec_step_table: "rec_step cmd_ok s s' \<Longrightarrow> table_inv (r_hds s) \<Longrightarrow> table_inv (r_hds s')"
proof (induction rule: rec_step.induct)
  case (command c ini num s hds')
  then show ?case using command_inv [of "r_hds s" c ini num] by auto
next
  case (second tz ren i0 aattr vattr s hds' ops)
  then show ?case using hd_second_proc_table by auto
next
  case (thread ch inp s hds' t' ops)
  then obtain h' where "hds' = (r_hds s)[ch := h']" "same_ctl (r_hds s ! ch) h'" "ch < 4"
    using record_step_ctl [OF _ _ thread.hyps(4)] by (auto simp: table_inv_def MAX_RECORD_CHANNEL_M_def)
  then show ?case using table_inv_ctl thread.prems by simp
next
  case (cancelled ch s tz ren i0 hds' t' ops)
  then obtain h' where "hds' = (r_hds s)[ch := h']" "same_ctl (r_hds s ! ch) h'" "ch < 4"
    using cleanup_ctl [OF _ _ cancelled.hyps(4)] by (auto simp: table_inv_def MAX_RECORD_CHANNEL_M_def)
  then show ?case using table_inv_ctl cancelled.prems by simp
next
  case (control ch c s tz ren i0 hds' t' ops)
  then obtain h' where "hds' = (r_hds s)[ch := h']" "same_ctl (r_hds s ! ch) h'" "ch < 4"
    using ctl_step_ctl [OF _ _ control.hyps(3)] by (auto simp: table_inv_def MAX_RECORD_CHANNEL_M_def)
  then show ?case using table_inv_ctl control.prems by simp
qed

section \<open>Properties\<close>

text \<open>
  C9. What a recorder writes are whole recordings. From a state with four channels and no open file, whatever commands come,
  however the encoders and the disk behave, in whatever order the clock and the four threads
  run and however often these threads are started, asked to end and cancelled, the effects on the files of each channel form a sequence of
  files that are opened one after the other, begin with a key frame, get frames only while they are open, are closed under
  the name they were opened with, and get their final name at most once, after they are closed and before the next is opened; the locking of recent
  files renames only other files, neither the open one nor the one that waits for its final name; and the channel's descriptor says
  whether a file is open, the one the thread writes to. Two things are taken as given: the file index returns only names
  without \<open>.ING\<close> when it is asked for finished files, and a cancelled thread has run its cleanup handler when the
  channel's next thread starts (\<open>late_cleanup_closes_file\<close> shows what happens otherwise).
\<close>

theorem recordings_whole:
  assumes run: "rec_reach P s0 s" and start: "length (r_hds s0) = 4" "\<forall>i < 4. hd_aviinfo (r_hds s0 ! i) = None" "r_log s0 = []"
    and ch: "ch < 4"
  shows "case hd_aviinfo (r_hds s ! ch) of
      None \<Rightarrow> (\<exists>x. run_log (F_closed None) (chan_log ch (r_log s)) = Some (F_closed x))
    | Some fd \<Rightarrow> t_avi (r_threads s ch) = Some fd \<and>
        run_log (F_closed None) (chan_log ch (r_log s)) = Some (F_recording (hd_filename (r_hds s ! ch)))"
proof -
  have "recorder_inv s0" using start by (simp add: recorder_inv_def chan_inv_def chan_log_def thread_inv_def)
  then have "recorder_inv s" by (rule rec_reach_inv [OF run])
  then show ?thesis using ch by (auto simp: recorder_inv_def chan_inv_def split: option.splits)
qed

definition sample_recorder :: recorder where
  "sample_recorder = \<lparr>r_hds = sample_table, r_threads = (\<lambda>_. (thread_start False)\<lparr>t_pc := Pc_top\<rparr>), r_log = []\<rparr>"

definition sample_input :: rec_input where
  "sample_input = \<lparr>i_frame = Some (7, True, True, 1), i_now = 86400, i_free = 1000, i_minval = 250, i_disknum = 1, i_framebuf = True,
     i_recent = [''/a.AVI''], i_attrib = True, i_tz = 28800,
     i_info = sample_finfo, i_mkdirs = \<lambda>_. 0, i_avi_open = \<lambda>_. Some 5, i_ren = \<lambda>_ _ _. 0\<rparr>"

lemma sample_connected:
  "\<exists>s. rec_reach P sample_recorder s \<and> t_pc (r_threads s 1) = Pc_read \<and> chan_log 1 (r_log s) = [Locked ''/a.AVI'' ''/a@.AVI''] \<and>
     hd_aviinfo (r_hds s ! 1) = None"
proof -
  let ?h = "sample_table ! 1" and ?l = "[Locked ''/a.AVI'' ''/a@.AVI'']"
  let ?t = "(thread_start False)\<lparr>t_newstate := 2, t_state := 2, t_conn := True, t_pc := Pc_read\<rparr>"
  let ?s = "sample_recorder\<lparr>r_hds := sample_table[1 := ?h\<lparr>hd_pre_connect := 0\<rparr>], r_threads := (r_threads sample_recorder)(1 := ?t),
    r_log := r_log sample_recorder @ map (Pair 1) ?l\<rparr>"
  have h: "hd_threadexit ?h = 0" "hd_state ?h = 2" "hd_rec_type ?h = 0" "hd_aviinfo ?h = None"
    by (simp_all add: sample_table_def sample_hd_def)
  have "lock_recent_file (i_recent sample_input) = ?l"
    by (simp add: lock_recent_file_def sample_input_def hdutil_lock_filename_def strncmp_eq_def)
  then have "record_step sample_input (r_hds sample_recorder) 1 (r_threads sample_recorder 1) = Some (sample_table[1 := ?h\<lparr>hd_pre_connect := 0\<rparr>], ?t, ?l)"
    using h by (simp add: record_step_def record_top_def sample_recorder_def thread_start_def Let_def)
  then have "rec_step P sample_recorder ?s"
    by (intro rec_step.thread) (simp_all add: MAX_RECORD_CHANNEL_M_def sample_input_def strncmp_eq_def)
  then have "rec_reach P sample_recorder ?s" using rec_reach.intros by blast
  moreover have "length sample_table = 4" by (simp add: sample_table_def)
  ultimately show ?thesis using h(4) by (intro exI [of _ ?s]) (simp add: sample_recorder_def chan_log_def)
qed

lemma sample_recorder_start: "length (r_hds sample_recorder) = 4" "\<forall>i < 4. hd_aviinfo (r_hds sample_recorder ! i) = None" "r_log sample_recorder = []"
proof -
  have "hd_aviinfo (r_hds sample_recorder ! i) = None" if "i < 4" for i
  proof -
    have "i = 0 \<or> i = 1 \<or> i = 2 \<or> i = 3" using that by linarith
    then show ?thesis by (elim disjE) (simp_all add: sample_recorder_def sample_table_def sample_hd_def)
  qed
  then show "\<forall>i < 4. hd_aviinfo (r_hds sample_recorder ! i) = None" by simp
qed (simp_all add: sample_recorder_def sample_table_def)

theorem recordings_whole_witness:
  "\<exists>s x. rec_reach (\<lambda>_. True) sample_recorder s \<and> chan_log 1 (r_log s) = [Locked ''/a.AVI'' ''/a@.AVI''] \<and>
     run_log (F_closed None) (chan_log 1 (r_log s)) = Some (F_closed x)"
proof -
  obtain s where s: "rec_reach (\<lambda>_. True) sample_recorder s" "chan_log 1 (r_log s) = [Locked ''/a.AVI'' ''/a@.AVI'']" "hd_aviinfo (r_hds s ! 1) = None"
    using sample_connected by blast
  then show ?thesis using recordings_whole [OF s(1) sample_recorder_start, of 1] by auto
qed

text \<open>
  C10. The state of a channel always fits its counters. From a table that satisfies the invariant, any commands but
  \<open>MAIN_REFRESH_PARA\<close>, with lengths below 2^30 seconds and for existing channels, the clock and the threads lead to tables that satisfy it
  (\<open>MAIN_REFRESH_PARA\<close> reads a new mode and leaves the state as it is, \<open>refresh_breaks_invariant\<close>): neither counter is
  negative, a manual recording is marked exactly while its counter runs, trigger bits and manual recordings come with
  state 2, a channel with a running counter is not idle, and one with both counters at 0 is in the idle
  state of its configuration.
\<close>

theorem channel_state_fits:
  assumes "rec_reach cmd_ok s0 s" "table_inv (r_hds s0)"
  shows "length (r_hds s) = 4 \<and> (\<forall>i < 4. rec_inv (r_hds s ! i) \<and> params_ok (r_hds s ! i))"
proof -
  have "table_inv (r_hds s)" using assms by (induction rule: rec_reach.induct) (simp_all add: rec_step_table)
  then show ?thesis by (simp add: table_inv_def list_all_iff)
qed

theorem channel_state_fits_witness:
  "\<exists>s. rec_reach cmd_ok sample_recorder s \<and> t_pc (r_threads s 1) = Pc_read \<and> (\<forall>i < 4. rec_inv (r_hds s ! i))"
proof -
  obtain s where s: "rec_reach cmd_ok sample_recorder s" "t_pc (r_threads s 1) = Pc_read" using sample_connected by blast
  have "table_inv (r_hds sample_recorder)" using sample_table_inv by (simp add: sample_recorder_def)
  then show ?thesis using channel_state_fits [OF s(1)] s by blast
qed

section \<open>Cancelling late\<close>

text \<open>
  The cleanup handler does not know whose file is open: run by a cancelled thread when the next one has already begun, it
  closes that thread's file and marks the channel as one without a thread, so that a third thread can be started.
\<close>

lemma late_cleanup_closes_file:
  assumes "ch < 4" "length hds = 4" "chan_inv (hds ! ch) new l" "hd_aviinfo (hds ! ch) \<noteq> None"
    "record_file_thread_cleanup tz ren i0 hds ch old = Some (hds', old', ops)"
  shows "hd_aviinfo (hds' ! ch) = None \<and> hd_thread_id (hds' ! ch) = -1 \<and> Avi_close (hd_filename (hds ! ch)) \<in> set ops \<and>
    (\<exists>h' t'. start_recordfilethread (Some i) (hds' ! ch) new = (0, h', t') \<and> t_pc t' = Pc_begin)"
proof -
  obtain fd where fd: "hd_aviinfo (hds ! ch) = Some fd" "0 < fd" "hd_filename (hds ! ch) \<noteq> []"
    using assms(3,4) by (auto simp: chan_inv_def split: option.splits)
  have g: "get_hdch hds (int ch) = Some (hds ! ch)" using assms(1,2) by (simp add: get_hdch_def MAX_RECORD_CHANNEL_M_def)
  obtain r hds1 where c: "close_record_file tz ren i0 hds (int ch) = Some (r, hds1, ops)"
      "hds' = hds1[ch := (hds1 ! ch)\<lparr>hd_watchcnt := 0, hd_thread_id := -1\<rparr>]"
    using assms(5) by (auto simp: record_file_thread_cleanup_def)
  obtain h1 where h1: "hds1 = hds[ch := h1]" "hd_aviinfo h1 = None" using close_chan_inv [OF assms(1-3) c(1)] by blast
  have "Avi_close (hd_filename (hds ! ch)) \<in> set ops"
    using c(1) fd by (auto simp: close_record_file_def g Let_def split: option.splits if_splits prod.splits)
  then show ?thesis using c(2) h1 assms(1,2) by (simp add: start_recordfilethread_def thread_start_def Let_def)
qed

text \<open>A thread that finds no disk returns and leaves its id behind: no other is started in its place.\<close>

lemma no_disk_keeps_id:
  assumes "i_disknum inp = 0" "t_pc t = Pc_begin" "0 < hd_thread_id (hds ! ch)"
  shows "\<exists>t'. record_step inp hds ch t = Some (hds, t', []) \<and> t_pc t' = Pc_done \<and>
    start_recordfilethread tid (hds ! ch) t' = (0, hds ! ch, t')"
  using assms by (simp add: record_step_def record_begin_def start_recordfilethread_def)

section \<open>Frames that are repeated or lost\<close>

text \<open>After the first I frame, a read that fails lets the previous frame be processed, and written, once more.\<close>

lemma failed_read_repeats_frame:
  assumes "\<not> t_first t" "i_frame inp = None"
  shows "\<exists>hds'. record_read inp hds ch t = Some (hds', t\<lparr>t_pc := Pc_process\<rparr>, [])"
  using assms by (simp add: record_read_def Let_def)

text \<open>A cut that falls on a frame that is not a key frame closes the file and drops the frame.\<close>

lemma cut_drops_plain_frame:
  assumes i: "ch < 4" "length hds = 4" and inv: "chan_inv (hds ! ch) t l" and cut: "hd_cutflag (hds ! ch) \<noteq> 0" "hd_aviinfo (hds ! ch) \<noteq> None" "\<not> t_key t"
    and s: "record_process inp hds ch t = Some (hds', t', ops)"
  shows "hd_aviinfo (hds' ! ch) = None \<and> Avi_write (t_frame t) (t_key t) \<notin> set ops"
proof -
  let ?w = "(hds ! ch)\<lparr>hd_watchcnt := 0\<rparr>"
  let ?hds1 = "hds[ch := ?w]"
  have w: "chan_inv (?hds1 ! ch) t l" using inv i chan_inv_cong [of ?w "hds ! ch" t t] by simp
  obtain hds2 ops0 where c: "close_if_due inp ?hds1 ch t = Some (hds2, ops0)"
    using s by (cases "close_if_due inp ?hds1 ch t") (auto simp: record_process_def Let_def)
  then obtain r where r: "close_record_file (i_tz inp) (i_ren inp) (i_info inp) ?hds1 (int ch) = Some (r, hds2, ops0)"
    using cut i by (auto simp: close_if_due_def)
  have g: "get_hdch ?hds1 (int ch) = Some ?w" using i by (simp add: get_hdch_def MAX_RECORD_CHANNEL_M_def)
  obtain h' where h: "hds2 = ?hds1[ch := h']" "hd_aviinfo h' = None" using close_chan_inv [OF i(1) _ w r] i(2) by auto
  have "Avi_write (t_frame t) (t_key t) \<notin> set ops0"
    using r unfolding close_record_file_def g by (auto simp: Let_def split: option.splits if_splits prod.splits)
  moreover have "hds' = hds2 \<and> ops = ops0"
    using s cut(3) h i unfolding record_process_def Let_def c option.case prod.case by (simp add: write_open_def split: if_splits)
  ultimately show ?thesis using h i by simp
qed

end
