(* ===== verification/Common_Lib.thy ===== *)
theory Common_Lib
  imports C_Time "HOL-Library.Word"
begin

text \<open>
  The shared routines of \<open>src/libsrc/common/commonlib.c\<close> that carry logic: binary-coded decimals, counting lines, whole-buffer reads
  and writes on a descriptor, hexadecimal numbers, percentages, and the debouncing of video states.
\<close>

unbundle bit_operations_syntax

section \<open>Binary-coded decimals\<close>

definition bcdtobin :: "8 word \<Rightarrow> 8 word" where
  "bcdtobin hex = drop_bit 4 hex * 10 + (hex AND 0xf)"

definition bintobcd :: "8 word \<Rightarrow> 8 word" where
  "bintobcd bin = bin div 10 * 16 + bin mod 10"

lemma bcd_round_trip: "b < 100 \<Longrightarrow> bcdtobin (bintobcd b) = b"
proof -
  have "\<forall>n \<in> set [0..<100]. bcdtobin (bintobcd (word_of_nat n)) = word_of_nat n" by code_simp
  moreover assume "b < 100"
  then have "unat b \<in> set [0..<100]" by (simp add: word_less_nat_alt)
  ultimately show ?thesis by fastforce
qed

section \<open>Lines of a file\<close>

text \<open>Lines that contain "grep" are not counted; a line of more than 255 characters counts once per piece.\<close>

function count_lines :: "string \<Rightarrow> int" where
  "count_lines s =
     (case fgets 256 s of None \<Rightarrow> 0
      | Some (l, r) \<Rightarrow> (if strstr (as_cstr l) ''grep'' = None then 1 else 0) + count_lines r)"
  by pat_completeness auto
termination
proof (relation "measure length")
  fix s p l r
  assume "fgets 256 s = Some p" "(l, r) = p"
  then show "(r, s) \<in> measure length"
    by (cases s) (auto simp: fgets_def Let_def split: option.splits)
qed simp

declare count_lines.simps [simp del]

definition get_file_lines :: "files \<Rightarrow> string \<Rightarrow> int option" where
  "get_file_lines fs name = map_option count_lines (fs name)"

section \<open>Whole buffers\<close>

text \<open>
  What the successive system calls on a descriptor do: \<open>Chunk k\<close> moves at most \<open>k\<close> bytes (and no more than asked for), \<open>Interrupted\<close> fails with
  \<open>EINTR\<close>, \<open>Failed e\<close> with another error number, \<open>Closed\<close> is the end of the stream. The loops are \<open>None\<close> when the
  calls run out: the function has not returned.
\<close>

datatype io = Chunk nat | Interrupted | Failed int | Closed

fun fd_read_loop :: "io list \<Rightarrow> nat \<Rightarrow> string \<Rightarrow> string \<Rightarrow> (int \<times> string \<times> string) option" where
  "fd_read_loop calls left rp inc =
     (if left = 0 then Some (int (length rp), rp, inc)
      else case calls of [] \<Rightarrow> None
      | Chunk k # cs \<Rightarrow>
          let d = take (min k left) inc
          in if d = [] then Some (0, rp, inc) else fd_read_loop cs (left - length d) (rp @ d) (drop (min k left) inc)
      | Interrupted # cs \<Rightarrow> fd_read_loop cs left rp inc
      | Failed e # cs \<Rightarrow> Some (- e, rp, inc)
      | Closed # cs \<Rightarrow> Some (0, rp, inc))"

declare fd_read_loop.simps [simp del]

definition fd_read_buf :: "io list \<Rightarrow> int \<Rightarrow> string \<Rightarrow> (int \<times> string \<times> string) option" where
  "fd_read_buf calls len inc = fd_read_loop calls (nat len) [] inc"

text \<open>
  \<open>writted\<close> is what the last \<open>write\<close> returned, uninitialised at first; the bytes sent so far are \<open>out\<close>. A \<open>write\<close> that
  returns 0 (\<open>Chunk 0\<close>) is taken for an error, with the error number of an earlier call: \<open>None\<close>.
\<close>

fun fd_write_loop :: "io list \<Rightarrow> string \<Rightarrow> int \<Rightarrow> string \<Rightarrow> (int \<times> string) option" where
  "fd_write_loop calls wp writted out =
     (if wp = [] then Some (writted, out)
      else case calls of [] \<Rightarrow> None
      | Chunk k # cs \<Rightarrow>
          if k = 0 then None
          else let n = min k (length wp) in fd_write_loop cs (drop n wp) (int n) (out @ take n wp)
      | Interrupted # cs \<Rightarrow> fd_write_loop cs wp 0 out
      | Failed e # cs \<Rightarrow> Some (- e, out)
      | Closed # cs \<Rightarrow> Some (- 32, out))"

declare fd_write_loop.simps [simp del]

definition fd_write_buf :: "io list \<Rightarrow> int \<Rightarrow> string \<Rightarrow> (int \<times> string) option" where
  "fd_write_buf calls uninit buf = fd_write_loop calls buf uninit []"

text \<open>Calls that move bytes or are interrupted, and how much they move together.\<close>

fun moving :: "io list \<Rightarrow> bool" where
  "moving [] = True"
| "moving (Chunk k # cs) = (0 < k \<and> moving cs)"
| "moving (Interrupted # cs) = moving cs"
| "moving (_ # cs) = False"

fun moved :: "io list \<Rightarrow> nat" where
  "moved [] = 0"
| "moved (Chunk k # cs) = k + moved cs"
| "moved (_ # cs) = moved cs"

lemma fd_read_loop_stream:
  "moving calls \<Longrightarrow> left \<le> moved calls \<Longrightarrow> left \<le> length inc \<Longrightarrow>
   fd_read_loop calls left rp inc = Some (int (length rp + left), rp @ take left inc, drop left inc)"
proof (induction calls arbitrary: left rp inc)
  case Nil
  then show ?case by (simp add: fd_read_loop.simps)
next
  case (Cons c cs)
  show ?case
  proof (cases "left = 0")
    case True
    then show ?thesis by (simp add: fd_read_loop.simps)
  next
    case False
    show ?thesis
    proof (cases c)
      case (Chunk k)
      let ?n = "min k left"
      have n: "0 < ?n" "?n \<le> length inc" "length (take ?n inc) = ?n" "take ?n inc \<noteq> []" using Cons.prems Chunk False by auto
      have "fd_read_loop cs (left - ?n) (rp @ take ?n inc) (drop ?n inc) =
          Some (int (length (rp @ take ?n inc) + (left - ?n)), (rp @ take ?n inc) @ take (left - ?n) (drop ?n inc), drop (left - ?n) (drop ?n inc))"
        using Cons.prems Chunk n by (intro Cons.IH) auto
      moreover have "take ?n inc @ take (left - ?n) (drop ?n inc) = take left inc" by (metis le_add_diff_inverse min.cobounded2 take_add)
      ultimately show ?thesis using Chunk False n by (subst fd_read_loop.simps) (simp add: Let_def)
    next
      case Interrupted
      then show ?thesis using Cons False by (simp add: fd_read_loop.simps [of "Interrupted # cs"])
    qed (use Cons.prems in simp_all)
  qed
qed

text \<open>How much the last of the calls that are needed moves.\<close>

fun last_chunk :: "io list \<Rightarrow> nat \<Rightarrow> int \<Rightarrow> int" where
  "last_chunk [] left w = w"
| "last_chunk (Chunk k # cs) left w = (if left = 0 then w else last_chunk cs (left - k) (int (min k left)))"
| "last_chunk (c # cs) left w = (if left = 0 then w else last_chunk cs left 0)"

lemma fd_write_loop_stream:
  "moving calls \<Longrightarrow> length wp \<le> moved calls \<Longrightarrow>
   fd_write_loop calls wp w out = Some (last_chunk calls (length wp) w, out @ wp)"
proof (induction calls arbitrary: wp w out)
  case Nil
  then show ?case by (simp add: fd_write_loop.simps)
next
  case (Cons c cs)
  show ?case
  proof (cases "wp = []")
    case True
    then show ?thesis by (cases c) (simp_all add: fd_write_loop.simps)
  next
    case False
    show ?thesis
    proof (cases c)
      case (Chunk k)
      let ?n = "min k (length wp)"
      have "fd_write_loop cs (drop ?n wp) (int ?n) (out @ take ?n wp) = Some (last_chunk cs (length (drop ?n wp)) (int ?n), (out @ take ?n wp) @ drop ?n wp)"
        using Cons.prems Chunk by (intro Cons.IH) auto
      moreover have "length (drop ?n wp) = length wp - k" by simp
      ultimately show ?thesis using Chunk False Cons.prems(1) by (subst fd_write_loop.simps) (simp add: Let_def)
    next
      case Interrupted
      then show ?thesis using Cons False by (simp add: fd_write_loop.simps [of "Interrupted # cs"])
    qed (use Cons.prems in simp_all)
  qed
qed

section \<open>Numbers\<close>

text \<open>
  \<open>atohex\<close> copies twelve bytes and reads the last eight characters behind the last \<open>x\<close>; \<open>None\<close> when they have no terminator. A
  character that is no digit counts its distance from \<open>A\<close> and ten, whatever it is.
\<close>

definition hex_digit_of :: "char \<Rightarrow> 32 word" where
  "hex_digit_of c =
     (let u = (if 97 \<le> (of_char c :: nat) \<and> (of_char c :: nat) \<le> 122 then of_char c - 32 else of_char c :: int)
      in if 48 \<le> u \<and> u \<le> 57 then word_of_int (u - 48) else word_of_int (u - 65 + 10))"

fun hex_or :: "nat \<Rightarrow> string \<Rightarrow> 32 word" where
  "hex_or i [] = 0"
| "hex_or i (c # cs) = push_bit (4 * i) (hex_digit_of c) OR hex_or (Suc i) cs"

definition atohex :: "string \<Rightarrow> 32 word option" where
  "atohex b =
     (if NUL \<notin> set (take 12 b) then None
      else let s = as_cstr (take 12 b);
               p = (case strrchr s (CHR ''x'') of Some i \<Rightarrow> drop (i + 1) s
                    | None \<Rightarrow> (case strrchr s (CHR ''X'') of Some i \<Rightarrow> drop (i + 1) s | None \<Rightarrow> s));
               q = drop (length p - 8) p
           in Some (hex_or 0 (rev q)))"

record gt_time_struct =
  gt_year :: "16 word"
  gt_month :: "8 word"
  gt_day :: "8 word"
  gt_hour :: "8 word"
  gt_minute :: "8 word"
  gt_second :: "8 word"

definition gttime2tm :: "gt_time_struct \<Rightarrow> tm" where
  "gttime2tm g = \<lparr>tm_sec = uint (gt_second g), tm_min = uint (gt_minute g), tm_hour = uint (gt_hour g), tm_mday = uint (gt_day g),
     tm_mon = uint (gt_month g) - 1, tm_year = uint (gt_year g) - 1900\<rparr>"

definition get_percent :: "int \<Rightarrow> int \<Rightarrow> int \<Rightarrow> int" where
  "get_percent mn mx val = (let total = mx - mn + 1 in if total \<le> 0 then 50 else (val - mn) * 100 sdiv total)"

definition get_value :: "int \<Rightarrow> int \<Rightarrow> int \<Rightarrow> int" where
  "get_value mn mx percent =
     (let total = mx - mn in
      if total \<le> 0 then 50
      else let p0 = (if percent < 0 then 0 else percent); p = (if p0 > 100 then 50 else p0)
           in (p * total) sdiv 100 + mn)"

text \<open>A value computed from a percentage stays in its range.\<close>

lemma get_value_range: "mn < mx \<Longrightarrow> mn \<le> get_value mn mx p \<and> get_value mn mx p \<le> mx"
proof -
  assume r: "mn < mx"
  define q where "q = (let p0 = (if p < 0 then 0 else p) in if p0 > 100 then 50 else p0)"
  have q: "0 \<le> q" "q \<le> 100" by (auto simp: q_def Let_def)
  have v: "get_value mn mx p = q * (mx - mn) div 100 + mn"
    using r q(1) by (simp add: get_value_def Let_def q_def sdiv_nonneg)
  have "q * (mx - mn) \<le> 100 * (mx - mn)" using q(2) r by (intro mult_right_mono) auto
  then have "q * (mx - mn) div 100 \<le> mx - mn" using zdiv_mono1 [of "q * (mx - mn)" "100 * (mx - mn)" 100] by simp
  moreover have "0 \<le> q * (mx - mn) div 100" using q(1) r by (simp add: pos_imp_zdiv_nonneg_iff)
  ultimately show ?thesis using v by simp
qed

text \<open>The two conversions count the range differently: the largest value of 0 to 255 is 99 percent.\<close>

lemma percent_of_largest: "get_percent 0 255 (get_value 0 255 100) = 99"
  by code_simp

section \<open>Debouncing\<close>

record vstate_t =
  old_value :: "32 word"
  old_result :: "32 word"
  valid_stable_time :: "int list"
  invalid_stable_time :: "int list"

text \<open>The body of the loop for bit \<open>i\<close>, on the result and the two arrays.\<close>

definition delay_bit :: "32 word \<Rightarrow> 32 word \<Rightarrow> int \<Rightarrow> int \<Rightarrow> nat \<Rightarrow> 32 word \<times> int list \<times> int list \<Rightarrow> 32 word \<times> int list \<times> int list" where
  "delay_bit newstate oldvalue v w i st =
     (case st of (result, vt, it) \<Rightarrow>
        let newbit = (drop_bit i newstate) AND 1; oldbit = (drop_bit i oldvalue) AND 1 in
        if newbit = oldbit then
          if newbit = 1 then
            if vt ! i < v then
              let vt' = vt[i := vt ! i + 1] in (if vt' ! i = v then result OR push_bit i 1 else result, vt', it)
            else (result, vt, it)
          else
            if it ! i < w then
              let it' = it[i := it ! i + 1] in (if it' ! i = w then result AND NOT (push_bit i 1) else result, vt, it')
            else (result, vt, it)
        else
          let vt' = vt[i := 0]; it' = it[i := 0] in
          if newbit = 1 then (if v = 0 then result OR push_bit i 1 else result, vt', it')
          else (if w = 0 then result AND NOT (push_bit i 1) else result, vt', it'))"

definition delay_on_vstate :: "nat \<Rightarrow> 32 word \<Rightarrow> int \<Rightarrow> int \<Rightarrow> vstate_t \<Rightarrow> 32 word \<times> vstate_t" where
  "delay_on_vstate n newstate v w st =
     (case fold (delay_bit newstate (old_value st) v w) [0..<n] (old_result st, valid_stable_time st, invalid_stable_time st) of
        (result, vt, it) \<Rightarrow>
          (result, \<lparr>old_value = newstate, old_result = result, valid_stable_time = vt, invalid_stable_time = it\<rparr>))"

text \<open>One bit alone: its output and its two counters.\<close>

definition bit_delay :: "int \<Rightarrow> int \<Rightarrow> bool \<Rightarrow> bool \<Rightarrow> bool \<times> int \<times> int \<Rightarrow> bool \<times> int \<times> int" where
  "bit_delay v w nb ob st =
     (case st of (out, vt, it) \<Rightarrow>
        if nb = ob then
          if nb then (if vt < v then (out \<or> vt + 1 = v, vt + 1, it) else (out, vt, it))
          else (if it < w then (out \<and> it + 1 \<noteq> w, vt, it + 1) else (out, vt, it))
        else if nb then (out \<or> v = 0, 0, 0) else (out \<and> w \<noteq> 0, 0, 0))"

definition bit_view :: "nat \<Rightarrow> 32 word \<times> int list \<times> int list \<Rightarrow> bool \<times> int \<times> int" where
  "bit_view j st = (case st of (r, vt, it) \<Rightarrow> (bit r j, vt ! j, it ! j))"

definition arrays_ok :: "32 word \<times> int list \<times> int list \<Rightarrow> bool" where
  "arrays_ok st = (case st of (r, vt, it) \<Rightarrow> length vt = 10 \<and> length it = 10)"

lemma bit_extract: "(drop_bit i x AND 1 = drop_bit i y AND 1) = (bit x i = bit y i)" "(drop_bit i x AND 1 = 1) = bit x i" for x y :: "32 word"
  by (simp_all add: and_one_eq bit_iff_odd_drop_bit [symmetric] mod_2_eq_odd)

lemma delay_bit_view:
  assumes "i < 10" "j < 10" "arrays_ok st"
  shows "arrays_ok (delay_bit new old v w i st) \<and>
    bit_view j (delay_bit new old v w i st) = (if j = i then bit_delay v w (bit new i) (bit old i) (bit_view i st) else bit_view j st)"
proof -
  obtain r vt it where st: "st = (r, vt, it)" by (cases st)
  have b: "bit (r OR 2 ^ i) k = (bit r k \<or> k = i)" "bit (r AND NOT (2 ^ i)) k = (bit r k \<and> k \<noteq> i)" if "k < 10" for k
    using assms(1) that by (auto simp: bit_simps)
  show ?thesis using assms unfolding st delay_bit_def prod.case Let_def bit_extract
    by (simp add: bit_view_def arrays_ok_def bit_delay_def b)
qed

lemma delay_loop_view:
  assumes "arrays_ok st" "n \<le> 10" "j < 10"
  shows "arrays_ok (fold (delay_bit new old v w) [0..<n] st) \<and>
    bit_view j (fold (delay_bit new old v w) [0..<n] st) = (if j < n then bit_delay v w (bit new j) (bit old j) (bit_view j st) else bit_view j st)"
  using assms(2)
proof (induction n)
  case 0
  then show ?case using assms by simp
next
  case (Suc n)
  then show ?case using delay_bit_view [of n j "fold (delay_bit new old v w) [0..<n] st" new old v w] assms(3) by auto
qed

text \<open>The specification of one bit, on its samples, the newest first.\<close>

fun debounce :: "nat \<Rightarrow> nat \<Rightarrow> bool list \<Rightarrow> bool" where
  "debounce v w [] = False"
| "debounce v w (x # xs) =
     (if v < length (takeWhile (\<lambda>b. b) (x # xs)) then True
      else if w < length (takeWhile (\<lambda>b. \<not> b) (x # xs)) then False
      else debounce v w xs)"

definition bit_inv :: "nat \<Rightarrow> nat \<Rightarrow> bool list \<Rightarrow> bool \<Rightarrow> bool \<times> int \<times> int \<Rightarrow> bool" where
  "bit_inv v w xs ob st =
     (case st of (out, vt, it) \<Rightarrow>
        ob = (xs \<noteq> [] \<and> hd xs) \<and> out = debounce v w xs \<and>
        (if ob then vt = min (int v) (int (length (takeWhile (\<lambda>b. b) xs)) - 1)
         else True \<in> set xs \<longrightarrow> it = min (int w) (int (length (takeWhile (\<lambda>b. \<not> b) xs)) - 1)))"

lemma debounce_zeros: "True \<notin> set xs \<Longrightarrow> \<not> debounce v w xs"
  by (induction xs) auto

lemma debounce_ones: "v < length (takeWhile (\<lambda>b. b) xs) \<Longrightarrow> debounce v w xs"
  by (cases xs) auto

lemma debounce_off: "w < length (takeWhile (\<lambda>b. \<not> b) xs) \<Longrightarrow> \<not> debounce v w xs"
  by (cases xs) auto

lemma bit_inv_step:
  assumes inv: "bit_inv v w xs ob st"
  shows "bit_inv v w (x # xs) x (bit_delay (int v) (int w) x ob st)"
proof -
  obtain out vt it where st: "st = (out, vt, it)" by (cases st)
  note I = inv [unfolded st bit_inv_def prod.case]
  let ?o = "length (takeWhile (\<lambda>b. b) xs)" and ?z = "length (takeWhile (\<lambda>b. \<not> b) xs)"
  consider (oo) "x" "ob" | (oz) "x" "\<not> ob" | (zo) "\<not> x" "ob" | (zz) "\<not> x" "\<not> ob" by blast
  then show ?thesis
  proof cases
    case oo
    then have "0 < ?o" "vt = min (int v) (int ?o - 1)" "out = debounce v w xs" using I by (cases xs; simp)+
    then show ?thesis using oo debounce_ones [of v xs w] by (simp add: st bit_inv_def bit_delay_def min_def)
  next
    case oz
    then have "?o = 0" "out = debounce v w xs" using I by (cases xs; simp)+
    then show ?thesis using oz by (simp add: st bit_inv_def bit_delay_def)
  next
    case zo
    then have "?z = 0" "out = debounce v w xs" using I by (cases xs; simp)+
    then show ?thesis using zo by (simp add: st bit_inv_def bit_delay_def)
  next
    case zz
    then have out: "out = debounce v w xs" using I by simp
    show ?thesis
    proof (cases "True \<in> set xs")
      case True
      then have "0 < ?z" "it = min (int w) (int ?z - 1)" using I zz by (cases xs; simp)+
      then show ?thesis using zz out True debounce_off [of w xs v] by (simp add: st bit_inv_def bit_delay_def min_def)
    next
      case False
      then show ?thesis using zz out debounce_zeros [of xs v w] debounce_zeros [of "x # xs" v w] by (simp add: st bit_inv_def bit_delay_def)
    qed
  qed
qed

definition vstate0 :: vstate_t where
  "vstate0 = \<lparr>old_value = 0, old_result = 0, valid_stable_time = replicate 10 0, invalid_stable_time = replicate 10 0\<rparr>"

fun vstate_run :: "nat \<Rightarrow> int \<Rightarrow> int \<Rightarrow> 32 word list \<Rightarrow> vstate_t" where
  "vstate_run n v w [] = vstate0"
| "vstate_run n v w (x # xs) = snd (delay_on_vstate n x v w (vstate_run n v w xs))"

definition vview :: "vstate_t \<Rightarrow> 32 word \<times> int list \<times> int list" where
  "vview st = (old_result st, valid_stable_time st, invalid_stable_time st)"

lemma vstate_run_inv:
  assumes "n \<le> 10" "j < n"
  shows "arrays_ok (vview (vstate_run n (int v) (int w) xs)) \<and> (xs \<noteq> [] \<longrightarrow> old_value (vstate_run n (int v) (int w) xs) = hd xs) \<and>
    bit_inv v w (map (\<lambda>x. bit x j) xs) (bit (old_value (vstate_run n (int v) (int w) xs)) j) (bit_view j (vview (vstate_run n (int v) (int w) xs)))"
proof (induction xs)
  case Nil
  have "j < 10" using assms by simp
  then show ?case by (simp add: vstate0_def vview_def arrays_ok_def bit_inv_def bit_view_def)
next
  case (Cons x xs)
  let ?s = "vstate_run n (int v) (int w) xs"
  let ?f = "fold (delay_bit x (old_value ?s) (int v) (int w)) [0..<n] (vview ?s)"
  have nx: "vview (vstate_run n (int v) (int w) (x # xs)) = ?f" "old_value (vstate_run n (int v) (int w) (x # xs)) = x"
    by (simp_all add: delay_on_vstate_def vview_def split: prod.splits)
  have l: "arrays_ok ?f" "bit_view j ?f = bit_delay (int v) (int w) (bit x j) (bit (old_value ?s) j) (bit_view j (vview ?s))"
    using delay_loop_view [of "vview ?s" n j x "old_value ?s" "int v" "int w"] Cons.IH assms by simp_all
  show ?case unfolding nx list.map l(2) using l(1) bit_inv_step Cons.IH by auto
qed

section \<open>Properties\<close>

text \<open>
  C39. \<open>delay_on_vstate\<close> debounces each video input: fed with any samples (the newest first in \<open>xs\<close>) from the cleared state, for at most ten inputs and
  delays that are not negative, the output bit of an input is the state of \<open>debounce\<close> on its samples alone: it becomes 1 when the input has been
  1 for more than \<open>v\<close> samples in a row, 0 when it has been 0 for more than \<open>w\<close>, and keeps its value otherwise.
\<close>

theorem vstate_is_debounced:
  assumes "n \<le> 10" "j < n" "0 \<le> v" "0 \<le> w"
  shows "bit (old_result (vstate_run n v w xs)) j = debounce (nat v) (nat w) (map (\<lambda>x. bit x j) xs)"
  using vstate_run_inv [OF assms(1,2), of "nat v" "nat w" xs] assms(3,4) by (simp add: bit_inv_def bit_view_def vview_def)

theorem vstate_is_debounced_witness:
  "(2 :: nat) \<le> 10 \<and> bit (old_result (vstate_run 2 0 2 [0, 0, 2, 0])) 1 \<and> \<not> bit (old_result (vstate_run 2 0 2 [0, 0, 0, 2])) 1"
  using vstate_is_debounced [of 2 1 0 2 "[0, 0, 2, 0]"] vstate_is_debounced [of 2 1 0 2 "[0, 0, 0, 2]"] by (simp add: bit_simps)

text \<open>
  C40. Whole-buffer transfers. Whatever the pieces in which a descriptor moves its bytes and however often the calls are interrupted,
  \<open>fd_read_buf\<close> returns the next \<open>len\<close> bytes of the stream, in order, as soon as the calls have moved that many, and
  \<open>fd_write_buf\<close> returns, too, as soon as the calls have moved the length of the buffer, and has sent the whole buffer, in order.
\<close>

theorem buffers_move_whole:
  assumes "moving calls" "0 \<le> len" "nat len \<le> moved calls" "nat len \<le> length inc" "length buf \<le> moved calls"
  shows "fd_read_buf calls len inc = Some (len, take (nat len) inc, drop (nat len) inc) \<and>
    (\<exists>r. fd_write_buf calls w buf = Some (r, buf))"
  using fd_read_loop_stream [OF assms(1,3,4), of "[]"] fd_write_loop_stream [OF assms(1,5), of w "[]"] assms(2)
  by (simp add: fd_read_buf_def fd_write_buf_def)

theorem buffers_move_whole_witness:
  "fd_read_buf [Chunk 2, Interrupted, Chunk 2] 3 ''abcd'' = Some (3, ''abc'', ''d'') \<and>
   (\<exists>r. fd_write_buf [Chunk 2, Interrupted, Chunk 2] 0 ''abc'' = Some (r, ''abc''))"
  using buffers_move_whole [of "[Chunk 2, Interrupted, Chunk 2]" 3 "''abcd''" "''abc''" 0] by simp

text \<open>What \<open>fd_write_buf\<close> returns is the size of its last piece, not the length of the buffer.\<close>

lemma write_returns_last_piece:
  assumes "moving calls" "length buf \<le> moved calls"
  shows "fd_write_buf calls w buf = Some (last_chunk calls (length buf) w, buf)"
  using fd_write_loop_stream [OF assms, of w "[]"] by (simp add: fd_write_buf_def)

text \<open>A stream that ends early makes \<open>fd_read_buf\<close> return 0, whatever it has read.\<close>

lemma read_of_closed_stream: "0 < len \<Longrightarrow> fd_read_buf (Closed # cs) len inc = Some (0, [], inc)"
  by (simp add: fd_read_buf_def fd_read_loop.simps)

end
