(* ===== verification/Rec_Resume.thy ===== *)
theory Rec_Resume
  imports Rec_State_Props Common_Lib
begin

text \<open>
  Recordings across a restart, \<open>src/src/mp_hdmodule_m/hdmod.c\<close>: the recorder writes its remote commands to a log of
  records of 44 characters (24 of time, 8 of type, 12 of data) and, when it starts, looks there for a recording that should still be running, which
  it continues on channel 0. \<open>None\<close> stands for undefined behaviour: a null pointer that is followed in a record without the
  expected characters, a number that does not fit.
\<close>

abbreviation (input) ALARMLOG_FILE :: string where "ALARMLOG_FILE \<equiv> ''/log/alarmlog.txt''"
abbreviation (input) ALARMLOG_FILE_0 :: string where "ALARMLOG_FILE_0 \<equiv> ''/log/alarmlog.txt.0''"

section \<open>Writing the log\<close>

text \<open>A log of 128 kilobytes is put aside. (For a file that does not exist \<open>stat\<close> fails and its result is not initialised.)\<close>

definition rotate_log :: "files \<Rightarrow> files" where
  "rotate_log fs =
     (case fs ALARMLOG_FILE of None \<Rightarrow> fs
      | Some s \<Rightarrow> if length s div 1024 \<ge> 128 then fs(ALARMLOG_FILE_0 \<mapsto> s, ALARMLOG_FILE := None) else fs)"

definition append_log :: "files \<Rightarrow> string \<Rightarrow> files" where
  "append_log fs s = fs(ALARMLOG_FILE \<mapsto> (case fs ALARMLOG_FILE of None \<Rightarrow> [] | Some t \<Rightarrow> t) @ s)"

definition log_time :: "int \<Rightarrow> int \<Rightarrow> string" where
  "log_time tz now =
     (let p = localtime tz now
      in ''<'' @ printf_0d 4 (tm_year p + 1900) @ ''-'' @ printf_0d 2 (tm_mon p + 1) @ ''-'' @ printf_0d 2 (tm_mday p) @ '' '' @
         printf_0d 2 (tm_hour p) @ '':'' @ printf_0d 2 (tm_min p) @ '':'' @ printf_0d 2 (tm_sec p) @ ''>   '')"

definition dump_clearinfo_to_log :: "int \<Rightarrow> int \<Rightarrow> files \<Rightarrow> files" where
  "dump_clearinfo_to_log tz now fs = append_log (rotate_log fs) (log_time tz now @ ''[CLEAR]            '' @ [LF])"

text \<open>The character after the number takes two bytes in the encoding of the source.\<close>

definition dump_saveinfo_to_log :: "int \<Rightarrow> int \<Rightarrow> int \<Rightarrow> int \<Rightarrow> files \<Rightarrow> files" where
  "dump_saveinfo_to_log tz now mode time fs =
     append_log (rotate_log fs) (log_time tz now @
       (if mode = 1 then ''[SAVE]  '' @ printf_0d 5 time @ [CHR 0xC3, CHR 0xEB] @ ''    '' @ [LF] else []) @
       (if mode = 0 then ''[STOP]             '' @ [LF] else []))"

section \<open>Reading the log\<close>

text \<open>
  Records are read from the end. When \<open>fseek\<close> fails, the \<open>fread\<close> that follows reads from where the file stands: the record behind the one read
  last, nothing at the end of the file, or, in a file shorter than a record, what there is.
\<close>

definition fread_after :: "string \<Rightarrow> nat \<Rightarrow> string \<Rightarrow> string" where
  "fread_after s row log =
     (if row = 1 then s @ drop (length s) log else if row = 2 then log else take 44 (drop (length s - 44 * (row - 2)) s))"

function scan_log :: "(string \<Rightarrow> int option) \<Rightarrow> string \<Rightarrow> nat \<Rightarrow> string \<Rightarrow> int \<times> string" where
  "scan_log cls s row log =
     (if 44 * row \<le> length s
      then let log1 = take 44 (drop (length s - 44 * row) s)
           in case cls log1 of Some f \<Rightarrow> (f, log1) | None \<Rightarrow> scan_log cls s (Suc row) log1
      else let log1 = fread_after s row log
           in case cls log1 of Some f \<Rightarrow> (f, log1) | None \<Rightarrow> (0, log1))"
  by pat_completeness auto
termination
  by (relation "measure (\<lambda>(cls, s, row, log). Suc (length s) - row)") auto

declare scan_log.simps [simp del]

definition trig_class :: "string \<Rightarrow> int option" where
  "trig_class log =
     (if strncmp_eq (drop 24 log) ''[CLEAR]'' then Some 0 else if strncmp_eq (drop 24 log) ''[ALARM]'' then Some 1 else None)"

definition hqsave_class :: "string \<Rightarrow> int option" where
  "hqsave_class log =
     (if strncmp_eq (drop 24 log) ''[STOP] '' then Some 0 else if strncmp_eq (drop 24 log) ''[CLEAR]'' then Some 0
      else if strncmp_eq (drop 24 log) ''[SAVE] '' then Some 1 else None)"

definition check_alarmlog_for_trigflag :: "files \<Rightarrow> string \<Rightarrow> int \<times> string" where
  "check_alarmlog_for_trigflag fs log = (case fs ALARMLOG_FILE of None \<Rightarrow> (0, log) | Some s \<Rightarrow> scan_log trig_class s 1 log)"

definition check_alarmlog_for_hqsaveflag :: "files \<Rightarrow> string \<Rightarrow> int \<times> string" where
  "check_alarmlog_for_hqsaveflag fs log = (case fs ALARMLOG_FILE of None \<Rightarrow> (0, log) | Some s \<Rightarrow> scan_log hqsave_class s 1 log)"

text \<open>The number after the next \<open>c\<close>, and the string from there.\<close>

definition num_after :: "char \<Rightarrow> string \<Rightarrow> (int \<times> string) option" where
  "num_after c s =
     (case strchr s c of None \<Rightarrow> None
      | Some i \<Rightarrow> (case atoi (drop (i + 1) s) of None \<Rightarrow> None | Some v \<Rightarrow> Some (v, drop (i + 1) s)))"

definition get_record_time :: "int \<Rightarrow> string \<Rightarrow> int option" where
  "get_record_time tz log =
     (case num_after (CHR ''<'') (as_cstr (take 23 log)) of None \<Rightarrow> None | Some (y, s1) \<Rightarrow>
      case num_after (CHR ''-'') s1 of None \<Rightarrow> None | Some (mo, s2) \<Rightarrow>
      case num_after (CHR ''-'') s2 of None \<Rightarrow> None | Some (d, s3) \<Rightarrow>
      case num_after (CHR '' '') s3 of None \<Rightarrow> None | Some (h, s4) \<Rightarrow>
      case num_after (CHR '':'') s4 of None \<Rightarrow> None | Some (mi, s5) \<Rightarrow>
      case num_after (CHR '':'') s5 of None \<Rightarrow> None | Some (sec, s6) \<Rightarrow>
        Some (mktime tz \<lparr>tm_sec = sec, tm_min = mi, tm_hour = h, tm_mday = d, tm_mon = mo - 1, tm_year = y - 1900\<rparr>))"

definition get_hqsave_time :: "string \<Rightarrow> int option" where
  "get_hqsave_time log = atoi (as_cstr (take 11 (drop 32 log)))"

definition get_record_ch :: "string \<Rightarrow> int option" where
  "get_record_ch log = map_option sint (atohex (take 11 (drop 32 log) @ [NUL]))"

section \<open>Commands\<close>

text \<open>
  What the commands of \<open>process_modsocket_cmd\<close> do to the log beside their effect on the channels: \<open>remote_start_record\<close> and \<open>remote_stop_record\<close>
  write a record when the channel exists, and the dispatcher writes one before it clears the trigger bits.
\<close>

definition start_stop_log :: "int \<Rightarrow> int \<Rightarrow> hd_enc option \<Rightarrow> bool \<Rightarrow> int \<Rightarrow> files \<Rightarrow> files" where
  "start_stop_log tz now p start reclen fs =
     (if p = None then fs
      else if start then dump_saveinfo_to_log tz now 1 (if reclen = 0 then 65535 else reclen) fs
      else dump_saveinfo_to_log tz now 0 0 fs)"

fun command_log :: "int \<Rightarrow> int \<Rightarrow> hd_enc list \<Rightarrow> hd_cmd \<Rightarrow> files \<Rightarrow> files" where
  "command_log tz now hds (REMOTE_TRIG_RECORD ch mode len) fs = start_stop_log tz now (get_hdch hds (sint ch)) (mode = 1) (sint len) fs"
| "command_log tz now hds (USR_LOCAL_RECORDER_CONTROL mode ch len) fs = start_stop_log tz now (get_hdch hds (uint ch)) (mode = 1) (uint len) fs"
| "command_log tz now hds (CLEAR_TRIG_FLAG ch) fs = dump_clearinfo_to_log tz now fs"
| "command_log tz now hds (TRIG_RECORD_EVENT ch flag len) fs = fs"
| "command_log tz now hds MAIN_REFRESH_PARA fs = fs"

section \<open>Continuing\<close>

definition get_trig_status :: "int \<Rightarrow> int \<Rightarrow> files \<Rightarrow> string \<Rightarrow> hd_enc list \<Rightarrow> hd_enc list option" where
  "get_trig_status tz now fs log0 hds =
     (case check_alarmlog_for_trigflag fs log0 of (flag, log) \<Rightarrow>
        if flag = 0 then Some hds
        else case get_record_time tz log of None \<Rightarrow> None
        | Some t \<Rightarrow>
            let h = hds ! 0 in
            if t > now then Some hds
            else if t + hd_dly_rec h > now then
              (case get_record_ch log of None \<Rightarrow> None
               | Some ch \<Rightarrow> Some (hds[0 := h\<lparr>hd_state := 2, hd_trig := ch, hd_recordlen := t + hd_dly_rec h - now\<rparr>]))
            else Some hds)"

definition get_save_status :: "int \<Rightarrow> int \<Rightarrow> files \<Rightarrow> string \<Rightarrow> hd_enc list \<Rightarrow> hd_enc list option" where
  "get_save_status tz now fs log0 hds =
     (case check_alarmlog_for_hqsaveflag fs log0 of (flag, log) \<Rightarrow>
        if flag = 0 then Some hds
        else case get_record_time tz log of None \<Rightarrow> None
        | Some t \<Rightarrow>
            let h = hds ! 0 in
            if t > now then Some hds
            else case get_hqsave_time log of None \<Rightarrow> None
            | Some len \<Rightarrow>
                if t + len > now then Some (hds[0 := h\<lparr>hd_state := 2, hd_remote_trigged := 1, hd_remote_trig_time := len + t - now\<rparr>])
                else Some hds)"

section \<open>Records read back\<close>

lemma atoi_field: "int_ok (int n) \<Longrightarrow> r = [] \<or> \<not> is_digit (hd r) \<Longrightarrow> atoi (dec_field w n @ r) = Some (int n)"
proof -
  assume ok: "int_ok (int n)" and r: "r = [] \<or> \<not> is_digit (hd r)"
  obtain c cs where c: "dec_field w n = c # cs" using dec_field_nonempty by (cases "dec_field w n") auto
  have all: "\<And>x. x \<in> set (c # cs) \<Longrightarrow> is_digit x" using dec_field_digits [of _ w n] c by simp
  have t: "takeWhile is_digit (c # cs @ r) = c # cs" using all r by (cases r) (auto simp: takeWhile_tail)
  have v: "dec_value (c # cs) = n" using dec_value_pad0 [of w "show_nat n"] dec_value_show_nat [of n] c
    by (simp add: dec_field_def)
  have d: "dec_value (takeWhile is_digit (c # cs @ r)) = n" unfolding t by (fact v)
  note ns = digit_not_sign [OF all [OF list.set_intros(1)]]
  show ?thesis using ok ns d unfolding c by (simp add: atoi_def Let_def del: takeWhile.simps)
qed

lemma num_after_field:
  assumes "c \<notin> set a" "int_ok (int n)" "\<not> is_digit x"
  shows "num_after c (a @ c # dec_field w n @ x # r) = Some (int n, dec_field w n @ x # r)"
  using assms atoi_field [of n "x # r" w] strchr_first [of c a "dec_field w n @ x # r"] by (simp add: num_after_def)

definition time_ok :: "int \<Rightarrow> int \<Rightarrow> bool" where
  "time_ok tz t = (int_ok t \<and> 0 \<le> t + tz \<and> t + tz < 2 ^ 31 + 86400)"

lemma log_time_fields:
  assumes "time_ok tz t" and p: "p = localtime tz t"
  shows "log_time tz t = ''<'' @ dec_field 4 (nat (tm_year p + 1900)) @ ''-'' @ dec_field 2 (nat (tm_mon p + 1)) @ ''-'' @ dec_field 2 (nat (tm_mday p)) @ '' '' @
      dec_field 2 (nat (tm_hour p)) @ '':'' @ dec_field 2 (nat (tm_min p)) @ '':'' @ dec_field 2 (nat (tm_sec p)) @ ''>   ''"
    and "1970 \<le> tm_year p + 1900" "tm_year p + 1900 < 2039" "0 \<le> tm_mon p" "tm_mon p < 12" "1 \<le> tm_mday p" "tm_mday p \<le> 31"
    "0 \<le> tm_hour p" "tm_hour p < 24" "0 \<le> tm_min p" "tm_min p < 60" "0 \<le> tm_sec p" "tm_sec p < 60"
proof -
  have r: "1970 \<le> tm_year p + 1900" "tm_year p + 1900 < 2039" "0 \<le> tm_mon p" "tm_mon p < 12" "1 \<le> tm_mday p" "tm_mday p \<le> 31"
    "0 \<le> tm_hour p" "tm_hour p < 24" "0 \<le> tm_min p" "tm_min p < 60" "0 \<le> tm_sec p" "tm_sec p < 60"
    using localtime_parts [OF refl, of tz t] localtime_year [of t tz] assms by (simp_all add: time_ok_def)
  then show "log_time tz t = ''<'' @ dec_field 4 (nat (tm_year p + 1900)) @ ''-'' @ dec_field 2 (nat (tm_mon p + 1)) @ ''-'' @ dec_field 2 (nat (tm_mday p)) @ '' '' @
      dec_field 2 (nat (tm_hour p)) @ '':'' @ dec_field 2 (nat (tm_min p)) @ '':'' @ dec_field 2 (nat (tm_sec p)) @ ''>   ''"
    by (simp add: log_time_def Let_def printf_0d_dec_field p [symmetric])
  show "1970 \<le> tm_year p + 1900" "tm_year p + 1900 < 2039" "0 \<le> tm_mon p" "tm_mon p < 12" "1 \<le> tm_mday p" "tm_mday p \<le> 31"
    "0 \<le> tm_hour p" "tm_hour p < 24" "0 \<le> tm_min p" "tm_min p < 60" "0 \<le> tm_sec p" "tm_sec p < 60" by (fact r)+
qed

lemma log_time_length: "time_ok tz t \<Longrightarrow> length (log_time tz t) = 24"
  using log_time_fields [OF _ refl, of tz t] by (simp add: dec2 dec4)

lemma no_digit: "\<not> is_digit c \<Longrightarrow> c \<notin> set (dec_field w n)"
  using dec_field_digits by blast

lemma get_record_time_log:
  assumes ok: "time_ok tz t"
  shows "get_record_time tz (log_time tz t @ x) = Some t"
proof -
  define p where "p = localtime tz t"
  note f = log_time_fields [OF ok p_def]
  let ?r = "''>  ''"
  let ?s = "CHR ''<'' # dec_field 4 (nat (tm_year p + 1900)) @ CHR ''-'' # dec_field 2 (nat (tm_mon p + 1)) @ CHR ''-'' # dec_field 2 (nat (tm_mday p)) @ CHR '' '' #
      dec_field 2 (nat (tm_hour p)) @ CHR '':'' # dec_field 2 (nat (tm_min p)) @ CHR '':'' # dec_field 2 (nat (tm_sec p)) @ CHR ''>'' # ''  ''"
  have lens: "length (dec_field 4 (nat (tm_year p + 1900))) = 4" "length (dec_field 2 (nat (tm_mon p + 1))) = 2" "length (dec_field 2 (nat (tm_mday p))) = 2"
    "length (dec_field 2 (nat (tm_hour p))) = 2" "length (dec_field 2 (nat (tm_min p))) = 2" "length (dec_field 2 (nat (tm_sec p))) = 2"
    using f dec2 dec4 by simp_all
  have "log_time tz t @ x = ?s @ '' '' @ x" "length ?s = 23" unfolding f(1) using lens by simp_all
  then have t: "take 23 (log_time tz t @ x) = ?s" by (metis append_eq_conv_conj)
  have "c \<noteq> NUL" if "c \<in> set ?s" for c
    using that dec_field_digits by (fastforce simp: is_digit_def)
  then have cs: "as_cstr (take 23 (log_time tz t @ x)) = ?s" unfolding t as_cstr_def by (simp only: takeWhile_eq_all_conv) blast
  have nd: "\<not> is_digit (CHR ''-'')" "\<not> is_digit (CHR '' '')" "\<not> is_digit (CHR '':'')" "\<not> is_digit (CHR ''>'')" by (simp_all add: is_digit_def)
  have ok2: "int_ok (int (nat i))" if "0 \<le> i" "i < 10000" for i using that by (simp add: int_ok_def)
  have i: "int_ok (int (nat (tm_year p + 1900)))" "int_ok (int (nat (tm_mon p + 1)))" "int_ok (int (nat (tm_mday p)))" "int_ok (int (nat (tm_hour p)))"
    "int_ok (int (nat (tm_min p)))" "int_ok (int (nat (tm_sec p)))" 
    by (rule ok2; use f(2-13) in linarith)+
  note N = num_after_field [where a = "dec_field w n" for w n, OF no_digit]
  have n0: "num_after (CHR ''<'') ?s = Some (int (nat (tm_year p + 1900)), drop 1 ?s)"
    using num_after_field [of "CHR ''<''" "[]" "nat (tm_year p + 1900)" "CHR ''-''"] i(1) nd by simp
  have e: "\<lparr>tm_sec = tm_sec p, tm_min = tm_min p, tm_hour = tm_hour p, tm_mday = tm_mday p, tm_mon = tm_mon p, tm_year = tm_year p\<rparr> = p" by (cases p) simp
  have "get_record_time tz (log_time tz t @ x) = Some (mktime tz p)"
    unfolding get_record_time_def cs n0 using i nd f by (simp add: N e)
  then show ?thesis using mktime_localtime [of t tz] ok by (simp add: p_def time_ok_def)
qed

text \<open>The last record of a log that counts: the records behind it are passed over, whatever they are.\<close>

definition other_records :: "string list \<Rightarrow> bool" where
  "other_records rs = list_all (\<lambda>r. length r = 44 \<and> hqsave_class r = None) rs"

lemma scan_back:
  assumes "length r = 44" "cls r = Some f" "list_all (\<lambda>r. length r = 44 \<and> cls r = None) rs" "length suf = 44 * row"
  shows "scan_log cls (pre @ r @ concat rs @ suf) (Suc row) log0 = (f, r)"
  using assms(3,4)
proof (induction rs arbitrary: suf row log0 rule: rev_induct)
  case Nil
  then show ?case using assms(1,2) by (subst scan_log.simps) (simp add: Let_def)
next
  case (snoc x xs)
  let ?s = "pre @ r @ concat xs @ (x @ suf)"
  have x: "length x = 44" "cls x = None" using snoc.prems by simp_all
  have "take 44 (drop (length ?s - 44 * Suc row) ?s) = x" "44 * Suc row \<le> length ?s" using x snoc.prems(2) by simp_all
  then have "scan_log cls ?s (Suc row) log0 = scan_log cls ?s (Suc (Suc row)) x"
    using x(2) by (subst scan_log.simps) (simp add: Let_def)
  moreover have "scan_log cls ?s (Suc (Suc row)) x = (f, r)" using snoc x by (intro snoc.IH) simp_all
  ultimately show ?case by simp
qed

lemma check_last:
  assumes "length r = 44" "hqsave_class r = Some f" "other_records rs"
  shows "check_alarmlog_for_hqsaveflag (append_log (append_log fs r) (concat rs)) log0 = (f, r)"
  using scan_back [OF assms(1,2) assms(3) [unfolded other_records_def], of "[]" 0 "case fs ALARMLOG_FILE of None \<Rightarrow> [] | Some t \<Rightarrow> t" log0]
  by (simp add: check_alarmlog_for_hqsaveflag_def append_log_def)

definition save_record :: "int \<Rightarrow> int \<Rightarrow> nat \<Rightarrow> string" where
  "save_record tz t n = log_time tz t @ ''[SAVE]  '' @ dec_field 5 n @ [CHR 0xC3, CHR 0xEB] @ ''    '' @ [LF]"

lemma save_record_props:
  assumes "time_ok tz t" "n < 100000"
  shows "length (save_record tz t n) = 44" "hqsave_class (save_record tz t n) = Some 1" "get_hqsave_time (save_record tz t n) = Some (int n)"
proof -
  have l: "length (dec_field 5 n) = 5" using dec_field_length [of n 4 5] assms(2) by simp
  note t = log_time_length [OF assms(1)]
  show "length (save_record tz t n) = 44" using l t by (simp add: save_record_def)
  have d: "drop 24 (save_record tz t n) = ''[SAVE]  '' @ dec_field 5 n @ [CHR 0xC3, CHR 0xEB] @ ''    '' @ [LF]"
    using t by (simp add: save_record_def)
  show "hqsave_class (save_record tz t n) = Some 1" unfolding hqsave_class_def d by (simp add: strncmp_eq_def)
  have d2: "take 11 (drop 32 (save_record tz t n)) = dec_field 5 n @ [CHR 0xC3, CHR 0xEB] @ ''    ''"
    using t l by (simp add: save_record_def)
  have "c \<noteq> NUL" if "c \<in> set (dec_field 5 n @ [CHR 0xC3, CHR 0xEB] @ ''    '')" for c
    using that dec_field_digits [of c 5 n] by (auto simp: is_digit_def)
  then have "as_cstr (take 11 (drop 32 (save_record tz t n))) = dec_field 5 n @ [CHR 0xC3, CHR 0xEB] @ ''    ''"
    unfolding d2 as_cstr_def by (simp only: takeWhile_eq_all_conv) blast
  moreover have "int_ok (int n)" using assms(2) by (simp add: int_ok_def)
  ultimately show "get_hqsave_time (save_record tz t n) = Some (int n)"
    unfolding get_hqsave_time_def using atoi_field [of n "[CHR 0xC3, CHR 0xEB] @ ''    ''" 5] by (simp add: is_digit_def)
qed

definition end_record :: "int \<Rightarrow> int \<Rightarrow> bool \<Rightarrow> string" where
  "end_record tz t stop = log_time tz t @ (if stop then ''[STOP]             '' else ''[CLEAR]            '') @ [LF]"

lemma end_record_props:
  assumes "time_ok tz t"
  shows "length (end_record tz t stop) = 44" "hqsave_class (end_record tz t stop) = Some 0"
proof -
  note t = log_time_length [OF assms]
  show "length (end_record tz t stop) = 44" using t by (simp add: end_record_def)
  have "drop 24 (end_record tz t stop) = (if stop then ''[STOP]             '' else ''[CLEAR]            '') @ [LF]"
    using t by (simp add: end_record_def)
  then show "hqsave_class (end_record tz t stop) = Some 0" by (simp add: hqsave_class_def strncmp_eq_def)
qed

lemma logged_recording_resumes:
  assumes t: "time_ok tz t" and n: "0 \<le> n" "n < 100000" and now: "t \<le> now" and rs: "other_records rs"
  shows "get_save_status tz now (append_log (dump_saveinfo_to_log tz t 1 n fs) (concat rs)) log0 hds =
      Some (if now < t + n then hds[0 := (hds ! 0)\<lparr>hd_state := 2, hd_remote_trigged := 1, hd_remote_trig_time := n - (now - t)\<rparr>] else hds) \<and>
    get_save_status tz now (append_log (dump_saveinfo_to_log tz t 0 m fs) (concat rs)) log0 hds = Some hds \<and>
    get_save_status tz now (append_log (dump_clearinfo_to_log tz t fs) (concat rs)) log0 hds = Some hds"
proof -
  note s = save_record_props [OF t, of "nat n"] and e = end_record_props [OF t]
  have w: "dump_saveinfo_to_log tz t 1 n fs = append_log (rotate_log fs) (save_record tz t (nat n))"
    "dump_saveinfo_to_log tz t 0 m fs = append_log (rotate_log fs) (end_record tz t True)"
    "dump_clearinfo_to_log tz t fs = append_log (rotate_log fs) (end_record tz t False)"
    using n(1) by (simp_all add: dump_saveinfo_to_log_def dump_clearinfo_to_log_def save_record_def end_record_def printf_0d_dec_field)
  have c: "check_alarmlog_for_hqsaveflag (append_log (dump_saveinfo_to_log tz t 1 n fs) (concat rs)) log0 = (1, save_record tz t (nat n))"
    unfolding w(1) using s n rs by (intro check_last) simp_all
  have rt: "get_record_time tz (save_record tz t (nat n)) = Some t" unfolding save_record_def by (rule get_record_time_log [OF t])
  have stop: "get_save_status tz now (append_log (append_log (rotate_log fs) (end_record tz t b)) (concat rs)) log0 hds = Some hds" for b
    using check_last [OF e rs] by (simp add: get_save_status_def)
  have "get_save_status tz now (append_log (dump_saveinfo_to_log tz t 1 n fs) (concat rs)) log0 hds =
      Some (if now < t + n then hds[0 := (hds ! 0)\<lparr>hd_state := 2, hd_remote_trigged := 1, hd_remote_trig_time := n - (now - t)\<rparr>] else hds)"
    using s(3) n now by (simp add: get_save_status_def c rt Let_def algebra_simps)
  then show ?thesis unfolding w(2,3) using stop by blast
qed

section \<open>Properties\<close>

text \<open>
  C14. A remote recording survives a restart: the state of the recorder is lost when it restarts, its log is not, and the last
  record of a start, a stop or a clear decides. After the command to record by hand on a channel for up to 99999
  seconds (0 stands for 65535) at time \<open>t\<close>, whatever the log held before and whatever records of other kinds
  followed in it, a recorder that starts at a time \<open>now\<close> within that span has channel 0 record by hand for the seconds
  that are left, and one that starts later leaves the channels alone; and after a command to stop or to clear the alarm, again
  whatever came before (a command to record, too) and whatever records of other kinds followed, it leaves the channels alone.
  Records have 44 characters and the log is not put aside in between.
\<close>

theorem remote_recording_resumes:
  assumes t: "time_ok tz t" and now: "t \<le> now" and ch: "0 \<le> sint ch" "sint ch < 4" and len: "0 \<le> sint len" "sint len < 100000"
    and rs: "other_records rs"
  defines "n \<equiv> (if sint len = 0 then 65535 else sint len)"
  shows "get_save_status tz now (append_log (command_log tz t hds0 (REMOTE_TRIG_RECORD ch 1 len) fs) (concat rs)) log0 hds =
      Some (if now < t + n then hds[0 := (hds ! 0)\<lparr>hd_state := 2, hd_remote_trigged := 1, hd_remote_trig_time := n - (now - t)\<rparr>] else hds) \<and>
    (mode \<noteq> 1 \<longrightarrow>
       get_save_status tz now (append_log (command_log tz t hds0 (REMOTE_TRIG_RECORD ch mode len) fs) (concat rs)) log0 hds = Some hds) \<and>
    get_save_status tz now (append_log (command_log tz t hds0 (CLEAR_TRIG_FLAG any) fs) (concat rs)) log0 hds = Some hds"
proof -
  have n: "0 \<le> n" "n < 100000" using len by (simp_all add: n_def)
  have g: "get_hdch hds0 (sint ch) \<noteq> None" using ch by (simp add: get_hdch_def MAX_RECORD_CHANNEL_M_def)
  have l: "start_stop_log tz t (get_hdch hds0 (sint ch)) True (sint len) fs = dump_saveinfo_to_log tz t 1 n fs"
    "start_stop_log tz t (get_hdch hds0 (sint ch)) False (sint len) fs = dump_saveinfo_to_log tz t 0 0 fs"
    unfolding start_stop_log_def n_def if_not_P [OF g] by simp_all
  note r = logged_recording_resumes [OF t n now rs, of fs log0 hds 0]
  have "mode \<noteq> 1 \<Longrightarrow> (mode = 1) = False" by simp
  then show ?thesis using r l by auto
qed

text \<open>Example: an alarm is logged after the command.\<close>

definition alarm_record :: string where
  "alarm_record = log_time 28800 86410 @ ''[ALARM] TRIG:0x0001'' @ [LF]"

theorem remote_recording_resumes_witness:
  "get_save_status 28800 86430 (append_log (command_log 28800 86400 sample_table (REMOTE_TRIG_RECORD 2 1 100) (\<lambda>_. None)) alarm_record) [] [sample_hd] =
     Some [sample_hd\<lparr>hd_state := 2, hd_remote_trigged := 1, hd_remote_trig_time := 70\<rparr>]"
proof -
  have t: "time_ok 28800 86400" and l: "length (log_time 28800 86410) = 24" by (simp_all add: time_ok_def int_ok_def log_time_length)
  have "other_records [alarm_record]"
    using l by (simp add: other_records_def alarm_record_def hqsave_class_def strncmp_eq_def)
  moreover have "sint (2 :: 32 word) = 2" "sint (100 :: 32 word) = 100" by simp_all
  ultimately show ?thesis
    using remote_recording_resumes [OF t, of 86430 2 100 "[alarm_record]" sample_table "\<lambda>_. None" "[]" "[sample_hd]" 0 0] by simp
qed

text \<open>
  A longer command spoils the log: its record has more than 44 characters, and the records before it are no longer found where they are
  looked for.
\<close>

lemma long_save_record: "time_ok tz t \<Longrightarrow> length (save_record tz t 100000) = 45"
proof -
  assume t: "time_ok tz t"
  have "length (dec_field 5 100000) = 6" by (simp add: dec_field_def pad0_def show_nat.simps)
  then show ?thesis using log_time_length [OF t] by (simp add: save_record_def)
qed

end
