(* ===== verification/Rec_Disk.thy ===== *)
theory Rec_Disk
  imports Rec_File
begin

text \<open>
  The choice of the partition to record on, \<open>src/src/mp_hdmodule_m/hdmod.c\<close>. Each disk, \<open>sda\<close>, \<open>sdb\<close> and so on, has four partitions; when
  the current one is full the recorder goes through all of them in turn. The number of disks (\<open>get_sys_disk_num\<close>), the free
  space in megabytes (\<open>get_disk_free\<close>) and the ini file are parameters.
\<close>

section \<open>Operations\<close>

definition get_hd_minval :: "int \<Rightarrow> int" where
  "get_hd_minval hd_type = (if hd_type = 1 then 250 else 50)"

text \<open>\<open>ini\<close>: the value of \<open>diskinfo:record_disk\<close> in the ini file, if there is a file and a value.\<close>

definition disk_get_record_partition :: "string option option \<Rightarrow> hd_enc \<Rightarrow> int \<times> hd_enc" where
  "disk_get_record_partition ini h =
     (case ini of None \<Rightarrow> (-1, h)
      | Some v \<Rightarrow>
          (0, h\<lparr>hd_partition :=
            (case v of None \<Rightarrow> ''/hqdata/sda1''
             | Some s \<Rightarrow> if length s = 4 \<and> s ! 0 = CHR ''s'' \<and> s ! 1 = CHR ''d'' then ''/hqdata/'' @ s else ''/hqdata/sda1'')\<rparr>))"

definition disk_get_next_partition :: "int \<Rightarrow> string \<Rightarrow> int \<times> string" where
  "disk_get_next_partition disknum name =
     (if length name < length ''/hqdata/sda1'' then (-1, name)
      else let diskno = of_char (name ! 10) :: nat; partitionno = of_char (name ! 11) + 1 :: nat
           in if partitionno > 52
              then let diskno1 = diskno + 1;
                       diskno2 = (if int diskno1 - 97 \<ge> disknum then 97 else diskno1)
                   in (0, name[10 := char_of diskno2, 11 := char_of (49 :: nat)])
              else (0, name[11 := char_of partitionno]))"

function next_partition_loop :: "(string \<Rightarrow> int) \<Rightarrow> int \<Rightarrow> int \<Rightarrow> int \<Rightarrow> string \<Rightarrow> int \<times> string" where
  "next_partition_loop free minval disknum seach name =
     (if free name < minval then
        let name1 = snd (disk_get_next_partition disknum name); seach1 = seach + 1
        in if seach1 \<ge> disknum * 4 then (-1, name1) else next_partition_loop free minval disknum seach1 name1
      else (0, name))"
  by pat_completeness auto
termination
  by (relation "measure (\<lambda>(free, minval, disknum, seach, name). nat (disknum * 4 - seach))") auto

declare next_partition_loop.simps [simp del]

text \<open>\<open>ini_ok\<close>: whether the ini file can be loaded; the new partition is then stored in it.\<close>

definition disk_get_next_record_partition :: "(string \<Rightarrow> int) \<Rightarrow> int \<Rightarrow> int \<Rightarrow> bool \<Rightarrow> string \<Rightarrow> int \<times> string" where
  "disk_get_next_record_partition free minval disknum ini_ok name =
     (case next_partition_loop free minval disknum 0 name of
        (r, name1) \<Rightarrow> if r < 0 then (-1, name1) else if ini_ok then (0, name1) else (-1, name1))"

section \<open>Partitions by number\<close>

definition part_name :: "nat \<Rightarrow> string" where
  "part_name p = ''/hqdata/sd'' @ [char_of (97 + p div 4 :: nat), char_of (49 + p mod 4 :: nat)]"

lemma part_name_parts:
  assumes "p < 104"
  shows "length (part_name p) = 12" "(of_char (part_name p ! 10) :: nat) = 97 + p div 4" "(of_char (part_name p ! 11) :: nat) = 49 + p mod 4"
  using assms by (simp_all add: part_name_def)

lemma next_partition:
  assumes "p < 4 * n" "n \<le> 26"
  shows "disk_get_next_partition (int n) (part_name p) = (0, part_name ((p + 1) mod (4 * n)))"
proof -
  note pp = part_name_parts [of p]
  have p: "p < 104" using assms by simp
  have ne: "\<not> length (part_name p) < length ''/hqdata/sda1''" using pp(1) [OF p] by simp
  show ?thesis
  proof (cases "p mod 4 = 3")
    case False
    then have m: "(p + 1) div 4 = p div 4" "(p + 1) mod 4 = p mod 4 + 1" by (simp_all add: Suc_eq_plus1 [symmetric] div_Suc mod_Suc)
    have "p + 1 \<noteq> 4 * n"
    proof
      assume "p + 1 = 4 * n"
      then have "(p + 1) mod 4 = 0" by simp
      then show False using m(2) by simp
    qed
    then have "(p + 1) mod (4 * n) = p + 1" using assms(1) by simp
    then show ?thesis unfolding disk_get_next_partition_def if_not_P [OF ne] Let_def pp(2,3) [OF p]
      using False mod_less_divisor [of 4 p] m by (simp add: part_name_def)
  next
    case True
    then have m: "(p + 1) div 4 = p div 4 + 1" "(p + 1) mod 4 = 0" by (simp_all add: Suc_eq_plus1 [symmetric] div_Suc mod_Suc)
    have last: "p div 4 + 1 = n \<longleftrightarrow> p + 1 = 4 * n" using m by linarith
    have le: "p div 4 + 1 \<le> n" using assms(1) by linarith
    show ?thesis
    proof (cases "p + 1 = 4 * n")
      case T: True
      then show ?thesis unfolding disk_get_next_partition_def if_not_P [OF ne] Let_def pp(2,3) [OF p]
        using True last by (simp add: part_name_def)
    next
      case F: False
      then have "(p + 1) mod (4 * n) = p + 1" using assms(1) by simp
      then show ?thesis unfolding disk_get_next_partition_def if_not_P [OF ne] Let_def pp(2,3) [OF p]
        using True F last le m by (simp add: part_name_def)
    qed
  qed
qed

text \<open>The loop from its \<open>k\<close>-th step.\<close>

lemma next_partition_loop_from:
  assumes "p < 4 * n" "n \<le> 26" "k < 4 * n"
  shows "next_partition_loop free minval (int n) (int k) (part_name ((p + k) mod (4 * n))) =
    (case first_at (\<lambda>j. free (part_name ((p + j) mod (4 * n))) \<ge> minval) [k..<4 * n] of
       Some i \<Rightarrow> (0, part_name ((p + (k + i)) mod (4 * n)))
     | None \<Rightarrow> (-1, part_name p))"
  using assms(3)
proof (induction "4 * n - k" arbitrary: k rule: less_induct)
  case less
  let ?P = "\<lambda>j. free (part_name ((p + j) mod (4 * n))) \<ge> minval" and ?N = "4 * n"
  have upt: "[k..<?N] = k # [Suc k..<?N]" using less.prems by (simp add: upt_conv_Cons)
  have nx: "snd (disk_get_next_partition (int n) (part_name ((p + k) mod ?N))) = part_name ((p + Suc k) mod ?N)"
    using next_partition [of "(p + k) mod ?N" n] assms(2) less.prems by (simp add: mod_Suc_eq)
  show ?case
  proof (cases "?P k")
    case True
    then show ?thesis unfolding upt by (subst next_partition_loop.simps) simp
  next
    case False
    show ?thesis
    proof (cases "Suc k < ?N")
      case True
      then have "next_partition_loop free minval (int n) (int (Suc k)) (part_name ((p + Suc k) mod ?N)) =
          (case first_at ?P [Suc k..<?N] of Some i \<Rightarrow> (0, part_name ((p + (Suc k + i)) mod ?N)) | None \<Rightarrow> (-1, part_name p))"
        using less.hyps [of "Suc k"] by simp
      moreover have "\<not> int k + 1 \<ge> int n * 4" using True by simp
      ultimately show ?thesis using False unfolding upt
        by (subst next_partition_loop.simps) (simp add: nx Let_def add.commute [of 1] split: option.splits)
    next
      case F: False
      then have "Suc k = ?N" using less.prems by simp
      then have "(p + Suc k) mod ?N = p" "int k + 1 \<ge> int n * 4" "[Suc k..<?N] = []" using assms(1) by simp_all
      then show ?thesis using False unfolding upt by (subst next_partition_loop.simps) (simp add: nx Let_def)
    qed
  qed
qed

section \<open>Properties\<close>

text \<open>
  C15. The search for a partition to record on ends and is complete: on one to 26 disks, from any partition,
  \<open>disk_get_next_record_partition\<close> returns with the first partition in the cyclic order of \<open>sda1\<close>, \<open>sda2\<close>, ..., the current one
  included, that has the least free space asked for; when no partition has it, it returns -1 with the name it began with.
\<close>

theorem partition_search:
  assumes "p < 4 * n" "n \<le> 26"
  shows "disk_get_next_record_partition free minval (int n) True (part_name p) =
    (case first_at (\<lambda>j. free (part_name ((p + j) mod (4 * n))) \<ge> minval) [0..<4 * n] of
       Some i \<Rightarrow> (0, part_name ((p + i) mod (4 * n)))
     | None \<Rightarrow> (-1, part_name p))"
proof -
  have "(p + 0) mod (4 * n) = p" using assms(1) by simp
  then show ?thesis using next_partition_loop_from [OF assms, of 0 free minval] assms(1)
    by (simp add: disk_get_next_record_partition_def split: option.splits)
qed

theorem partition_search_witness:
  "disk_get_next_record_partition (\<lambda>s. if s = ''/hqdata/sdb2'' then 300 else 0) 250 2 True ''/hqdata/sdb4'' = (0, ''/hqdata/sdb2'')"
proof -
  have n: "part_name 7 = ''/hqdata/sdb4''" "part_name 5 = ''/hqdata/sdb2''" by code_simp+
  let ?f = "\<lambda>s. if s = ''/hqdata/sdb2'' then 300 else (0 :: int)"
  have "first_at (\<lambda>j. ?f (part_name ((7 + j) mod (4 * 2))) \<ge> 250) [0..<4 * 2] = Some 6" by code_simp
  then show ?thesis using partition_search [of 7 2 ?f 250] n by simp
qed

end
