(* ===== verification/Alarm.thy ===== *)
theory Alarm
  imports Rec_State_Props
begin

text \<open>
  The alarm decisions of the main process, \<open>src/src/ipmain/alarm_process.c\<close>, with the user's reset of alarms
  (\<open>netcmdproc.c\<close>) and the motion detection (\<open>video_para_api.c\<close>). Input terminals and motion detection are looked at every second; an
  input that is armed and inside its hours makes an alarm: it is reported, its actions are carried out (relays, the screen, a
  sound), the channel's recording is started by a command to the recorder, and recorded images are played back.

  The inputs of a step are the terminals' bits, the time (\<open>tz\<close> and \<open>now\<close>), whether the display can be switched (\<open>quad\<close>) and how many players of the
  alarm sound run (\<open>playing\<close>). What a step does to the outside is the list of its effects, \<open>alarm_op\<close>. The tables have 20
  rows for terminals and 10 for cameras; a device has at most 16 terminals and 4 cameras (a shift by 32 or more is undefined).
\<close>

unbundle bit_operations_syntax

section \<open>Parameters and state\<close>

record alarm_trigin =
  at_enable :: int
  at_setalarm :: int
  at_imact :: "int list"
  at_ackact :: "int list"
  at_rstact :: "int list"
  at_starthour :: int
  at_startmin :: int
  at_endhour :: int
  at_endmin :: int

record motion_para =
  mo_alarm :: int
  mo_starthour :: int
  mo_startmin :: int
  mo_endhour :: int
  mo_endmin :: int

record main_para =
  trigin_num :: nat
  video_num :: nat
  mp_trigin :: "alarm_trigin list"
  mp_motion :: "alarm_trigin list"
  mp_quad_motion :: "motion_para list"
  mp_enc_enable :: "int list"
  mp_playback_enable :: int
  mp_video_ch :: "int list"
  mp_multi :: int
  mp_net_ch :: int

record alarm_env =
  e_tz :: int
  e_now :: int
  e_quad :: int
  e_playing :: int

text \<open>\<open>reg_trig_state\<close>, \<open>pb_Tag.pb\<close> and \<open>alarm_playback_ch\<close>.\<close>

record alarm_state =
  al_trig :: "32 word"
  al_pb :: "int list"
  al_playback_ch :: int

datatype alarm_op =
    Hd hd_cmd
  | Relay int int
  | Full_screen int
  | Quad_screen
  | Play_sound int
  | Playback int
  | Stop_playback int
  | Report "32 word"
  | Alarm_log "32 word"
  | All_clear

text \<open>The commands to the recorder, \<open>hdmodapi.c\<close>.\<close>

definition send_trig_record_event :: "int \<Rightarrow> int \<Rightarrow> int \<Rightarrow> alarm_op" where
  "send_trig_record_event ch trig_flag reclen = Hd (TRIG_RECORD_EVENT (word_of_int ch) (word_of_int trig_flag) (word_of_int reclen))"

definition send_clear_trig_flag :: "int \<Rightarrow> alarm_op" where
  "send_clear_trig_flag ch = Hd (CLEAR_TRIG_FLAG (word_of_int ch))"

section \<open>Conditions and actions\<close>

definition minutes_between :: "int \<Rightarrow> int \<Rightarrow> int \<Rightarrow> int" where
  "minutes_between timestart timestop timenow =
     (if timestart < timestop \<and> timestart \<le> timenow \<and> timenow \<le> timestop then 1
      else if timestart > timestop \<and> 0 \<le> timenow \<and> timenow \<le> 1440 \<and> (timenow \<le> timestop \<or> timestart \<le> timenow) then 1
      else if timestart = timestop then 1 else 0)"

definition is_alarm_interval :: "main_para \<Rightarrow> int \<Rightarrow> int \<Rightarrow> int \<Rightarrow> int \<Rightarrow> int" where
  "is_alarm_interval p tz now ty number =
     (let t = localtime tz now; timenow = tm_hour t * 60 + tm_min t in
      if ty = 1 then
        if number \<ge> int (trigin_num p) \<or> number < 0 then 0
        else let a = mp_trigin p ! nat number
             in minutes_between (at_starthour a * 60 + at_startmin a) (at_endhour a * 60 + at_endmin a) timenow
      else if ty = 2 then
        if number \<ge> int (video_num p) \<or> number < 0 then 0
        else let m = mp_quad_motion p ! nat number
             in minutes_between (mo_starthour m * 60 + mo_startmin m) (mo_endhour m * 60 + mo_endmin m) timenow
      else - EINVAL)"

definition MAX_TRIG_EVENT :: nat where
  "MAX_TRIG_EVENT = 10"

definition get_alarm_event :: "main_para \<Rightarrow> int \<Rightarrow> int \<Rightarrow> nat \<Rightarrow> int" where
  "get_alarm_event p ch ty event =
     (if ch \<ge> int (trigin_num p) + int (video_num p) \<or> event + 1 > MAX_TRIG_EVENT \<or> ty > 2 then 0
      else let a = (if ch < int (trigin_num p) then mp_trigin p ! nat ch else mp_motion p ! nat (ch - int (trigin_num p)))
           in if ty = 0 then at_imact a ! event else if ty = 1 then at_ackact a ! event else if ty = 2 then at_rstact a ! event else 0)"

definition take_alarm_action :: "main_para \<Rightarrow> alarm_env \<Rightarrow> nat \<Rightarrow> int \<Rightarrow> alarm_op list" where
  "take_alarm_action p e alarm_chn event =
     (if 29 < event \<and> event < 34 \<and> e_quad e = 1 then [Full_screen (event - 30)]
      else if event = 34 \<and> e_quad e = 1 then [Quad_screen]
      else if event = 0 then []
      else if event < 9 \<and> 0 < event then [Relay ((event - 1) div 2) (event mod 2)]
      else if event = 40 then (if e_playing e = 0 then [Play_sound (mp_video_ch p ! alarm_chn)] else [])
      else if event \<le> 58 \<and> 50 < event then
        let out = (event - 51) div 2; value = event mod 2 in [Relay out value, Relay out (1 - value), Relay out value]
      else [])"

text \<open>The loops over the events of an input.\<close>

definition input_actions :: "main_para \<Rightarrow> alarm_env \<Rightarrow> int \<Rightarrow> int \<Rightarrow> nat \<Rightarrow> alarm_op list" where
  "input_actions p e ch ty alarm_chn = concat (map (\<lambda>j. take_alarm_action p e alarm_chn (get_alarm_event p ch ty j)) [0..<MAX_TRIG_EVENT])"

text \<open>The bit of an input in \<open>reg_trig_state\<close>: bits 10 to 18 belong to the cameras.\<close>

definition trig_bit :: "nat \<Rightarrow> nat" where
  "trig_bit i = (if i < 10 then i else i + 16)"

section \<open>Terminals\<close>

text \<open>One round of the first loop of \<open>process_trigin_event\<close>: \<open>actual\<close> collects the inputs that make an alarm.\<close>

definition trigin_round :: "main_para \<Rightarrow> alarm_env \<Rightarrow> 32 word \<Rightarrow> 32 word \<Rightarrow> 32 word \<Rightarrow> nat \<Rightarrow> 32 word \<times> alarm_op list \<Rightarrow> 32 word \<times> alarm_op list" where
  "trigin_round p e trig oldtrig oldst i acc =
     (case acc of (actual, ops) \<Rightarrow>
        if \<not> bit trig i then (actual, ops)
        else if at_setalarm (mp_trigin p ! i) \<noteq> 1 \<or> is_alarm_interval p (e_tz e) (e_now e) 1 (int i) \<noteq> 1 then
          (actual, ops @ (if \<not> bit oldtrig i then [send_trig_record_event (if mp_multi p = 0 then 0 else mp_video_ch p ! i) 0 0] else []))
        else (actual OR push_bit (trig_bit i) 1,
              ops @ (if bit oldst (trig_bit i) then [] else input_actions p e (int i) 0 i)))"

text \<open>The loops over the inputs that are new: one recording and one playback for all, or one of each per input.\<close>

definition playback_round ::
  "main_para \<Rightarrow> 32 word \<Rightarrow> 32 word \<Rightarrow> nat \<Rightarrow> alarm_state \<times> nat \<Rightarrow> alarm_state \<times> nat" where
  "playback_round p actual oldst i acc =
     (case acc of (st, count) \<Rightarrow>
        let video_ch = mp_video_ch p ! i in
        if bit actual (trig_bit i) \<and> \<not> bit oldst (trig_bit i) \<and> 0 \<le> video_ch \<and> video_ch \<le> 4
        then (st\<lparr>al_pb := (al_pb st)[i := 1],
                 al_playback_ch := (if al_playback_ch st \<noteq> -1 \<and> video_ch \<noteq> al_playback_ch st then 4
                   else if video_ch \<noteq> al_playback_ch st then video_ch else al_playback_ch st)\<rparr>, count + 1)
        else (st, count))"

definition multi_round ::
  "main_para \<Rightarrow> 32 word \<Rightarrow> 16 word \<Rightarrow> 32 word \<Rightarrow> 32 word \<Rightarrow> nat \<Rightarrow> alarm_state \<times> alarm_op list \<Rightarrow> alarm_state \<times> alarm_op list" where
  "multi_round p alarmstate reclen actual oldst i acc =
     (case acc of (st, ops) \<Rightarrow>
        let video_ch = mp_video_ch p ! i in
        if bit actual (trig_bit i) \<and> \<not> bit oldst (trig_bit i) \<and> 0 \<le> video_ch \<and> video_ch \<le> 4
        then (st\<lparr>al_pb := (al_pb st)[i := 1]\<rparr>,
              ops @ (if mp_playback_enable p \<noteq> 0 then [Playback video_ch] else []) @
              [send_trig_record_event video_ch (sint alarmstate) (uint reclen)])
        else (st, ops))"

text \<open>\<open>reclen\<close> is what the variable holds when it is used without having been set, with several channels.\<close>

definition process_trigin_event ::
  "main_para \<Rightarrow> alarm_env \<Rightarrow> 16 word \<Rightarrow> 32 word \<Rightarrow> 32 word \<Rightarrow> alarm_state \<Rightarrow> alarm_state \<times> alarm_op list" where
  "process_trigin_event p e reclen trig oldtrig st =
     (let oldst = al_trig st;
          (actual, ops1) = fold (trigin_round p e trig oldtrig oldst) [0..<trigin_num p] (0, []);
          st1 = (if oldst XOR actual \<noteq> 0 then st\<lparr>al_trig := actual\<rparr> else st)
      in if actual \<noteq> 0 \<and> oldst XOR actual \<noteq> 0 then
           let a = al_trig st1; ops2 = ops1 @ [Report a, Alarm_log a] in
           if mp_multi p = 0 then
             let (st2, count) = fold (playback_round p actual oldst) [0..<trigin_num p] (st1, 0)
             in (st2, ops2 @ [send_trig_record_event 0 (sint a) 0] @
                  (if count > 0 \<and> mp_playback_enable p \<noteq> 0 then [Playback (al_playback_ch st2)] else []))
           else
             let (st2, ops3) = fold (multi_round p a reclen actual oldst) [0..<trigin_num p] (st1, [])
             in (st2, ops2 @ ops3)
         else (st1, ops1))"

text \<open>The clock of the main process gives it the bits the reading thread has stored, and the ones of a second ago.\<close>

definition watch_board_second_proc ::
  "main_para \<Rightarrow> alarm_env \<Rightarrow> 16 word \<Rightarrow> 32 word \<Rightarrow> alarm_state \<times> 32 word \<Rightarrow> (alarm_state \<times> 32 word) \<times> alarm_op list" where
  "watch_board_second_proc p e reclen alarmin s =
     (case s of (st, oldalarmin) \<Rightarrow>
        case process_trigin_event p e reclen alarmin oldalarmin st of (st', ops) \<Rightarrow> ((st', alarmin), ops))"

section \<open>Motion\<close>

text \<open>\<open>loss\<close> are the cameras without signal; cameras 0 to 3 have a bit in \<open>reg_trig_state\<close>.\<close>

definition motion_round ::
  "main_para \<Rightarrow> alarm_env \<Rightarrow> int list \<Rightarrow> 32 word \<Rightarrow> nat \<Rightarrow> alarm_state \<times> alarm_op list \<Rightarrow> alarm_state \<times> alarm_op list" where
  "motion_round p e loss motion i acc =
     (case acc of (st, ops) \<Rightarrow>
        if mp_enc_enable p ! i \<noteq> 1 \<or> at_enable (mp_motion p ! i) \<noteq> 1 \<or> loss ! i = 1 then (st, ops)
        else
          let quiet = mo_alarm (mp_quad_motion p ! i) \<noteq> 1 \<or> at_setalarm (mp_motion p ! i) \<noteq> 1 \<or>
                is_alarm_interval p (e_tz e) (e_now e) 2 (int i) \<noteq> 1;
              alarmbit = (bit motion i \<and> \<not> quiet);
              ops1 = ops @ (if bit motion i \<and> quiet then [send_trig_record_event (if mp_multi p \<noteq> 0 then int i else 0) 0 0] else []);
              changeflag = (i < 4 \<and> bit (al_trig st) (10 + i) \<noteq> alarmbit);
              st1 = (if changeflag then st\<lparr>al_trig := (if alarmbit then al_trig st OR push_bit (10 + i) 1
                       else al_trig st AND NOT (push_bit (10 + i) 1))\<rparr> else st)
          in if alarmbit \<and> changeflag
             then (st1, ops1 @ [Alarm_log (al_trig st1), Report (al_trig st1), send_trig_record_event (int i) (sint (al_trig st1)) 0] @
                    input_actions p e (int i + int (trigin_num p)) 0 i)
             else (st1, ops1))"

definition video_motion_detected :: "main_para \<Rightarrow> alarm_env \<Rightarrow> int \<Rightarrow> int list \<Rightarrow> 32 word \<Rightarrow> alarm_state \<Rightarrow> alarm_state \<times> alarm_op list" where
  "video_motion_detected p e virdevs loss motion st =
     (if virdevs = 2 then (st, []) else fold (motion_round p e loss motion) [0..<video_num p] (st, []))"

section \<open>Reset by the user\<close>

definition cancel_round :: "main_para \<Rightarrow> 32 word \<Rightarrow> nat \<Rightarrow> int list \<times> alarm_op list \<Rightarrow> int list \<times> alarm_op list" where
  "cancel_round p trig i acc =
     (case acc of (pb, ops) \<Rightarrow>
        if bit trig (trig_bit i) then
          let pb1 = pb[i := 0]; video_ch = mp_video_ch p ! i;
              temptag = list_ex (\<lambda>j. pb1 ! j = 1 \<and> mp_video_ch p ! j = video_ch) [0..<trigin_num p]
          in (pb1, ops @ (if temptag then [] else [send_clear_trig_flag video_ch]))
        else (pb, ops))"

definition remote_cancel_alarm :: "main_para \<Rightarrow> alarm_env \<Rightarrow> 32 word \<Rightarrow> alarm_state \<Rightarrow> alarm_state \<times> alarm_op list" where
  "remote_cancel_alarm p e trig st =
     (let (pb, ops1) = (if mp_multi p \<noteq> 0
            then let (pb, ops) = fold (cancel_round p trig) [0..<trigin_num p] (al_pb st, [])
                 in (pb, ops @ (if list_all (\<lambda>i. pb ! i \<noteq> 1) [0..<trigin_num p] then [All_clear] else []))
            else (al_pb st, [send_clear_trig_flag 0]));
          ops2 = concat (map (\<lambda>i. if bit trig (trig_bit i) then input_actions p e (int i) 2 i else []) [0..<trigin_num p]);
          ops3 = concat (map (\<lambda>i. if bit trig i then input_actions p e (int i - 4) 2 i else []) [10..<video_num p + 10])
      in (st\<lparr>al_pb := pb\<rparr>, ops1 @ ops2 @ ops3))"

text \<open>
  The channel to be played back after a reset. The search stops at the first input whose playback is pending and that has a
  channel; \<open>count\<close> is one more than the number of pending inputs with another channel.
\<close>

definition remote_cancel_alarm_playback :: "main_para \<Rightarrow> 32 word \<Rightarrow> alarm_state \<Rightarrow> alarm_state \<times> alarm_op list" where
  "remote_cancel_alarm_playback p trig st =
     (if mp_multi p = 0 then
        let pb = fold (\<lambda>i pb. if bit trig (trig_bit i) then pb[i := 0] else pb) [0..<trigin_num p] (al_pb st);
            (ch, count) = (case find (\<lambda>i. pb ! i = 1 \<and> mp_video_ch p ! i \<noteq> -1) [0..<trigin_num p] of
               None \<Rightarrow> (-1, 0)
             | Some i \<Rightarrow>
                 let new_ch = mp_video_ch p ! i;
                     count = 1 + length (filter (\<lambda>j. pb ! j = 1 \<and> mp_video_ch p ! j \<noteq> -1 \<and> mp_video_ch p ! j \<noteq> new_ch) [0..<trigin_num p])
                 in (if count > 1 then 4 else new_ch, count));
            st1 = st\<lparr>al_pb := pb, al_playback_ch := ch\<rparr>
        in (st1, (if count = 0 then [All_clear] else []) @
             (if mp_playback_enable p \<noteq> 0 then (if count = 0 then [Stop_playback (mp_net_ch p)] else [Playback ch]) else []))
      else (st, []))"

definition usr_cancel_alarm :: "main_para \<Rightarrow> alarm_env \<Rightarrow> 32 word \<Rightarrow> alarm_state \<Rightarrow> alarm_state \<times> alarm_op list" where
  "usr_cancel_alarm p e trig st =
     (case remote_cancel_alarm_playback p trig st of (st1, ops1) \<Rightarrow>
        case remote_cancel_alarm p e trig st1 of (st2, ops2) \<Rightarrow> (st2, ops1 @ ops2))"

end
