(* ===== verification/Alarm_Props.thy ===== *)
theory Alarm_Props
  imports Alarm
begin

text \<open>
  From terminals to recordings: which inputs make an alarm, what an alarm does to the channels of the recorder, and what
  a reset by the user leaves of it.
\<close>

section \<open>Hours\<close>

text \<open>The hours of an input form an interval of the day's circle of 1440 minutes, with both ends; equal ends are the whole day.\<close>

lemma minutes_between_circle:
  assumes "0 \<le> a" "a < 1440" "0 \<le> b" "b < 1440" "0 \<le> n" "n < 1440"
  shows "minutes_between a b n = (if a = b \<or> (n - a) mod 1440 \<le> (b - a) mod 1440 then 1 else 0)"
proof -
  have m: "(x - a) mod 1440 = (if a \<le> x then x - a else x - a + 1440)" if "0 \<le> x" "x < 1440" for x
  proof (cases "a \<le> x")
    case True
    then show ?thesis using assms that by simp
  next
    case False
    then have "(x - a) mod 1440 = (x - a + 1440) mod 1440" by simp
    also have "\<dots> = x - a + 1440" using False assms that by (intro mod_pos_pos_trivial) simp_all
    finally show ?thesis using False by simp
  qed
  show ?thesis using assms unfolding m [OF assms(5,6)] m [OF assms(3,4)] minutes_between_def by (auto split: if_splits)
qed

section \<open>Well-formed parameters\<close>

definition para_ok :: "main_para \<Rightarrow> bool" where
  "para_ok p = (trigin_num p \<le> 16 \<and> video_num p \<le> 4 \<and> length (mp_trigin p) = 20 \<and> length (mp_motion p) = 10 \<and>
     length (mp_quad_motion p) = 4 \<and> length (mp_enc_enable p) = 4 \<and> length (mp_video_ch p) = 20)"

text \<open>
  An input that makes an alarm: it is active, armed and inside its hours, which are an interval of minutes on the circle of the
  day, from the start to the stop with both; equal ends are the whole day.
\<close>

definition in_hours :: "alarm_trigin \<Rightarrow> alarm_env \<Rightarrow> bool" where
  "in_hours a e =
     (let start = at_starthour a * 60 + at_startmin a; stop = at_endhour a * 60 + at_endmin a; minute = (e_now e + e_tz e) div 60
      in start = stop \<or> (minute - start) mod 1440 \<le> (stop - start) mod 1440)"

definition alarm_input :: "main_para \<Rightarrow> alarm_env \<Rightarrow> 32 word \<Rightarrow> nat \<Rightarrow> bool" where
  "alarm_input p e trig i = (bit trig i \<and> at_setalarm (mp_trigin p ! i) = 1 \<and> in_hours (mp_trigin p ! i) e)"

definition hours_ok :: "main_para \<Rightarrow> bool" where
  "hours_ok p = (\<forall>i < trigin_num p. let a = mp_trigin p ! i in
     0 \<le> at_starthour a \<and> at_starthour a < 24 \<and> 0 \<le> at_startmin a \<and> at_startmin a < 60 \<and>
     0 \<le> at_endhour a \<and> at_endhour a < 24 \<and> 0 \<le> at_endmin a \<and> at_endmin a < 60)"

text \<open>What the code tests.\<close>

definition makes_alarm :: "main_para \<Rightarrow> alarm_env \<Rightarrow> 32 word \<Rightarrow> nat \<Rightarrow> bool" where
  "makes_alarm p e trig i = (bit trig i \<and> at_setalarm (mp_trigin p ! i) = 1 \<and> is_alarm_interval p (e_tz e) (e_now e) 1 (int i) = 1)"

lemma localtime_minute: "tm_hour (localtime tz now) * 60 + tm_min (localtime tz now) = (now + tz) div 60 mod 1440"
proof -
  have "(now + tz) mod 86400 div 3600 * 60 + (now + tz) mod 86400 div 60 mod 60 = (now + tz) div 60 mod 1440"
    (is "?s mod _ div 3600 * 60 + _ = _")
  proof -
    have "?s mod (60 * 1440) = 60 * (?s div 60 mod 1440) + ?s mod 60" by (rule zmod_zmult2_eq) simp
    then have q: "?s mod 86400 div 60 = ?s div 60 mod 1440" by simp
    have "?s mod 86400 div (60 * 60) = ?s mod 86400 div 60 div 60" by (rule zdiv_zmult2_eq) simp
    then have "?s mod 86400 div 3600 = ?s div 60 mod 1440 div 60" using q by simp
    then show ?thesis unfolding q by (simp only: div_mult_mod_eq)
  qed
  then show ?thesis unfolding localtime_def Let_def by (simp only: tm.simps split: prod.split) blast
qed

lemma makes_alarm_iff:
  assumes "hours_ok p" "i < trigin_num p"
  shows "makes_alarm p e trig i = alarm_input p e trig i"
proof -
  let ?a = "mp_trigin p ! i" and ?m = "(e_now e + e_tz e) div 60"
  let ?s = "at_starthour ?a * 60 + at_startmin ?a" and ?t = "at_endhour ?a * 60 + at_endmin ?a"
  have r: "0 \<le> ?s" "?s < 1440" "0 \<le> ?t" "?t < 1440" using assms by (auto simp: hours_ok_def Let_def)
  have "is_alarm_interval p (e_tz e) (e_now e) 1 (int i) = minutes_between ?s ?t (?m mod 1440)"
    using assms(2) by (simp add: is_alarm_interval_def Let_def localtime_minute)
  also have "\<dots> = (if ?s = ?t \<or> (?m mod 1440 - ?s) mod 1440 \<le> (?t - ?s) mod 1440 then 1 else 0)"
    using r by (intro minutes_between_circle) simp_all
  finally show ?thesis by (simp add: makes_alarm_def alarm_input_def in_hours_def Let_def mod_diff_left_eq)
qed

lemma trig_bit_inj: "trig_bit i = trig_bit j \<longleftrightarrow> i = j"
  by (simp add: trig_bit_def)

lemma trig_bit_range: "i < 16 \<Longrightarrow> trig_bit i < 32"
  by (simp add: trig_bit_def)

lemma xor_zero_eq: "a XOR b = 0 \<Longrightarrow> b = a" for a b :: "32 word"
proof (rule bit_word_eqI)
  fix n
  assume "a XOR b = 0"
  then have "bit (a XOR b) n = bit (0 :: 32 word) n" by simp
  then show "bit b n = bit a n" by (simp add: bit_xor_iff)
qed

section \<open>The inputs that make an alarm\<close>

abbreviation (input) scan_inputs :: "main_para \<Rightarrow> alarm_env \<Rightarrow> 32 word \<Rightarrow> 32 word \<Rightarrow> 32 word \<Rightarrow> nat \<Rightarrow> 32 word \<times> alarm_op list" where
  "scan_inputs p e trig oldtrig oldst n \<equiv> fold (trigin_round p e trig oldtrig oldst) [0..<n] (0, [])"

lemma scan_inputs_bits:
  "n \<le> 16 \<Longrightarrow> bit (fst (scan_inputs p e trig oldtrig oldst n)) b \<longleftrightarrow> (\<exists>i < n. b = trig_bit i \<and> makes_alarm p e trig i)"
proof (induction n)
  case (Suc n)
  let ?r = "scan_inputs p e trig oldtrig oldst n"
  have s: "scan_inputs p e trig oldtrig oldst (Suc n) = trigin_round p e trig oldtrig oldst n ?r" by simp
  have f: "fst (trigin_round p e trig oldtrig oldst n ?r) = (if makes_alarm p e trig n then fst ?r OR push_bit (trig_bit n) 1 else fst ?r)"
    by (simp add: trigin_round_def makes_alarm_def split: prod.split)
  have "bit (push_bit (trig_bit n) (1 :: 32 word)) b \<longleftrightarrow> b = trig_bit n"
    using trig_bit_range [of n] Suc.prems by (auto simp: push_bit_eq_mult bit_exp_iff possible_bit_word)
  then show ?case unfolding s f using Suc by (auto simp: bit_or_iff less_Suc_eq)
qed simp

text \<open>What the rounds after it change.\<close>

lemma playback_rounds_keep: "al_trig (fst (fold (playback_round p actual oldst) is (st, c))) = al_trig st"
  by (induction "is" arbitrary: st c) (auto simp: playback_round_def Let_def split: prod.splits)

lemma multi_rounds_keep: "al_trig (fst (fold (multi_round p a reclen actual oldst) is (st, ops))) = al_trig st"
proof (induction "is" arbitrary: st ops)
  case (Cons i "is")
  obtain st' ops' where r: "multi_round p a reclen actual oldst i (st, ops) = (st', ops')" by fastforce
  then have "al_trig st' = al_trig st" by (auto simp: multi_round_def Let_def split: if_splits)
  then show ?case using Cons [of st' ops'] r by simp
qed simp

lemma process_trigin_parts:
  assumes "scan_inputs p e trig oldtrig (al_trig st) (trigin_num p) = (actual, ops1)"
  shows "al_trig (fst (process_trigin_event p e reclen trig oldtrig st)) = actual"
proof -
  have z: "actual = al_trig st" if "al_trig st XOR actual = 0" using that by (rule xor_zero_eq)
  define st1 where "st1 = (if al_trig st XOR actual \<noteq> 0 then st\<lparr>al_trig := actual\<rparr> else st)"
  have s1: "al_trig st1 = actual" using z by (auto simp: st1_def)
  show ?thesis
    using s1 playback_rounds_keep [of p actual "al_trig st" "[0..<trigin_num p]" st1 0]
      multi_rounds_keep [of p "al_trig st1" reclen actual "al_trig st" "[0..<trigin_num p]" st1 "[]"]
    unfolding process_trigin_event_def Let_def assms prod.case st1_def [symmetric] by (auto split: prod.splits)
qed

section \<open>Commands to the recorder\<close>

text \<open>The recorder carries out the commands among the effects, in order.\<close>

fun deliver :: "(string \<Rightarrow> int \<Rightarrow> int) option \<Rightarrow> int \<Rightarrow> alarm_op list \<Rightarrow> hd_enc list \<Rightarrow> hd_enc list option" where
  "deliver ini num [] hds = Some hds"
| "deliver ini num (Hd c # ops) hds = (case process_modsocket_cmd ini num c hds of None \<Rightarrow> None | Some hds' \<Rightarrow> deliver ini num ops hds')"
| "deliver ini num (op # ops) hds = deliver ini num ops hds"

lemma deliver_append: "deliver ini num (a @ b) hds = (case deliver ini num a hds of None \<Rightarrow> None | Some hds' \<Rightarrow> deliver ini num b hds')"
proof (induction a arbitrary: hds)
  case (Cons op a)
  then show ?case by (cases op) (auto split: option.splits)
qed simp

lemma sint_small: "0 \<le> i \<Longrightarrow> i < 2 ^ 31 \<Longrightarrow> sint (word_of_int i :: 32 word) = i"
  by (subst sint_below) (simp_all add: uint_word_of_int)

lemma actions_send_nothing: "Hd c \<notin> set (input_actions p e ch ty i)"
  by (auto simp: input_actions_def take_alarm_action_def Let_def split: if_splits)

text \<open>Commands that ask for a recording, of less than 65536 seconds.\<close>

fun asks :: "alarm_op \<Rightarrow> bool" where
  "asks (Hd (TRIG_RECORD_EVENT ch f l)) = (l < 0x10000)"
| "asks (Hd c) = False"
| "asks op = True"

abbreviation (input) asks_only :: "alarm_op list \<Rightarrow> bool" where
  "asks_only ops \<equiv> list_all asks ops"

lemma asks_no_command: "\<forall>c. op \<noteq> Hd c \<Longrightarrow> asks op"
  by (cases op) simp_all

lemma asks_only_actions: "asks_only (input_actions p e ch ty i)"
  unfolding list_all_iff using actions_send_nothing asks_no_command by metis

lemma asks_send: "0 \<le> l \<Longrightarrow> l < 65536 \<Longrightarrow> asks (send_trig_record_event ch f l)"
  by (simp add: send_trig_record_event_def word_less_def uint_word_of_int)

lemmas asks_intros = asks_only_actions asks_send

lemma scan_inputs_ask: "asks_only (snd (scan_inputs p e trig oldtrig oldst n))"
proof (induction n)
  case (Suc n)
  have "asks_only (snd (trigin_round p e trig oldtrig oldst n r))" if "asks_only (snd r)" for r
    using that by (auto simp: trigin_round_def asks_intros split: prod.splits)
  then show ?case using Suc by simp
qed simp

lemma multi_rounds_ask: "asks_only ops \<Longrightarrow> asks_only (snd (fold (multi_round p a reclen actual oldst) is (st, ops)))"
proof (induction "is" arbitrary: st ops)
  case (Cons i "is")
  obtain st' ops' where r: "multi_round p a reclen actual oldst i (st, ops) = (st', ops')" by fastforce
  have u: "uint reclen < 65536" "0 \<le> uint reclen" using uint_bounded [of reclen] by simp_all
  then have "asks_only ops'" using r Cons.prems by (auto simp: multi_round_def Let_def asks_intros split: if_splits)
  then show ?case using Cons.IH [of ops' st'] r by simp
qed simp

lemma process_trigin_asks: "asks_only (snd (process_trigin_event p e reclen trig oldtrig st))"
proof -
  obtain actual ops1 where s: "scan_inputs p e trig oldtrig (al_trig st) (trigin_num p) = (actual, ops1)" by fastforce
  then have a: "asks_only ops1" using scan_inputs_ask [of p e trig oldtrig "al_trig st" "trigin_num p"] by simp
  have m: "asks_only (snd (fold (multi_round p w reclen actual (al_trig st)) [0..<trigin_num p] (st1, [])))" for w st1
    by (rule multi_rounds_ask) simp
  show ?thesis using a m unfolding process_trigin_event_def Let_def s prod.case
    by (auto simp: asks_intros split: prod.splits) (metis snd_conv)+
qed

text \<open>Nothing but the main branch reports.\<close>

lemma actions_report_nothing: "Report w \<notin> set (input_actions p e ch ty i)"
  by (auto simp: input_actions_def take_alarm_action_def Let_def split: if_splits)

lemma scan_reports: "Report w \<notin> set (snd (scan_inputs p e trig oldtrig oldst n))"
proof (induction n)
  case (Suc n)
  have "Report w \<notin> set (snd (trigin_round p e trig oldtrig oldst n r))" if "Report w \<notin> set (snd r)" for r
    using that actions_report_nothing by (auto simp: trigin_round_def send_trig_record_event_def split: prod.splits)
  then show ?case using Suc by simp
qed simp

lemma multi_rounds_report:
  "Report w \<notin> set ops \<Longrightarrow> Report w \<notin> set (snd (fold (multi_round p a reclen actual oldst) is (st, ops)))"
proof (induction "is" arbitrary: st ops)
  case (Cons i "is")
  obtain st' ops' where r: "multi_round p a reclen actual oldst i (st, ops) = (st', ops')" by fastforce
  then have "Report w \<notin> set ops'" using Cons.prems by (auto simp: multi_round_def Let_def send_trig_record_event_def split: if_splits)
  then show ?case using Cons.IH [of ops' st'] r by simp
qed simp

section \<open>A recording that is asked for\<close>

text \<open>What commands that ask for recordings keep of a channel.\<close>

definition grows :: "hd_enc \<Rightarrow> hd_enc \<Rightarrow> bool" where
  "grows h h' = (hd_enable h' = hd_enable h \<and> hd_dly_rec h' = hd_dly_rec h \<and> hd_recordlen h \<le> hd_recordlen h' \<and>
     (hd_state h = 2 \<longrightarrow> hd_state h' = 2) \<and> (\<forall>b. bit (hd_trig h) b \<longrightarrow> bit (hd_trig h') b))"

lemma grows_refl: "grows h h"
  by (simp add: grows_def)

lemma grows_trans: "grows a b \<Longrightarrow> grows b c \<Longrightarrow> grows a c"
  unfolding grows_def by (elim conjE) (intro conjI, simp_all)

lemma trig_grows: "snd (trig_record_event (Some h) t n) = Some h' \<Longrightarrow> grows h h'"
  by (auto simp: trig_record_event_def grows_def Let_def bit_or_iff split: if_splits)

lemma trig_some: "\<exists>h'. snd (trig_record_event (Some h) t n) = Some h'"
  by (simp add: trig_record_event_def Let_def)

lemma trig_sets:
  assumes "snd (trig_record_event (Some h) t n) = Some h'" "hd_enable h \<noteq> 0" "bit t b" "0 \<le> n"
  shows "hd_state h' = 2 \<and> bit (hd_trig h') b \<and> hd_dly_rec h \<le> hd_recordlen h'"
proof -
  have "t \<noteq> 0" using assms(3) by auto
  moreover have "bit (uint t) b" using assms(3) bit_imp_le_length [OF assms(3)] by (simp add: bit_uint_iff)
  ultimately show ?thesis using assms(1,2,4) by (auto simp: trig_record_event_def Let_def bit_or_iff split: if_splits)
qed

lemma trig_command:
  assumes t: "table_inv hds" and l: "l < 0x10000"
  shows "\<exists>hds'. process_modsocket_cmd ini num (TRIG_RECORD_EVENT ch f l) hds = Some hds' \<and> table_inv hds' \<and> (\<forall>i < 4. grows (hds ! i) (hds' ! i))"
proof -
  have "cmd_ok (TRIG_RECORD_EVENT ch f l)" using l by (simp add: word_less_def)
  then obtain hds' where h: "process_modsocket_cmd ini num (TRIG_RECORD_EVENT ch f l) hds = Some hds'" "table_inv hds'"
    using command_inv [OF t] by blast
  have len: "length hds = 4" using t by (simp add: table_inv_def)
  have "grows (hds ! i) (hds' ! i)" if "i < 4" for i
  proof -
    let ?p = "snd (trig_record_event (get_hdch hds (sint ch)) (ucast f) (sint l))"
    have u: "hds' = upd_ch hds (sint ch) ?p" using h(1) by simp
    show ?thesis
    proof (cases "get_hdch hds (sint ch)")
      case None
      then have "?p = None" by (simp add: trig_record_event_def)
      then have "hds' = hds" using u by (simp add: upd_ch_def)
      then show ?thesis by (simp add: grows_refl)
    next
      case (Some h)
      then have ch: "h = hds ! nat (sint ch)" by (auto simp: get_hdch_def split: if_splits)
      show ?thesis
      proof (cases "i = nat (sint ch) \<and> ?p \<noteq> None")
        case True
        then obtain h' where "?p = Some h'" by blast
        then show ?thesis using True u Some ch trig_grows len that by (simp add: upd_ch_def)
      next
        case False
        then have "hds' ! i = hds ! i" using u by (cases ?p) (auto simp: upd_ch_def)
        then show ?thesis by (simp add: grows_refl)
      qed
    qed
  qed
  then show ?thesis using h by blast
qed

lemma deliver_grows:
  "asks_only ops \<Longrightarrow> table_inv hds \<Longrightarrow>
   \<exists>hds'. deliver ini num ops hds = Some hds' \<and> table_inv hds' \<and> (\<forall>i < 4. grows (hds ! i) (hds' ! i))"
proof (induction ops arbitrary: hds)
  case Nil
  then show ?case by (simp add: grows_refl)
next
  case (Cons op ops)
  have a: "asks_only ops" using Cons.prems(1) by simp
  show ?case
  proof (cases op)
    case (Hd c)
    then obtain ch f l where c: "c = TRIG_RECORD_EVENT ch f l" "l < 0x10000" using Cons.prems(1) by (cases c) simp_all
    obtain hds1 where 1: "process_modsocket_cmd ini num c hds = Some hds1" "table_inv hds1" "\<forall>i < 4. grows (hds ! i) (hds1 ! i)"
      using trig_command [OF Cons.prems(2) c(2)] c(1) by blast
    obtain hds2 where "deliver ini num ops hds1 = Some hds2" "table_inv hds2" "\<forall>i < 4. grows (hds1 ! i) (hds2 ! i)"
      using Cons.IH [OF a 1(2)] by blast
    then show ?thesis using 1 Hd grows_trans by (auto simp del: process_modsocket_cmd.simps)
  qed (use Cons.IH [OF a Cons.prems(2)] in auto)
qed

lemma deliver_ask:
  fixes w :: "32 word"
  assumes a: "asks_only ops" and t: "table_inv hds" and m: "send_trig_record_event (int ch) (sint w) l \<in> set ops" and l: "0 \<le> l" "l < 65536"
    and ch: "ch < 4" "hd_enable (hds ! ch) \<noteq> 0" and b: "bit w b" "b < 16"
  shows "\<exists>hds'. deliver ini num ops hds = Some hds' \<and> table_inv hds' \<and> hd_state (hds' ! ch) = 2 \<and> bit (hd_trig (hds' ! ch)) b \<and>
    hd_dly_rec (hds ! ch) \<le> hd_recordlen (hds' ! ch)"
proof -
  obtain x y where o: "ops = x @ send_trig_record_event (int ch) (sint w) l # y" using m split_list by fast
  let ?c = "TRIG_RECORD_EVENT (word_of_int (int ch)) w (word_of_int l)"
  have c: "send_trig_record_event (int ch) (sint w) l = Hd ?c" by (simp add: send_trig_record_event_def)
  obtain hds1 where 1: "deliver ini num x hds = Some hds1" "table_inv hds1" "\<forall>i < 4. grows (hds ! i) (hds1 ! i)"
    using deliver_grows [OF _ t, of x ini num] a o by auto
  have l2: "(word_of_int l :: 32 word) < 0x10000" using l by (simp add: word_less_def uint_word_of_int)
  obtain hds2 where 2: "process_modsocket_cmd ini num ?c hds1 = Some hds2" "table_inv hds2" using trig_command [OF 1(2) l2] by blast
  obtain hds3 where 3: "deliver ini num y hds2 = Some hds3" "table_inv hds3" "\<forall>i < 4. grows (hds2 ! i) (hds3 ! i)"
    using deliver_grows [OF _ 2(2), of y ini num] a o by auto
  have s: "sint (word_of_nat ch :: 32 word) = int ch" using ch(1) sint_small [of "int ch"] by simp
  have sl: "sint (word_of_int l :: 32 word) = l" using l by (simp add: sint_small)
  have len: "length hds1 = 4" using 1(2) by (simp add: table_inv_def)
  have g: "get_hdch hds1 (int ch) = Some (hds1 ! ch)" using ch(1) by (simp add: get_hdch_def MAX_RECORD_CHANNEL_M_def)
  obtain h' where h': "snd (trig_record_event (Some (hds1 ! ch)) (ucast w) l) = Some h'"
    using trig_some by blast
  then have h2: "hds2 ! ch = h'" using 2(1) len ch(1) by (auto simp: s sl g upd_ch_def)
  have en: "hd_enable (hds1 ! ch) \<noteq> 0" "hd_dly_rec (hds1 ! ch) = hd_dly_rec (hds ! ch)" using 1(3) ch by (simp_all add: grows_def)
  have "bit (ucast w :: 16 word) b" using b by (simp add: bit_ucast_iff)
  from trig_sets [OF h' en(1) this l(1)] have "hd_state (hds2 ! ch) = 2" "bit (hd_trig (hds2 ! ch)) b" "hd_dly_rec (hds ! ch) \<le> hd_recordlen (hds2 ! ch)"
    using h2 en(2) by simp_all
  moreover have "grows (hds2 ! ch) (hds3 ! ch)" using 3(3) ch(1) by blast
  ultimately have "hd_state (hds3 ! ch) = 2 \<and> bit (hd_trig (hds3 ! ch)) b \<and> hd_dly_rec (hds ! ch) \<le> hd_recordlen (hds3 ! ch)"
    by (auto simp: grows_def)
  moreover have "deliver ini num ops hds = Some hds3" using 1(1) 2(1) 3(1) by (simp add: o c deliver_append del: process_modsocket_cmd.simps)
  ultimately show ?thesis using 3(2) by blast
qed

lemma multi_rounds_send:
  "i \<in> set is \<Longrightarrow> bit actual (trig_bit i) \<Longrightarrow> \<not> bit oldst (trig_bit i) \<Longrightarrow> 0 \<le> mp_video_ch p ! i \<Longrightarrow> mp_video_ch p ! i \<le> 4 \<Longrightarrow>
   send_trig_record_event (mp_video_ch p ! i) (sint a) (uint reclen) \<in> set (snd (fold (multi_round p a reclen actual oldst) is (st, ops)))"
proof (induction "is" arbitrary: st ops)
  case (Cons j "is")
  have k: "set (snd r) \<subseteq> set (snd (fold (multi_round p a reclen actual oldst) js r))" for js r
  proof (induction js arbitrary: r)
    case (Cons j js)
    have "set (snd r) \<subseteq> set (snd (multi_round p a reclen actual oldst j r))" by (auto simp: multi_round_def Let_def split: prod.splits)
    then show ?case using Cons.IH [of "multi_round p a reclen actual oldst j r"] by simp
  qed simp
  obtain st' ops' where r: "multi_round p a reclen actual oldst j (st, ops) = (st', ops')" by fastforce
  show ?case
  proof (cases "i = j")
    case True
    then have "send_trig_record_event (mp_video_ch p ! i) (sint a) (uint reclen) \<in> set ops'"
      using r Cons.prems by (auto simp: multi_round_def Let_def)
    then show ?thesis using k [of "(st', ops')" "is"] r by auto
  next
    case False
    then show ?thesis using Cons r by simp
  qed
qed simp

lemma new_alarm_sends:
  assumes p: "para_ok p" and i: "i < trigin_num p" "makes_alarm p e trig i" "\<not> bit (al_trig st) (trig_bit i)"
    and ch: "if mp_multi p = 0 then ch = 0 else mp_video_ch p ! i = int ch \<and> ch \<le> 4"
  shows "\<exists>l. 0 \<le> l \<and> l < 65536 \<and> send_trig_record_event (int ch) (sint (al_trig (fst (process_trigin_event p e reclen trig oldtrig st)))) l
    \<in> set (snd (process_trigin_event p e reclen trig oldtrig st))"
proof -
  obtain actual ops1 where s: "scan_inputs p e trig oldtrig (al_trig st) (trigin_num p) = (actual, ops1)" by fastforce
  have n: "trigin_num p \<le> 16" using p by (simp add: para_ok_def)
  have bit: "bit actual (trig_bit i)" using scan_inputs_bits [OF n, of p e trig oldtrig "al_trig st" "trig_bit i"] s i by auto
  have ne: "actual \<noteq> 0" "al_trig st XOR actual \<noteq> 0" using bit i(3) xor_zero_eq [of "al_trig st" actual] by auto
  note e = process_trigin_parts [OF s, of reclen]
  have u: "0 \<le> uint reclen" "uint reclen < 65536" using uint_bounded [of reclen] by simp_all
  show ?thesis
  proof (cases "mp_multi p = 0")
    case True
    then show ?thesis using ch unfolding e unfolding process_trigin_event_def Let_def s prod.case
      by (intro exI [of _ 0]) (auto simp: ne split: prod.splits)
  next
    case False
    have "send_trig_record_event (mp_video_ch p ! i) (sint actual) (uint reclen)
        \<in> set (snd (fold (multi_round p actual reclen actual (al_trig st)) [0..<trigin_num p] (st\<lparr>al_trig := actual\<rparr>, [])))"
      by (rule multi_rounds_send) (use bit i ch False in simp_all)
    then show ?thesis using False ch u unfolding e unfolding process_trigin_event_def Let_def s prod.case
      by (intro exI [of _ "uint reclen"]) (auto simp: ne split: prod.splits)
  qed
qed

section \<open>Resets\<close>

text \<open>Commands that clear the alarm of an existing channel.\<close>

fun clears :: "alarm_op \<Rightarrow> bool" where
  "clears (Hd (CLEAR_TRIG_FLAG ch)) = (ch < 4)"
| "clears (Hd c) = False"
| "clears op = True"

lemma clear_command:
  assumes t: "table_inv hds" and v: "v < 4"
  shows "process_modsocket_cmd ini num (CLEAR_TRIG_FLAG (word_of_nat v)) hds =
      Some (hds[v := the (clear_hdmod_trig_flag (Some (hds ! v)))]) \<and> table_inv (hds[v := the (clear_hdmod_trig_flag (Some (hds ! v)))])"
proof -
  have s: "sint (word_of_nat v :: 32 word) = int v" using v sint_small [of "int v"] by simp
  have g: "get_hdch hds (int v) = Some (hds ! v)" using v by (simp add: get_hdch_def MAX_RECORD_CHANNEL_M_def)
  have u: "uint (word_of_nat v :: 32 word) = int v" using v by (simp add: unsigned_of_nat take_bit_nat_eq_self)
  obtain h' where h': "clear_hdmod_trig_flag (Some (hds ! v)) = Some h'" by (simp add: clear_hdmod_trig_flag_def Let_def)
  then have p: "process_modsocket_cmd ini num (CLEAR_TRIG_FLAG (word_of_nat v)) hds = Some (hds[v := h'])" using s g by simp
  have "cmd_ok (CLEAR_TRIG_FLAG (word_of_nat v))" using u v by (simp add: word_less_def)
  then have "table_inv (hds[v := h'])" using command_inv [OF t, of "CLEAR_TRIG_FLAG (word_of_nat v)" ini num] p by auto
  then show ?thesis using p h' by simp
qed

lemma cleared: "hd_trig (the (clear_hdmod_trig_flag (Some h))) = 0" "hd_recordlen (the (clear_hdmod_trig_flag (Some h))) = 0"
  by (simp_all add: clear_hdmod_trig_flag_def Let_def)

lemma deliver_clears:
  "list_all clears ops \<Longrightarrow> table_inv hds \<Longrightarrow>
   \<exists>hds'. deliver ini num ops hds = Some hds' \<and> table_inv hds' \<and>
     (\<forall>v < 4. if Hd (CLEAR_TRIG_FLAG (word_of_nat v)) \<in> set ops then hd_trig (hds' ! v) = 0 \<and> hd_recordlen (hds' ! v) = 0 else hds' ! v = hds ! v)"
proof (induction ops arbitrary: hds)
  case (Cons op ops)
  show ?case
  proof (cases op)
    case (Hd c)
    then obtain w where w: "c = CLEAR_TRIG_FLAG w" "w < 4" using Cons.prems(1) by (cases c) simp_all
    define v where "v = unat w"
    have v: "v < 4" "w = word_of_nat v" using w(2) by (simp_all add: v_def word_less_nat_alt)
    let ?hds1 = "hds[v := the (clear_hdmod_trig_flag (Some (hds ! v)))]"
    note c = clear_command [OF Cons.prems(2) v(1), of ini num]
    have l: "length hds = 4" using Cons.prems(2) by (simp add: table_inv_def)
    obtain hds2 where 2: "deliver ini num ops ?hds1 = Some hds2" "table_inv hds2"
        "\<forall>u < 4. if Hd (CLEAR_TRIG_FLAG (word_of_nat u)) \<in> set ops then hd_trig (hds2 ! u) = 0 \<and> hd_recordlen (hds2 ! u) = 0 else hds2 ! u = ?hds1 ! u"
      using Cons.IH [of ?hds1] c Cons.prems(1) by auto
    have inj: "(word_of_nat u :: 32 word) = word_of_nat v \<longleftrightarrow> u = v" if "u < 4" for u
      using that v(1) by (auto dest: arg_cong [where f = unat] simp: unat_of_nat take_bit_nat_eq_self)
    have "if Hd (CLEAR_TRIG_FLAG (word_of_nat u)) \<in> set (op # ops) then hd_trig (hds2 ! u) = 0 \<and> hd_recordlen (hds2 ! u) = 0 else hds2 ! u = hds ! u"
      if u: "u < 4" for u
      using spec [OF 2(3), of u] u inj [OF u] cleared l v(1) by (auto simp: Hd w(1) v(2) split: if_splits)
    moreover have "deliver ini num (op # ops) hds = Some hds2" using c 2(1) by (simp add: Hd w(1) v(2) del: process_modsocket_cmd.simps)
    ultimately show ?thesis using 2(2) by blast
  qed (use Cons in auto)
qed simp

text \<open>The loop over the inputs that are reset, after \<open>m\<close> rounds.\<close>

abbreviation (input) cancel_inputs :: "main_para \<Rightarrow> 32 word \<Rightarrow> int list \<Rightarrow> nat \<Rightarrow> int list \<times> alarm_op list" where
  "cancel_inputs p trig pb m \<equiv> fold (cancel_round p trig) [0..<m] (pb, [])"

lemma cancel_inputs_pb:
  "m \<le> length pb \<Longrightarrow> fst (cancel_inputs p trig pb m) = map (\<lambda>j. if j < m \<and> bit trig (trig_bit j) then 0 else pb ! j) [0..<length pb]"
proof (induction m)
  case 0
  then show ?case by (simp add: map_nth)
next
  case (Suc m)
  let ?r = "cancel_inputs p trig pb m"
  have f: "fst (cancel_round p trig m ?r) = (if bit trig (trig_bit m) then (fst ?r)[m := 0] else fst ?r)"
    by (simp add: cancel_round_def Let_def split: prod.split)
  show ?case using Suc by (simp add: f) (auto intro!: nth_equalityI simp: nth_list_update less_Suc_eq)
qed

definition still_pending :: "main_para \<Rightarrow> 32 word \<Rightarrow> int list \<Rightarrow> nat \<Rightarrow> int \<Rightarrow> bool" where
  "still_pending p trig pb m v =
     (\<exists>j < trigin_num p. \<not> (j < m \<and> bit trig (trig_bit j)) \<and> pb ! j = 1 \<and> mp_video_ch p ! j = v)"

lemma cancel_inputs_ops:
  "m \<le> trigin_num p \<Longrightarrow> trigin_num p \<le> length pb \<Longrightarrow>
   set (snd (cancel_inputs p trig pb m)) =
     {send_clear_trig_flag (mp_video_ch p ! i) | i. i < m \<and> bit trig (trig_bit i) \<and> \<not> still_pending p trig pb (Suc i) (mp_video_ch p ! i)}"
proof (induction m)
  case (Suc m)
  let ?r = "cancel_inputs p trig pb m" and ?v = "mp_video_ch p ! m"
  have pb: "fst ?r = map (\<lambda>j. if j < m \<and> bit trig (trig_bit j) then 0 else pb ! j) [0..<length pb]" using cancel_inputs_pb Suc.prems by simp
  have tag: "list_ex (\<lambda>j. (fst ?r)[m := 0] ! j = 1 \<and> mp_video_ch p ! j = ?v) [0..<trigin_num p] = still_pending p trig pb (Suc m) ?v"
    if "bit trig (trig_bit m)"
    using that Suc.prems unfolding pb still_pending_def list_ex_iff by (auto simp: nth_list_update less_Suc_eq split: if_splits)
  have "set (snd (cancel_round p trig m ?r)) = set (snd ?r) \<union>
      (if bit trig (trig_bit m) \<and> \<not> still_pending p trig pb (Suc m) ?v then {send_clear_trig_flag ?v} else {})"
    using tag by (auto simp: cancel_round_def Let_def split: prod.split)
  then show ?case using Suc by (auto simp: less_Suc_eq)
qed simp

lemma last_reset_clears:
  assumes "i < trigin_num p" "bit trig (trig_bit i)" "mp_video_ch p ! i = v"
  shows "(\<exists>j < trigin_num p. bit trig (trig_bit j) \<and> mp_video_ch p ! j = v \<and> \<not> still_pending p trig pb (Suc j) v) \<longleftrightarrow>
    \<not> still_pending p trig pb (trigin_num p) v"
proof
  assume "\<exists>j < trigin_num p. bit trig (trig_bit j) \<and> mp_video_ch p ! j = v \<and> \<not> still_pending p trig pb (Suc j) v"
  then show "\<not> still_pending p trig pb (trigin_num p) v" by (auto simp: still_pending_def)
next
  assume n: "\<not> still_pending p trig pb (trigin_num p) v"
  let ?S = "{j. j < trigin_num p \<and> bit trig (trig_bit j) \<and> mp_video_ch p ! j = v}"
  have S: "finite ?S" "?S \<noteq> {}" using assms by auto
  have m: "Max ?S \<in> ?S" using S by (rule Max_in)
  have "\<not> still_pending p trig pb (Suc (Max ?S)) v"
  proof
    assume "still_pending p trig pb (Suc (Max ?S)) v"
    then obtain j where j: "j < trigin_num p" "\<not> (j < Suc (Max ?S) \<and> bit trig (trig_bit j))" "pb ! j = 1" "mp_video_ch p ! j = v"
      by (auto simp: still_pending_def)
    then have "bit trig (trig_bit j)" using n by (auto simp: still_pending_def)
    then have "j \<le> Max ?S" using j S by (intro Max_ge) simp_all
    then show False using j(2) \<open>bit trig (trig_bit j)\<close> by simp
  qed
  then show "\<exists>j < trigin_num p. bit trig (trig_bit j) \<and> mp_video_ch p ! j = v \<and> \<not> still_pending p trig pb (Suc j) v" using m by blast
qed

lemma reset_pending:
  assumes "para_ok p" "mp_multi p \<noteq> 0" "length (al_pb st) = 20" "remote_cancel_alarm p e trig st = (st', ops)"
  shows "al_pb st' = map (\<lambda>j. if j < trigin_num p \<and> bit trig (trig_bit j) then 0 else al_pb st ! j) [0..<20]"
proof -
  have n: "trigin_num p \<le> length (al_pb st)" using assms(1,3) by (simp add: para_ok_def)
  have "al_pb st' = fst (cancel_inputs p trig (al_pb st) (trigin_num p))"
    using assms(2,4) by (auto simp: remote_cancel_alarm_def Let_def split: prod.splits)
  then show ?thesis using cancel_inputs_pb [OF n] assms(3) by simp
qed

lemma reset_commands:
  assumes p: "para_ok p" "mp_multi p \<noteq> 0" and l: "length (al_pb st) = 20" and r: "remote_cancel_alarm p e trig st = (st', ops)"
  shows "Hd c \<in> set ops \<longleftrightarrow> (\<exists>i < trigin_num p. bit trig (trig_bit i) \<and> Hd c = send_clear_trig_flag (mp_video_ch p ! i) \<and>
      \<not> (\<exists>j < trigin_num p. al_pb st' ! j = 1 \<and> mp_video_ch p ! j = mp_video_ch p ! i))"
proof -
  have n: "trigin_num p \<le> length (al_pb st)" using p l by (simp add: para_ok_def)
  let ?r = "cancel_inputs p trig (al_pb st) (trigin_num p)"
  have ops: "Hd c \<in> set ops \<longleftrightarrow> Hd c \<in> set (snd ?r)"
    using r p(2) actions_send_nothing by (auto simp: remote_cancel_alarm_def Let_def split: prod.splits if_splits)
  have sp: "still_pending p trig (al_pb st) (trigin_num p) v \<longleftrightarrow> (\<exists>j < trigin_num p. al_pb st' ! j = 1 \<and> mp_video_ch p ! j = v)" for v
    unfolding reset_pending [OF p l r] still_pending_def using n l by (auto split: if_splits)
  have "Hd c \<in> set (snd ?r) \<longleftrightarrow> (\<exists>v. Hd c = send_clear_trig_flag v \<and>
      (\<exists>i < trigin_num p. bit trig (trig_bit i) \<and> mp_video_ch p ! i = v \<and> \<not> still_pending p trig (al_pb st) (Suc i) v))"
    unfolding cancel_inputs_ops [OF order_refl n] by auto
  also have "\<dots> \<longleftrightarrow> (\<exists>v. Hd c = send_clear_trig_flag v \<and> (\<exists>i < trigin_num p. bit trig (trig_bit i) \<and> mp_video_ch p ! i = v) \<and>
      \<not> still_pending p trig (al_pb st) (trigin_num p) v)"
    using last_reset_clears [of _ p trig _ "al_pb st"] by metis
  finally show ?thesis unfolding ops sp by metis
qed

section \<open>Properties\<close>

lemma alarm_round:
  assumes p: "para_ok p" and r: "process_trigin_event p e reclen trig oldtrig st = (st', ops)"
  shows "bit (al_trig st') b \<longleftrightarrow> (\<exists>i < trigin_num p. b = trig_bit i \<and> makes_alarm p e trig i)"
    "Report w \<in> set ops \<longleftrightarrow> w = al_trig st' \<and> w \<noteq> 0 \<and> w \<noteq> al_trig st"
proof -
  obtain actual ops1 where s: "scan_inputs p e trig oldtrig (al_trig st) (trigin_num p) = (actual, ops1)" by fastforce
  have n: "trigin_num p \<le> 16" using p by (simp add: para_ok_def)
  have a: "al_trig st' = actual" using process_trigin_parts [OF s, of reclen] r by simp
  have x: "al_trig st XOR actual = 0 \<longleftrightarrow> actual = al_trig st" using xor_zero_eq by fastforce
  show "bit (al_trig st') b \<longleftrightarrow> (\<exists>i < trigin_num p. b = trig_bit i \<and> makes_alarm p e trig i)"
    unfolding a using scan_inputs_bits [OF n, of p e trig oldtrig "al_trig st" b] s by simp
  have 1: "Report w \<notin> set ops1" using scan_reports [of w p e trig oldtrig "al_trig st" "trigin_num p"] s by simp
  have 2: "Report w \<notin> set (snd (fold (multi_round p v reclen actual (al_trig st)) [0..<trigin_num p] (st1, [])))" for v st1
    by (rule multi_rounds_report) simp
  show "Report w \<in> set ops \<longleftrightarrow> w = al_trig st' \<and> w \<noteq> 0 \<and> w \<noteq> al_trig st"
    unfolding a using r 1 2 [of actual "st\<lparr>al_trig := actual\<rparr>"] unfolding process_trigin_event_def Let_def s prod.case
    by (auto simp: x send_trig_record_event_def split: prod.splits if_splits)
qed

text \<open>
  C16. Which inputs make an alarm. After every round of the main process the alarm state has exactly the bits of the inputs that are
  active, armed and inside their hours, whatever it was before; hours are given as times of the day and taken as minutes on
  the day's circle, with both ends, equal ends for the whole day. When an input newly makes an alarm the state is
  reported, and nothing is reported when no input makes an alarm or the state is the one of the last round.
\<close>

theorem alarm_inputs_exact:
  assumes p: "para_ok p" "hours_ok p" and r: "process_trigin_event p e reclen trig oldtrig st = (st', ops)"
  shows "(bit (al_trig st') b \<longleftrightarrow> (\<exists>i < trigin_num p. b = trig_bit i \<and> alarm_input p e trig i)) \<and>
    ((\<exists>i < trigin_num p. alarm_input p e trig i \<and> \<not> bit (al_trig st) (trig_bit i)) \<longrightarrow> Report (al_trig st') \<in> set ops) \<and>
    (Report w \<in> set ops \<longrightarrow> w = al_trig st' \<and> (\<exists>i < trigin_num p. alarm_input p e trig i) \<and> al_trig st' \<noteq> al_trig st)"
proof -
  note R = alarm_round [OF p(1) r]
  have b: "bit (al_trig st') b \<longleftrightarrow> (\<exists>i < trigin_num p. b = trig_bit i \<and> alarm_input p e trig i)" for b
    unfolding R(1) using makes_alarm_iff [OF p(2)] by blast
  have z: "al_trig st' = 0 \<longleftrightarrow> \<not> (\<exists>i < trigin_num p. alarm_input p e trig i)"
  proof
    assume "al_trig st' = 0"
    then show "\<not> (\<exists>i < trigin_num p. alarm_input p e trig i)" using b by (metis bit_0_eq bot_apply bot_bool_def)
  next
    assume "\<not> (\<exists>i < trigin_num p. alarm_input p e trig i)"
    then show "al_trig st' = 0" using b by (intro bit_word_eqI) simp
  qed
  have new: "Report (al_trig st') \<in> set ops" if "i < trigin_num p" "alarm_input p e trig i" "\<not> bit (al_trig st) (trig_bit i)" for i
  proof -
    have "bit (al_trig st') (trig_bit i)" using b that by blast
    then have "al_trig st' \<noteq> al_trig st" using that(3) by metis
    then show ?thesis using R(2) z that by blast
  qed
  have quiet: "w = al_trig st' \<and> (\<exists>i < trigin_num p. alarm_input p e trig i) \<and> al_trig st' \<noteq> al_trig st" if "Report w \<in> set ops"
  proof -
    have "w = al_trig st'" "al_trig st' \<noteq> 0" "al_trig st' \<noteq> al_trig st" using R(2) [of w] that by auto
    then show ?thesis using z by simp
  qed
  show ?thesis by (rule conjI [OF b conjI], use new in blast, rule impI, rule quiet)
qed

text \<open>
  A report is also sent when an input is released while another still makes an alarm, although no input is new.
\<close>

lemma release_is_reported:
  assumes "para_ok p" "process_trigin_event p e reclen trig oldtrig st = (st', ops)" "al_trig st' \<noteq> 0" "al_trig st' \<noteq> al_trig st"
  shows "Report (al_trig st') \<in> set ops"
  using alarm_round(2) [OF assms(1,2)] assms(3,4) by blast

text \<open>Example: a device with six terminals, all armed all day, each with the channel of its number modulo four.\<close>

definition sample_trigin :: alarm_trigin where
  "sample_trigin = \<lparr>at_enable = 1, at_setalarm = 1, at_imact = [2, 40, 0, 0, 0, 0, 0, 0, 0, 0], at_ackact = replicate 10 0,
     at_rstact = [1, 0, 0, 0, 0, 0, 0, 0, 0, 0], at_starthour = 0, at_startmin = 0, at_endhour = 0, at_endmin = 0\<rparr>"

definition sample_para :: "int \<Rightarrow> main_para" where
  "sample_para multi = \<lparr>trigin_num = 6, video_num = 4, mp_trigin = replicate 20 sample_trigin, mp_motion = replicate 10 sample_trigin,
     mp_quad_motion = replicate 4 \<lparr>mo_alarm = 1, mo_starthour = 0, mo_startmin = 0, mo_endhour = 0, mo_endmin = 0\<rparr>,
     mp_enc_enable = replicate 4 1, mp_playback_enable = 1, mp_video_ch = map (\<lambda>i. i mod 4) [0..19], mp_multi = multi, mp_net_ch = 0\<rparr>"

definition sample_aenv :: alarm_env where
  "sample_aenv = \<lparr>e_tz = 28800, e_now = 86400, e_quad = 0, e_playing = 0\<rparr>"

definition quiet_state :: alarm_state where
  "quiet_state = \<lparr>al_trig = 0, al_pb = replicate 20 0, al_playback_ch = -1\<rparr>"

lemma sample_para_ok: "para_ok (sample_para m)"
  by (simp add: para_ok_def sample_para_def)

lemma sample_hours_ok: "hours_ok (sample_para m)"
  by (simp add: hours_ok_def sample_para_def sample_trigin_def Let_def)

lemma sample_alarm_input: "bit trig i \<Longrightarrow> i < 6 \<Longrightarrow> alarm_input (sample_para m) sample_aenv trig i"
  by (simp add: alarm_input_def sample_para_def sample_trigin_def in_hours_def Let_def)

theorem alarm_inputs_exact_witness:
  "para_ok (sample_para 0) \<and> bit (al_trig (fst (process_trigin_event (sample_para 0) sample_aenv 0 5 0 quiet_state))) 2"
proof -
  obtain st' ops where r: "process_trigin_event (sample_para 0) sample_aenv 0 5 0 quiet_state = (st', ops)" by fastforce
  have b: "bit (5 :: 32 word) 2" by (simp add: bit_numeral_rec)
  have "trigin_num (sample_para 0) = 6" by (simp add: sample_para_def)
  then have "bit (al_trig st') 2"
    using alarm_inputs_exact [OF sample_para_ok sample_hours_ok r, of 2 0] sample_alarm_input [OF b, of 0] by (auto intro!: exI [of _ 2] simp: trig_bit_def)
  then show ?thesis using r sample_para_ok by simp
qed

text \<open>
  The cameras have their bits in the same state (\<open>video_motion_detected\<close>), which the terminals' round overwrites: after it no motion
  alarm is on record, and the next motion of the same camera counts as a new alarm.
\<close>

lemma motion_alarms_forgotten:
  assumes "para_ok p" "10 \<le> b" "b < 26"
  shows "\<not> bit (al_trig (fst (process_trigin_event p e reclen trig oldtrig st))) b"
proof -
  obtain actual ops1 where s: "scan_inputs p e trig oldtrig (al_trig st) (trigin_num p) = (actual, ops1)" by fastforce
  have "b \<noteq> trig_bit i" for i using assms(2,3) by (simp add: trig_bit_def)
  then show ?thesis using process_trigin_parts [OF s, of reclen] scan_inputs_bits [of "trigin_num p" p e trig oldtrig "al_trig st" b] s assms(1)
    by (simp add: para_ok_def)
qed

text \<open>
  C17. An alarm is recorded. When one of the first ten inputs newly makes an alarm, its channel is one of the recorder's four (channel 0 when the device uses
  a single channel) and that channel is enabled, the commands the main process sends leave every channel of the recorder
  well-formed, and the input's channel in state 2 with the input's bit among its trigger bits and with at least its
  configured time to record. (The later inputs have no bit among the trigger bits, \<open>high_inputs_not_recorded\<close>.)
\<close>

theorem alarm_is_recorded:
  assumes p: "para_ok p" "hours_ok p" and i: "i < trigin_num p" "i < 10" "alarm_input p e trig i" "\<not> bit (al_trig st) (trig_bit i)"
    and ch: "if mp_multi p = 0 then ch = 0 else mp_video_ch p ! i = int ch" "ch < 4"
    and t: "table_inv hds" "hd_enable (hds ! ch) \<noteq> 0"
  shows "\<exists>hds'. deliver ini num (snd (process_trigin_event p e reclen trig oldtrig st)) hds = Some hds' \<and> table_inv hds' \<and>
    hd_state (hds' ! ch) = 2 \<and> bit (hd_trig (hds' ! ch)) i \<and> hd_dly_rec (hds ! ch) \<le> hd_recordlen (hds' ! ch)"
proof -
  let ?r = "process_trigin_event p e reclen trig oldtrig st"
  have n: "trigin_num p \<le> 16" using p(1) by (simp add: para_ok_def)
  have m: "makes_alarm p e trig i" using makes_alarm_iff [OF p(2) i(1)] i(3) by simp
  obtain actual ops1 where s: "scan_inputs p e trig oldtrig (al_trig st) (trigin_num p) = (actual, ops1)" by fastforce
  have "bit (al_trig (fst ?r)) (trig_bit i)"
    using process_trigin_parts [OF s, of reclen] scan_inputs_bits [OF n, of p e trig oldtrig "al_trig st" "trig_bit i"] s i m by auto
  then have b: "bit (al_trig (fst ?r)) i" using i(2) by (simp add: trig_bit_def)
  have c: "if mp_multi p = 0 then ch = 0 else mp_video_ch p ! i = int ch \<and> ch \<le> 4" using ch by (auto split: if_splits)
  obtain l where l: "0 \<le> l" "l < 65536" "send_trig_record_event (int ch) (sint (al_trig (fst ?r))) l \<in> set (snd ?r)"
    using new_alarm_sends [OF p(1) i(1) m i(4) c, of reclen oldtrig] by blast
  show ?thesis
    by (rule deliver_ask [OF process_trigin_asks t(1) l(3,1,2) ch(2) t(2) b]) (use i(2) in simp)
qed

theorem alarm_is_recorded_witness:
  "\<exists>hds'. deliver None 1 (snd (process_trigin_event (sample_para 1) sample_aenv 7 8 0 quiet_state)) sample_table = Some hds' \<and>
     hd_state (hds' ! 3) = 2 \<and> bit (hd_trig (hds' ! 3)) 3"
proof -
  have b: "bit (8 :: 32 word) 3" by (simp add: bit_numeral_rec)
  have p: "3 < trigin_num (sample_para 1)" "mp_multi (sample_para 1) \<noteq> 0" "mp_video_ch (sample_para 1) ! 3 = int 3"
    by (simp_all add: sample_para_def)
  have "hd_enable (sample_table ! 3) \<noteq> 0" by (simp add: sample_table_def sample_hd_def)
  then show ?thesis
    using alarm_is_recorded [OF sample_para_ok sample_hours_ok p(1) _ sample_alarm_input [OF b] _ _ _ sample_table_inv, of quiet_state 3 None 1 7 0] p
    by (auto simp: quiet_state_def)
qed

text \<open>
  The inputs from the eleventh on have bits above 16, which the recorder's 16 bits of trigger flags lose: their alarm does nothing to a channel that
  records continuously.
\<close>

lemma high_inputs_not_recorded:
  assumes "\<forall>b < 16. \<not> bit w b" "get_hdch hds (sint ch) = Some h" "hd_rec_type h = 0"
  shows "process_modsocket_cmd ini num (TRIG_RECORD_EVENT ch w l) hds = Some hds"
proof -
  have "(ucast w :: 16 word) = 0" by (rule bit_word_eqI) (use assms(1) in \<open>simp add: bit_ucast_iff\<close>)
  moreover have "hds[nat (sint ch) := h] = hds" using assms(2) by (auto simp: get_hdch_def split: if_splits)
  ultimately show ?thesis using assms(2,3) by (simp add: trig_record_event_def upd_ch_def)
qed

text \<open>
  C18. A reset clears the right channels. On a device with several channels, whose inputs have channels 0 to 3, when a user resets some inputs,
  these inputs are no longer pending and the others stay as they were; and the recorder ends the alarm of exactly the channels of the inputs that
  are reset, unless an input of the channel that is not reset was pending; every other channel stays as it was.
\<close>

theorem alarm_reset_clears_channels:
  assumes p: "para_ok p" "mp_multi p \<noteq> 0" "\<forall>i < trigin_num p. 0 \<le> mp_video_ch p ! i \<and> mp_video_ch p ! i < 4"
    and st: "length (al_pb st) = 20" and r: "remote_cancel_alarm p e trig st = (st', ops)" and t: "table_inv hds"
  shows "\<exists>hds'. deliver ini num ops hds = Some hds' \<and> table_inv hds' \<and>
    (\<forall>v < 4. if (\<exists>i < trigin_num p. bit trig (trig_bit i) \<and> mp_video_ch p ! i = int v) \<and>
                 \<not> (\<exists>j < trigin_num p. al_pb st ! j = 1 \<and> \<not> bit trig (trig_bit j) \<and> mp_video_ch p ! j = int v)
      then hd_trig (hds' ! v) = 0 \<and> hd_recordlen (hds' ! v) = 0 else hds' ! v = hds ! v) \<and>
    al_pb st' = map (\<lambda>j. if j < trigin_num p \<and> bit trig (trig_bit j) then 0 else al_pb st ! j) [0..<20]"
proof -
  note R = reset_commands [OF p(1,2) st r] and P = reset_pending [OF p(1,2) st r]
  have n: "trigin_num p \<le> 20" using p(1) by (simp add: para_ok_def)
  have pend: "(\<exists>j < trigin_num p. al_pb st' ! j = 1 \<and> mp_video_ch p ! j = v) \<longleftrightarrow>
      (\<exists>j < trigin_num p. al_pb st ! j = 1 \<and> \<not> bit trig (trig_bit j) \<and> mp_video_ch p ! j = v)" for v
    unfolding P using n by (auto split: if_splits)
  have w: "(word_of_int a :: 32 word) = word_of_int b \<longleftrightarrow> a = b" if "0 \<le> a" "a < 4" "0 \<le> b" "b < 4" for a b
  proof
    assume "(word_of_int a :: 32 word) = word_of_int b"
    then have "sint (word_of_int a :: 32 word) = sint (word_of_int b :: 32 word)" by simp
    then show "a = b" using sint_small [of a] sint_small [of b] that by simp
  qed simp
  have c: "list_all clears ops" unfolding list_all_iff
  proof
    fix op
    assume "op \<in> set ops"
    show "clears op"
    proof (cases op)
      case (Hd c)
      then obtain i where i: "i < trigin_num p" "Hd c = send_clear_trig_flag (mp_video_ch p ! i)" using R [of c] \<open>op \<in> set ops\<close> by blast
      then show ?thesis using Hd p(3) by (auto simp: send_clear_trig_flag_def word_less_def uint_word_of_int)
    qed simp_all
  qed
  obtain hds' where h: "deliver ini num ops hds = Some hds'" "table_inv hds'"
      "\<forall>v < 4. if Hd (CLEAR_TRIG_FLAG (word_of_nat v)) \<in> set ops then hd_trig (hds' ! v) = 0 \<and> hd_recordlen (hds' ! v) = 0 else hds' ! v = hds ! v"
    using deliver_clears [OF c t] by blast
  have "Hd (CLEAR_TRIG_FLAG (word_of_nat v)) \<in> set ops \<longleftrightarrow> (\<exists>i < trigin_num p. bit trig (trig_bit i) \<and> mp_video_ch p ! i = int v) \<and>
      \<not> (\<exists>j < trigin_num p. al_pb st ! j = 1 \<and> \<not> bit trig (trig_bit j) \<and> mp_video_ch p ! j = int v)" if v: "v < 4" for v
  proof -
    have "(Hd (CLEAR_TRIG_FLAG (word_of_nat v)) = send_clear_trig_flag (mp_video_ch p ! i)) = (mp_video_ch p ! i = int v)" if "i < trigin_num p" for i
      using w [of "int v" "mp_video_ch p ! i"] v p(3) that by (auto simp: send_clear_trig_flag_def)
    then show ?thesis unfolding R pend by (intro iffI; elim exE conjE; intro exI conjI) (auto simp del: split_paired_Ex)
  qed
  then show ?thesis using h P by (intro exI [of _ hds']) simp
qed

theorem alarm_reset_clears_channels_witness:
  "\<exists>hds'. deliver None 1 (snd (remote_cancel_alarm (sample_para 1) sample_aenv 2 (quiet_state\<lparr>al_pb := (replicate 20 0)[1 := 1]\<rparr>))) sample_table = Some hds' \<and>
     hd_trig (hds' ! 1) = 0 \<and> hds' ! 0 = sample_table ! 0"
proof -
  let ?p = "sample_para 1" and ?st = "quiet_state\<lparr>al_pb := (replicate 20 0)[1 := 1]\<rparr>"
  obtain st' ops where r: "remote_cancel_alarm ?p sample_aenv 2 ?st = (st', ops)" by fastforce
  have ch: "\<forall>i < 6. mp_video_ch ?p ! i = int (i mod 4)" by code_simp
  have n: "trigin_num ?p = 6" "mp_multi ?p \<noteq> 0" by (simp_all add: sample_para_def)
  then have ok: "\<forall>i < trigin_num ?p. 0 \<le> mp_video_ch ?p ! i \<and> mp_video_ch ?p ! i < 4" using ch by simp
  have l: "length (al_pb ?st) = 20" by (simp add: quiet_state_def)
  have b: "bit (2 :: 32 word) (trig_bit i) \<longleftrightarrow> i = 1" for i by (auto simp: trig_bit_def bit_numeral_rec bit_1_iff split: nat.splits)
  have pb: "\<not> (\<exists>j < trigin_num ?p. al_pb ?st ! j = 1 \<and> \<not> bit (2 :: 32 word) (trig_bit j) \<and> mp_video_ch ?p ! j = int v)" for v
  proof -
    have "al_pb ?st ! j = 0" if "j < 6" "j \<noteq> 1" for j using that by (simp add: quiet_state_def)
    then show ?thesis using n(1) unfolding b by auto
  qed
  obtain hds' where "deliver None 1 ops sample_table = Some hds'"
      "\<forall>v < 4. if (\<exists>i < trigin_num ?p. bit (2 :: 32 word) (trig_bit i) \<and> mp_video_ch ?p ! i = int v) \<and>
                 \<not> (\<exists>j < trigin_num ?p. al_pb ?st ! j = 1 \<and> \<not> bit (2 :: 32 word) (trig_bit j) \<and> mp_video_ch ?p ! j = int v)
      then hd_trig (hds' ! v) = 0 \<and> hd_recordlen (hds' ! v) = 0 else hds' ! v = sample_table ! v"
    using alarm_reset_clears_channels [OF sample_para_ok n(2) ok l r sample_table_inv, of None 1] by blast
  moreover have "\<exists>i < trigin_num ?p. bit (2 :: 32 word) (trig_bit i) \<and> mp_video_ch ?p ! i = int 1" using n(1) b ch by (intro exI [of _ 1]) simp
  moreover have "\<not> (\<exists>i < trigin_num ?p. bit (2 :: 32 word) (trig_bit i) \<and> mp_video_ch ?p ! i = int 0)" using n(1) b ch by auto
  moreover have "(0 :: nat) < 4" "(1 :: nat) < 4" by simp_all
  ultimately have "hd_trig (hds' ! 1) = 0" "hds' ! 0 = sample_table ! 0" using pb by (metis (no_types, lifting))+
  then show ?thesis using r \<open>deliver None 1 ops sample_table = Some hds'\<close> by simp
qed

text \<open>
  An input that has no channel (the number in the configuration is -1 by default) makes the reset follow a null pointer in the recorder.
\<close>

lemma reset_without_channel:
  assumes p: "para_ok p" "mp_multi p \<noteq> 0" and st: "length (al_pb st) = 20" and r: "remote_cancel_alarm p e trig st = (st', ops)"
    and i: "i < trigin_num p" "bit trig (trig_bit i)" "mp_video_ch p ! i = -1"
    and j: "\<forall>j < trigin_num p. al_pb st' ! j = 1 \<longrightarrow> mp_video_ch p ! j \<noteq> -1"
  shows "deliver ini num ops hds = None"
proof -
  have "Hd (CLEAR_TRIG_FLAG (-1)) \<in> set ops"
    unfolding reset_commands [OF p st r] using i j by (intro exI [of _ i]) (auto simp: send_clear_trig_flag_def)
  then obtain a b where o: "ops = a @ Hd (CLEAR_TRIG_FLAG (-1)) # b" using split_list by fast
  have "process_modsocket_cmd ini num (CLEAR_TRIG_FLAG (-1)) hds = None" for hds
    by (simp add: get_hdch_def clear_hdmod_trig_flag_def)
  then show ?thesis by (simp add: o deliver_append del: process_modsocket_cmd.simps split: option.split)
qed

text \<open>
  The channel that is played back after a reset, when one screen is shared: none, the only channel that is pending, or all of them (4).
\<close>

lemma playback_after_reset:
  assumes p: "para_ok p" "mp_multi p = 0" and st: "length (al_pb st) = 20" and r: "remote_cancel_alarm_playback p trig st = (st', ops)"
  defines "C \<equiv> {mp_video_ch p ! j | j. j < trigin_num p \<and> al_pb st' ! j = 1 \<and> mp_video_ch p ! j \<noteq> -1}"
  shows "al_playback_ch st' = (if C = {} then -1 else if \<exists>v. C = {v} then the_elem C else 4)"
proof -
  let ?P = "\<lambda>pb i. pb ! i = 1 \<and> mp_video_ch p ! i \<noteq> -1"
  define pb where "pb = al_pb st'"
  define n where "n = trigin_num p"
  have s: "al_playback_ch st' = (case find (?P pb) [0..<n] of None \<Rightarrow> -1
      | Some i \<Rightarrow> if filter (\<lambda>j. pb ! j = 1 \<and> mp_video_ch p ! j \<noteq> -1 \<and> mp_video_ch p ! j \<noteq> mp_video_ch p ! i) [0..<n] = [] then mp_video_ch p ! i else 4)"
    using r p(2) by (auto simp: remote_cancel_alarm_playback_def Let_def pb_def n_def split: option.splits)
  show ?thesis
  proof (cases "find (?P pb) [0..<n]")
    case None
    then have "C = {}" by (auto simp: find_None_iff C_def pb_def n_def)
    then show ?thesis using s None by simp
  next
    case (Some i)
    then have i: "i < n" "?P pb i" by (auto simp: find_Some_iff)
    let ?v = "mp_video_ch p ! i"
    have v: "?v \<in> C" using i by (auto simp: C_def pb_def n_def)
    have "filter (\<lambda>j. pb ! j = 1 \<and> mp_video_ch p ! j \<noteq> -1 \<and> mp_video_ch p ! j \<noteq> ?v) [0..<n] = [] \<longleftrightarrow> C = {?v}"
    proof
      assume "filter (\<lambda>j. pb ! j = 1 \<and> mp_video_ch p ! j \<noteq> -1 \<and> mp_video_ch p ! j \<noteq> ?v) [0..<n] = []"
      then show "C = {?v}" using v unfolding filter_empty_conv C_def pb_def n_def by auto
    next
      assume c: "C = {?v}"
      have "\<forall>j < n. pb ! j = 1 \<and> mp_video_ch p ! j \<noteq> -1 \<longrightarrow> mp_video_ch p ! j \<in> C" by (auto simp: C_def pb_def n_def)
      then show "filter (\<lambda>j. pb ! j = 1 \<and> mp_video_ch p ! j \<noteq> -1 \<and> mp_video_ch p ! j \<noteq> ?v) [0..<n] = []"
        unfolding filter_empty_conv c by auto
    qed
    then show ?thesis using s Some v by auto
  qed
qed

end
