(* ===== verification/Ftw.thy ===== *)
theory Ftw
  imports C_String "HOL-Library.Multiset" "HOL-Library.List_Lexorder" "HOL-Library.Char_ord"
begin

text \<open>
  The directory walks of \<open>src/libsrc/filelib\<close>: \<open>ftw_sort\<close> and \<open>ftw_sort_user\<close> call a function on every file and directory in
  sorted order and can remove empty directories (the disk manager does so after deleting old recordings, the file index is
  rebuilt by such a walk); \<open>rm_file_select\<close> deletes everything below a directory but one path.

  A file system is a tree. \<open>File\<close> is everything that is not a directory, with the data \<open>lstat\<close> gives and, for a symbolic link, the \<open>errno\<close> of
  opening it as a directory; a directory has a number that is 0 or the \<open>errno\<close> of opening it. What a path names is a node or \<open>None\<close>. The callbacks work on a state of their own and do
  not change the tree. \<open>alphasort\<close> is the order of the C locale, the lexicographic one of the characters' codes. Path buffers have a
  fixed size, a longer path is undefined behaviour.
\<close>

section \<open>Trees and system calls\<close>

datatype 'a fnode = File 'a "int option" | Dir 'a int "(string \<times> 'a fnode) list"

fun weight :: "'a fnode \<Rightarrow> nat" where
  "weight (File st l) = 1"
| "weight (Dir st e es) = 4 + sum_list (map (\<lambda>p. Suc (weight (snd p))) es)"

definition oweight :: "'a fnode option \<Rightarrow> nat" where
  "oweight x = (case x of None \<Rightarrow> 0 | Some nd \<Rightarrow> weight nd)"

lemma oweight_simps [simp]: "oweight None = 0" "oweight (Some nd) = weight nd"
  by (simp_all add: oweight_def)

definition dots :: "(string \<times> 'a fnode option) list" where
  "dots = [(''.'', None), (''..'', None)]"

definition scandir :: "(string \<times> 'a fnode) list \<Rightarrow> (string \<times> 'a fnode option) list" where
  "scandir es = sort_key fst (dots @ map (\<lambda>p. (fst p, Some (snd p))) es)"

definition live_entries :: "(string \<times> 'a fnode option) list \<Rightarrow> (string \<times> 'a fnode) list" where
  "live_entries ents = concat (map (\<lambda>p. case snd p of None \<Rightarrow> [] | Some x \<Rightarrow> [(fst p, x)]) ents)"

text \<open>\<open>remove\<close> deletes a file or an empty directory and fails on any other one.\<close>

definition fs_remove :: "'a fnode option \<Rightarrow> 'a fnode option" where
  "fs_remove x = (case x of Some (Dir st e (p # es)) \<Rightarrow> x | _ \<Rightarrow> None)"

section \<open>\<open>ftw_sort\<close>\<close>

datatype ftw_flag = FTW_F | FTW_D | FTW_DNR | FTW_NS

definition FN_RETURN_CONTINUE :: int where
  "FN_RETURN_CONTINUE = 1"

definition FTW_SORT_ALPHA :: int where
  "FTW_SORT_ALPHA = 1"

definition DIR_DEPTH :: int where
  "DIR_DEPTH = 100"

text \<open>
  The arguments that all calls of one walk share, and the size of the path buffers. \<open>a_fn\<close> gets the path, the \<open>stat\<close> data (\<open>None\<close>: not
  initialised), the flag and its state. \<open>a_err_fn\<close> gets path and \<open>errno\<close>; what it gives back is \<open>errno\<close> after the call, since the code
  ignores its result.
\<close>

record ('a, 'u) ftw_arg =
  a_lim :: nat
  a_depth :: int
  a_sort_mode :: int
  a_rm_empty :: int
  a_fn :: "(string \<Rightarrow> 'a option \<Rightarrow> ftw_flag \<Rightarrow> 'u \<Rightarrow> int \<times> 'u) option"
  a_err_fn :: "string \<Rightarrow> int \<Rightarrow> 'u \<Rightarrow> int \<times> 'u"

record DIR_INFO =
  retu_flag :: int
  rm_empty_flag :: int
  retu_val :: int
  ftw_dir_no :: int

definition call_fn :: "('a, 'u) ftw_arg \<Rightarrow> string \<Rightarrow> 'a option \<Rightarrow> ftw_flag \<Rightarrow> 'u \<Rightarrow> int \<times> 'u" where
  "call_fn a dir st flag u = (case a_fn a of None \<Rightarrow> (0, u) | Some f \<Rightarrow> f dir st flag u)"

text \<open>The directory of a path: the text before the last slash.\<close>

definition work_dir_back :: "string \<Rightarrow> string" where
  "work_dir_back w = (case strrchr w (CHR ''/'') of None \<Rightarrow> w | Some i \<Rightarrow> take i w)"

lemma sum_list_sort_key: "sum_list (map f (sort_key k xs)) = sum_list (map f xs)" for f :: "_ \<Rightarrow> nat"
  by (metis mset_map mset_sort sum_mset_sum_list)

lemma scandir_weight: "sum_list (map (\<lambda>p. Suc (oweight (snd p))) (scandir es)) = 2 + sum_list (map (\<lambda>p. Suc (weight (snd p))) es)"
  unfolding scandir_def sum_list_sort_key by (simp add: dots_def comp_def)

text \<open>
  \<open>check_dir\<close> gives back its result, what is left of the tree at its path, the walk's information and the state of the callbacks;
  \<open>check_entries\<close> is its loop over the sorted names, which gives the value of a return from inside the loop, or \<open>None\<close>, and the number
  of names left in the directory.
\<close>

function check_dir :: "('a, 'u) ftw_arg \<Rightarrow> string \<Rightarrow> 'a fnode option \<Rightarrow> DIR_INFO \<Rightarrow> 'u \<Rightarrow> (int \<times> 'a fnode option \<times> DIR_INFO \<times> 'u) option"
and check_entries :: "('a, 'u) ftw_arg \<Rightarrow> string \<Rightarrow> (string \<times> 'a fnode option) list \<Rightarrow> int \<Rightarrow> DIR_INFO \<Rightarrow> 'u \<Rightarrow>
  (int option \<times> int \<times> (string \<times> 'a fnode option) list \<times> DIR_INFO \<times> 'u) option" where
  "check_dir a dir x d u =
     (if retu_flag d = 1 then Some (retu_val d, x, d, u)
      else if length dir \<ge> a_lim a then None
      else case x of
        None \<Rightarrow>
          (case call_fn a dir None FTW_NS u of (r, u1) \<Rightarrow>
             if r \<noteq> 0 then Some (r, x, d\<lparr>retu_val := r\<rparr>, u1) else None)
      | Some (File st l) \<Rightarrow>
          (case call_fn a dir (Some st) FTW_F u of (r, u1) \<Rightarrow>
             if r \<noteq> 0 then Some (r, x, d\<lparr>retu_val := r\<rparr>, u1) else Some (retu_val d, x, d, u1))
      | Some (Dir st e es) \<Rightarrow>
          (let d1 = d\<lparr>ftw_dir_no := ftw_dir_no d + 1\<rparr> in
           if ftw_dir_no d1 > a_depth a then Some (retu_val d, x, d, u)
           else case call_fn a dir (Some st) FTW_D u of (r, u1) \<Rightarrow>
             if r \<noteq> 0 then Some (r, x, d1\<lparr>retu_val := r\<rparr>, u1)
             else case (if e \<noteq> 0 then call_fn a dir (Some st) FTW_DNR u1 else (0, u1)) of (r, u2) \<Rightarrow>
               if r \<noteq> 0 then Some (r, x, d1\<lparr>retu_val := r\<rparr>, u2)
               else if a_sort_mode a \<noteq> 1 then None
               else if e \<noteq> 0 then
                 (case a_err_fn a dir e u2 of (e', u3) \<Rightarrow> Some (- e', x, d1\<lparr>retu_flag := 1, retu_val := - e'\<rparr>, u3))
               else
                 (case check_entries a dir (scandir es) (int (length (scandir es))) d1 u2 of
                    None \<Rightarrow> None
                  | Some (Some v, dir_no, ents, d2, u3) \<Rightarrow> Some (v, Some (Dir st e (live_entries ents)), d2, u3)
                  | Some (None, dir_no, ents, d2, u3) \<Rightarrow>
                      let d3 = d2\<lparr>ftw_dir_no := ftw_dir_no d2 - 1\<rparr>; y = Some (Dir st e (live_entries ents)) in
                      if dir_no = 2 \<and> a_rm_empty a = 1
                      then Some (retu_val d3, if ftw_dir_no d3 \<noteq> 0 then fs_remove y else y, d3\<lparr>rm_empty_flag := 1\<rparr>, u3)
                      else Some (retu_val d3, y, d3, u3))))"
| "check_entries a work_dir [] dir_no d u = Some (None, dir_no, [], d, u)"
| "check_entries a work_dir ((n, x) # ents) dir_no d u =
     (if n = ''.'' \<or> n = ''..'' then
        (case check_entries a work_dir ents dir_no d u of
           None \<Rightarrow> None | Some (s, k, ents', r) \<Rightarrow> Some (s, k, (n, x) # ents', r))
      else
        let path = work_dir @ ''/'' @ n in
        if length path \<ge> a_lim a then None
        else case check_dir a path x d u of
          None \<Rightarrow> None
        | Some (v, x', d1, u1) \<Rightarrow>
            if v \<noteq> FN_RETURN_CONTINUE \<and> v \<noteq> 0 then Some (Some v, dir_no, (n, x') # ents, d1\<lparr>retu_flag := 1, retu_val := v\<rparr>, u1)
            else
              case check_entries a (work_dir_back path) ents
                     (if rm_empty_flag d1 = 1 then dir_no - 1 else dir_no) (if rm_empty_flag d1 = 1 then d1\<lparr>rm_empty_flag := 0\<rparr> else d1) u1 of
                None \<Rightarrow> None
              | Some (s, k, ents', r) \<Rightarrow> Some (s, k, (n, x') # ents', r))"
  by pat_completeness auto
termination
  by (relation "measure (\<lambda>i. case i of Inl (a, dir, x, d, u) \<Rightarrow> oweight x
        | Inr (a, w, ents, k, d, u) \<Rightarrow> sum_list (map (\<lambda>p. Suc (oweight (snd p))) ents))")
    (simp_all add: scandir_weight)

declare check_dir.simps [simp del]

definition start_info :: DIR_INFO where
  "start_info = \<lparr>retu_flag = 0, rm_empty_flag = 0, retu_val = 0, ftw_dir_no = 0\<rparr>"

text \<open>The result of a call, what is left of the tree and the state of the callbacks.\<close>

definition check_root :: "('a, 'u) ftw_arg \<Rightarrow> string \<Rightarrow> 'a fnode option \<Rightarrow> 'u \<Rightarrow> (int \<times> 'a fnode option \<times> 'u) option" where
  "check_root a dir x u = map_option (\<lambda>(r, x', d, u'). (r, x', u')) (check_dir a dir x start_info u)"

definition ftw_args ::
  "nat \<Rightarrow> int \<Rightarrow> int \<Rightarrow> int \<Rightarrow> (string \<Rightarrow> 'a option \<Rightarrow> ftw_flag \<Rightarrow> 'u \<Rightarrow> int \<times> 'u) option \<Rightarrow>
   (string \<Rightarrow> int \<Rightarrow> 'u \<Rightarrow> int \<times> 'u) \<Rightarrow> ('a, 'u) ftw_arg" where
  "ftw_args lim dir_depth sort_mode rm_empty_dir fn err_fn =
     \<lparr>a_lim = lim, a_depth = dir_depth, a_sort_mode = sort_mode, a_rm_empty = rm_empty_dir, a_fn = fn, a_err_fn = err_fn\<rparr>"

definition ftw_sort ::
  "string \<Rightarrow> (string \<Rightarrow> 'a option \<Rightarrow> ftw_flag \<Rightarrow> 'u \<Rightarrow> int \<times> 'u) option \<Rightarrow> int \<Rightarrow> int \<Rightarrow> int \<Rightarrow>
   (string \<Rightarrow> int \<Rightarrow> 'u \<Rightarrow> int \<times> 'u) option \<Rightarrow> 'a fnode option \<Rightarrow> 'u \<Rightarrow> (int \<times> 'a fnode option \<times> 'u) option" where
  "ftw_sort dir fn dir_depth sort_mode rm_empty_dir err_fn x u =
     (case err_fn of
        None \<Rightarrow> Some (-1, x, u)
      | Some ef \<Rightarrow> check_root (ftw_args 3072 dir_depth sort_mode rm_empty_dir fn ef) dir x u)"

text \<open>\<open>check_dir_user\<close> is the text of \<open>check_dir\<close> with a fixed depth, smaller buffers and a state for the callback.\<close>

definition check_dir_user ::
  "int \<Rightarrow> int \<Rightarrow> (string \<Rightarrow> 'a option \<Rightarrow> ftw_flag \<Rightarrow> 'u \<Rightarrow> int \<times> 'u) option \<Rightarrow> (string \<Rightarrow> int \<Rightarrow> 'u \<Rightarrow> int \<times> 'u) \<Rightarrow>
   string \<Rightarrow> 'a fnode option \<Rightarrow> DIR_INFO \<Rightarrow> 'u \<Rightarrow> (int \<times> 'a fnode option \<times> DIR_INFO \<times> 'u) option" where
  "check_dir_user sort_mode rm_empty_dir fn err_fn = check_dir (ftw_args 256 DIR_DEPTH sort_mode rm_empty_dir fn err_fn)"

definition ftw_sort_user ::
  "string \<Rightarrow> (string \<Rightarrow> 'a option \<Rightarrow> ftw_flag \<Rightarrow> 'u \<Rightarrow> int \<times> 'u) option \<Rightarrow> int \<Rightarrow> int \<Rightarrow>
   (string \<Rightarrow> int \<Rightarrow> 'u \<Rightarrow> int \<times> 'u) option \<Rightarrow> 'a fnode option \<Rightarrow> 'u \<Rightarrow> (int \<times> 'a fnode option \<times> 'u) option" where
  "ftw_sort_user dir fn sort_mode rm_empty_dir err_fn x u =
     (case err_fn of
        None \<Rightarrow> Some (-1, x, u)
      | Some ef \<Rightarrow> map_option (\<lambda>(r, x', d, u'). (r, x', u')) (check_dir_user sort_mode rm_empty_dir fn ef dir x start_info u))"

section \<open>\<open>rm_file_select\<close>\<close>

text \<open>
  \<open>keep\<close> is the path that stays (\<open>rm_file_path\<close>), \<open>rv\<close> the walk's \<open>retu_val\<close>. The loop reads the names in the order of the directory and
  ignores the results of its calls. A link that opens as a directory would be emptied at its target, which the tree does not hold.
\<close>

function ftw_no_chdir :: "string \<Rightarrow> string option \<Rightarrow> string \<Rightarrow> 'a fnode option \<Rightarrow> int \<Rightarrow> (int \<times> 'a fnode option \<times> int) option"
and no_chdir_entries :: "string \<Rightarrow> string option \<Rightarrow> string \<Rightarrow> (string \<times> 'a fnode option) list \<Rightarrow> int \<Rightarrow>
  ((string \<times> 'a fnode option) list \<times> int) option" where
  "ftw_no_chdir rm_dir keep dir x rv =
     (if length dir \<ge> 1024 then None
      else if keep = Some dir then Some (0, x, rv)
      else case x of
        None \<Rightarrow> Some (-1, x, -1)
      | Some (File st None) \<Rightarrow> Some (rv, if rm_dir \<noteq> dir then fs_remove x else x, rv)
      | Some (File st (Some e)) \<Rightarrow> if e = 0 then None else Some (-1, x, -1)
      | Some (Dir st e es) \<Rightarrow>
          if e \<noteq> 0 then Some (-1, x, -1)
          else case no_chdir_entries rm_dir keep dir (dots @ map (\<lambda>p. (fst p, Some (snd p))) es) rv of
            None \<Rightarrow> None
          | Some (ents, rv') \<Rightarrow>
              let y = Some (Dir st e (live_entries ents)) in Some (rv', if rm_dir \<noteq> dir then fs_remove y else y, rv'))"
| "no_chdir_entries rm_dir keep work_dir [] rv = Some ([], rv)"
| "no_chdir_entries rm_dir keep work_dir ((n, x) # ents) rv =
     (if n = ''.'' \<or> n = ''..'' then
        map_option (\<lambda>(ents', r). ((n, x) # ents', r)) (no_chdir_entries rm_dir keep work_dir ents rv)
      else
        let path = work_dir @ ''/'' @ n in
        if length path \<ge> 1024 then None
        else case ftw_no_chdir rm_dir keep path x rv of
          None \<Rightarrow> None
        | Some (v, x', rv') \<Rightarrow>
            map_option (\<lambda>(ents', r). ((n, x') # ents', r)) (no_chdir_entries rm_dir keep (work_dir_back path) ents rv'))"
  by pat_completeness auto
termination
  by (relation "measure (\<lambda>i. case i of Inl (r, k, dir, x, rv) \<Rightarrow> oweight x
        | Inr (r, k, w, ents, rv) \<Rightarrow> sum_list (map (\<lambda>p. Suc (oweight (snd p))) ents))")
    (simp_all add: dots_def comp_def)

declare ftw_no_chdir.simps [simp del]

definition rm_file_select :: "string \<Rightarrow> string option \<Rightarrow> 'a fnode option \<Rightarrow> (int \<times> 'a fnode option) option" where
  "rm_file_select dir file_path x = map_option (\<lambda>(r, x', rv). (r, x')) (ftw_no_chdir dir file_path dir x 0)"

end
