(* ===== verification/Ftw_Props.thy ===== *)
theory Ftw_Props
  imports Ftw "HOL-Library.Sublist"
begin

text \<open>
  What the directory walks do, against three descriptions that do not mention their bookkeeping: the list of calls (\<open>listing\<close>, run by \<open>run_events\<close>),
  and the tree as a set of paths (\<open>items\<close>) of which the removing walks keep the part around certain nodes (\<open>retains\<close>, used for
  files in \<open>ftw_sort\<close> and for the path to be kept in \<open>rm_file_select\<close>). The depth of a walk and the number of names left in a directory, which the code counts
  up and down, are shown to be right whenever no callback skips a directory.
\<close>

section \<open>Well-formed trees\<close>

fun wf_tree :: "'a fnode \<Rightarrow> bool" where
  "wf_tree (File st l) = True"
| "wf_tree (Dir st e es) =
     (distinct (map fst es) \<and>
      list_all (\<lambda>p. fst p \<noteq> ''.'' \<and> fst p \<noteq> ''..'' \<and> CHR ''/'' \<notin> set (fst p) \<and> wf_tree (snd p)) es)"

fun path_fits :: "nat \<Rightarrow> string \<Rightarrow> 'a fnode \<Rightarrow> bool" where
  "path_fits lim p (File st l) = (length p < lim)"
| "path_fits lim p (Dir st e es) = (length p < lim \<and> list_all (\<lambda>q. path_fits lim (p @ ''/'' @ fst q) (snd q)) es)"

lemma fits_length: "path_fits lim p nd \<Longrightarrow> length p < lim"
  by (cases nd) simp_all

lemma wf_entry: "wf_tree (Dir st e es) \<Longrightarrow> (n, x) \<in> set es \<Longrightarrow> n \<noteq> ''.'' \<and> n \<noteq> ''..'' \<and> CHR ''/'' \<notin> set n \<and> wf_tree x"
  by (fastforce simp: list_all_iff)

lemma fits_entry: "path_fits lim p (Dir st e es) \<Longrightarrow> (n, x) \<in> set es \<Longrightarrow> path_fits lim (p @ ''/'' @ n) x"
  by (fastforce simp: list_all_iff)

lemma work_dir_back_path: "CHR ''/'' \<notin> set n \<Longrightarrow> work_dir_back (w @ CHR ''/'' # n) = w"
proof -
  have "strrchr (w @ CHR ''/'' # n) (CHR ''/'') = Some (length w)" if "CHR ''/'' \<notin> set n"
    using that
  proof (induction n rule: rev_induct)
    case (snoc c n)
    then show ?case using strrchr_snoc [of "w @ CHR ''/'' # n" c "CHR ''/''"] by auto
  qed (simp add: strrchr_snoc)
  then show "CHR ''/'' \<notin> set n \<Longrightarrow> ?thesis" by (simp add: work_dir_back_def)
qed

section \<open>Sorting\<close>

lemma insort_key_map: "(\<And>y. f (h y) = g y) \<Longrightarrow> insort_key f (h x) (map h ys) = map h (insort_key g x ys)"
  by (induction ys) auto

lemma sort_key_map: "(\<And>y. f (h y) = g y) \<Longrightarrow> sort_key f (map h xs) = map h (sort_key g xs)"
  by (induction xs) (auto simp: insort_key_map)

lemma concat_insort: "g x = [] \<Longrightarrow> concat (map g (insort_key f x ys)) = concat (map g ys)"
  by (induction ys) auto

lemma concat_scandir:
  assumes "g (''.'', None) = []" "g (''..'', None) = []"
  shows "concat (map g (scandir es)) = concat (map (\<lambda>p. g (fst p, Some (snd p))) (sort_key fst es))"
  using assms sort_key_map [of fst "\<lambda>p. (fst p, Some (snd p))" fst es]
  by (simp add: scandir_def dots_def concat_insort comp_def)

section \<open>The walk as a list of events\<close>

text \<open>The calls a walk makes: depth first, a directory before its contents, these in sorted order, down to depth \<open>k\<close>.\<close>

datatype 'a ftw_event = Visit string 'a ftw_flag | Failed string int

fun listing :: "nat \<Rightarrow> string \<Rightarrow> 'a fnode \<Rightarrow> 'a ftw_event list" where
  "listing k p (File st l) = [Visit p st FTW_F]"
| "listing 0 p (Dir st e es) = []"
| "listing (Suc k) p (Dir st e es) =
     Visit p st FTW_D #
     (if e \<noteq> 0 then [Visit p st FTW_DNR, Failed p e]
      else concat (map (\<lambda>q. listing k (p @ ''/'' @ fst q) (snd q)) (sort_key fst es)))"

text \<open>They are made until one of them gives a value other than 0; an error ends the walk.\<close>

fun run_events :: "('a, 'u) ftw_arg \<Rightarrow> 'a ftw_event list \<Rightarrow> 'u \<Rightarrow> int option \<times> 'u" where
  "run_events a [] u = (None, u)"
| "run_events a (Visit p st fl # evs) u =
     (case call_fn a p (Some st) fl u of (r, u1) \<Rightarrow> if r \<noteq> 0 then (Some r, u1) else run_events a evs u1)"
| "run_events a (Failed p e # evs) u = (case a_err_fn a p e u of (e', u1) \<Rightarrow> (Some (- e'), u1))"

lemma run_events_append: "run_events a (xs @ ys) u = (case run_events a xs u of (None, u1) \<Rightarrow> run_events a ys u1 | (Some r, u1) \<Rightarrow> (Some r, u1))"
  by (induction a xs u rule: run_events.induct) (auto split: prod.splits)

text \<open>What is left of a tree when empty directories are removed down to depth \<open>k\<close>, and in which order.\<close>

fun prune :: "bool \<Rightarrow> nat \<Rightarrow> 'a fnode \<Rightarrow> 'a fnode option" where
  "prune rm k (File st l) = Some (File st l)"
| "prune rm 0 (Dir st e es) = Some (Dir st e es)"
| "prune rm (Suc k) (Dir st e es) =
     (let es' = concat (map (\<lambda>q. case prune rm k (snd q) of None \<Rightarrow> [] | Some x \<Rightarrow> [(fst q, x)]) (sort_key fst es))
      in if rm \<and> es' = [] then None else Some (Dir st e es'))"

text \<open>Callbacks that never ask to skip a node, and an error function that does not reset \<open>errno\<close>.\<close>

definition plain_calls :: "('a, 'u) ftw_arg \<Rightarrow> bool" where
  "plain_calls a \<longleftrightarrow> (\<forall>p st fl u. fst (call_fn a p st fl u) \<noteq> FN_RETURN_CONTINUE) \<and> (\<forall>p e u. 0 < fst (a_err_fn a p e u)) \<and> a_sort_mode a = FTW_SORT_ALPHA"

lemma run_events_value: "run_events a evs u = (Some r, u') \<Longrightarrow> plain_calls a \<Longrightarrow> r \<noteq> 0 \<and> r \<noteq> FN_RETURN_CONTINUE"
proof (induction a evs u rule: run_events.induct)
  case (3 a p e evs u)
  then have "0 < fst (a_err_fn a p e u)" by (simp add: plain_calls_def)
  then show ?case using 3 by (auto simp: FN_RETURN_CONTINUE_def split: prod.splits)
next
  case (2 a p st fl evs u)
  then have "fst (call_fn a p (Some st) fl u) \<noteq> FN_RETURN_CONTINUE" by (simp add: plain_calls_def)
  then show ?case using 2 by (auto split: prod.splits if_splits)
qed simp

definition stop_value :: "int option \<Rightarrow> int" where
  "stop_value s = (case s of None \<Rightarrow> 0 | Some r \<Rightarrow> r)"

definition info_clean :: "DIR_INFO \<Rightarrow> bool" where
  "info_clean d \<longleftrightarrow> retu_flag d = 0 \<and> retu_val d = 0 \<and> rm_empty_flag d = 0 \<and> 0 \<le> ftw_dir_no d"

definition pruned :: "('a, 'u) ftw_arg \<Rightarrow> nat \<Rightarrow> 'a fnode \<Rightarrow> 'a fnode option" where
  "pruned a k nd = prune (a_rm_empty a = 1) k nd"

text \<open>The root stays.\<close>

definition left_over :: "('a, 'u) ftw_arg \<Rightarrow> nat \<Rightarrow> DIR_INFO \<Rightarrow> 'a fnode \<Rightarrow> 'a fnode option" where
  "left_over a k d nd =
     (case pruned a k nd of
        Some y \<Rightarrow> Some y
      | None \<Rightarrow> if ftw_dir_no d = 0 then (case nd of Dir st e es \<Rightarrow> Some (Dir st e []) | _ \<Rightarrow> Some nd) else None)"

definition walk_ok :: "('a, 'u) ftw_arg \<Rightarrow> nat \<Rightarrow> string \<Rightarrow> 'a fnode \<Rightarrow> DIR_INFO \<Rightarrow> 'u \<Rightarrow> bool" where
  "walk_ok a k dir nd d u \<longleftrightarrow>
     (case run_events a (listing k dir nd) u of (s, u') \<Rightarrow>
        \<exists>y d'. check_dir a dir (Some nd) d u = Some (stop_value s, y, d', u') \<and>
          (s = None \<longrightarrow> y = left_over a k d nd \<and> d' = d\<lparr>rm_empty_flag := (if pruned a k nd = None then 1 else 0)\<rparr>))"

definition entry_ok :: "nat \<Rightarrow> string \<Rightarrow> string \<times> 'a fnode option \<Rightarrow> bool" where
  "entry_ok lim w q \<longleftrightarrow>
     (case snd q of
        None \<Rightarrow> fst q = ''.'' \<or> fst q = ''..''
      | Some x \<Rightarrow> fst q \<noteq> ''.'' \<and> fst q \<noteq> ''..'' \<and> CHR ''/'' \<notin> set (fst q) \<and> path_fits lim (w @ ''/'' @ fst q) x)"

definition entry_events :: "nat \<Rightarrow> string \<Rightarrow> string \<times> 'a fnode option \<Rightarrow> 'a ftw_event list" where
  "entry_events k w q = (case snd q of None \<Rightarrow> [] | Some x \<Rightarrow> listing k (w @ ''/'' @ fst q) x)"

lemma entry_events_simps [simp]:
  "entry_events k w (n, None) = []" "entry_events k w (n, Some x) = listing k (w @ ''/'' @ n) x"
  by (simp_all add: entry_events_def)

lemma live_entries_Cons: "live_entries (q # ents) = (case snd q of None \<Rightarrow> [] | Some x \<Rightarrow> [(fst q, x)]) @ live_entries ents"
  by (simp add: live_entries_def)

lemma check_entries_walk:
  assumes "plain_calls a" "info_clean d" "ftw_dir_no d \<noteq> 0"
    and "\<forall>q \<in> set ents. entry_ok (a_lim a) w q" "\<forall>n x u. (n, Some x) \<in> set ents \<longrightarrow> walk_ok a k (w @ ''/'' @ n) x d u"
  shows "case run_events a (concat (map (entry_events k w) ents)) u of (s, u') \<Rightarrow>
    \<exists>dn' ents' d'. check_entries a w ents dn d u = Some (s, dn', ents', d', u') \<and>
      (s = None \<longrightarrow> d' = d \<and> ents' = map (\<lambda>q. (fst q, Option.bind (snd q) (pruned a k))) ents \<and>
         dn' = dn - int (length (live_entries ents)) + int (length (live_entries ents')))"
  using assms(4,5)
proof (induction ents arbitrary: u dn)
  case (Cons q ents)
  obtain n x where q: "q = (n, x)" by (cases q)
  have m: "\<forall>q \<in> set ents. entry_ok (a_lim a) w q" "\<forall>n x u. (n, Some x) \<in> set ents \<longrightarrow> walk_ok a k (w @ ''/'' @ n) x d u"
    using Cons.prems by simp_all
  show ?case
  proof (cases x)
    case None
    then have n: "n = ''.'' \<or> n = ''..''" using Cons.prems(1) q by (auto simp: entry_ok_def)
    obtain s u' where r: "run_events a (concat (map (entry_events k w) ents)) u = (s, u')" by fastforce
    obtain dn' ents' d' where i: "check_entries a w ents dn d u = Some (s, dn', ents', d', u')"
      and j: "s = None \<longrightarrow> d' = d \<and> ents' = map (\<lambda>q. (fst q, Option.bind (snd q) (pruned a k))) ents \<and>
         dn' = dn - int (length (live_entries ents)) + int (length (live_entries ents'))"
      using Cons.IH [OF m, of dn u] r by auto
    have "check_entries a w (q # ents) dn d u = Some (s, dn', (n, x) # ents', d', u')" using n i q by auto
    then show ?thesis using j r None unfolding q by (auto simp: live_entries_Cons simp del: check_entries.simps)
  next
    case (Some nd)
    have n: "n \<noteq> ''.''" "n \<noteq> ''..''" "CHR ''/'' \<notin> set n" and f: "path_fits (a_lim a) (w @ ''/'' @ n) nd"
      using Cons.prems(1) q Some by (auto simp: entry_ok_def)
    have w: "walk_ok a k (w @ ''/'' @ n) nd d u" using Cons.prems(2) q Some by simp
    obtain s1 u1 where r1: "run_events a (listing k (w @ ''/'' @ n) nd) u = (s1, u1)" by fastforce
    obtain y d1 where c: "check_dir a (w @ ''/'' @ n) (Some nd) d u = Some (stop_value s1, y, d1, u1)"
      and e: "s1 = None \<longrightarrow> y = left_over a k d nd \<and> d1 = d\<lparr>rm_empty_flag := (if pruned a k nd = None then 1 else 0)\<rparr>"
      using w r1 by (auto simp: walk_ok_def)
    have b: "work_dir_back (w @ CHR ''/'' # n) = w" by (rule work_dir_back_path [OF n(3)])
    show ?thesis
    proof (cases s1)
      case None
      have y: "y = pruned a k nd" using e None assms(3) by (simp add: left_over_def split: option.splits)
      let ?d2 = "if rm_empty_flag d1 = 1 then d1\<lparr>rm_empty_flag := 0\<rparr> else d1"
      have d2: "?d2 = d" using e None assms(2) by (simp add: info_clean_def)
      have ft: "rm_empty_flag d1 = (if pruned a k nd = None then 1 else 0)" using e None by simp
      let ?dn = "if rm_empty_flag d1 = 1 then dn - 1 else dn"
      obtain s u' where r: "run_events a (concat (map (entry_events k w) ents)) u1 = (s, u')" by fastforce
      obtain dn' ents' d' where i: "check_entries a w ents ?dn d u1 = Some (s, dn', ents', d', u')"
        and j: "s = None \<longrightarrow> d' = d \<and> ents' = map (\<lambda>q. (fst q, Option.bind (snd q) (pruned a k))) ents \<and>
         dn' = ?dn - int (length (live_entries ents)) + int (length (live_entries ents'))"
        using Cons.IH [OF m, of ?dn u1] r by auto
      have r': "run_events a (concat (map (entry_events k w) (q # ents))) u = (s, u')"
        using r r1 None unfolding q Some by (simp add: run_events_append)
      have l: "length (live_entries (q # ents)) = Suc (length (live_entries ents))"
        "length (live_entries ((n, y) # ents')) = (if y = None then 0 else 1) + length (live_entries ents')"
        by (auto simp: live_entries_Cons q Some split: option.splits)
      have c': "check_entries a w (q # ents) dn d u = Some (s, dn', (n, y) # ents', d', u')"
        using i n fits_length [OF f] c None unfolding q Some by (simp add: stop_value_def b d2)
      have j': "d' = d" "ents' = map (\<lambda>q. (fst q, Option.bind (snd q) (pruned a k))) ents"
        "dn' = ?dn - int (length (live_entries ents)) + int (length (live_entries ents'))" if "s = None"
        using j that by blast+
      show ?thesis unfolding r' prod.case c'
      proof (rule exI [of _ dn'], rule exI [of _ "(n, y) # ents'"], rule exI [of _ d'], intro conjI impI refl)
        assume n: "s = None"
        show "d' = d" by (rule j'(1) [OF n])
        show "(n, y) # ents' = map (\<lambda>q. (fst q, Option.bind (snd q) (pruned a k))) (q # ents)" using j'(2) [OF n] by (simp add: q Some y)
        show "dn' = dn - int (length (live_entries (q # ents))) + int (length (live_entries ((n, y) # ents')))"
          unfolding l j'(3) [OF n] ft by (simp add: y)
      qed
    next
      case (Some v)
      have v: "v \<noteq> 0" "v \<noteq> FN_RETURN_CONTINUE" using run_events_value [OF r1 [unfolded Some] assms(1)] by simp_all
      then have "check_entries a w (q # ents) dn d u =
          Some (Some v, dn, (n, y) # ents, d1\<lparr>retu_flag := 1, retu_val := v\<rparr>, u1)"
        using n fits_length [OF f] c Some unfolding q \<open>x = Some nd\<close> by (simp add: stop_value_def)
      then show ?thesis using r1 Some unfolding q \<open>x = Some nd\<close>
        by (simp add: run_events_append del: check_entries.simps)
    qed
  qed
qed (simp add: live_entries_def)

lemma scandir_member: "(n, x) \<in> set (scandir es) \<longleftrightarrow> (n = ''.'' \<or> n = ''..'') \<and> x = None \<or> (\<exists>nd. x = Some nd \<and> (n, nd) \<in> set es)"
  unfolding scandir_def set_sort by (cases x) (force simp: dots_def)+

lemma length_scandir: "length (scandir es) = 2 + length es"
  by (simp add: scandir_def dots_def)

lemma scandir_events: "concat (map (entry_events k w) (scandir es)) = concat (map (\<lambda>q. listing k (w @ ''/'' @ fst q) (snd q)) (sort_key fst es))"
  by (subst concat_scandir) simp_all

lemma live_scandir:
  "live_entries (map (\<lambda>q. (fst q, Option.bind (snd q) f)) (scandir es)) =
     concat (map (\<lambda>q. case f (snd q) of None \<Rightarrow> [] | Some x \<Rightarrow> [(fst q, x)]) (sort_key fst es))"
  unfolding live_entries_def map_map comp_def by (subst concat_scandir) (simp_all cong: option.case_cong)

lemma length_live_scandir: "length (live_entries (scandir es)) = length es"
  unfolding live_entries_def by (subst concat_scandir) (simp_all add: concat_map_singleton)

lemma check_dir_walk:
  assumes "plain_calls a"
  shows "wf_tree nd \<Longrightarrow> path_fits (a_lim a) dir nd \<Longrightarrow> info_clean d \<Longrightarrow> walk_ok a (nat (a_depth a - ftw_dir_no d)) dir nd d u"
proof (induction nd arbitrary: dir d u)
  case (File st l dir d u)
  then show ?case
    by (cases "call_fn a dir (Some st) FTW_F u")
      (auto simp: walk_ok_def check_dir.simps info_clean_def stop_value_def left_over_def pruned_def)
next
  case (Dir st e es dir d u)
  let ?k = "nat (a_depth a - ftw_dir_no d)"
  have d: "retu_flag d = 0" "retu_val d = 0" "rm_empty_flag d = 0" "0 \<le> ftw_dir_no d" using Dir.prems(3) by (simp_all add: info_clean_def)
  have m: "a_sort_mode a = 1" using assms by (simp add: plain_calls_def FTW_SORT_ALPHA_def)
  show ?case
  proof (cases ?k)
    case 0
    then have "a_depth a < ftw_dir_no d + 1" by simp
    then show ?thesis using 0 d Dir.prems(2)
      by (auto simp: walk_ok_def check_dir.simps stop_value_def left_over_def pruned_def)
  next
    case (Suc k)
    then have k: "\<not> a_depth a < ftw_dir_no d + 1" "nat (a_depth a - (ftw_dir_no d + 1)) = k" by simp_all
    let ?d1 = "d\<lparr>ftw_dir_no := ftw_dir_no d + 1\<rparr>"
    obtain r1 u1 where c1: "call_fn a dir (Some st) FTW_D u = (r1, u1)" by fastforce
    obtain r2 u2 where c2: "call_fn a dir (Some st) FTW_DNR u1 = (r2, u2)" by fastforce
    obtain e3 u3 where c3: "a_err_fn a dir e u2 = (e3, u3)" by fastforce
    consider "r1 \<noteq> 0" | "r1 = 0" "e \<noteq> 0" | "r1 = 0" "e = 0" by blast
    then show ?thesis
    proof cases
      case 1
      then show ?thesis using Suc k d c1 Dir.prems(2) by (simp add: walk_ok_def check_dir.simps stop_value_def)
    next
      case 2
      then show ?thesis using Suc k d m c1 c2 c3 Dir.prems(2) by (simp add: walk_ok_def check_dir.simps stop_value_def)
    next
      case 3
      have o: "\<forall>q \<in> set (scandir es). entry_ok (a_lim a) dir q"
        using wf_entry [OF Dir.prems(1)] fits_entry [OF Dir.prems(2)] by (auto simp: scandir_member entry_ok_def)
      have w: "\<forall>n x u. (n, Some x) \<in> set (scandir es) \<longrightarrow> walk_ok a k (dir @ ''/'' @ n) x ?d1 u"
      proof (intro allI impI)
        fix n x u
        assume "(n, Some x) \<in> set (scandir es)"
        then have i: "(n, x) \<in> set es" by (simp add: scandir_member)
        then have "wf_tree x" "path_fits (a_lim a) (dir @ ''/'' @ n) x" using wf_entry [OF Dir.prems(1)] fits_entry [OF Dir.prems(2)] by auto
        moreover have "info_clean ?d1" using Dir.prems(3) by (simp add: info_clean_def)
        ultimately show "walk_ok a k (dir @ ''/'' @ n) x ?d1 u" using Dir.IH [OF i, of x "dir @ ''/'' @ n" ?d1 u] k(2) by simp
      qed
      have cl: "info_clean ?d1" "ftw_dir_no ?d1 \<noteq> 0" using Dir.prems(3) by (auto simp: info_clean_def)
      obtain s u' where r: "run_events a (concat (map (entry_events k dir) (scandir es))) u1 = (s, u')" by fastforce
      obtain dn ents d2 where i: "check_entries a dir (scandir es) (int (length (scandir es))) ?d1 u1 = Some (s, dn, ents, d2, u')"
        and j: "s = None \<longrightarrow> d2 = ?d1 \<and> ents = map (\<lambda>q. (fst q, Option.bind (snd q) (pruned a k))) (scandir es) \<and>
           dn = int (length (scandir es)) - int (length (live_entries (scandir es))) + int (length (live_entries ents))"
        using check_entries_walk [OF assms cl o w, of "int (length (scandir es))" u1] r by auto
      have l: "listing (Suc k) dir (Dir st e es) = Visit dir st FTW_D # concat (map (entry_events k dir) (scandir es))"
        using 3 by (simp add: scandir_events)
      have r': "run_events a (listing ?k dir (Dir st e es)) u = (s, u')" unfolding Suc l using r c1 3 by simp
      show ?thesis
      proof (cases s)
        case None
        then have dn: "dn = 2 + int (length (live_entries ents))" using j by (simp add: length_scandir length_live_scandir)
        have p: "pruned a (Suc k) (Dir st e es) = (if a_rm_empty a = 1 \<and> live_entries ents = [] then None else Some (Dir st e (live_entries ents)))"
        proof -
          have "live_entries ents = concat (map (\<lambda>q. case prune (a_rm_empty a = 1) k (snd q) of None \<Rightarrow> [] | Some x \<Rightarrow> [(fst q, x)]) (sort_key fst es))"
            using j None live_scandir [of "pruned a k" es] by (simp add: pruned_def)
          then show ?thesis unfolding pruned_def prune.simps Let_def by (simp only:)
        qed
        have d2: "d2 = ?d1" "d\<lparr>rm_empty_flag := 0\<rparr> = d" using j None d(3) by simp_all
        have "check_dir a dir (Some (Dir st e es)) d u =
          (if a_rm_empty a = 1 \<and> live_entries ents = []
           then Some (0, if ftw_dir_no d \<noteq> 0 then None else Some (Dir st e []), d\<lparr>rm_empty_flag := 1\<rparr>, u')
           else Some (0, Some (Dir st e (live_entries ents)), d, u'))"
          using None c1 3 d k m Dir.prems(2) i by (auto simp: check_dir.simps fs_remove_def d2 dn)
        then show ?thesis unfolding walk_ok_def r' prod.case unfolding Suc left_over_def p using None d2(2) by (simp add: stop_value_def)
      next
        case (Some v)
        then show ?thesis unfolding walk_ok_def r' prod.case using c1 3 d k m Dir.prems(2) i
          by (simp add: check_dir.simps stop_value_def)
      qed
    qed
  qed
qed

section \<open>Trees as sets of paths\<close>

text \<open>A path, the \<open>stat\<close> data and whether it is a directory.\<close>

fun items :: "string \<Rightarrow> 'a fnode \<Rightarrow> (string \<times> 'a \<times> bool) set" where
  "items p (File st l) = {(p, st, False)}"
| "items p (Dir st e es) = insert (p, st, True) (\<Union>q \<in> set es. items (p @ ''/'' @ fst q) (snd q))"

text \<open>\<open>w\<close> lies at, below or above \<open>q\<close>.\<close>

definition related :: "string \<Rightarrow> string \<Rightarrow> bool" where
  "related w q \<longleftrightarrow> q = w \<or> prefix (q @ ''/'') w \<or> prefix (w @ ''/'') q"

lemma items_prefix: "(q, st, b) \<in> items p nd \<Longrightarrow> q = p \<or> prefix (p @ ''/'') q"
proof (induction nd arbitrary: p)
  case (Dir st' e es p)
  then consider "q = p" | n x where "(n, x) \<in> set es" "(q, st, b) \<in> items (p @ ''/'' @ n) x" by auto
  then show ?case
  proof cases
    case (2 n x)
    then have "q = p @ ''/'' @ n \<or> prefix ((p @ ''/'' @ n) @ ''/'') q" using Dir.IH [OF 2(1), of x "p @ ''/'' @ n"] 2(2) by simp
    then show ?thesis by (auto simp: prefix_def)
  qed simp
qed simp

text \<open>The name in the directory \<open>p\<close> through which a path goes tells the entries of a directory apart.\<close>

definition first_name :: "string \<Rightarrow> string \<Rightarrow> string" where
  "first_name p q = takeWhile (\<lambda>c. c \<noteq> CHR ''/'') (drop (Suc (length p)) q)"

lemma first_name_path: "CHR ''/'' \<notin> set n \<Longrightarrow> t = [] \<or> hd t = CHR ''/'' \<Longrightarrow> first_name p (p @ ''/'' @ n @ t) = n"
  by (cases t) (auto simp: first_name_def takeWhile_append takeWhile_eq_all_conv)

lemma first_name_items:
  assumes "(q, st, b) \<in> items (p @ ''/'' @ n) x" "CHR ''/'' \<notin> set n" "q' = q \<or> prefix (q @ ''/'') q'"
  shows "first_name p q' = n"
proof -
  obtain t where q: "q = p @ ''/'' @ n @ t" "t = [] \<or> hd t = CHR ''/''"
    using items_prefix [OF assms(1)] by (auto simp: prefix_def)
  obtain t' where "q' = p @ ''/'' @ n @ t'" "t' = [] \<or> hd t' = CHR ''/''"
    using assms(3) q by (cases t) (auto simp: prefix_def)
  then show ?thesis using first_name_path [OF assms(2)] by blast
qed

lemma child_items:
  assumes "wf_tree (Dir st e es)" "(n, x) \<in> set es" "(n', x') \<in> set es"
    and "(q, s, b) \<in> items (p @ ''/'' @ n) x" "(q', s', b') \<in> items (p @ ''/'' @ n') x'" "q' = q \<or> prefix (q @ ''/'') q'"
  shows "n' = n \<and> x' = x"
proof -
  have "CHR ''/'' \<notin> set n" "CHR ''/'' \<notin> set n'" using wf_entry [OF assms(1)] assms(2,3) by blast+
  then have "n' = n" using first_name_items [OF assms(4) _ assms(6)] first_name_items [OF assms(5)] by auto
  then show ?thesis using assms(1-3) by (auto dest: eq_key_imp_eq_value)
qed

lemma nothing_below_file:
  "wf_tree nd \<Longrightarrow> (f, s, False) \<in> items p nd \<Longrightarrow> (q, s', b) \<in> items p nd \<Longrightarrow> \<not> prefix (f @ ''/'') q \<and> (q = f \<longrightarrow> \<not> b)"
proof (induction nd arbitrary: p)
  case (Dir st e es p)
  obtain n x where x: "(n, x) \<in> set es" "(f, s, False) \<in> items (p @ ''/'' @ n) x" using Dir.prems(2) by auto
  have l: "length p < length f" using items_prefix [OF x(2)] by (auto simp: prefix_def)
  consider "q = p" | n' x' where "(n', x') \<in> set es" "(q, s', b) \<in> items (p @ ''/'' @ n') x'" using Dir.prems(3) by auto
  then show ?case
  proof cases
    case 1
    then show ?thesis using l by (auto dest: prefix_length_le)
  next
    case (2 n' x')
    show ?thesis
    proof (rule ccontr)
      assume c: "\<not> ?thesis"
      then have "n' = n \<and> x' = x" using child_items [OF Dir.prems(1) x(1) 2(1) x(2) 2(2)] by blast
      then show False using Dir.IH [OF x(1), of x "p @ ''/'' @ n"] wf_entry [OF Dir.prems(1) x(1)] x(2) 2(2) c by auto
    qed
  qed
qed auto

section \<open>Keeping the marked nodes\<close>

text \<open>The topmost nodes with a property, and a tree reduced to them and the directories above.\<close>

fun mark_paths :: "(string \<Rightarrow> 'a fnode \<Rightarrow> bool) \<Rightarrow> string \<Rightarrow> 'a fnode \<Rightarrow> string set" where
  "mark_paths W p (File st l) = (if W p (File st l) then {p} else {})"
| "mark_paths W p (Dir st e es) = (if W p (Dir st e es) then {p} else \<Union>q \<in> set es. mark_paths W (p @ ''/'' @ fst q) (snd q))"

definition retains :: "(string \<Rightarrow> 'a fnode \<Rightarrow> bool) \<Rightarrow> string \<Rightarrow> 'a fnode \<Rightarrow> 'a fnode option \<Rightarrow> bool" where
  "retains W p nd r \<longleftrightarrow> (r = None \<longleftrightarrow> mark_paths W p nd = {}) \<and>
     (\<forall>y. r = Some y \<longrightarrow> items p y = {i \<in> items p nd. \<exists>w \<in> mark_paths W p nd. related w (fst i)})"

lemma marks_items: "w \<in> mark_paths W p nd \<Longrightarrow> \<exists>st b. (w, st, b) \<in> items p nd"
  by (induction nd arbitrary: p) (fastforce split: if_splits)+

lemma retains_whole: "W p nd \<Longrightarrow> retains W p nd (Some nd)"
proof -
  assume "W p nd"
  then have "mark_paths W p nd = {p}" by (cases nd) simp_all
  moreover have "related p (fst i)" if "i \<in> items p nd" for i
    using items_prefix [of "fst i" "fst (snd i)" "snd (snd i)" p nd] that by (auto simp: related_def)
  ultimately show ?thesis by (auto simp: retains_def)
qed

lemma marked_child:
  assumes wf: "wf_tree (Dir st e es)" and h: "(n, x) \<in> set es" "(n', x') \<in> set es" "w \<in> mark_paths W (p @ ''/'' @ n) x"
    "(q, st', b) \<in> items (p @ ''/'' @ n') x'" "related w q"
  shows "n = n' \<and> x = x'"
proof -
  obtain sw bw where w: "(w, sw, bw) \<in> items (p @ ''/'' @ n) x" using marks_items [OF h(3)] by blast
  show ?thesis using h(5) child_items [OF wf h(1,2) w h(4)] child_items [OF wf h(2,1,4) w] by (auto simp: related_def)
qed

lemma marks_below:
  assumes "w \<in> mark_paths W (p @ ''/'' @ n) x"
  shows "related w p"
proof -
  obtain sw bw where "(w, sw, bw) \<in> items (p @ ''/'' @ n) x" using marks_items [OF assms] by blast
  from items_prefix [OF this] show ?thesis by (auto simp: related_def prefix_def)
qed

lemma retains_none:
  assumes R: "\<And>n x. (n, x) \<in> set es \<Longrightarrow> retains W (p @ ''/'' @ n) x (R n x)"
    and es': "set es' = {(n, y). \<exists>x. (n, x) \<in> set es \<and> R n x = Some y}"
  shows "es' = [] \<longleftrightarrow> (\<Union>(n, x) \<in> set es. mark_paths W (p @ ''/'' @ n) x) = {}"
proof -
  have "es' = [] \<longleftrightarrow> set es' = {}" by simp
  also have "\<dots> \<longleftrightarrow> (\<forall>n x. (n, x) \<in> set es \<longrightarrow> R n x = None)" unfolding es' by (auto, metis not_Some_eq)
  also have "\<dots> \<longleftrightarrow> (\<forall>n x. (n, x) \<in> set es \<longrightarrow> mark_paths W (p @ ''/'' @ n) x = {})" using R unfolding retains_def by meson
  finally show ?thesis by auto
qed

lemma retains_dir:
  assumes W: "\<not> W p (Dir st e es)" and wf: "wf_tree (Dir st e es)"
    and R: "\<And>n x. (n, x) \<in> set es \<Longrightarrow> retains W (p @ ''/'' @ n) x (R n x)"
    and es': "set es' = {(n, y). \<exists>x. (n, x) \<in> set es \<and> R n x = Some y}"
  shows "retains W p (Dir st e es) (if es' = [] then None else Some (Dir st e es'))"
proof -
  let ?m = "\<lambda>n x. mark_paths W (p @ ''/'' @ n) x"
  have m: "mark_paths W p (Dir st e es) = (\<Union>(n, x) \<in> set es. ?m n x)" using W by (auto simp: case_prod_beta)
  have e: "es' = [] \<longleftrightarrow> mark_paths W p (Dir st e es) = {}" unfolding m by (rule retains_none [OF R es'])
  have "items p (Dir st e es') = {i \<in> items p (Dir st e es). \<exists>w \<in> mark_paths W p (Dir st e es). related w (fst i)}" (is "?l = ?r") if ne: "es' \<noteq> []"
  proof (intro set_eqI iffI)
    fix i
    assume "i \<in> ?l"
    then consider "i = (p, st, True)" | n y where "(n, y) \<in> set es'" "i \<in> items (p @ ''/'' @ n) y" by auto
    then show "i \<in> ?r"
    proof cases
      case 1
      obtain w where w: "w \<in> mark_paths W p (Dir st e es)" using e ne by blast
      then have "related w p" using marks_below unfolding m by auto
      then show ?thesis using 1 w by (auto simp del: mark_paths.simps)
    next
      case (2 n y)
      then obtain x where x: "(n, x) \<in> set es" "R n x = Some y" unfolding es' by auto
      then have "i \<in> items (p @ ''/'' @ n) x \<and> (\<exists>w \<in> ?m n x. related w (fst i))" using R [OF x(1)] 2(2) by (auto simp: retains_def)
      then show ?thesis using x(1) unfolding m by force
    qed
  next
    fix i
    assume r: "i \<in> ?r"
    then consider "i = (p, st, True)" | n x where "(n, x) \<in> set es" "i \<in> items (p @ ''/'' @ n) x" by auto
    then show "i \<in> ?l"
    proof cases
      case (2 n x)
      obtain n' x' w where w: "(n', x') \<in> set es" "w \<in> ?m n' x'" "related w (fst i)" using r unfolding m by auto
      have nn: "n' = n \<and> x' = x" by (rule marked_child [OF wf w(1) 2(1) w(2) _ w(3), of "fst (snd i)" "snd (snd i)"]) (use 2(2) in simp)
      obtain y where y: "R n x = Some y" using w(2) nn R [OF 2(1)] by (cases "R n x") (auto simp: retains_def)
      then have "i \<in> items (p @ ''/'' @ n) y" using R [OF 2(1)] w nn 2(2) by (auto simp: retains_def)
      moreover have "(n, y) \<in> set es'" unfolding es' using 2(1) y by blast
      ultimately show ?thesis by force
    qed simp
  qed
  then show ?thesis using e by (auto simp: retains_def)
qed

section \<open>Removing empty directories\<close>

fun within :: "nat \<Rightarrow> 'a fnode \<Rightarrow> bool" where
  "within k (File st l) = True"
| "within 0 (Dir st e es) = False"
| "within (Suc k) (Dir st e es) = list_all (\<lambda>q. within k (snd q)) es"

fun readable :: "'a fnode \<Rightarrow> bool" where
  "readable (File st l) = True"
| "readable (Dir st e es) = (e = 0 \<and> list_all (\<lambda>q. readable (snd q)) es)"

fun no_links :: "'a fnode \<Rightarrow> bool" where
  "no_links (File st l) = (l = None)"
| "no_links (Dir st e es) = list_all (\<lambda>q. no_links (snd q)) es"

definition is_file :: "string \<Rightarrow> 'a fnode \<Rightarrow> bool" where
  "is_file p nd = (case nd of File st l \<Rightarrow> True | _ \<Rightarrow> False)"

lemma is_file_simps [simp]: "is_file p (File st l)" "\<not> is_file p (Dir st e es)"
  by (simp_all add: is_file_def)

lemma marks_files: "mark_paths is_file p nd = {f. \<exists>st. (f, st, False) \<in> items p nd}"
proof (induction nd arbitrary: p)
  case (Dir st e es p)
  have "mark_paths is_file (p @ ''/'' @ fst q) (snd q) = {f. \<exists>st. (f, st, False) \<in> items (p @ ''/'' @ fst q) (snd q)}" if "q \<in> set es" for q
    using Dir.IH [of q "snd q" "p @ ''/'' @ fst q"] that by (cases q) simp
  then show ?case by auto
qed simp

lemma set_concat_some:
  "set (concat (map (\<lambda>q. case f q of None \<Rightarrow> [] | Some x \<Rightarrow> [(fst q, x)]) xs)) = {(n, y). \<exists>x. (n, x) \<in> set xs \<and> f (n, x) = Some y}"
  by (induction xs) (auto split: option.splits)

lemma prune_retains: "wf_tree nd \<Longrightarrow> within k nd \<Longrightarrow> retains is_file p nd (prune True k nd)"
proof (induction nd arbitrary: k p)
  case (File st l k p)
  then show ?case using retains_whole [of is_file p "File st l"] by simp
next
  case (Dir st e es k p)
  then obtain k' where k: "k = Suc k'" by (cases k) simp_all
  have "retains is_file (p @ ''/'' @ n) x (prune True k' x)" if "(n, x) \<in> set es" for n x
    using Dir.IH [OF that, of x k' "p @ ''/'' @ n"] wf_entry [OF Dir.prems(1) that] Dir.prems(2) that k by (fastforce simp: list_all_iff)
  from retains_dir [OF _ Dir.prems(1) this, of "concat (map (\<lambda>q. case prune True k' (snd q) of None \<Rightarrow> [] | Some x \<Rightarrow> [(fst q, x)]) (sort_key fst es))"]
  show ?case unfolding k prune.simps Let_def by (simp only: set_concat_some set_sort snd_conv is_file_simps not_False_eq_True True_implies_equals simp_thms)
qed

lemma root_item: "(p, st, True) \<in> items p (Dir st e es)" "(p, s, b) \<in> items p (Dir st e es) \<Longrightarrow> s = st \<and> b"
  using items_prefix by (fastforce simp: prefix_def)+

lemma related_file:
  assumes nd: "wf_tree nd" "(p, st, True) \<in> items p nd" and f: "(f, s, False) \<in> items p nd" and q: "(q, s', b) \<in> items p nd"
  shows "(\<exists>f s. (f, s, False) \<in> items p nd \<and> related f q) \<longleftrightarrow>
    (b \<longrightarrow> q = p \<or> (\<exists>f s. (f, s, False) \<in> items p nd \<and> prefix (q @ ''/'') f))"
proof (cases b)
  case True
  have "prefix (p @ ''/'') f" using items_prefix [OF f] nothing_below_file [OF nd(1) f nd(2)] by auto
  moreover have "related g q \<longleftrightarrow> prefix (q @ ''/'') g" if "(g, u, False) \<in> items p nd" for g u
    using nothing_below_file [OF nd(1) that q] True by (auto simp: related_def)
  ultimately show ?thesis using True f by blast
next
  case False
  then have "(q, s', False) \<in> items p nd \<and> related q q" using q by (simp add: related_def)
  then show ?thesis using False by blast
qed

lemma retained_files:
  fixes st :: 'a
  assumes wf: "wf_tree (Dir st e es)" and r: "retains is_file p (Dir st e es) r"
  shows "items p (case r of None \<Rightarrow> Dir st e [] | Some y \<Rightarrow> y) = {(q, st', isdir) \<in> items p (Dir st e es).
    isdir \<longrightarrow> q = p \<or> (\<exists>f s. (f, s, False) \<in> items p (Dir st e es) \<and> prefix (q @ ''/'') f)}" (is "_ = ?k")
proof (cases r)
  case None
  then have "\<nexists>f s. (f, s, False) \<in> items p (Dir st e es)" using r by (auto simp: retains_def marks_files)
  then show ?thesis using None root_item(2) [of p _ _ st e es] by force
next
  case (Some y)
  then obtain f s where f: "(f, s, False) \<in> items p (Dir st e es)"
    using r unfolding retains_def marks_files by blast
  have i: "items p y = {i \<in> items p (Dir st e es). \<exists>f s. (f, s, False) \<in> items p (Dir st e es) \<and> related f (fst i)}"
    using r Some unfolding retains_def marks_files by blast
  show ?thesis unfolding Some option.case i
  proof (rule set_eqI)
    fix z :: "string \<times> 'a \<times> bool"
    obtain q s' b where z: "z = (q, s', b)" by (cases z)
    show "z \<in> {i \<in> items p (Dir st e es). \<exists>f s. (f, s, False) \<in> items p (Dir st e es) \<and> related f (fst i)} \<longleftrightarrow> z \<in> ?k"
      using related_file [OF wf root_item(1) f, of q s' b] unfolding z mem_Collect_eq prod.case fst_conv by blast
  qed
qed

lemma readable_listing: "readable nd \<Longrightarrow> Failed q e \<notin> set (listing k p nd)"
proof (induction k p nd rule: listing.induct)
  case (3 k p st e' es)
  then show ?case by (fastforce simp: list_all_iff)
qed simp_all

lemma run_without_fn: "a_fn a = None \<Longrightarrow> \<forall>q e. Failed q e \<notin> set evs \<Longrightarrow> run_events a evs u = (None, u)"
  by (induction a evs u rule: run_events.induct) (auto simp: call_fn_def)

section \<open>Deleting all but one path\<close>

fun kept :: "string option \<Rightarrow> string \<Rightarrow> 'a fnode \<Rightarrow> 'a fnode option" where
  "kept keep p (File st l) = (if keep = Some p then Some (File st l) else None)"
| "kept keep p (Dir st e es) =
     (if keep = Some p then Some (Dir st e es)
      else let es' = concat (map (\<lambda>q. case kept keep (p @ ''/'' @ fst q) (snd q) of None \<Rightarrow> [] | Some x \<Rightarrow> [(fst q, x)]) es)
           in if es' = [] then None else Some (Dir st e es'))"

lemma kept_retains: "wf_tree nd \<Longrightarrow> retains (\<lambda>p nd. keep = Some p) p nd (kept keep p nd)"
proof (induction nd arbitrary: p)
  case (File st l p)
  then show ?case using retains_whole [of "\<lambda>p nd. keep = Some p" p "File st l"] by (auto simp: retains_def)
next
  case (Dir st e es p)
  show ?case
  proof (cases "keep = Some p")
    case True
    then show ?thesis using retains_whole [of "\<lambda>p nd. keep = Some p" p "Dir st e es"] by simp
  next
    case False
    have "retains (\<lambda>p nd. keep = Some p) (p @ ''/'' @ n) x (kept keep (p @ ''/'' @ n) x)" if "(n, x) \<in> set es" for n x
      using Dir.IH [OF that, of x "p @ ''/'' @ n"] wf_entry [OF Dir.prems(1) that] by simp
    from retains_dir [where W = "\<lambda>p nd. keep = Some p", OF False Dir.prems(1) this,
        of "concat (map (\<lambda>q. case kept keep (p @ ''/'' @ fst q) (snd q) of None \<Rightarrow> [] | Some x \<Rightarrow> [(fst q, x)]) es)"]
    show ?thesis using False unfolding kept.simps Let_def by (simp only: set_concat_some fst_conv snd_conv if_False simp_thms)
  qed
qed

lemma marks_keep: "mark_paths (\<lambda>p nd. keep = Some p) p nd = {q. keep = Some q \<and> (\<exists>st b. (q, st, b) \<in> items p nd)}"
proof (induction nd arbitrary: p)
  case (Dir st e es p)
  have "mark_paths (\<lambda>p nd. keep = Some p) (p @ ''/'' @ fst q) (snd q) = {f. keep = Some f \<and> (\<exists>st b. (f, st, b) \<in> items (p @ ''/'' @ fst q) (snd q))}"
    if "q \<in> set es" for q
    using Dir.IH [of q "snd q" "p @ ''/'' @ fst q"] that by (cases q) simp
  then have m: "(\<Union>q \<in> set es. mark_paths (\<lambda>p nd. keep = Some p) (p @ ''/'' @ fst q) (snd q)) =
      (\<Union>q \<in> set es. {f. keep = Some f \<and> (\<exists>st b. (f, st, b) \<in> items (p @ ''/'' @ fst q) (snd q))})"
    by (intro SUP_cong refl) simp
  show ?case unfolding mark_paths.simps items.simps m by auto
qed auto

text \<open>The walk on a readable tree without links, below the root, and at the root.\<close>

lemma live_dots: "live_entries (dots @ ents) = live_entries ents"
  by (simp add: live_entries_def dots_def)

lemma no_chdir_walk:
  assumes "\<forall>q \<in> set ents. entry_ok 1024 w q"
    and "\<forall>n x. (n, Some x) \<in> set ents \<longrightarrow> ftw_no_chdir r keep (w @ ''/'' @ n) (Some x) 0 = Some (0, kept keep (w @ ''/'' @ n) x, 0)"
  shows "no_chdir_entries r keep w ents 0 = Some (map (\<lambda>q. (fst q, Option.bind (snd q) (kept keep (w @ ''/'' @ fst q)))) ents, 0)"
  using assms
proof (induction ents)
  case (Cons q ents)
  obtain n x where q: "q = (n, x)" by (cases q)
  show ?case
  proof (cases x)
    case None
    then have "n = ''.'' \<or> n = ''..''" using Cons.prems(1) q by (simp add: entry_ok_def)
    then show ?thesis using Cons None q by auto
  next
    case (Some nd)
    then have n: "n \<noteq> ''.''" "n \<noteq> ''..''" "CHR ''/'' \<notin> set n" "path_fits 1024 (w @ ''/'' @ n) nd"
      using Cons.prems(1) q by (auto simp: entry_ok_def)
    then show ?thesis using Cons Some q fits_length [OF n(4)] work_dir_back_path [OF n(3), of w] by simp
  qed
qed simp

lemma kept_dir:
  "live_entries (map (\<lambda>q. (fst q, Option.bind (snd q) (kept keep (p @ ''/'' @ fst q)))) (dots @ map (\<lambda>q. (fst q, Some (snd q))) es)) =
     concat (map (\<lambda>q. case kept keep (p @ ''/'' @ fst q) (snd q) of None \<Rightarrow> [] | Some x \<Rightarrow> [(fst q, x)]) es)"
  by (simp add: live_entries_def dots_def comp_def cong: option.case_cong)

lemma no_chdir_dir:
  assumes wf: "wf_tree (Dir st e es)" "path_fits 1024 dir (Dir st e es)" "readable (Dir st e es)" and k: "keep \<noteq> Some dir"
    and IH: "\<And>n x. (n, x) \<in> set es \<Longrightarrow> ftw_no_chdir r keep (dir @ ''/'' @ n) (Some x) 0 = Some (0, kept keep (dir @ ''/'' @ n) x, 0)"
  shows "ftw_no_chdir r keep dir (Some (Dir st e es)) 0 =
    Some (0, case kept keep dir (Dir st e es) of Some y \<Rightarrow> Some y | None \<Rightarrow> if r = dir then Some (Dir st e []) else None, 0)"
proof -
  let ?ents = "dots @ map (\<lambda>p. (fst p, Some (snd p))) es"
  have o: "\<forall>q \<in> set ?ents. entry_ok 1024 dir q" using wf_entry [OF wf(1)] fits_entry [OF wf(2)] by (auto simp: dots_def entry_ok_def)
  have h: "\<forall>n x. (n, Some x) \<in> set ?ents \<longrightarrow> ftw_no_chdir r keep (dir @ ''/'' @ n) (Some x) 0 = Some (0, kept keep (dir @ ''/'' @ n) x, 0)"
    using IH by (auto simp: dots_def)
  let ?l = "concat (map (\<lambda>q. case kept keep (dir @ ''/'' @ fst q) (snd q) of None \<Rightarrow> [] | Some x \<Rightarrow> [(fst q, x)]) es)"
  obtain ents where w: "no_chdir_entries r keep dir ?ents 0 = Some (ents, 0)" and l: "live_entries ents = ?l"
    using no_chdir_walk [OF o h] kept_dir [of keep dir es] by blast
  have "kept keep dir (Dir st e es) = (if ?l = [] then None else Some (Dir st e ?l))"
    using k unfolding kept.simps Let_def by (simp only: if_False)
  moreover have "ftw_no_chdir r keep dir (Some (Dir st e es)) 0 =
      Some (0, if r \<noteq> dir then fs_remove (Some (Dir st e (live_entries ents))) else Some (Dir st e (live_entries ents)), 0)"
    using wf(2,3) k w by (subst ftw_no_chdir.simps) simp
  ultimately show ?thesis unfolding l by (cases ?l) (simp_all only: fs_remove_def option.case fnode.case list.case list.distinct if_True if_False split: if_split, auto)
qed

lemma ftw_no_chdir_below:
  "wf_tree nd \<Longrightarrow> path_fits 1024 dir nd \<Longrightarrow> readable nd \<Longrightarrow> length r < length dir \<Longrightarrow> no_links nd \<Longrightarrow>
     ftw_no_chdir r keep dir (Some nd) 0 = Some (0, kept keep dir nd, 0)"
proof (induction nd arbitrary: dir)
  case (File st l dir)
  then show ?case by (auto simp: ftw_no_chdir.simps fs_remove_def)
next
  case (Dir st e es dir)
  show ?case
  proof (cases "keep = Some dir")
    case False
    have "ftw_no_chdir r keep (dir @ ''/'' @ n) (Some x) 0 = Some (0, kept keep (dir @ ''/'' @ n) x, 0)" if "(n, x) \<in> set es" for n x
      using Dir.IH [OF that, of x "dir @ ''/'' @ n"] wf_entry [OF Dir.prems(1) that] fits_entry [OF Dir.prems(2) that] Dir.prems(3-5) that
      by (fastforce simp: list_all_iff)
    from no_chdir_dir [OF Dir.prems(1-3) False this] show ?thesis using Dir.prems(4) by (auto split: option.splits)
  qed (use Dir.prems in \<open>simp add: ftw_no_chdir.simps\<close>)
qed

section \<open>Properties\<close>

lemma check_root_walk:
  assumes "wf_tree nd" "path_fits (a_lim a) dir nd" "plain_calls a"
  shows "case run_events a (listing (nat (a_depth a)) dir nd) u of (s, u') \<Rightarrow>
    \<exists>x'. check_root a dir (Some nd) u = Some (stop_value s, x', u') \<and> (s = None \<longrightarrow> x' = left_over a (nat (a_depth a)) start_info nd)"
proof -
  have "info_clean start_info" by (simp add: info_clean_def start_info_def)
  from check_dir_walk [OF assms(3,1,2) this, of u] show ?thesis
    by (auto simp: walk_ok_def check_root_def start_info_def)
qed

lemma ftw_args_sel [simp]:
  "a_lim (ftw_args lim dp sm rm fn ef) = lim" "a_depth (ftw_args lim dp sm rm fn ef) = dp"
  "a_rm_empty (ftw_args lim dp sm rm fn ef) = rm" "a_fn (ftw_args lim dp sm rm fn ef) = fn"
  by (simp_all add: ftw_args_def)

lemma plain_ftw_args:
  "\<forall>f. fn = Some f \<longrightarrow> (\<forall>p st fl v. fst (f p st fl v) \<noteq> FN_RETURN_CONTINUE) \<Longrightarrow> \<forall>p e v. 0 < fst (ef p e v) \<Longrightarrow>
    plain_calls (ftw_args lim dp FTW_SORT_ALPHA rm fn ef)"
  by (cases fn) (simp_all add: plain_calls_def call_fn_def ftw_args_def FN_RETURN_CONTINUE_def)

text \<open>
  The walk as a loop over the events of the listing; at the first directory that cannot be read the error function is called and the walk ends with
  its value negated, not with the value itself.
\<close>

lemma walk_runs_listing:
  assumes t: "wf_tree nd" "path_fits 3072 dir nd"
    and c: "\<forall>f. fn = Some f \<longrightarrow> (\<forall>p st fl v. fst (f p st fl v) \<noteq> FN_RETURN_CONTINUE)" "\<forall>p e v. 0 < fst (ef p e v)"
  shows "\<exists>x'. ftw_sort dir fn dir_depth FTW_SORT_ALPHA rm (Some ef) (Some nd) u =
    (case run_events (ftw_args 3072 dir_depth FTW_SORT_ALPHA rm fn ef) (listing (nat dir_depth) dir nd) u of
       (None, u') \<Rightarrow> Some (0, x', u') | (Some r, u') \<Rightarrow> Some (r, x', u'))"
proof -
  let ?a = "ftw_args 3072 dir_depth FTW_SORT_ALPHA rm fn ef"
  obtain s u' where r: "run_events ?a (listing (nat dir_depth) dir nd) u = (s, u')" by fastforce
  have "\<exists>x'. check_root ?a dir (Some nd) u = Some (stop_value s, x', u')"
    using check_root_walk [of nd ?a dir u] t plain_ftw_args [OF c] r by auto
  then show ?thesis unfolding r by (cases s) (simp_all add: ftw_sort_def stop_value_def)
qed

text \<open>
  C19. A walk is a loop over the sorted listing of the tree. On a tree whose directories can all be read, with a function that never returns
  \<open>FN_RETURN_CONTINUE\<close> (and an error function with positive values), \<open>ftw_sort\<close> calls the function for the directories and files in depth-first, sorted order down to the depth asked
  for, stops at the first call that returns a value other than 0, and returns that value, or 0.
\<close>

theorem walk_visits_sorted_listing:
  assumes t: "wf_tree nd" "path_fits 3072 dir nd" "readable nd"
    and c: "\<forall>f. fn = Some f \<longrightarrow> (\<forall>p st fl v. fst (f p st fl v) \<noteq> FN_RETURN_CONTINUE)" "\<forall>p e v. 0 < fst (ef p e v)"
  shows "\<exists>x'. ftw_sort dir fn dir_depth FTW_SORT_ALPHA rm (Some ef) (Some nd) u =
    (case run_events (ftw_args 3072 dir_depth FTW_SORT_ALPHA rm fn ef) (listing (nat dir_depth) dir nd) u of
       (None, u') \<Rightarrow> Some (0, x', u') | (Some r, u') \<Rightarrow> Some (r, x', u'))"
  by (rule walk_runs_listing [OF t(1,2) c])

text \<open>The same for the walk with a state of the caller, to a depth of 100.\<close>

lemma user_walk_visits_sorted_listing:
  assumes "wf_tree nd" "path_fits 256 dir nd"
    and c: "\<forall>f. fn = Some f \<longrightarrow> (\<forall>p st fl v. fst (f p st fl v) \<noteq> FN_RETURN_CONTINUE)" "\<forall>p e v. 0 < fst (ef p e v)"
  shows "\<exists>x'. ftw_sort_user dir fn FTW_SORT_ALPHA rm (Some ef) (Some nd) u =
    (case run_events (ftw_args 256 DIR_DEPTH FTW_SORT_ALPHA rm fn ef) (listing 100 dir nd) u of (s, u') \<Rightarrow> Some (stop_value s, x', u'))"
  using check_root_walk [of nd "ftw_args 256 DIR_DEPTH FTW_SORT_ALPHA rm fn ef" dir u] assms(1,2) plain_ftw_args [OF c]
  by (auto simp: ftw_sort_user_def check_dir_user_def check_root_def DIR_DEPTH_def split: prod.splits)

text \<open>Example: a partition with a directory of two recordings, an empty one and one that holds an empty one.\<close>

definition sample_tree :: "nat fnode" where
  "sample_tree = Dir 0 0 [(''c'', Dir 1 0 [(''e'', Dir 2 0 [])]), (''a'', Dir 3 0 [(''y'', File 4 None), (''x'', File 5 None)]), (''b'', Dir 6 0 [])]"

definition note_path :: "string \<Rightarrow> nat option \<Rightarrow> ftw_flag \<Rightarrow> string list \<Rightarrow> int \<times> string list" where
  "note_path p st fl u = (if fl = FTW_F \<and> length u = 3 then 2 else 0, u @ [p])"

definition note_error :: "string \<Rightarrow> int \<Rightarrow> string list \<Rightarrow> int \<times> string list" where
  "note_error p e u = (5, u)"

lemma sample_tree_ok: "wf_tree sample_tree" "path_fits 256 ''d'' sample_tree" "path_fits 1024 ''d'' sample_tree" "path_fits 3072 ''d'' sample_tree"
  "readable sample_tree" "no_links sample_tree" "within 3 sample_tree"
  by (simp_all add: sample_tree_def eval_nat_numeral)

theorem walk_visits_sorted_listing_witness:
  "\<exists>x'. ftw_sort ''d'' (Some note_path) 3 FTW_SORT_ALPHA 0 (Some note_error) (Some sample_tree) [] =
     Some (2, x', [''d'', ''d/a'', ''d/a/x'', ''d/a/y''])"
proof -
  have "run_events (ftw_args 3072 3 FTW_SORT_ALPHA 0 (Some note_path) note_error) (listing (nat 3) ''d'' sample_tree) [] =
      (Some 2, [''d'', ''d/a'', ''d/a/x'', ''d/a/y''])"
    by code_simp
  then show ?thesis
    using walk_visits_sorted_listing [OF sample_tree_ok(1,4,5), of "Some note_path" note_error 3 0 "[]"]
    by (simp add: note_path_def note_error_def FN_RETURN_CONTINUE_def)
qed

text \<open>
  C20. Empty directories are removed. \<open>ftw_sort\<close> without a function and with \<open>rm_empty_dir\<close>, as the disk manager calls it, on a readable
  tree within the depth, returns 0 and leaves the root, all files and exactly the directories with a file below.
\<close>

theorem empty_directories_removed:
  assumes t: "wf_tree nd" "path_fits 3072 dir nd" "readable nd" "within (nat dir_depth) nd" "nd = Dir st e es"
    and c: "\<forall>p e v. 0 < fst (ef p e v)"
  shows "\<exists>nd'. ftw_sort dir None dir_depth FTW_SORT_ALPHA 1 (Some ef) (Some nd) u = Some (0, Some nd', u) \<and>
    items dir nd' = {(q, st, isdir) \<in> items dir nd.
      isdir \<longrightarrow> q = dir \<or> (\<exists>f st'. (f, st', False) \<in> items dir nd \<and> prefix (q @ ''/'') f)}"
proof -
  let ?a = "ftw_args 3072 dir_depth FTW_SORT_ALPHA 1 None ef" and ?p = "prune True (nat dir_depth) nd"
  have "run_events ?a (listing (nat dir_depth) dir nd) u = (None, u)"
    by (rule run_without_fn) (use readable_listing [OF t(3)] in simp_all)
  moreover have pl: "plain_calls ?a" by (rule plain_ftw_args) (use c in simp_all)
  ultimately have w: "ftw_sort dir None dir_depth FTW_SORT_ALPHA 1 (Some ef) (Some nd) u = Some (0, left_over ?a (nat dir_depth) start_info nd, u)"
    using check_root_walk [of nd ?a dir u] t(1,2) pl by (simp add: ftw_sort_def stop_value_def)
  have r: "retains is_file dir nd ?p" by (rule prune_retains [OF t(1,4)])
  have l: "left_over ?a (nat dir_depth) start_info nd = Some (case ?p of None \<Rightarrow> Dir st e [] | Some y \<Rightarrow> y)"
    by (simp add: left_over_def pruned_def start_info_def t(5) split: option.splits)
  show ?thesis using w [unfolded l] retained_files [OF t(1) [unfolded t(5)] r [unfolded t(5)]] unfolding t(5) by (intro exI conjI)
qed

theorem empty_directories_removed_witness:
  "\<exists>nd'. ftw_sort ''d'' None 3 FTW_SORT_ALPHA 1 (Some note_error) (Some sample_tree) [] = Some (0, Some nd', []) \<and>
     (''d/a/x'', 5, False) \<in> items ''d'' nd' \<and> (''d/b'', 6, True) \<notin> items ''d'' nd'"
proof -
  have i: "items ''d'' sample_tree = {(''d'', 0, True), (''d/c'', 1, True), (''d/c/e'', 2, True), (''d/a'', 3, True), (''d/a/y'', 4, False),
      (''d/a/x'', 5, False), (''d/b'', 6, True)}"
    by (auto simp: sample_tree_def)
  have w: "within (nat 3) sample_tree" and ef: "\<forall>p e v. 0 < fst (note_error p e v)" using sample_tree_ok(7) by (simp_all add: note_error_def)
  obtain nd' where n: "ftw_sort ''d'' None 3 FTW_SORT_ALPHA 1 (Some note_error) (Some sample_tree) [] = Some (0, Some nd', [])"
    "items ''d'' nd' = {(q, st, isdir) \<in> items ''d'' sample_tree.
       isdir \<longrightarrow> q = ''d'' \<or> (\<exists>f st'. (f, st', False) \<in> items ''d'' sample_tree \<and> prefix (q @ ''/'') f)}"
    using empty_directories_removed [OF sample_tree_ok(1,4,5) w sample_tree_def ef, of "[]"] by blast
  have "(''d/a/x'', 5, False) \<in> items ''d'' nd' \<and> (''d/b'', 6, True) \<notin> items ''d'' nd'" unfolding n(2) i by auto
  then show ?thesis using n(1) by blast
qed

text \<open>
  C21. Deleting all but one path. On a readable tree without links \<open>rm_file_select\<close> returns 0 and leaves the directory it is given, and of what is
  below exactly the path to be kept with everything below it and the directories above it; with no such path the directory is empty.
\<close>

theorem rm_file_select_keeps_one_path:
  assumes t: "wf_tree nd" "path_fits 1024 dir nd" "readable nd" "no_links nd" "nd = Dir st e es" and k: "file_path \<noteq> Some dir"
  shows "\<exists>nd'. rm_file_select dir file_path (Some nd) = Some (0, Some nd') \<and>
    items dir nd' = {i \<in> items dir nd. fst i = dir \<or>
      (\<exists>w s b. file_path = Some w \<and> (w, s, b) \<in> items dir nd \<and> related w (fst i))}"
proof -
  let ?p = "kept file_path dir nd"
  have "ftw_no_chdir dir file_path (dir @ ''/'' @ n) (Some x) 0 = Some (0, kept file_path (dir @ ''/'' @ n) x, 0)" if "(n, x) \<in> set es" for n x
    using ftw_no_chdir_below [of x "dir @ ''/'' @ n" dir file_path] wf_entry [OF t(1) [unfolded t(5)] that] fits_entry [OF t(2) [unfolded t(5)] that] t(3-5) that
    by (fastforce simp: list_all_iff)
  from no_chdir_dir [OF t(1-3) [unfolded t(5)] k this]
  have w: "rm_file_select dir file_path (Some nd) = Some (0, Some (case ?p of None \<Rightarrow> Dir st e [] | Some y \<Rightarrow> y))"
    by (auto simp: rm_file_select_def t(5) split: option.splits)
  have r: "retains (\<lambda>p nd. file_path = Some p) dir nd ?p" by (rule kept_retains [OF t(1)])
  note root = root_item(1) [of dir st e es, folded t(5)] root_item(2) [of dir _ _ st e es, folded t(5)]
  show ?thesis
  proof (cases ?p)
    case None
    then have n: "\<not> (file_path = Some w \<and> (w, s, b) \<in> items dir nd)" for w s b using r by (auto simp: retains_def marks_keep)
    have e: "i = (dir, st, True)" if "i \<in> items dir nd" "fst i = dir" for i using root(2) that by (cases i) auto
    have "{i \<in> items dir nd. fst i = dir \<or> (\<exists>w s b. file_path = Some w \<and> (w, s, b) \<in> items dir nd \<and> related w (fst i))} = {(dir, st, True)}"
    proof (intro equalityI subsetI)
      fix i
      assume "i \<in> {i \<in> items dir nd. fst i = dir \<or> (\<exists>w s b. file_path = Some w \<and> (w, s, b) \<in> items dir nd \<and> related w (fst i))}"
      then show "i \<in> {(dir, st, True)}" using n e by blast
    qed (use root(1) in simp)
    then show ?thesis using None w by simp
  next
    case (Some y)
    then have i: "items dir y = {i \<in> items dir nd. \<exists>w s b. file_path = Some w \<and> (w, s, b) \<in> items dir nd \<and> related w (fst i)}"
      and m: "\<exists>w s b. file_path = Some w \<and> (w, s, b) \<in> items dir nd"
      using r by (auto simp: retains_def marks_keep)
    have "related w dir" if "(w, s, b) \<in> items dir nd" for w s b using items_prefix [OF that] by (auto simp: related_def)
    then show ?thesis using Some w i m by auto
  qed
qed

theorem rm_file_select_keeps_one_path_witness:
  "\<exists>nd'. rm_file_select ''d'' (Some ''d/a/x'') (Some sample_tree) = Some (0, Some nd') \<and>
     (''d/a'', 3, True) \<in> items ''d'' nd' \<and> (''d/a/y'', 4, False) \<notin> items ''d'' nd'"
proof -
  have m: "(''d/a/x'', 5, False) \<in> items ''d'' sample_tree" "(''d/a'', 3, True) \<in> items ''d'' sample_tree" by (auto simp: sample_tree_def)
  have r: "related ''d/a/x'' ''d/a''" "\<not> related ''d/a/x'' ''d/a/y''" by (simp_all add: related_def)
  obtain nd' where n: "rm_file_select ''d'' (Some ''d/a/x'') (Some sample_tree) = Some (0, Some nd')"
    "items ''d'' nd' = {i \<in> items ''d'' sample_tree. fst i = ''d'' \<or>
      (\<exists>w s b. Some ''d/a/x'' = Some w \<and> (w, s, b) \<in> items ''d'' sample_tree \<and> related w (fst i))}"
    using rm_file_select_keeps_one_path [OF sample_tree_ok(1,3,5,6) sample_tree_def, of "Some ''d/a/x''"] by auto
  have "(''d/a'', 3, True) \<in> items ''d'' nd' \<and> (''d/a/y'', 4, False) \<notin> items ''d'' nd'" unfolding n(2) using m r by auto
  then show ?thesis using n(1) by blast
qed

section \<open>Deviations\<close>

text \<open>
  A callback may skip a directory with \<open>FN_RETURN_CONTINUE\<close>. The return on that path does not undo the count of the depth, so that directories that come
  later are taken to lie deeper: here the directories after the skipped one are not visited although the depth is sufficient. The walk is complete
  and returns 1, not 0.
\<close>

definition skip_a :: "string \<Rightarrow> nat option \<Rightarrow> ftw_flag \<Rightarrow> string list \<Rightarrow> int \<times> string list" where
  "skip_a p st fl u = (if p = ''d/a'' then FN_RETURN_CONTINUE else 0, u @ [p])"

lemma skipped_directory_counts:
  "map_option (\<lambda>(r, x, u). (r, u)) (ftw_sort ''d'' (Some skip_a) 2 FTW_SORT_ALPHA 0 (Some note_error) (Some sample_tree) []) = Some (1, [''d'', ''d/a''])"
  by code_simp

text \<open>A sort mode other than \<open>FTW_SORT_ALPHA\<close> releases a list that was never allocated.\<close>

lemma other_sort_mode_undefined:
  "sort_mode \<noteq> FTW_SORT_ALPHA \<Longrightarrow> 0 < dir_depth \<Longrightarrow> length dir < 3072 \<Longrightarrow>
    ftw_sort dir None dir_depth sort_mode rm (Some ef) (Some (Dir st 0 es)) u = None"
  by (simp add: ftw_sort_def check_root_def check_dir.simps call_fn_def start_info_def FTW_SORT_ALPHA_def ftw_args_def)

end
