(* ===== verification/Spec2Isabelle.thy ===== *)
theory Spec2Isabelle
  imports Pool_Admin Shm_Core Crc Dev_Pkt Sec_Fifo Watch_Cmd Nv_Props Csv_Props Rt_Props Conf_Props Audio_Props
    Rec_Thread_Props Rec_Resume Rec_Disk Common_Lib Alarm_Props Ftw_Props
begin

text \<open>
  Verification of the core libraries and the recorder of the network video encoder in \<open>src/\<close>.

  \<^bold>\<open>The program.\<close> The device is a set of Linux processes (\<open>ipmain\<close>, \<open>rtimage\<close>, the recorder
  \<open>mp_hdmodule_m\<close>, \<open>rebootd\<close> and others). Encoded audio and video go from the producer to all
  consumers through packet pools in shared memory (\<open>libsrc/gtipcs\<close>); a consumer thread passes
  frames on through an element pool (\<open>src/mp_hdmodule_m/rtpool.c\<close>) or a byte ring
  (\<open>src/rtimage/sec_fifo.c\<close>). The recorder (\<open>src/mp_hdmodule_m/hdmod.c\<close>) has four channels; for each a thread
  takes frames from the pool and writes them to files whose names (\<open>libsrc/hdutil\<close>) say when, on which
  channel, how long and on which triggers they were recorded. The main process (\<open>src/ipmain\<close>) decides every second which inputs make
  an alarm (\<open>alarm_process.c\<close>) and sends the recorder commands, as users do; a clock
  that runs every second ends recordings and cuts files. Commands travel as name-value texts (\<open>libsrc/nv_pair\<close>), device
  settings over multicast packets (\<open>libsrc/gtdevapi\<close>), the reset command over a serial line
  (\<open>src/rebootd\<close>), settings are kept in configuration files (\<open>libsrc/confparser\<close>), logs and lists in
  csv files (\<open>libsrc/csvparser\<close>). The disk manager cleans up
  partitions with the directory walks of \<open>libsrc/filelib\<close>. Sound is converted by \<open>libsrc/audiofmt\<close>, also in the sound check of
  \<open>src/rtimage/deaf\<close>.

  \<^bold>\<open>Conventions.\<close> C integers are \<open>int\<close> where the code's guards keep them in range and words where
  wrap-around matters (sequence numbers, byte counts, checksums, element types). C division is
  \<open>sdiv\<close> and \<open>smod\<close>. Undefined behaviour (an access outside an array, a null dereference, the read
  of an unterminated string) is the value \<open>None\<close>, so a theorem that an operation returns \<open>Some\<close> is
  also a theorem that it stays inside its memory. A pointer argument that may be \<open>NULL\<close> is an
  option. Results of system calls are arguments. Error codes are the negative integers of the
  code.

  \<^bold>\<open>Theories.\<close>
  \<^item> \<open>Prelude\<close>: errno values, byte memory, arrays, rings; the locale \<open>region_store\<close> of a memory read
    and written in regions, interpreted on rings.
  \<^item> \<open>Shm_Pool\<close>: the packet pool, \<open>libsrc/gtipcs/mshmpool.c\<close>, \<open>include/mshmpool.h\<close>,
    \<open>include/msem.h\<close>. \<open>shm\<close> is the shared state (header, data, semaphores), \<open>MSHM_POOL\<close> the handle;
    one definition per C function with its name. \<open>Pool_Ring\<close> has the invariant \<open>pool_inv\<close> and the
    refinement of \<open>MShmPoolAddResource\<close> to the abstract pool, a list of packets with sizes;
    \<open>Pool_Readers\<close> and \<open>Pool_Steps\<close> the other operations and the step relation of all processes;
    \<open>Packet_Log\<close> the locales \<open>packet_log\<close> and \<open>packet_channel\<close> of what a reader relies on;
    \<open>Pool_Stream\<close> their interpretations. \<open>Pool_Props\<close> (C1 to C6) shows the refinement, the
    invariant in all reachable states, in-order delivery to a reader that keeps up, when an append is
    refused and what it evicts, and where a read leaves the array. Creation works on a segment of a given size and is
    \<open>None\<close> when it writes behind it; in the step relation the pool may be created again with any result, but a creation that
    fails at \<open>semget\<close>, after the header was set up anew, asks for the old size (for another size the pool is broken,
    \<open>failed_creation_breaks_pool\<close>). \<open>Pool_Admin\<close> composes creation with the segment of \<open>Shm_Core\<close> (C7): a segment that
    exists already must be large enough. It also has waiting reads, cursor moves and user management.
  \<^item> \<open>Shm_Core\<close>: segments and their lock, \<open>libsrc/gtipcs/mshm.c\<close>, on a state of the kernel that holds segments and semaphores. Processes that call
    \<open>MShmLock\<close> and \<open>MShmUnLock\<close>, are interrupted or die exclude each other (C8) until the segment is created again.
  \<^item> \<open>C_Time\<close>: \<open>mktime\<close> and \<open>localtime\<close> of the C library, for a fixed offset of the time zone, and that they are inverse.
  \<^item> \<open>Rec_Name\<close>, \<open>Rec_Name_Props\<close>: names of recordings, \<open>libsrc/hdutil/hdutil.c\<close> and \<open>hdmod.c\<close>: the name of a
    file is read back into the same information (C13); marks and places.
  \<^item> \<open>Rec_File\<close>: the state of a channel (\<open>hd_enc\<close> is \<open>struct hd_enc_struct\<close>, the table \<open>g_hdenc\<close> a list of four), opening
    and closing a file, and the file's life between the two (C12).
  \<^item> \<open>Rec_State\<close>, \<open>Rec_State_Props\<close>: what commands (\<open>process_modcmd.c\<close>), the configuration and the clock
    (\<open>hd_second_proc\<close>) do to a channel. The locale \<open>file_event\<close> is the contract of an event that leaves the channel's file
    to its thread, \<open>channel_event\<close> extends it by the invariant of the channel's state; the events of the code are its
    interpretations. Every recording ends after the seconds asked for (C11).
  \<^item> \<open>Rec_Thread\<close>, \<open>Rec_Thread_Props\<close>: the recording thread \<open>record_file_thread\<close> in steps, its start and stop by
    \<open>process_hdrecord_ctrl\<close>, and the recorder, the step relation of commands, clock and four threads. A stop that finds the thread alive closes its file and
    cancels it; the cancellation acts at the end of any later part, where the cleanup handler runs. A new thread
    finds the connection as the last one left it, and starts when that one has ended; \<open>lock_recent_file\<close> renames finished files that the index names. In all reachable
    states the effects on the disk are whole recordings (C9), and, without the command \<open>MAIN_REFRESH_PARA\<close>, which changes the mode of a channel only, the state of a
    channel fits its counters (C10).
  \<^item> \<open>Rec_Resume\<close>: the log of commands, and continuing a recording after a restart: the last start, stop or clear among other records decides (C14).
  \<^item> \<open>Rec_Disk\<close>: the search for a partition with free space (C15).
  \<^item> \<open>Alarm\<close>, \<open>Alarm_Props\<close>: the alarm decisions of the main process, \<open>ipmain/alarm_process.c\<close>, motion detection (\<open>video_para_api.c\<close>) and the
    reset by a user (\<open>netcmdproc.c\<close>). A round takes the terminals' bits to the alarm state \<open>alarm_state\<close> and a list of effects \<open>alarm_op\<close>;
    \<open>deliver\<close> lets the recorder of \<open>Rec_State\<close> execute the commands among them, so that the two processes are composed. Shown: which
    inputs make an alarm, with their hours on the day's circle (C16), that a new alarm of the first ten inputs is recorded on its channel (C17), and that
    on a device with several channels a reset ends exactly the alarms without another pending input (C18).
  \<^item> \<open>Ftw\<close>, \<open>Ftw_Props\<close>: the directory walks of \<open>libsrc/filelib\<close> on a file system as a tree: \<open>ftw_sort\<close> (\<open>ftw_sort.c\<close>), \<open>ftw_sort_user\<close>
    (\<open>ftw_sort_user.c\<close>) and \<open>rm_file_select\<close>. Shown: the calls a walk makes on a readable tree are its sorted listing (C19), empty directories and only
    these are removed (C20), and deleting all but one path (C21).
  \<^item> \<open>Crc\<close>: \<open>src/rebootd/crc16.c\<close> and \<open>libsrc/gtdevapi/src/tab_crc32.c\<close>; the tables are polynomial
    division, and a changed byte changes the checksum (C22).
  \<^item> \<open>Dev_Pkt\<close>: multicast packets, \<open>libsrc/gtdevapi/src/gt_dev_api.c\<close>: round trip, filtering, and
    two ways a datagram is accepted wrongly (C23, C24).
  \<^item> \<open>Sec_Fifo\<close>: the byte ring, with the locale \<open>byte_fifo\<close> (C25).
  \<^item> \<open>C_String\<close>: the C string functions, decimal numbers and \<open>fgets\<close>. \<open>Key_Value\<close>: the locales \<open>kv_store\<close> and
    \<open>kv_bounded\<close> of a store of values under keys, interpreted on the pairs, the fields and the
    configuration lines.
  \<^item> \<open>Nv_Pair\<close>, \<open>Nv_Props\<close>: name-value pairs, \<open>libsrc/nv_pair/src/nv_pair.c\<close>: the outcome of every set,
    the pairs as a map, integers, and the text between two processes (C26 to C28).
  \<^item> \<open>Csv_Parser\<close>, \<open>Csv_File\<close>, \<open>Csv_Props\<close>: records, lines and record files,
    \<open>libsrc/csvparser/csvparser.c\<close>: fields as a map, lines and back, the file as a list of records,
    what is written is read back (C29, C30). The record number \<open>INT_MIN\<close>, which the code negates, is \<open>None\<close>.
  \<^item> \<open>Rt_Pool\<close>, \<open>Rt_Props\<close>: the element pool, \<open>src/mp_hdmodule_m/rtpool.c\<close>, on an explicit heap of
    linked elements: refinement of all operations to lists, and conservation and progress over all interleavings of
    the threads' calls (C31, C32).
  \<^item> \<open>Watch_Cmd\<close>: the frames of \<open>src/rebootd/resetcmd.c\<close> (C33).
  \<^item> \<open>Conf_Parser\<close>, \<open>Conf_Props\<close>: configuration files, \<open>libsrc/confparser/confparser.c\<close>: the third
    interpretation of \<open>kv_bounded\<close>, for keys none of which begins or ends with another; dumping and
    loading; what loading makes of any text (C34 to C36). Where keys begin or end alike a call
    takes the line of another key.
  \<^item> \<open>Audio_Tables\<close>: the G.711 tables of \<open>libsrc/audiofmt/ulaw16.h\<close> and the arithmetic of the A-law
    coder. \<open>Audio_Fmt\<close>: the conversions of \<open>libsrc/audiofmt/audiofmt.c\<close> between addresses of one byte
    memory, with the locale \<open>ascending\<close> for the loops that read and write forwards.
    \<open>Audio_Props\<close>: the sound check of \<open>src/rtimage/deaf/deafmute.c\<close>, decoding and encoding again, and
    mono to stereo and back, in place and between buffers (C37, C38).
  \<^item> \<open>Common_Lib\<close>: routines of \<open>libsrc/common/commonlib.c\<close>: debouncing of video states against a debouncer of one
    input (C39), reads and writes of whole buffers (C40), numbers and percentages.

  \<^bold>\<open>Loops and bounds.\<close> Loops that the code bounds by a counter recurse over that counter
  (the searches of the pools over \<open>total_size\<close>, the parsers over 50 rounds); the theorems show that
  the bound is never what ends them on well-formed states. The other loops have a measure:
  freeing blocks the number of elements, the ring write the bytes left, reading lines the rest
  of the file, stripping a configuration line its length, the search of partitions the number left, the log its records, a directory walk the tree that is left. The u-law table of 65536 entries is given
  by its 255 runs of equal entries. Waiting is a value: \<open>Blocked\<close> for a semaphore, the end of the event list for a
  socket. The threads of the
  recorder have no bound: their properties are invariants of the step relation. Commands of the recorder are taken to ask
  for less than 2^30 seconds where a sum must not overflow. Array sizes (5000 elements, 8 users, blocks of 512 bytes, 50 pairs of 100 bytes) are those of
  the headers.

  \<^bold>\<open>Not modelled.\<close> Concurrency inside a call that holds its lock, memory ordering, and
  \<open>MShmPoolGetUsrName\<close>, which reads an uninitialised pointer. Copying with \<open>memcpy\<close> to an overlapping
  lower address, as the configuration parser does, is taken to be ascending. Overflow of a row into the next one is
  \<open>None\<close> rather than the neighbour's corruption. Locks of csv files that an error path forgets to
  release are findings, not states. Of the recorder the audio thread, snapshots, the index queries and the deletion of old
  files are outside, and a step of a thread is a part of its loop, not an instruction: a cancellation inside a part, and a thread that starts
  while a cancelled one still runs, are not steps. \<open>drop_ele_type\<close>, which takes the pool's mutex several times, is one step. Of the pointers passed to
  \<open>recv_dev_pkt\<close> only the device's id may be \<open>NULL\<close>. Of the main process only the alarms are modelled. The
  callbacks of a directory walk do not change the tree, and a call of \<open>remove\<close> fails only on a directory that is not empty. The processes themselves
  (sockets, disks, the vendor's video library, web pages) and third-party code are outside; the manifest lists them. Of the program's own code, what is left over
  is in the main system calls: the file index is SQL for a database library, the transparent serial channel copies bytes between descriptors, the
  device description is a structure behind a third-party parser, and the network commands set parameters of hardware.
\<close>

end
